(* ===== verification/Prelude.thy ===== *)
theory Prelude
  imports Main "HOL-Library.Word"
begin

text \<open>
  What every component theory shares: the ways the C++ code can leave a function other than by
  returning (thrown exceptions and the undefined behaviour it can run into), the value
  \<open>SIZE_MAX\<close> the code uses as "no position", the collections of facts the proofs name, and
  the list lemmas that several components need.
\<close>

named_theorems chatra_defs \<open>definitions of the model that proofs unfold\<close>
named_theorems chatra_inv \<open>preservation lemmas of the invariants\<close>

text \<open>
  Exceptions of \<open>Internal.h\<close>, \<open>Serialize.h\<close> and \<open>chatra.h\<close>; the last two constructors stand for a
  read through a null pointer and a read past the end, which the C++ code does not define.
\<close>

datatype exn =
    AbortCompiling
  | IllegalArgument
  | InternalError
  | NullPointerRead
  | OutOfRange

type_synonym 'a result = "exn + 'a"

text \<open>
  A computation that takes the context of its component and returns the new context with a value
  or an exception; \<open>None\<close> is a computation that does not return.
\<close>

type_synonym ('c, 'a) comp = "'c \<Rightarrow> ('a result \<times> 'c) option"

definition lret :: "'a \<Rightarrow> ('c, 'a) comp" where
  "lret x ct = Some (Inr x, ct)"

definition lthrow :: "exn \<Rightarrow> ('c, 'a) comp" where
  "lthrow e ct = Some (Inl e, ct)"

definition lbind :: "('c, 'a) comp \<Rightarrow> ('a \<Rightarrow> ('c, 'b) comp) \<Rightarrow> ('c, 'b) comp" where
  "lbind m f ct =
     (case m ct of
        None \<Rightarrow> None
      | Some (Inl e, ct1) \<Rightarrow> Some (Inl e, ct1)
      | Some (Inr x, ct1) \<Rightarrow> f x ct1)"

lemma lbind_simps [simp]:
  "lbind (lret x) f = f x"
  "lbind (lthrow e) f = lthrow e"
  by (simp_all add: lbind_def lret_def lthrow_def fun_eq_iff)

lemma lbind_SomeE:
  assumes "lbind m f ct = Some (r, ct2)"
  obtains e where "m ct = Some (Inl e, ct2)" "r = Inl e"
    | x ct1 where "m ct = Some (Inr x, ct1)" "f x ct1 = Some (r, ct2)"
  using assms by (auto simp: lbind_def split: option.splits prod.splits sum.splits)

lemma lbind_InrE:
  assumes "lbind m f ct = Some (Inr y, ct2)"
  obtains x ct1 where "m ct = Some (Inr x, ct1)" "f x ct1 = Some (Inr y, ct2)"
  using assms by (auto elim: lbind_SomeE)

text \<open>\<open>returns m\<close>: the computation ends, with a value or an exception, from every context.\<close>

definition returns :: "('c, 'a) comp \<Rightarrow> bool" where
  "returns m \<longleftrightarrow> (\<forall>ct. m ct \<noteq> None)"

lemma returns_simps [simp]:
  "returns (lret x)" "returns (lthrow e)"
  by (simp_all add: returns_def lret_def lthrow_def)

lemma returns_lbind: "returns m \<Longrightarrow> (\<And>x. returns (f x)) \<Longrightarrow> returns (lbind m f)"
  by (auto simp: returns_def lbind_def split: option.splits sum.splits)

lemma returns_ifI:
  "(b \<Longrightarrow> returns m) \<Longrightarrow> (\<not> b \<Longrightarrow> returns m') \<Longrightarrow> returns (if b then m else m')"
  by simp

lemma returns_optionI:
  "returns m \<Longrightarrow> (\<And>x. returns (f x)) \<Longrightarrow> returns (case z of None \<Rightarrow> m | Some x \<Rightarrow> f x)"
  by (simp split: option.split)

lemma returns_prodI: "(\<And>a b. returns (f a b)) \<Longrightarrow> returns (case z of (a, b) \<Rightarrow> f a b)"
  by (simp split: prod.split)

lemma lbind_assoc: "lbind (lbind m f) g = lbind m (\<lambda>x. lbind (f x) g)"
  by (auto simp: lbind_def fun_eq_iff split: option.splits sum.splits)

text \<open>The largest \<open>size_t\<close> of the 64-bit targets.\<close>

definition size_max :: nat where
  "size_max = 2 ^ 64 - 1"

definition size_add :: "nat \<Rightarrow> nat \<Rightarrow> nat" where
  "size_add a b = (a + b) mod 2 ^ 64"

lemma size_add_small [simp]: "a + b < 2 ^ 64 \<Longrightarrow> size_add a b = a + b"
  by (simp add: size_add_def)

lemma size_add_max [simp]: "size_add size_max 1 = 0"
  by (simp add: size_add_def size_max_def)

subsection \<open>Lists\<close>

lemma take_drop_prefix_conv:
  "i + length p \<le> length s \<Longrightarrow>
     take (length p) (drop i s) = p \<longleftrightarrow> (\<forall>k < length p. s ! (i + k) = p ! k)"
  by (auto simp: list_eq_iff_nth_eq)

lemma takeWhile_length_le [simp]: "length (takeWhile P xs) \<le> length xs"
  by (induction xs) auto

lemma length_takeWhile_drop:
  "i \<le> length s \<Longrightarrow> i + length (takeWhile P (drop i s)) \<le> length s"
  by (metis add.commute le_add_diff_inverse length_drop nat_add_left_cancel_le takeWhile_length_le)

lemma distinct_butlast_last:
  "distinct xs \<Longrightarrow> xs \<noteq> [] \<Longrightarrow> last xs \<notin> set (butlast xs)"
  by (metis append_butlast_last_id distinct.simps(2) distinct1_rotate rotate1.simps(2))

lemma set_butlast_last:
  "xs \<noteq> [] \<Longrightarrow> set xs = insert (last xs) (set (butlast xs))"
  by (metis append_butlast_last_id list.simps(15) rotate1.simps(2) set_rotate1)


lemma drop_nth_Cons: "i < length s \<Longrightarrow> drop i s = s ! i # drop (Suc i) s"
  by (rule Cons_nth_drop_Suc [symmetric])

subsection \<open>Unordered maps\<close>

text \<open>
  A \<open>std::unordered_map\<close> (or \<open>std::map\<close>) is the association list of its entries in iteration order.
  \<open>emplace\<close> keeps an entry that is already there, as the standard says; \<open>erase\<close> by key removes it.
\<close>

definition um_keys :: "('k \<times> 'v) list \<Rightarrow> 'k set" where
  "um_keys m = fst ` set m"

definition um_wf :: "('k \<times> 'v) list \<Rightarrow> bool" where
  "um_wf m \<longleftrightarrow> distinct (List.map fst m)"

definition um_has :: "'k \<Rightarrow> ('k \<times> 'v) list \<Rightarrow> bool" where
  "um_has k m \<longleftrightarrow> k \<in> set (List.map fst m)"

definition um_emplace :: "'k \<Rightarrow> 'v \<Rightarrow> ('k \<times> 'v) list \<Rightarrow> ('k \<times> 'v) list" where
  "um_emplace k v m = (if um_has k m then m else m @ [(k, v)])"

definition um_erase :: "'k \<Rightarrow> ('k \<times> 'v) list \<Rightarrow> ('k \<times> 'v) list" where
  "um_erase k m = filter (\<lambda>e. fst e \<noteq> k) m"

definition um_put :: "'k \<Rightarrow> 'v \<Rightarrow> ('k \<times> 'v) list \<Rightarrow> ('k \<times> 'v) list" where
  "um_put k v m =
     (if um_has k m then List.map (\<lambda>e. if fst e = k then (k, v) else e) m else m @ [(k, v)])"

lemma um_has_iff [simp]: "um_has k m \<longleftrightarrow> k \<in> um_keys m"
  by (auto simp: um_has_def um_keys_def)

lemma um_keys_simps [simp]:
  "um_keys [] = {}"
  "um_keys (e # m) = insert (fst e) (um_keys m)"
  "um_keys (m @ m') = um_keys m \<union> um_keys m'"
  by (auto simp: um_keys_def)

lemma um_keys_emplace [simp]: "um_keys (um_emplace k v m) = insert k (um_keys m)"
  by (auto simp: um_emplace_def)

lemma map_fst_replace [simp]:
  "List.map fst (List.map (\<lambda>e. if fst e = k then (k, v) else e) m) = List.map fst m"
  by auto

lemma um_keys_map_fst: "um_keys m = set (List.map fst m)"
  by (simp add: um_keys_def)

lemma um_keys_put [simp]: "um_keys (um_put k v m) = insert k (um_keys m)"
proof (cases "k \<in> um_keys m")
  case True
  then show ?thesis
    by (auto simp: um_put_def um_keys_map_fst simp del: List.map_map set_map)
next
  case False
  then show ?thesis by (simp add: um_put_def)
qed

lemma um_keys_erase [simp]: "um_keys (um_erase k m) = um_keys m - {k}"
  by (auto simp: um_erase_def um_keys_def)

lemma finite_um_keys [simp]: "finite (um_keys m)"
  by (simp add: um_keys_def)

lemma um_wf_Nil [simp]: "um_wf []"
  by (simp add: um_wf_def)

lemma um_wf_emplace [simp]: "um_wf m \<Longrightarrow> um_wf (um_emplace k v m)"
  by (auto simp: um_emplace_def um_wf_def um_keys_def)

lemma um_wf_erase [simp]: "um_wf m \<Longrightarrow> um_wf (um_erase k m)"
  by (simp add: um_wf_def um_erase_def distinct_map_filter)

lemma um_wf_put [simp]: "um_wf m \<Longrightarrow> um_wf (um_put k v m)"
  unfolding um_put_def um_wf_def by (auto simp: um_keys_def simp del: List.map_map)

lemma map_of_um_emplace:
  "map_of (um_emplace k v m) = (if k \<in> um_keys m then map_of m else (map_of m)(k \<mapsto> v))"
proof (cases "k \<in> um_keys m")
  case True
  then show ?thesis by (simp add: um_emplace_def)
next
  case False
  then have "map_of m k = None"
    by (simp add: um_keys_def map_of_eq_None_iff)
  with False show ?thesis
    by (auto simp: um_emplace_def map_add_def fun_eq_iff split: option.splits)
qed

lemma map_of_um_erase: "map_of (um_erase k m) = (map_of m)(k := None)"
  by (induction m) (auto simp: um_erase_def fun_eq_iff)

lemma map_of_um_put: "map_of (um_put k v m) = (map_of m)(k \<mapsto> v)"
proof (cases "k \<in> um_keys m")
  case True
  have "map_of (List.map (\<lambda>e. if fst e = k then (k, v) else e) m) k' =
      (if k' = k then Some v else map_of m k')" if "k \<in> um_keys m \<or> k' \<noteq> k" for k'
    using that by (induction m) auto
  with True show ?thesis
    by (simp add: um_put_def fun_eq_iff)
next
  case False
  then have "map_of m k = None"
    by (simp add: um_keys_def map_of_eq_None_iff)
  with False show ?thesis
    by (auto simp: um_put_def map_add_def fun_eq_iff split: option.splits)
qed

lemma map_of_um_keys: "map_of m k = Some v \<Longrightarrow> k \<in> um_keys m"
  by (metis map_of_SomeD um_keys_def fst_conv image_eqI)

lemma dom_map_of_um [simp]: "dom (map_of m) = um_keys m"
  by (simp add: um_keys_def dom_map_of_conv_image_fst)

lemma map_of_um_None: "map_of m k = None \<longleftrightarrow> k \<notin> um_keys m"
  by (simp add: um_keys_def map_of_eq_None_iff)

lemma length_um_emplace:
  "k \<notin> um_keys m \<Longrightarrow> length (um_emplace k v m) = Suc (length m)"
  by (simp add: um_emplace_def)

lemma length_um_erase:
  "um_wf m \<Longrightarrow> k \<in> um_keys m \<Longrightarrow> Suc (length (um_erase k m)) = length m"
proof (induction m)
  case (Cons e m)
  show ?case
  proof (cases "fst e = k")
    case True
    with Cons.prems have "k \<notin> um_keys m"
      by (simp add: um_wf_def um_keys_def)
    then have "um_erase k m = m"
      by (auto simp: um_erase_def um_keys_def filter_id_conv)
    with True show ?thesis by (simp add: um_erase_def)
  next
    case False
    with Cons show ?thesis by (simp add: um_erase_def um_wf_def)
  qed
qed simp

lemma card_um_keys: "um_wf m \<Longrightarrow> card (um_keys m) = length m"
  by (simp add: um_wf_def um_keys_def distinct_card [of "List.map fst m", simplified])

end
