(* ===== verification/Char_Class.thy ===== *)
theory Char_Class
  imports Prelude "HOL-Library.Char_ord"
begin

text \<open>
  The character predicates of \<open>chatra_core/CharacterClass.h\<close>, one definition per
  \<open>constexpr\<close> function. A C++ \<open>char\<close> is a HOL \<open>char\<close>, that is a byte; the code compares it
  with ASCII constants only, so the signedness of \<open>char\<close> does not matter.
\<close>

definition isSpace :: "char \<Rightarrow> bool" where
  "isSpace c \<longleftrightarrow> c = CHR '' '' \<or> c = CHR 0x09"

definition isNotSpace :: "char \<Rightarrow> bool" where
  "isNotSpace c \<longleftrightarrow> \<not> isSpace c"

definition isBeginningOfNumber :: "char \<Rightarrow> bool" where
  "isBeginningOfNumber c \<longleftrightarrow> CHR ''0'' \<le> c \<and> c \<le> CHR ''9''"

definition isPartOfNumber :: "char \<Rightarrow> bool" where
  "isPartOfNumber c \<longleftrightarrow>
     (CHR ''0'' \<le> c \<and> c \<le> CHR ''9'') \<or> (CHR ''a'' \<le> c \<and> c \<le> CHR ''f'') \<or>
     (CHR ''A'' \<le> c \<and> c \<le> CHR ''F'') \<or> c = CHR ''x'' \<or> c = CHR ''_'' \<or>
     c = CHR ''.'' \<or> c = CHR ''+'' \<or> c = CHR ''-''"

definition isBeginningOfOperator :: "char \<Rightarrow> bool" where
  "isBeginningOfOperator c \<longleftrightarrow>
     c = CHR ''!'' \<or> c = CHR ''%'' \<or> c = CHR 0x5E \<or> c = CHR ''&'' \<or> c = CHR ''*'' \<or> c = CHR ''-'' \<or>
     c = CHR ''+'' \<or> c = CHR ''='' \<or> c = CHR ''|'' \<or> c = CHR ''~'' \<or> c = CHR '':'' \<or> c = CHR '';'' \<or>
     c = CHR '','' \<or> c = CHR ''.'' \<or> c = CHR ''<'' \<or> c = CHR ''>'' \<or> c = CHR ''?'' \<or> c = CHR ''/''"

definition isPartOfOperator :: "char \<Rightarrow> bool" where
  "isPartOfOperator c \<longleftrightarrow>
     c = CHR ''!'' \<or> c = CHR ''%'' \<or> c = CHR 0x5E \<or> c = CHR ''&'' \<or> c = CHR ''*'' \<or> c = CHR ''-'' \<or>
     c = CHR ''+'' \<or> c = CHR ''='' \<or> c = CHR ''|'' \<or> c = CHR ''~'' \<or> c = CHR ''.'' \<or> c = CHR ''<'' \<or>
     c = CHR ''>'' \<or> c = CHR ''?'' \<or> c = CHR ''/''"

definition isSpecialCharacters :: "char \<Rightarrow> bool" where
  "isSpecialCharacters c \<longleftrightarrow>
     isBeginningOfOperator c \<or> c = CHR ''@'' \<or> c = CHR ''#'' \<or> c = CHR ''$'' \<or> c = CHR 0x5C \<or>
     c = CHR 0x60 \<or> c = CHR 0x27 \<or> c = CHR 0x22 \<or> c = CHR ''('' \<or> c = CHR '')'' \<or> c = CHR ''['' \<or>
     c = CHR '']'' \<or> c = CHR ''{'' \<or> c = CHR ''}''"

definition isBeginningOfName :: "char \<Rightarrow> bool" where
  "isBeginningOfName c \<longleftrightarrow> \<not> isSpace c \<and> \<not> isBeginningOfNumber c \<and> \<not> isSpecialCharacters c"

definition isPartOfName :: "char \<Rightarrow> bool" where
  "isPartOfName c \<longleftrightarrow> \<not> isSpace c \<and> \<not> isSpecialCharacters c"

lemmas char_class_defs [chatra_defs] =
  isSpace_def isNotSpace_def isBeginningOfNumber_def isPartOfNumber_def isBeginningOfOperator_def
  isPartOfOperator_def isSpecialCharacters_def isBeginningOfName_def isPartOfName_def

text \<open>
  The first characters partition the bytes: whatever is neither white space, the start of a
  number, of a name, of an operator, nor a bracket, quotation mark or annotation sign is one of
  the four characters the lexical analyzer rejects.
\<close>

lemma beginning_classes_disjoint:
  "isBeginningOfNumber c \<Longrightarrow> \<not> isBeginningOfName c"
  "isBeginningOfNumber c \<Longrightarrow> \<not> isSpecialCharacters c"
  "isBeginningOfName c \<Longrightarrow> \<not> isBeginningOfOperator c"
  "isSpace c \<Longrightarrow> \<not> isBeginningOfNumber c"
  "isSpace c \<Longrightarrow> \<not> isSpecialCharacters c"
  by (auto simp: char_class_defs less_eq_char_def)

lemma beginning_is_part:
  "isBeginningOfNumber c \<Longrightarrow> isPartOfNumber c"
  "isBeginningOfName c \<Longrightarrow> isPartOfName c"
  by (auto simp: char_class_defs)

lemma isPartOfOperator_beginning: "isPartOfOperator c \<Longrightarrow> isBeginningOfOperator c"
  by (auto simp: char_class_defs)

end
