(* ===== verification/Text.thy ===== *)
theory Text
  imports Char_Class
begin

unbundle bit_operations_syntax

text \<open>
  The text helpers at the end of \<open>chatra_core/Internal.h\<close>: prefix and suffix tests and the two
  UTF-8 primitives. A \<open>std::string\<close> is a list of bytes and an index a \<open>nat\<close>; a range given by
  two iterators is the list of the characters between them.
\<close>

definition startsWith :: "string \<Rightarrow> nat \<Rightarrow> string \<Rightarrow> bool" where
  "startsWith str index prefix \<longleftrightarrow>
     (let prefixLength = length prefix
      in index + prefixLength \<le> length str \<and> take prefixLength (drop index str) = prefix)"

definition startsWithRange :: "string \<Rightarrow> string \<Rightarrow> bool" where
  "startsWithRange rng prefix \<longleftrightarrow>
     length prefix \<le> length rng \<and> take (length prefix) rng = prefix"

definition endsWith :: "string \<Rightarrow> string \<Rightarrow> bool" where
  "endsWith rng suffix \<longleftrightarrow>
     (let suffixLength = length suffix
      in suffixLength \<le> length rng \<and> drop (length rng - suffixLength) rng = suffix)"

text \<open>
  \<open>str[index]\<close> of a constant \<open>std::string\<close>: at \<open>str.size()\<close> it is the terminating zero.
\<close>

definition char_at :: "string \<Rightarrow> nat \<Rightarrow> char" where
  "char_at str index = (if index < length str then str ! index else CHR 0x00)"

definition byte_of :: "char \<Rightarrow> 8 word" where
  "byte_of c = word_of_nat (of_char c)"

text \<open>The length a lead byte announces (the chain of masks in \<open>byteCount\<close>).\<close>

definition lead_length :: "8 word \<Rightarrow> nat" where
  "lead_length c =
     (if c AND 0x80 = 0 then 1 else if c AND 0xE0 = 0xC0 then 2
      else if c AND 0xF0 = 0xE0 then 3 else if c AND 0xF8 = 0xF0 then 4 else 0)"

definition is_continuation :: "8 word \<Rightarrow> bool" where
  "is_continuation c \<longleftrightarrow> c AND 0xC0 = 0x80"

definition byteCount :: "string \<Rightarrow> nat \<Rightarrow> nat" where
  "byteCount str index =
     (let l = lead_length (byte_of (char_at str index))
      in if length str < index + l then 0
         else if \<exists>i\<in>set [1..<l]. \<not> is_continuation (byte_of (char_at str (index + i))) then 0
         else l)"

text \<open>
  \<open>extractChar(c, dest)\<close>: the bytes written to \<open>dest\<close>; the return value is their number. The
  arithmetic is done on 32-bit values, and \<open>static_cast<char>\<close> keeps the low byte.
\<close>

definition to_char :: "32 word \<Rightarrow> char" where
  "to_char w = char_of (unat (take_bit 8 w))"

definition extractChar :: "32 word \<Rightarrow> string" where
  "extractChar c =
     (if c < 0x80 then [to_char c]
      else if c < 0x800 then [to_char (drop_bit 6 c OR 0xC0), to_char ((c AND 0x3F) OR 0x80)]
      else if c < 0x10000 then
        [to_char (drop_bit 12 c OR 0xE0), to_char ((drop_bit 6 c AND 0x3F) OR 0x80),
         to_char ((c AND 0x3F) OR 0x80)]
      else if c < 0x110000 then
        [to_char (drop_bit 18 c OR 0xE0), to_char ((drop_bit 12 c AND 0x3F) OR 0x80),
         to_char ((drop_bit 6 c AND 0x3F) OR 0x80), to_char ((c AND 0x3F) OR 0x80)]
      else [])"

subsection \<open>Prefixes and suffixes\<close>

lemma startsWith_nth:
  "startsWith s i p \<longleftrightarrow> i + length p \<le> length s \<and> (\<forall>k < length p. s ! (i + k) = p ! k)"
  by (auto simp: startsWith_def Let_def take_drop_prefix_conv)

lemma startsWith_range: "i \<le> length s \<Longrightarrow> startsWith s i p \<longleftrightarrow> startsWithRange (drop i s) p"
  by (auto simp: startsWith_def startsWithRange_def Let_def)

lemma startsWithRange_append [simp]: "startsWithRange (p @ s) p"
  by (simp add: startsWithRange_def)

lemma startsWithRange_conv: "startsWithRange s p \<longleftrightarrow> (\<exists>t. s = p @ t)"
  by (auto simp: startsWithRange_def) (metis append_take_drop_id)

lemma endsWith_conv: "endsWith s p \<longleftrightarrow> (\<exists>t. s = t @ p)"
  by (auto simp: endsWith_def Let_def) (metis append_take_drop_id)

subsection \<open>UTF-8\<close>

lemma lead_length_le: "lead_length c \<le> 4"
  by (simp add: lead_length_def)

lemma byteCount_le: "byteCount s i \<le> 4"
  by (simp add: byteCount_def Let_def lead_length_le)

lemma byteCount_in_range: "i \<le> length s \<Longrightarrow> i + byteCount s i \<le> length s"
  by (simp add: byteCount_def Let_def)


lemma small_bit:
  assumes "(c::32 word) < 2 ^ n" and "n \<le> k"
  shows "\<not> bit c k"
proof -
  have "take_bit n c = c"
    using assms(1) less_mask_eq by (metis take_bit_eq_mask)
  then show ?thesis
    using assms(2) by (metis bit_take_bit_iff linorder_not_less)
qed

lemma byte_eqI:
  fixes a b :: "8 word"
  assumes "bit a 0 = bit b 0" "bit a 1 = bit b 1" "bit a 2 = bit b 2" "bit a 3 = bit b 3"
    "bit a 4 = bit b 4" "bit a 5 = bit b 5" "bit a 6 = bit b 6" "bit a 7 = bit b 7"
  shows "a = b"
proof (rule bit_word_eqI)
  fix n assume "n < LENGTH(8)"
  then have "n = 0 \<or> n = 1 \<or> n = 2 \<or> n = 3 \<or> n = 4 \<or> n = 5 \<or> n = 6 \<or> n = 7" by simp arith
  then show "bit a n = bit b n" using assms by fastforce
qed

lemma byte_of_to_char [simp]: "byte_of (to_char w) = ucast w"
proof -
  have "unat (take_bit 8 w) < 256"
    by (simp add: unsigned_take_bit_eq take_bit_nat_def)
  then have "byte_of (to_char w) = ucast (take_bit 8 w)"
    by (simp add: byte_of_def to_char_def)

  also have "\<dots> = ucast w"
    by (rule bit_word_eqI) (simp add: bit_simps)
  finally show ?thesis .
qed

text \<open>The bytes \<open>extractChar\<close> builds, read back by the masks of \<open>byteCount\<close>.\<close>

lemma lead_length_1: "(c::32 word) < 0x80 \<Longrightarrow> lead_length (ucast c) = 1"
proof -
  assume "c < 0x80"
  then have "(ucast c :: 8 word) AND 0x80 = 0"
    using small_bit [of c 7 7] by (intro byte_eqI) (simp_all add: bit_simps)
  then show ?thesis by (simp add: lead_length_def)
qed

lemma lead_length_2:
  assumes "(c::32 word) < 0x800"
  shows "lead_length (ucast (drop_bit 6 c OR 0xC0)) = 2"
proof -
  let ?b = "ucast (drop_bit 6 c OR 0xC0) :: 8 word"
  have "?b AND 0xE0 = 0xC0"
    using small_bit [of c 11] assms by (intro byte_eqI) (simp_all add: bit_simps)
  moreover have "bit (?b AND 0x80) 7"
    by (simp add: bit_simps)
  then have "?b AND 0x80 \<noteq> 0"
    by (metis bit_0_eq bot_apply bot_bool_def)
  ultimately show ?thesis by (simp add: lead_length_def)
qed

lemma lead_length_3:
  assumes "(c::32 word) < 0x10000"
  shows "lead_length (ucast (drop_bit 12 c OR 0xE0)) = 3"
proof -
  let ?b = "ucast (drop_bit 12 c OR 0xE0) :: 8 word"
  have "?b AND 0xF0 = 0xE0"
    using small_bit [of c 16] assms by (intro byte_eqI) (simp_all add: bit_simps)
  moreover have "bit (?b AND 0x80) 7" and "bit (?b AND 0xE0) 5"
    by (simp_all add: bit_simps)
  then have "?b AND 0x80 \<noteq> 0" and "?b AND 0xE0 \<noteq> 0xC0"
    by (metis bit_0_eq bot_apply bot_bool_def, force simp: bit_simps)
  ultimately show ?thesis by (simp add: lead_length_def)
qed

text \<open>The lead byte of the last branch of \<open>extractChar\<close> is that of a three-byte sequence.\<close>

lemma lead_length_supplementary:
  assumes "(c::32 word) < 0x200000"
  shows "lead_length (ucast (drop_bit 18 c OR 0xE0)) = 3"
proof -
  let ?b = "ucast (drop_bit 18 c OR 0xE0) :: 8 word"
  have "?b AND 0xF0 = 0xE0"
    using small_bit [of c 21] assms by (intro byte_eqI) (simp_all add: bit_simps)
  moreover have "bit (?b AND 0x80) 7" and "bit (?b AND 0xE0) 5"
    by (simp_all add: bit_simps)
  then have "?b AND 0x80 \<noteq> 0" and "?b AND 0xE0 \<noteq> 0xC0"
    by (metis bit_0_eq bot_apply bot_bool_def, force simp: bit_simps)
  ultimately show ?thesis by (simp add: lead_length_def)
qed

lemma continuation_byte: "is_continuation (ucast ((w AND 0x3F) OR 0x80 :: 32 word))"
  unfolding is_continuation_def by (intro byte_eqI) (simp_all add: bit_simps)

lemma byteCount_lead:
  assumes "lead_length (byte_of b) = Suc (length bs)"
    and "list_all (\<lambda>b. is_continuation (byte_of b)) bs"
  shows "byteCount (pre @ b # bs @ post) (length pre) = Suc (length bs)"
proof -
  have "is_continuation (byte_of (char_at (pre @ b # bs @ post) (length pre + i)))"
    if "i \<in> set [1..<Suc (length bs)]" for i
  proof -
    from that have "i \<in> {1..<Suc (length bs)}"
      by (simp only: set_upt)
    then obtain k where k: "i = Suc k" "k < length bs"
      by (cases i) auto
    then have "char_at (pre @ b # bs @ post) (length pre + i) = bs ! k"
      by (simp add: char_at_def nth_append)
    with k(2) assms(2) show ?thesis
      by (simp add: list_all_length)
  qed
  moreover have "char_at (pre @ b # bs @ post) (length pre) = b"
    by (simp add: char_at_def)
  ultimately show ?thesis
    using assms(1) by (simp add: byteCount_def)
qed

lemma range_chain:
  fixes c :: "32 word"
  shows "c < 0x80 \<Longrightarrow> c < 0x800" and "c < 0x800 \<Longrightarrow> c < 0x10000"
    and "c < 0x10000 \<Longrightarrow> c < 0x110000" and "c < 0x110000 \<Longrightarrow> c < 0x200000"
  by (simp_all add: word_less_nat_alt)

lemma byteCount_extractChar:
  assumes "c < 0x10000"
  shows "byteCount (pre @ extractChar c @ post) (length pre) = length (extractChar c)"
proof -
  consider "c < 0x80" | "\<not> c < 0x80" "c < 0x800" | "\<not> c < 0x800" "c < 0x10000"
    using assms by fastforce
  then show ?thesis
  proof cases
    case 1
    then show ?thesis
      using byteCount_lead [of "to_char c" "[]" pre post] lead_length_1
      by (simp add: extractChar_def)
  next
    case 2
    then show ?thesis
      using byteCount_lead [of "to_char (drop_bit 6 c OR 0xC0)" "[to_char ((c AND 0x3F) OR 0x80)]"
          pre post] lead_length_2 [of c] continuation_byte
      by (simp add: extractChar_def)
  next
    case 3
    then have "\<not> c < 0x80"
      using range_chain by blast
    with 3 show ?thesis
      using byteCount_lead [of "to_char (drop_bit 12 c OR 0xE0)"
          "[to_char ((drop_bit 6 c AND 0x3F) OR 0x80), to_char ((c AND 0x3F) OR 0x80)]"
          pre post] lead_length_3 [of c] continuation_byte
      by (auto simp add: extractChar_def)
  qed
qed

text \<open>
  Outside the basic plane the four bytes written are read back as a sequence of three: the fourth
  byte is left over.
\<close>

lemma byteCount_extractChar_supplementary:
  assumes "\<not> c < 0x10000" "c < 0x110000"
  shows "length (extractChar c) = 4" "byteCount (pre @ extractChar c @ post) (length pre) = 3"
proof -
  have c: "\<not> c < 0x80" "\<not> c < 0x800" "c < 0x200000"
    using assms range_chain by blast+
  let ?last = "to_char ((c AND 0x3F) OR 0x80)"
  have "extractChar c = to_char (drop_bit 18 c OR 0xE0) #
      [to_char ((drop_bit 12 c AND 0x3F) OR 0x80), to_char ((drop_bit 6 c AND 0x3F) OR 0x80)] @ [?last]"
    using c assms by (simp add: extractChar_def)
  moreover from this show "length (extractChar c) = 4" by simp
  ultimately show "byteCount (pre @ extractChar c @ post) (length pre) = 3"
    using byteCount_lead [of "to_char (drop_bit 18 c OR 0xE0)"
        "[to_char ((drop_bit 12 c AND 0x3F) OR 0x80), to_char ((drop_bit 6 c AND 0x3F) OR 0x80)]"
        pre "?last # post"] lead_length_supplementary [OF c(3)] continuation_byte
    by simp
qed

lemma extractChar_empty: "extractChar c = [] \<longleftrightarrow> \<not> c < 0x110000"
  using range_chain [of c] by (auto simp: extractChar_def)

end
