(* ===== verification/Utf8.thy ===== *)
theory Utf8
  imports Text
begin

text \<open>
  Well-formed byte strings in the sense of \<open>byteCount\<close>: the source can be walked from the beginning
  to the end without meeting a byte where \<open>byteCount\<close> is 0. The lemmas say where such a string can
  be cut: next to every ASCII character.
\<close>

function utf8 :: "string \<Rightarrow> bool" where
  "utf8 s =
     (if s = [] then True
      else if byteCount s 0 = 0 then False
      else utf8 (drop (byteCount s 0) s))"
  by pat_completeness auto
termination
  by (relation "measure length") auto

declare utf8.simps [simp del]

lemma utf8_Nil [simp]: "utf8 []"
  by (simp add: utf8.simps)

lemma utf8_unfold:
  "s \<noteq> [] \<Longrightarrow> utf8 s \<longleftrightarrow> byteCount s 0 \<noteq> 0 \<and> utf8 (drop (byteCount s 0) s)"
  by (simp add: utf8.simps [of s])

definition ascii :: "char \<Rightarrow> bool" where
  "ascii c \<longleftrightarrow> byte_of c AND 0x80 = 0"

lemma char_at_drop: "i \<le> length s \<Longrightarrow> char_at (drop i s) j = char_at s (i + j)"
  by (auto simp: char_at_def)

lemma byteCountI:
  assumes "lead_length (byte_of (s ! i)) = n" "i + n \<le> length s" "i < length s"
    "\<And>k. 0 < k \<Longrightarrow> k < n \<Longrightarrow> is_continuation (byte_of (s ! (i + k)))"
  shows "byteCount s i = n"
  using assms by (auto simp: byteCount_def Let_def char_at_def)

lemma byteCount_posD:
  assumes "byteCount s i \<noteq> 0"
  shows "i + byteCount s i \<le> length s" "i < length s"
    "0 < k \<Longrightarrow> k < byteCount s i \<Longrightarrow> is_continuation (byte_of (s ! (i + k)))"
    "lead_length (byte_of (s ! i)) = byteCount s i"
proof -
  let ?l = "lead_length (byte_of (char_at s i))"
  have fit: "i + ?l \<le> length s" and eq: "byteCount s i = ?l"
    and cont: "\<forall>k \<in> set [1..<?l]. is_continuation (byte_of (char_at s (i + k)))"
    using assms by (auto simp only: byteCount_def Let_def split: if_splits)
  from fit eq show l: "i + byteCount s i \<le> length s" by simp
  with assms show i: "i < length s" by simp
  then show "lead_length (byte_of (s ! i)) = byteCount s i"
    using eq by (simp add: char_at_def)
  assume k: "0 < k" "k < byteCount s i"
  then have "k \<in> set [1..<?l]"
    using eq by simp
  with cont have "is_continuation (byte_of (char_at s (i + k)))" by blast
  then show "is_continuation (byte_of (s ! (i + k)))"
    using k l by (simp add: char_at_def)
qed

lemma byteCount_drop:
  assumes "i \<le> length s"
  shows "byteCount (drop i s) j = byteCount s (i + j)"
proof -
  have "length (drop i s) < j + l \<longleftrightarrow> length s < i + j + l" for l
    using assms by auto
  then show ?thesis
    using assms by (simp only: byteCount_def Let_def char_at_drop add.assoc)
qed

lemma ascii_bit: "ascii c \<longleftrightarrow> \<not> bit (byte_of c) 7"
proof
  assume "ascii c"
  then have "\<not> bit (byte_of c AND 0x80) 7"
    by (simp add: ascii_def)
  then show "\<not> bit (byte_of c) 7"
    by (simp add: bit_simps)
next
  assume "\<not> bit (byte_of c) 7"
  then show "ascii c"
    unfolding ascii_def by (intro byte_eqI) (simp_all add: bit_simps)
qed

lemma ascii_not_continuation: "ascii c \<Longrightarrow> \<not> is_continuation (byte_of c)"
proof
  assume "ascii c" "is_continuation (byte_of c)"
  then have "\<not> bit (byte_of c) 7" "bit (byte_of c AND 0xC0) 7"
    by (simp_all add: ascii_bit is_continuation_def)
  then show False by (simp add: bit_simps)
qed

lemma byteCount_ascii: "i < length s \<Longrightarrow> ascii (s ! i) \<Longrightarrow> byteCount s i = 1"
  by (simp add: byteCount_def Let_def char_at_def lead_length_def ascii_def)

lemma byteCount_append:
  assumes "byteCount a i \<noteq> 0"
  shows "byteCount (a @ b) i = byteCount a i"
proof (rule byteCountI)
  note d = byteCount_posD [OF assms]
  show "i < length (a @ b)" "i + byteCount a i \<le> length (a @ b)"
    using d(1,2) by simp_all
  show "lead_length (byte_of ((a @ b) ! i)) = byteCount a i"
    using d(2,4) by (simp add: nth_append)
  show "is_continuation (byte_of ((a @ b) ! (i + k)))" if "0 < k" "k < byteCount a i" for k
    using d(1) d(3) [OF that] that by (simp add: nth_append)
qed

lemma utf8_append:
  "utf8 a \<Longrightarrow> utf8 b \<Longrightarrow> utf8 (a @ b)"
proof (induction a rule: utf8.induct)
  case (1 a)
  show ?case
  proof (cases "a = []")
    case False
    with 1 have pos: "byteCount a 0 \<noteq> 0" and rest: "utf8 (drop (byteCount a 0) a @ b)"
      by (auto simp: utf8_unfold)
    have "byteCount (a @ b) 0 = byteCount a 0"
      using pos by (rule byteCount_append)
    with pos rest byteCount_posD(1) [OF pos] show ?thesis
      by (subst utf8.simps) simp
  qed (use 1 in simp)
qed

lemma utf8_ascii_Cons:
  assumes "ascii c"
  shows "utf8 (c # s) \<longleftrightarrow> utf8 s"
  using byteCount_ascii [of 0 "c # s"] assms by (subst utf8.simps) simp

lemma utf8_sequence:
  assumes "byteCount s i \<noteq> 0"
  shows "utf8 (take (byteCount s i) (drop i s))"
proof -
  let ?n = "byteCount s i" and ?t = "take (byteCount s i) (drop i s)"
  note d = byteCount_posD [OF assms]
  have len: "length ?t = ?n"
    using d(1) by simp
  have nth: "?t ! k = s ! (i + k)" if "k < ?n" for k
    using that d(1,2) by simp
  have "byteCount ?t 0 = ?n"
  proof (rule byteCountI)
    show "lead_length (byte_of (?t ! 0)) = ?n"
      using d(4) nth [of 0] assms by simp
    show "is_continuation (byte_of (?t ! (0 + k)))" if "0 < k" "k < ?n" for k
      using d(3) [OF that] nth [OF that(2)] by simp
  qed (use assms len in simp_all)
  with assms len show ?thesis
    by (subst utf8.simps) auto
qed

text \<open>A string can be cut before an ASCII character, after one, and at its end.\<close>

lemma utf8_cut_before:
  "utf8 s \<Longrightarrow> j < length s \<Longrightarrow> ascii (s ! j) \<Longrightarrow> utf8 (take j s) \<and> utf8 (drop j s)"
proof (induction s arbitrary: j rule: utf8.induct)
  case (1 s)
  let ?n = "byteCount s 0"
  from 1(2,3) have pos: "?n \<noteq> 0" and rest: "utf8 (drop ?n s)"
    using utf8_unfold [of s] by fastforce+
  note d = byteCount_posD [OF pos, simplified]
  show ?case
  proof (cases "j < ?n")
    case True
    then have "j = 0"
      using 1(4) d(3) [of j] ascii_not_continuation by auto
    with 1(2) show ?thesis by simp
  next
    case False
    then have "utf8 (take (j - ?n) (drop ?n s)) \<and> utf8 (drop (j - ?n) (drop ?n s))"
      using 1 pos rest by (intro 1(1)) auto
    moreover have "take j s = take ?n s @ take (j - ?n) (drop ?n s)"
      using False by (metis le_add_diff_inverse linorder_not_less take_add)
    moreover have "utf8 (take ?n s)"
      using utf8_sequence [OF pos] by simp
    ultimately show ?thesis
      using False by (simp add: utf8_append)
  qed
qed

lemma utf8_cut_after:
  assumes "utf8 s" "j < length s" "ascii (s ! j)"
  shows "utf8 (take (Suc j) s)" "utf8 (drop (Suc j) s)"
proof -
  from utf8_cut_before [OF assms] have cut: "utf8 (take j s)" "utf8 (drop j s)" by simp_all
  then show "utf8 (drop (Suc j) s)"
    using assms(2,3) by (simp add: utf8_ascii_Cons flip: Cons_nth_drop_Suc)
  have "utf8 (take j s @ [s ! j])"
    using cut(1) assms(3) by (intro utf8_append) (simp_all add: utf8_ascii_Cons)
  then show "utf8 (take (Suc j) s)"
    using assms(2) by (simp add: take_Suc_conv_app_nth)
qed

lemma utf8_step:
  "utf8 (drop i s) \<Longrightarrow> i < length s \<Longrightarrow>
     byteCount s i \<noteq> 0 \<and> i + byteCount s i \<le> length s \<and> utf8 (drop (i + byteCount s i) s)"
  using byteCount_posD(1) [of s i]
  by (auto simp: utf8_unfold byteCount_drop add.commute)

lemma ascii_small:
  assumes "(of_char c :: nat) < 128"
  shows "ascii c"
proof -
  have "unat (byte_of c) = of_char c"
    using assms by (simp add: byte_of_def unsigned_of_nat take_bit_nat_def)
  then have "\<not> bit (unat (byte_of c)) 7"
    using assms by (simp add: bit_iff_odd)
  then show ?thesis
    by (simp add: ascii_bit bit_unsigned_iff)
qed

lemma class_ascii:
  "isSpace c \<Longrightarrow> ascii c"
  "isSpecialCharacters c \<Longrightarrow> ascii c"
  "isPartOfNumber c \<Longrightarrow> ascii c"
  by (rule ascii_small; auto simp: char_class_defs less_eq_char_def)+

lemma not_name_ascii: "\<not> isPartOfName c \<Longrightarrow> ascii c"
  by (auto simp: isPartOfName_def intro: class_ascii)

end
