(* ===== verification/Id_Pool.thy ===== *)
theory Id_Pool
  imports Prelude
begin

text \<open>
  \<open>IdPool<KeyType, ValueType>\<close> of \<open>chatra_core/Internal.h\<close>: the ids of threads, packages,
  instances and so on. Released ids are kept in a stack and handed out again first. The contract
  it shares with \<open>Timer\<close> and with the object table of \<open>Storage\<close> is the locale \<open>id_supply\<close>.
\<close>

subsection \<open>The contract of an id supply\<close>

datatype id_op = Take | Give nat

text \<open>
  A client's run: a list of requests, where a release names an id that is live at that moment.
  \<open>run_ids\<close> is \<open>None\<close> when the client breaks that rule; \<open>peak_ids\<close> is the largest number of ids
  that are live together on the way.
\<close>

fun run_ids :: "('s \<Rightarrow> nat set) \<Rightarrow> ('s \<Rightarrow> nat \<times> 's) \<Rightarrow> (nat \<Rightarrow> 's \<Rightarrow> 's) \<Rightarrow> 's \<Rightarrow> id_op list \<Rightarrow> 's option" where
  "run_ids lv tk gv s [] = Some s"
| "run_ids lv tk gv s (Take # os) = run_ids lv tk gv (snd (tk s)) os"
| "run_ids lv tk gv s (Give i # os) = (if i \<in> lv s then run_ids lv tk gv (gv i s) os else None)"

fun peak_ids :: "('s \<Rightarrow> nat set) \<Rightarrow> ('s \<Rightarrow> nat \<times> 's) \<Rightarrow> (nat \<Rightarrow> 's \<Rightarrow> 's) \<Rightarrow> 's \<Rightarrow> id_op list \<Rightarrow> nat" where
  "peak_ids lv tk gv s [] = card (lv s)"
| "peak_ids lv tk gv s (Take # os) = max (card (lv s)) (peak_ids lv tk gv (snd (tk s)) os)"
| "peak_ids lv tk gv s (Give i # os) = max (card (lv s)) (peak_ids lv tk gv (gv i s) os)"

lemma card_live_peak: "card (lv s) \<le> peak_ids lv tk gv s os"
  by (cases "(lv, tk, gv, s, os)" rule: peak_ids.cases) auto

locale id_supply =
  fixes inv :: "'s \<Rightarrow> bool"
    and live :: "'s \<Rightarrow> nat set"
    and used :: "'s \<Rightarrow> nat"
    and take_id :: "'s \<Rightarrow> nat \<times> 's"
    and give_id :: "nat \<Rightarrow> 's \<Rightarrow> 's"
  assumes live_used: "inv s \<Longrightarrow> live s \<subseteq> {..<used s}"
    and take_inv: "inv s \<Longrightarrow> inv (snd (take_id s))"
    and take_fresh: "inv s \<Longrightarrow> fst (take_id s) \<notin> live s"
    and take_live: "inv s \<Longrightarrow> live (snd (take_id s)) = insert (fst (take_id s)) (live s)"
    and take_used: "inv s \<Longrightarrow> used (snd (take_id s)) =
          (if live s = {..<used s} then Suc (used s) else used s)"
    and give_inv: "inv s \<Longrightarrow> i \<in> live s \<Longrightarrow> inv (give_id i s)"
    and give_live: "inv s \<Longrightarrow> i \<in> live s \<Longrightarrow> live (give_id i s) = live s - {i}"
    and give_used: "inv s \<Longrightarrow> i \<in> live s \<Longrightarrow> used (give_id i s) = used s"
begin

lemma finite_live: "inv s \<Longrightarrow> finite (live s)"
  by (metis finite_lessThan finite_subset live_used)

lemma card_live_used: "inv s \<Longrightarrow> card (live s) \<le> used s"
  using live_used by (metis card_lessThan card_mono finite_lessThan)

lemma live_full_iff:
  assumes "inv s"
  shows "live s = {..<used s} \<longleftrightarrow> card (live s) = used s"
proof
  assume "card (live s) = used s"
  then show "live s = {..<used s}"
    by (intro card_subset_eq live_used assms) simp_all
qed (metis card_lessThan)

lemma take_card: "inv s \<Longrightarrow> card (live (snd (take_id s))) = Suc (card (live s))"
  by (simp add: take_live take_fresh finite_live)

lemma take_bound: "inv s \<Longrightarrow> fst (take_id s) < used (snd (take_id s))"
  using live_used [OF take_inv] take_live by blast

lemma run_inv: "inv s \<Longrightarrow> run_ids live take_id give_id s os = Some s' \<Longrightarrow> inv s'"
proof (induction os arbitrary: s)
  case (Cons oper os)
  show ?case
  proof (cases oper)
    case Take
    then show ?thesis
      using Cons.IH [OF take_inv [OF Cons.prems(1)]] Cons.prems(2) by simp
  next
    case (Give i)
    then show ?thesis
      using Cons.IH [OF give_inv [OF Cons.prems(1), of i]] Cons.prems(2) by (simp split: if_splits)
  qed
qed simp

text \<open>Ids stay compact: no id beyond the largest number of ids that were live together.\<close>

lemma run_compact:
  "inv s \<Longrightarrow> run_ids live take_id give_id s os = Some s' \<Longrightarrow>
     used s' \<le> max (used s) (peak_ids live take_id give_id s os)"
proof (induction os arbitrary: s)
  case (Cons oper os)
  show ?case
  proof (cases oper)
    case Take
    let ?t = "snd (take_id s)" and ?p = "peak_ids live take_id give_id (snd (take_id s)) os"
    have "used s' \<le> max (used ?t) ?p"
      using Cons Take by (simp add: take_inv)
    moreover have "used ?t \<le> max (used s) ?p"
    proof (cases "live s = {..<used s}")
      case True
      then have "used ?t = card (live ?t)"
        using Cons.prems(1) by (simp add: take_used take_card)
      then show ?thesis
        using card_live_peak [of live ?t take_id give_id os] by simp
    next
      case False
      then show ?thesis using Cons.prems(1) by (simp add: take_used)
    qed
    ultimately show ?thesis using Take by simp
  next
    case (Give i)
    with Cons.prems have i: "i \<in> live s"
      and "run_ids live take_id give_id (give_id i s) os = Some s'"
      by (simp_all split: if_splits)
    with Cons.IH [of "give_id i s"] Cons.prems(1) show ?thesis
      using Give by (auto simp: give_inv give_used)
  qed
qed simp

end

subsection \<open>The pool\<close>

record 'v id_pool =
  pool_values :: "(nat \<times> 'v) list"
  pool_recycled :: "nat list"

definition empty_pool :: "'v id_pool" where
  "empty_pool = \<lparr>pool_values = [], pool_recycled = []\<rparr>"

definition allocateId :: "'v \<Rightarrow> 'v id_pool \<Rightarrow> nat \<times> 'v id_pool" where
  "allocateId value p =
     (if pool_recycled p = [] then
        (let i = length (pool_values p)
         in (i, p\<lparr>pool_values := um_emplace i value (pool_values p)\<rparr>))
      else
        (let i = last (pool_recycled p)
         in (i, p\<lparr>pool_values := um_emplace i value (pool_values p),
                 pool_recycled := butlast (pool_recycled p)\<rparr>)))"

text \<open>The \<open>while\<close> loop of \<open>setId\<close>: every id skipped on the way to \<open>id\<close> becomes a free one.\<close>

function fill_recycled :: "nat \<Rightarrow> nat \<Rightarrow> nat list \<Rightarrow> nat list" where
  "fill_recycled n i recycled =
     (if n + length recycled < i then fill_recycled n i (recycled @ [n + length recycled])
      else recycled)"
  by pat_completeness auto
termination
  by (relation "measure (\<lambda>(n, i, r). i - (n + length r))") auto

declare fill_recycled.simps [simp del]

definition setId :: "nat \<Rightarrow> 'v \<Rightarrow> 'v id_pool \<Rightarrow> ('v id_pool) result" where
  "setId i value p =
     (if um_has i (pool_values p) then Inl InternalError
      else
        let recycled =
              (if i \<in> set (pool_recycled p) then remove1 i (pool_recycled p)
               else fill_recycled (length (pool_values p)) i (pool_recycled p))
        in Inr (p\<lparr>pool_values := um_emplace i value (pool_values p), pool_recycled := recycled\<rparr>))"

definition pool_remove :: "nat \<Rightarrow> 'v id_pool \<Rightarrow> 'v id_pool" where
  "pool_remove i p =
     p\<lparr>pool_values := um_erase i (pool_values p), pool_recycled := pool_recycled p @ [i]\<rparr>"

definition pool_has :: "nat \<Rightarrow> 'v id_pool \<Rightarrow> bool" where
  "pool_has i p \<longleftrightarrow> um_has i (pool_values p)"

definition pool_ref :: "nat \<Rightarrow> 'v id_pool \<Rightarrow> 'v result" where
  "pool_ref i p =
     (case map_of (pool_values p) i of None \<Rightarrow> Inl OutOfRange | Some v \<Rightarrow> Inr v)"

definition lockAndRef :: "nat \<Rightarrow> 'v id_pool \<Rightarrow> 'v option" where
  "lockAndRef i p = map_of (pool_values p) i"

subsection \<open>Invariant\<close>

definition pool_live :: "'v id_pool \<Rightarrow> nat set" where
  "pool_live p = um_keys (pool_values p)"

definition pool_used :: "'v id_pool \<Rightarrow> nat" where
  "pool_used p = length (pool_values p) + length (pool_recycled p)"

definition pool_inv :: "'v id_pool \<Rightarrow> bool" where
  "pool_inv p \<longleftrightarrow>
     um_wf (pool_values p) \<and> distinct (pool_recycled p) \<and>
     pool_live p \<inter> set (pool_recycled p) = {} \<and>
     pool_live p \<union> set (pool_recycled p) = {..<pool_used p}"

lemmas pool_defs = pool_inv_def pool_live_def pool_used_def

lemma pool_inv_empty: "pool_inv empty_pool"
  by (simp add: pool_defs empty_pool_def)

lemma pool_invD:
  assumes "pool_inv p"
  shows "um_wf (pool_values p)" "distinct (pool_recycled p)"
    "i \<in> pool_live p \<Longrightarrow> i \<notin> set (pool_recycled p)"
    "i \<in> pool_live p \<or> i \<in> set (pool_recycled p) \<longleftrightarrow> i < pool_used p"
  using assms unfolding pool_inv_def by blast+

lemma pool_invI:
  assumes "um_wf (pool_values p)" "distinct (pool_recycled p)"
    "\<And>i. i \<in> pool_live p \<Longrightarrow> i \<notin> set (pool_recycled p)"
    "\<And>i. i \<in> pool_live p \<or> i \<in> set (pool_recycled p) \<longleftrightarrow> i < pool_used p"
  shows "pool_inv p"
  using assms unfolding pool_inv_def by blast

lemma pool_recycled_empty_iff:
  assumes "pool_inv p"
  shows "pool_recycled p = [] \<longleftrightarrow> pool_live p = {..<pool_used p}"
proof
  assume "pool_recycled p = []"
  then show "pool_live p = {..<pool_used p}"
    using pool_invD(4) [OF assms] by (intro set_eqI) simp
next
  assume full: "pool_live p = {..<pool_used p}"
  have False if "i \<in> set (pool_recycled p)" for i
    using that full pool_invD(3,4) [OF assms, of i] by simp
  then show "pool_recycled p = []"
    by (cases "pool_recycled p") auto
qed

lemma allocateId_fresh:
  assumes "pool_inv p"
  shows "fst (allocateId v p) \<notin> pool_live p"
proof (cases "pool_recycled p = []")
  case True
  then have "pool_live p = {..<length (pool_values p)}"
    using pool_recycled_empty_iff [OF assms] by (simp add: pool_used_def)
  with True show ?thesis by (simp add: allocateId_def Let_def)
next
  case False
  then show ?thesis
    using pool_invD(3) [OF assms, of "last (pool_recycled p)"]
    by (auto simp: allocateId_def Let_def)
qed

lemma allocateId_live:
  "pool_inv p \<Longrightarrow> pool_live (snd (allocateId v p)) = insert (fst (allocateId v p)) (pool_live p)"
  by (auto simp: allocateId_def pool_live_def Let_def)

lemma allocateId_used:
  "pool_inv p \<Longrightarrow> pool_used (snd (allocateId v p)) =
     (if pool_live p = {..<pool_used p} then Suc (pool_used p) else pool_used p)"
proof -
  assume inv: "pool_inv p"
  have "length (um_emplace (fst (allocateId v p)) v (pool_values p)) = Suc (length (pool_values p))"
    using allocateId_fresh [OF inv] by (simp add: length_um_emplace pool_live_def)
  then show ?thesis
    unfolding pool_recycled_empty_iff [OF inv, symmetric]
    by (auto simp: allocateId_def pool_used_def Let_def neq_Nil_conv)
qed

lemma allocateId_inv [chatra_inv]:
  assumes inv: "pool_inv p"
  shows "pool_inv (snd (allocateId v p))"
proof (rule pool_invI)
  let ?p = "snd (allocateId v p)" and ?i = "fst (allocateId v p)"
  note used = allocateId_used [OF inv, of v]
  note live = allocateId_live [OF inv, of v]
  show "um_wf (pool_values ?p)"
    using pool_invD(1) [OF inv] by (simp add: allocateId_def Let_def)
  show "distinct (pool_recycled ?p)"
    using pool_invD(2) [OF inv] by (simp add: allocateId_def Let_def distinct_butlast)
  have rec: "set (pool_recycled ?p) = set (pool_recycled p) - {?i}"
  proof (cases "pool_recycled p = []")
    case False
    then show ?thesis
      using pool_invD(2) [OF inv] distinct_butlast_last [of "pool_recycled p"]
      by (auto simp: allocateId_def Let_def set_butlast_last [of "pool_recycled p"])
  qed (simp add: allocateId_def Let_def)
  show "i \<notin> set (pool_recycled ?p)" if "i \<in> pool_live ?p" for i
    using that rec live pool_invD(3) [OF inv] by auto
  show "i \<in> pool_live ?p \<or> i \<in> set (pool_recycled ?p) \<longleftrightarrow> i < pool_used ?p" for i
  proof (cases "pool_recycled p = []")
    case True
    then have "pool_live p = {..<pool_used p}"
      using pool_recycled_empty_iff [OF inv] by simp
    moreover from True have "?i = pool_used p"
      by (simp add: allocateId_def Let_def pool_used_def)
    ultimately have "pool_used ?p = Suc (pool_used p)"
      and "i \<in> pool_live ?p \<longleftrightarrow> i < Suc (pool_used p)" and "set (pool_recycled ?p) = {}"
      using used live rec True by (simp_all add: less_Suc_eq disj_commute)
    then show ?thesis by simp
  next
    case False
    then have "pool_used ?p = pool_used p"
      using pool_recycled_empty_iff [OF inv] used by simp
    moreover from False have "?i \<in> set (pool_recycled p)"
      by (simp add: allocateId_def Let_def)
    ultimately show ?thesis
      using live rec pool_invD(4) [OF inv, of i] by auto
  qed
qed

lemma pool_remove_live: "pool_live (pool_remove i p) = pool_live p - {i}"
  by (simp add: pool_live_def pool_remove_def)

lemma pool_remove_used:
  "pool_inv p \<Longrightarrow> i \<in> pool_live p \<Longrightarrow> pool_used (pool_remove i p) = pool_used p"
  using length_um_erase [of "pool_values p" i]
  by (auto simp: pool_inv_def pool_live_def pool_used_def pool_remove_def)

lemma pool_remove_inv [chatra_inv]:
  assumes "pool_inv p" and "i \<in> pool_live p"
  shows "pool_inv (pool_remove i p)"
proof (rule pool_invI)
  show "distinct (pool_recycled (pool_remove i p))"
    using pool_invD(2,3) [OF assms(1)] assms(2) by (simp add: pool_remove_def)
  show "j \<in> pool_live (pool_remove i p) \<or> j \<in> set (pool_recycled (pool_remove i p)) \<longleftrightarrow>
      j < pool_used (pool_remove i p)" for j
    using pool_invD(4) [OF assms(1), of j] pool_invD(4) [OF assms(1), of i] assms(2)
    by (auto simp: pool_remove_used [OF assms] pool_remove_live) (auto simp: pool_remove_def)
qed (use pool_invD [OF assms(1)] in \<open>auto simp: pool_remove_def pool_live_def\<close>)

interpretation pool_ids: id_supply pool_inv pool_live pool_used "allocateId v" pool_remove
  for v :: 'v
proof (unfold_locales, goal_cases)
  case (1 s)
  then show ?case by (auto simp: pool_inv_def)
qed (erule allocateId_inv allocateId_fresh allocateId_live allocateId_used pool_remove_inv
      pool_remove_used | rule pool_remove_live | assumption)+

lemma fill_recycled_upt:
  "fill_recycled n i r = r @ [n + length r ..< max (n + length r) i]"
proof (induction n i r rule: fill_recycled.induct)
  case (1 n i r)
  then show ?case
    by (subst fill_recycled.simps) (auto simp: max_def upt_conv_Cons)
qed

lemma length_remove1_Suc: "x \<in> set r \<Longrightarrow> length r = Suc (length (remove1 x r))"
  by (induction r) auto

lemma setId_error: "setId i v p = Inl e \<longleftrightarrow> e = InternalError \<and> i \<in> pool_live p"
  by (auto simp: setId_def Let_def pool_live_def)

lemma setId_live: "setId i v p = Inr p' \<Longrightarrow> pool_live p' = insert i (pool_live p) \<and> i \<notin> pool_live p"
  by (auto simp: setId_def Let_def pool_live_def split: if_splits)

lemma setId_inv [chatra_inv]:
  assumes inv: "pool_inv p" and res: "setId i v p = Inr p'"
  shows "pool_inv p'"
proof -
  let ?n = "length (pool_values p)"
  let ?r = "pool_recycled p"
  from res have fresh: "i \<notin> um_keys (pool_values p)"
    by (auto simp: setId_def split: if_splits)
  show ?thesis
  proof (cases "i \<in> set ?r")
    case True
    then have "length ?r = Suc (length (remove1 i ?r))"
      by (rule length_remove1_Suc)
    moreover from True res fresh have p': "p' = p\<lparr>pool_values := um_emplace i v (pool_values p),
        pool_recycled := remove1 i ?r\<rparr>"
      by (simp add: setId_def)
    ultimately show ?thesis
      using pool_invD [OF inv] True fresh
      by (intro pool_invI)
         (auto simp: pool_live_def pool_used_def length_um_emplace set_remove1_eq)
  next
    case False
    with fresh have i: "?n + length ?r \<le> i"
      using pool_invD(4) [OF inv, of i] by (simp add: pool_live_def pool_used_def)
    then have p': "p' = p\<lparr>pool_values := um_emplace i v (pool_values p),
        pool_recycled := ?r @ [?n + length ?r ..< i]\<rparr>"
      using res False fresh by (simp add: setId_def fill_recycled_upt max_def)
    have below: "j < ?n + length ?r" if "j \<in> pool_live p \<or> j \<in> set ?r" for j
      using that pool_invD(4) [OF inv, of j] by (simp add: pool_used_def)
    have all: "j \<in> pool_live p \<or> j \<in> set ?r" if "j < ?n + length ?r" for j
      using that pool_invD(4) [OF inv, of j] by (simp add: pool_used_def)
    show ?thesis
    proof (rule pool_invI)
      show "um_wf (pool_values p')"
        using pool_invD(1) [OF inv] by (simp add: p')
      show "distinct (pool_recycled p')"
        using pool_invD(2) [OF inv] below by (fastforce simp: p')
      show "j \<notin> set (pool_recycled p')" if "j \<in> pool_live p'" for j
        using that pool_invD(3) [OF inv, of j] below [of j] False
        by (auto simp: p' pool_live_def)
      show "j \<in> pool_live p' \<or> j \<in> set (pool_recycled p') \<longleftrightarrow> j < pool_used p'" for j
        using below [of j] all [of j] i fresh
        by (cases "j < ?n + length ?r")
           (auto simp: p' pool_live_def pool_used_def length_um_emplace)
    qed
  qed
qed

end
