(* ===== verification/String_Ids.thy ===== *)
theory String_Ids
  imports Prelude "HOL-Library.Multiset"
begin

text \<open>
  The predefined string ids: the enumerators of \<open>enum class StringId\<close> (\<open>chatra_core/StringTable.h\<close>)
  in declaration order, and the initializer of \<open>strToId\<close> in the constructor of \<open>StringTable\<close>
  (\<open>chatra_core/StringTable.cpp\<close>), both cut at the blank lines of the source into groups. The value
  of an enumerator is its position; the table gives the text of each.
\<close>

primrec index_of :: "'a \<Rightarrow> 'a list \<Rightarrow> nat" where
  "index_of x [] = 0"
| "index_of x (y # ys) = (if x = y then 0 else Suc (index_of x ys))"

lemma index_of_less: "x \<in> set xs \<Longrightarrow> index_of x xs < length xs"
  by (induction xs) auto

lemma index_of_nth: "x \<in> set xs \<Longrightarrow> xs ! index_of x xs = x"
  by (induction xs) auto

lemma index_of_distinct: "distinct xs \<Longrightarrow> i < length xs \<Longrightarrow> index_of (xs ! i) xs = i"
  by (induction xs arbitrary: i) (auto simp: nth_Cons split: nat.split)

lemma map_index_of: "distinct xs \<Longrightarrow> List.map (\<lambda>x. index_of x xs) xs = [0..<length xs]"
  by (rule nth_equalityI) (simp_all add: index_of_distinct)

subsection \<open>Enumerators and texts\<close>

definition enum_brackets :: "string list" where
  "enum_brackets = [
    ''OpenParenthesis'', ''CloseParenthesis'', ''OpenBracket'', ''CloseBracket'',
     ''OpenBrace'', ''CloseBrace'', ''Annotation'']"

definition table_brackets :: "(string \<times> string) list" where
  "table_brackets = [
    (''('', ''OpenParenthesis''), ('')'', ''CloseParenthesis''), (''['', ''OpenBracket''),
     ('']'', ''CloseBracket''), (''{'', ''OpenBrace''), (''}'', ''CloseBrace''),
     (''@'', ''Annotation'')]"

definition enum_keywords :: "string list" where
  "enum_keywords = [
    ''Import'', ''Def'', ''Static'', ''Delete'', ''As'', ''Operator'', ''Class'', ''Extends'',
     ''Sync'', ''Touch'', ''Var'', ''If'', ''Else'', ''For'', ''In'', ''While'', ''Switch'',
     ''Case'', ''Default'', ''Do'', ''Catch'', ''Finally'', ''Break'', ''Continue'',
     ''Return'', ''Throw'', ''Where'']"

definition table_keywords :: "(string \<times> string) list" where
  "table_keywords = [
    (''import'', ''Import''), (''def'', ''Def''), (''static'', ''Static''),
     (''delete'', ''Delete''), (''as'', ''As''), (''operator'', ''Operator''),
     (''class'', ''Class''), (''extends'', ''Extends''), (''sync'', ''Sync''),
     (''touch'', ''Touch''), (''var'', ''Var''), (''if'', ''If''), (''else'', ''Else''),
     (''for'', ''For''), (''in'', ''In''), (''while'', ''While''), (''switch'', ''Switch''),
     (''case'', ''Case''), (''default'', ''Default''), (''do'', ''Do''),
     (''catch'', ''Catch''), (''finally'', ''Finally''), (''break'', ''Break''),
     (''continue'', ''Continue''), (''return'', ''Return''), (''throw'', ''Throw''),
     (''where'', ''Where'')]"

definition enum_operators :: "string list" where
  "enum_operators = [
    ''Colon'', ''Comma'', ''OpElementSelection'', ''OpIncrement'', ''OpDecrement'',
     ''OpVarArg'', ''OpBitwiseComplement'', ''OpLogicalNot'', ''OpLogicalNotText'',
     ''OpAsync'', ''OpPlus'', ''OpMinus'', ''OpMultiplication'', ''OpMultiplicationOv'',
     ''OpDivision'', ''OpDivisionFloor'', ''OpDivisionCeiling'', ''OpModulus'',
     ''OpModulusFloor'', ''OpModulusCeiling'', ''OpExponent'', ''OpAdditionOv'',
     ''OpSubtractionOv'', ''OpLeftShift'', ''OpRightShift'', ''OpUnsignedRightShift'']"

definition table_operators :: "(string \<times> string) list" where
  "table_operators = [
    ('':'', ''Colon''), ('','', ''Comma''), (''.'', ''OpElementSelection''),
     (''++'', ''OpIncrement''), (''--'', ''OpDecrement''), (''...'', ''OpVarArg''),
     (''~'', ''OpBitwiseComplement''), (''!'', ''OpLogicalNot''),
     (''not'', ''OpLogicalNotText''), (''async'', ''OpAsync''), (''+'', ''OpPlus''),
     (''-'', ''OpMinus''), (''*'', ''OpMultiplication''), (''&*'', ''OpMultiplicationOv''),
     (''/'', ''OpDivision''), (''/-'', ''OpDivisionFloor''), (''/+'', ''OpDivisionCeiling''),
     (''%'', ''OpModulus''), (''%-'', ''OpModulusFloor''), (''%+'', ''OpModulusCeiling''),
     (''**'', ''OpExponent''), (''&+'', ''OpAdditionOv''), (''&-'', ''OpSubtractionOv''),
     (''<<'', ''OpLeftShift''), (''>>'', ''OpRightShift''), (''>>>'', ''OpUnsignedRightShift'')]"

definition enum_relations :: "string list" where
  "enum_relations = [
    ''OpLessThan'', ''OpGreaterThan'', ''OpLessThanOrEqualTo'', ''OpGreaterThanOrEqualTo'',
     ''OpInstanceOf'', ''OpEqualTo'', ''OpNotEqualTo'', ''OpBitwiseAnd'', ''OpBitwiseOr'',
     ''OpBitwiseXor'', ''OpLogicalAnd'', ''OpLogicalAndText'', ''OpLogicalOr'',
     ''OpLogicalOrText'', ''OpLogicalXor'', ''OpLogicalXorText'', ''OpConditional'',
     ''OpTupleDelimiter'', ''OpAssignment'', ''OpMultiplicationAssignment'',
     ''OpMultiplicationOvAssignment'', ''OpDivisionAssignment'', ''OpDivisionFloorAssignment'',
     ''OpDivisionCeilingAssignment'', ''OpModulusAssignment'', ''OpModulusFloorAssignment'',
     ''OpModulusCeilingAssignment'', ''OpExponentAssignment'', ''OpAdditionAssignment'',
     ''OpAdditionOvAssignment'', ''OpSubtractionAssignment'', ''OpSubtractionOvAssignment'',
     ''OpLeftShiftAssignment'', ''OpRightShiftAssignment'', ''OpRightShiftUnsignedAssignment'',
     ''OpBitwiseAndAssignment'', ''OpBitwiseOrAssignment'', ''OpBitwiseXorAssignment'']"

definition table_relations :: "(string \<times> string) list" where
  "table_relations = [
    (''<'', ''OpLessThan''), (''>'', ''OpGreaterThan''), (''<='', ''OpLessThanOrEqualTo''),
     (''>='', ''OpGreaterThanOrEqualTo''), (''is'', ''OpInstanceOf''), (''=='', ''OpEqualTo''),
     (''!='', ''OpNotEqualTo''), (''&'', ''OpBitwiseAnd''), (''|'', ''OpBitwiseOr''),
     (''^'', ''OpBitwiseXor''), (''&&'', ''OpLogicalAnd''), (''and'', ''OpLogicalAndText''),
     (''||'', ''OpLogicalOr''), (''or'', ''OpLogicalOrText''), (''^^'', ''OpLogicalXor''),
     (''xor'', ''OpLogicalXorText''), (''?'', ''OpConditional''),
     ('';'', ''OpTupleDelimiter''), (''='', ''OpAssignment''),
     (''*='', ''OpMultiplicationAssignment''), (''&*='', ''OpMultiplicationOvAssignment''),
     (''/='', ''OpDivisionAssignment''), (''/-='', ''OpDivisionFloorAssignment''),
     (''/+='', ''OpDivisionCeilingAssignment''), (''%='', ''OpModulusAssignment''),
     (''%-='', ''OpModulusFloorAssignment''), (''%+='', ''OpModulusCeilingAssignment''),
     (''**='', ''OpExponentAssignment''), (''+='', ''OpAdditionAssignment''),
     (''&+='', ''OpAdditionOvAssignment''), (''-='', ''OpSubtractionAssignment''),
     (''&-='', ''OpSubtractionOvAssignment''), (''<<='', ''OpLeftShiftAssignment''),
     (''>>='', ''OpRightShiftAssignment''), (''>>>='', ''OpRightShiftUnsignedAssignment''),
     (''&='', ''OpBitwiseAndAssignment''), (''|='', ''OpBitwiseOrAssignment''),
     (''^='', ''OpBitwiseXorAssignment'')]"

definition enum_names :: "string list" where
  "enum_names = [
    ''Set'', ''Self'', ''Super'', ''Init'', ''Deinit'', ''Native'', ''Null'', ''True'',
     ''False'', ''Bool'', ''Int'', ''Float'', ''Iterator'', ''KeyedIterator'', ''IndexSet'',
     ''RangeIterator'', ''KeyedRangeIterator'', ''Range'', ''ArrayIterator'',
     ''ArrayKeyedIterator'', ''DictIterator'', ''DictKeyedIterator'', ''Sequence'',
     ''VariableLengthSequence'', ''ArrayView'', ''Async'', ''String'', ''Array'', ''Dict'']"

definition table_names :: "(string \<times> string) list" where
  "table_names = [
    (''set'', ''Set''), (''self'', ''Self''), (''super'', ''Super''), (''init'', ''Init''),
     (''deinit'', ''Deinit''), (''native'', ''Native''), (''null'', ''Null''),
     (''true'', ''True''), (''false'', ''False''), (''Bool'', ''Bool''), (''Int'', ''Int''),
     (''Float'', ''Float''), (''Iterator'', ''Iterator''),
     (''KeyedIterator'', ''KeyedIterator''), (''IndexSet'', ''IndexSet''),
     (''RangeIterator'', ''RangeIterator''), (''KeyedRangeIterator'', ''KeyedRangeIterator''),
     (''Range'', ''Range''), (''ArrayIterator'', ''ArrayIterator''),
     (''ArrayKeyedIterator'', ''ArrayKeyedIterator''), (''DictIterator'', ''DictIterator''),
     (''DictKeyedIterator'', ''DictKeyedIterator''), (''Sequence'', ''Sequence''),
     (''VariableLengthSequence'', ''VariableLengthSequence''), (''ArrayView'', ''ArrayView''),
     (''Async'', ''Async''), (''String'', ''String''), (''Array'', ''Array''),
     (''Dict'', ''Dict'')]"

definition enum_exceptions :: "string list" where
  "enum_exceptions = [
    ''Exception'', ''RuntimeException'', ''ArithmeticException'', ''ParserErrorException'',
     ''UnsupportedOperationException'', ''PackageNotFoundException'',
     ''ClassNotFoundException'', ''MemberNotFoundException'',
     ''IncompleteExpressionException'', ''TypeMismatchException'', ''NullReferenceException'',
     ''OverflowException'', ''DivideByZeroException'', ''IllegalArgumentException'',
     ''NativeException'']"

definition table_exceptions :: "(string \<times> string) list" where
  "table_exceptions = [
    (''Exception'', ''Exception''), (''RuntimeException'', ''RuntimeException''),
     (''ArithmeticException'', ''ArithmeticException''),
     (''ParserErrorException'', ''ParserErrorException''),
     (''UnsupportedOperationException'', ''UnsupportedOperationException''),
     (''PackageNotFoundException'', ''PackageNotFoundException''),
     (''ClassNotFoundException'', ''ClassNotFoundException''),
     (''MemberNotFoundException'', ''MemberNotFoundException''),
     (''IncompleteExpressionException'', ''IncompleteExpressionException''),
     (''TypeMismatchException'', ''TypeMismatchException''),
     (''NullReferenceException'', ''NullReferenceException''),
     (''OverflowException'', ''OverflowException''),
     (''DivideByZeroException'', ''DivideByZeroException''),
     (''IllegalArgumentException'', ''IllegalArgumentException''),
     (''NativeException'', ''NativeException'')]"

definition enum_special :: "string list" where
  "enum_special = [
    ''Empty'', ''Parser'', ''FinalizerObjects'', ''FinalizerTemporary'', ''PackageObject'',
     ''PackageInitializer'', ''CapturedScope'', ''Rvalue'', ''SourceObject'', ''Captured'',
     ''AnyArgs'', ''AnyString'', ''EmptyTuple'', ''EmbeddedFunctions'', ''Tuple'',
     ''TemporaryTuple'', ''TupleAssignmentMap'', ''FunctionObject'', ''ForIterator'']"

definition table_special :: "(string \<times> string) list" where
  "table_special = [
    (''#empty'', ''Empty''), (''#parser'', ''Parser''),
     (''#finalizerObjects'', ''FinalizerObjects''),
     (''#finalizerTemporary'', ''FinalizerTemporary''),
     (''#packageObject'', ''PackageObject''),
     (''#packageInitializer'', ''PackageInitializer''),
     (''#capturedScope'', ''CapturedScope''), (''#rvalue'', ''Rvalue''),
     (''#sourceObject'', ''SourceObject''), (''#captured'', ''Captured''),
     (''#anyArgs'', ''AnyArgs''), (''#anyString'', ''AnyString''),
     (''#emptyTuple'', ''EmptyTuple''), (''#embeddedFunctions'', ''EmbeddedFunctions''),
     (''#tuple'', ''Tuple''), (''#temporaryTuple'', ''TemporaryTuple''),
     (''#tupleAssignmentMap'', ''TupleAssignmentMap''),
     (''#functionObject'', ''FunctionObject''), (''#forIterator'', ''ForIterator'')]"

definition enum_container_names :: "string list" where
  "enum_container_names = [
    ''a'', ''d'', ''iterator'', ''keyedIterator'', ''hasNext'', ''next'', ''equals'', ''has'',
     ''toArray'', ''toDict'']"

definition table_container_names :: "(string \<times> string) list" where
  "table_container_names = [
    (''a'', ''a''), (''d'', ''d''), (''iterator'', ''iterator''),
     (''keyedIterator'', ''keyedIterator''), (''hasNext'', ''hasNext''), (''next'', ''next''),
     (''equals'', ''equals''), (''has'', ''has''), (''toArray'', ''toArray''),
     (''toDict'', ''toDict'')]"

definition enum_function_names :: "string list" where
  "enum_function_names = [
    ''a0'', ''a1'', ''a2'', ''r'', ''m0'', ''m1'', ''m2'', ''m3'', ''t0'', ''t1'', ''t2'',
     ''t3'', ''key'', ''value'', ''first'', ''last'', ''step'', ''ascend'', ''reverse'',
     ''log'', ''dump'', ''gc'', ''_native_time'', ''time'', ''clock'', ''_native_sleep'',
     ''sleep'', ''timeout'', ''relative'', ''_native_wait'', ''wait'', ''type'', ''objectId'',
     ''_check'', ''_checkCmd'', ''_incrementTestTimer'']"

definition table_function_names :: "(string \<times> string) list" where
  "table_function_names = [
    (''a0'', ''a0''), (''a1'', ''a1''), (''a2'', ''a2''), (''r'', ''r''), (''m0'', ''m0''),
     (''m1'', ''m1''), (''m2'', ''m2''), (''m3'', ''m3''), (''t0'', ''t0''), (''t1'', ''t1''),
     (''t2'', ''t2''), (''t3'', ''t3''), (''key'', ''key''), (''value'', ''value''),
     (''first'', ''first''), (''last'', ''last''), (''step'', ''step''),
     (''ascend'', ''ascend''), (''reverse'', ''reverse''), (''log'', ''log''),
     (''dump'', ''dump''), (''gc'', ''gc''), (''_native_time'', ''_native_time''),
     (''time'', ''time''), (''clock'', ''clock''), (''_native_sleep'', ''_native_sleep''),
     (''sleep'', ''sleep''), (''timeout'', ''timeout''), (''relative'', ''relative''),
     (''_native_wait'', ''_native_wait''), (''wait'', ''wait''), (''type'', ''type''),
     (''objectId'', ''objectId''), (''_check'', ''_check''), (''_checkCmd'', ''_checkCmd''),
     (''_incrementTestTimer'', ''_incrementTestTimer'')]"

definition enum_method_names :: "string list" where
  "enum_method_names = [
    ''finished'', ''result'', ''toString'', ''fromString'', ''fromChar'', ''size'', ''add'',
     ''insert'', ''remove'', ''clear'', ''clone'', ''sub'', ''append'', ''keys'', ''values'',
     ''position'', ''_native_updated'', ''_native_add'', ''_native_insert'',
     ''_native_append'', ''_native_at'', ''_native_sub'']"

definition table_method_names :: "(string \<times> string) list" where
  "table_method_names = [
    (''finished'', ''finished''), (''result'', ''result''), (''toString'', ''toString''),
     (''fromString'', ''fromString''), (''fromChar'', ''fromChar''), (''size'', ''size''),
     (''add'', ''add''), (''insert'', ''insert''), (''remove'', ''remove''),
     (''clear'', ''clear''), (''clone'', ''clone''), (''sub'', ''sub''),
     (''append'', ''append''), (''keys'', ''keys''), (''values'', ''values''),
     (''position'', ''position''), (''_native_updated'', ''_native_updated''),
     (''_native_add'', ''_native_add''), (''_native_insert'', ''_native_insert''),
     (''_native_append'', ''_native_append''), (''_native_at'', ''_native_at''),
     (''_native_sub'', ''_native_sub'')]"

definition enumerators :: "string list" where
  "enumerators = enum_brackets @ enum_keywords @ enum_operators @ enum_relations @ enum_names @ enum_exceptions @ enum_special @ enum_container_names @ enum_function_names @ enum_method_names"

definition predefined_table :: "(string \<times> string) list" where
  "predefined_table = table_brackets @ table_keywords @ table_operators @ table_relations @ table_names @ table_exceptions @ table_special @ table_container_names @ table_function_names @ table_method_names"

lemmas enum_defs = enum_brackets_def enum_keywords_def enum_operators_def enum_relations_def enum_names_def enum_exceptions_def enum_special_def enum_container_names_def enum_function_names_def enum_method_names_def

lemmas table_defs = table_brackets_def table_keywords_def table_operators_def table_relations_def table_names_def table_exceptions_def table_special_def table_container_names_def table_function_names_def table_method_names_def

definition StringId :: "string \<Rightarrow> nat" where
  "StringId name = index_of name enumerators"

definition PredefinedStringIds :: nat where
  "PredefinedStringIds = length enumerators"

text \<open>\<open>Invalid = std::numeric_limits<uint_least32_t>::max()\<close>\<close>

definition StringId_Invalid :: nat where
  "StringId_Invalid = 2 ^ 32 - 1"

lemma table_follows_enum: "List.map snd predefined_table = enumerators"
  by (simp add: predefined_table_def enumerators_def enum_defs table_defs)

lemma PredefinedStringIds_value: "PredefinedStringIds = 229"
  by (simp add: PredefinedStringIds_def enumerators_def enum_defs)

text \<open>
  Distinctness of the texts and of the enumerators is checked on a numeric key per string, by
  merge-sorting the keys; comparing all pairs of strings takes minutes.
\<close>

definition string_key :: "string \<Rightarrow> int" where
  "string_key s = foldl (\<lambda>h c. 11 * h + of_char c) 0 s"

fun merge_keys :: "int list \<Rightarrow> int list \<Rightarrow> int list" where
  "merge_keys [] ys = ys"
| "merge_keys (x # xs) [] = x # xs"
| "merge_keys (x # xs) (y # ys) =
     (if x \<le> y then x # merge_keys xs (y # ys) else y # merge_keys (x # xs) ys)"

fun merge_adjacent :: "int list list \<Rightarrow> int list list" where
  "merge_adjacent (xs # ys # zss) = merge_keys xs ys # merge_adjacent zss"
| "merge_adjacent xss = xss"

lemma length_merge_adjacent: "length (merge_adjacent xss) \<le> length xss"
  by (induction xss rule: merge_adjacent.induct) auto

function merge_all :: "int list list \<Rightarrow> int list" where
  "merge_all [] = []"
| "merge_all [xs] = xs"
| "merge_all (xs # ys # zss) = merge_all (merge_adjacent (xs # ys # zss))"
  by pat_completeness auto
termination
  by (relation "measure length") (use length_merge_adjacent in \<open>auto simp: le_imp_less_Suc\<close>)

lemma mset_merge_keys: "mset (merge_keys xs ys) = mset xs + mset ys"
  by (induction xs ys rule: merge_keys.induct) auto

lemma mset_merge_adjacent: "mset (concat (merge_adjacent xss)) = mset (concat xss)"
  by (induction xss rule: merge_adjacent.induct) (auto simp: mset_merge_keys)

lemma mset_merge_all: "mset (merge_all xss) = mset (concat xss)"
proof (induction xss rule: merge_all.induct)
  case (3 xs ys zss)
  then show ?case by (metis merge_all.simps(3) mset_merge_adjacent)
qed simp_all

fun ascending :: "int list \<Rightarrow> bool" where
  "ascending (x # y # zs) \<longleftrightarrow> x < y \<and> ascending (y # zs)"
| "ascending xs \<longleftrightarrow> True"

lemma ascending_less: "ascending (x # xs) \<Longrightarrow> y \<in> set xs \<Longrightarrow> x < y"
  by (induction "x # xs" arbitrary: x xs rule: ascending.induct) (auto intro: order.strict_trans)

lemma ascending_distinct: "ascending xs \<Longrightarrow> distinct xs"
proof (induction xs)
  case (Cons x xs)
  then have "ascending xs"
    by (cases xs) auto
  with Cons ascending_less [of x xs] show ?case by fastforce
qed simp

lemma distinct_by_sorted_keys:
  assumes "ascending (merge_all (List.map (\<lambda>x. [f x]) xs))"
  shows "distinct xs"
proof -
  have "mset (merge_all (List.map (\<lambda>x. [f x]) xs)) = mset (List.map f xs)"
    by (simp add: mset_merge_all concat_map_singleton)
  moreover have "distinct (merge_all (List.map (\<lambda>x. [f x]) xs))"
    using assms by (rule ascending_distinct)
  ultimately have "distinct (List.map f xs)"
    by (metis mset_eq_imp_distinct_iff)
  then show ?thesis by (simp add: distinct_map)
qed

lemma distinct_enumerators: "distinct enumerators"
  by (rule distinct_by_sorted_keys [where f = string_key])
     (simp add: enumerators_def enum_defs string_key_def)

lemma distinct_predefined_texts: "distinct (List.map fst predefined_table)"
  by (rule distinct_by_sorted_keys [where f = string_key])
     (simp add: predefined_table_def table_defs string_key_def)

end
