(* ===== verification/String_Table.thy ===== *)
theory String_Table
  imports String_Ids
begin

text \<open>
  \<open>StringTable\<close> of \<open>chatra_core/StringTable.h\<close> and \<open>.cpp\<close>: the two-way table between texts and
  string ids, with the copy-on-write done by the free function \<open>add\<close>. Its contract towards the
  lexical analyzer and the parser is the locale \<open>string_pool\<close>. \<open>save\<close> and \<open>restore\<close> are in the
  theory \<open>Table_Stream\<close>, after the streams they use.
\<close>

subsection \<open>The contract of an interning table\<close>

fun intern_all :: "(string \<Rightarrow> 't \<Rightarrow> nat \<times> 't) \<Rightarrow> string list \<Rightarrow> 't \<Rightarrow> nat list \<times> 't" where
  "intern_all intern [] t = ([], t)"
| "intern_all intern (s # ss) t =
     (let (i, t1) = intern s t; (is, t2) = intern_all intern ss t1 in (i # is, t2))"

locale string_pool =
  fixes inv :: "'t \<Rightarrow> bool"
    and capacity :: "'t \<Rightarrow> nat"
    and lookup :: "'t \<Rightarrow> nat \<Rightarrow> string option"
    and intern :: "string \<Rightarrow> 't \<Rightarrow> nat \<times> 't"
  assumes lookup_inj: "inv t \<Longrightarrow> lookup t i = Some s \<Longrightarrow> lookup t j = Some s \<Longrightarrow> i = j"
    and intern_inv: "inv t \<Longrightarrow> 0 < capacity t \<Longrightarrow> inv (snd (intern s t))"
    and intern_lookup: "inv t \<Longrightarrow> 0 < capacity t \<Longrightarrow>
          lookup (snd (intern s t)) (fst (intern s t)) = Some s"
    and intern_keeps: "inv t \<Longrightarrow> 0 < capacity t \<Longrightarrow> lookup t i = Some s' \<Longrightarrow>
          lookup (snd (intern s t)) i = Some s'"
    and intern_capacity: "inv t \<Longrightarrow> 0 < capacity t \<Longrightarrow>
          capacity t \<le> Suc (capacity (snd (intern s t)))"
begin

lemma intern_all_lookup:
  "inv t \<Longrightarrow> length ss \<le> capacity t \<Longrightarrow> intern_all intern ss t = (is, t') \<Longrightarrow>
     inv t' \<and> (\<forall>i s. lookup t i = Some s \<longrightarrow> lookup t' i = Some s) \<and>
     List.map (lookup t') is = List.map Some ss"
proof (induction ss arbitrary: t "is" t')
  case (Cons s ss)
  obtain i t1 where i: "intern s t = (i, t1)" by fastforce
  obtain js t2 where js: "intern_all intern ss t1 = (js, t2)" by fastforce
  from Cons.prems(2) have cap: "0 < capacity t" by simp
  note step = intern_inv [OF Cons.prems(1) cap, of s] intern_lookup [OF Cons.prems(1) cap, of s]
    intern_keeps [OF Cons.prems(1) cap] intern_capacity [OF Cons.prems(1) cap, of s]
  from step(1,4) Cons.prems(2) have "inv t1" "length ss \<le> capacity t1"
    by (simp_all add: i)
  from Cons.IH [OF this js] have
    IH: "inv t2" "\<And>j s. lookup t1 j = Some s \<Longrightarrow> lookup t2 j = Some s"
      "List.map (lookup t2) js = List.map Some ss"
    by auto
  have "is = i # js" "t' = t2"
    using Cons.prems(3) by (simp_all add: i js)
  with IH step(2) step(3) [of _ _ s] show ?case
    by (auto simp: i)
qed simp

text \<open>Equal texts get equal ids and different texts different ids: comparing ids is comparing texts.\<close>

lemma intern_all_eq_iff:
  assumes "inv t" "length ss \<le> capacity t" "intern_all intern ss t = (is, t')"
    and "a < length ss" "b < length ss"
  shows "is ! a = is ! b \<longleftrightarrow> ss ! a = ss ! b"
proof -
  from intern_all_lookup [OF assms(1-3)] have inv: "inv t'"
    and eq: "List.map (lookup t') is = List.map Some ss" by auto
  then have len: "length is = length ss"
    by (metis length_map)
  have "lookup t' (is ! a) = Some (ss ! a)" "lookup t' (is ! b) = Some (ss ! b)"
    using eq len assms(4,5) by (metis nth_map)+
  then show ?thesis
    using lookup_inj [OF inv] by auto
qed

end

subsection \<open>State and operations\<close>

record string_table =
  baseVersion :: "32 word"
  version :: "32 word"
  strToId :: "(string \<times> nat) list"
  idToStr :: "string list"

text \<open>The constructor: the initializer list, \<open>resize\<close>, and the loop that fills \<open>idToStr\<close>.\<close>

definition new_table :: string_table where
  "new_table =
     (let m = fold (\<lambda>(s, n) m. um_emplace s (StringId n) m) predefined_table []
      in \<lparr>baseVersion = 0, version = 0, strToId = m,
          idToStr = fold (\<lambda>(s, i) xs. xs[i := s]) m (replicate PredefinedStringIds [])\<rparr>)"

text \<open>The private member \<open>add\<close>; ids are 32-bit values.\<close>

definition table_add :: "string \<Rightarrow> string_table \<Rightarrow> nat \<times> string_table" where
  "table_add str t =
     (let i = length (idToStr t) mod 2 ^ 32
      in (i, t\<lparr>strToId := um_emplace str i (strToId t), idToStr := idToStr t @ [str]\<rparr>))"

definition isDirty :: "string_table \<Rightarrow> bool" where
  "isDirty t \<longleftrightarrow> baseVersion t \<noteq> version t"

definition clearDirty :: "string_table \<Rightarrow> string_table" where
  "clearDirty t = t\<lparr>baseVersion := version t\<rparr>"

definition table_has :: "string_table \<Rightarrow> nat \<Rightarrow> bool" where
  "table_has t i \<longleftrightarrow> i < length (idToStr t)"

definition table_ref :: "string_table \<Rightarrow> nat \<Rightarrow> string result" where
  "table_ref t i = (if i < length (idToStr t) then Inr (idToStr t ! i) else Inl OutOfRange)"

definition table_find :: "string_table \<Rightarrow> string \<Rightarrow> nat" where
  "table_find t s = (case map_of (strToId t) s of None \<Rightarrow> StringId_Invalid | Some i \<Rightarrow> i)"

text \<open>
  The free function \<open>add(sTable, str)\<close> acts on a shared pointer. The store is the list of the
  tables that have been made; a pointer is an index into it. A clean table is copied first, so
  whoever still holds the old pointer keeps the old table.
\<close>

definition intern_value :: "string \<Rightarrow> string_table \<Rightarrow> nat \<times> string_table" where
  "intern_value str t =
     (case map_of (strToId t) str of
        Some i \<Rightarrow> (i, t)
      | None \<Rightarrow> table_add str (if version t = baseVersion t then t\<lparr>version := version t + 1\<rparr> else t))"

definition intern_shared ::
    "string \<Rightarrow> string_table list \<Rightarrow> nat \<Rightarrow> nat \<times> string_table list \<times> nat" where
  "intern_shared str store ptr =
     (let t = store ! ptr
      in case map_of (strToId t) str of
           Some i \<Rightarrow> (i, store, ptr)
         | None \<Rightarrow>
             if version t = baseVersion t then
               (let (i, t') = table_add str (t\<lparr>version := version t + 1\<rparr>)
                in (i, store @ [t'], length store))
             else
               (let (i, t') = table_add str t in (i, store[ptr := t'], ptr)))"

subsection \<open>Invariant\<close>

definition table_wf :: "string_table \<Rightarrow> bool" where
  "table_wf t \<longleftrightarrow>
     um_wf (strToId t) \<and> length (idToStr t) < 2 ^ 32 \<and>
     (\<forall>s i. map_of (strToId t) s = Some i \<longleftrightarrow> i < length (idToStr t) \<and> idToStr t ! i = s)"

definition table_capacity :: "string_table \<Rightarrow> nat" where
  "table_capacity t = 2 ^ 32 - 1 - length (idToStr t)"

definition table_lookup :: "string_table \<Rightarrow> nat \<Rightarrow> string option" where
  "table_lookup t i = (if table_has t i then Some (idToStr t ! i) else None)"

lemma table_lookup_ref: "table_lookup t i = Some s \<longleftrightarrow> table_ref t i = Inr s"
  by (simp add: table_lookup_def table_ref_def table_has_def)

lemma table_wf_find:
  "table_wf t \<Longrightarrow> map_of (strToId t) s = Some i \<longleftrightarrow> table_lookup t i = Some s"
  by (auto simp: table_wf_def table_lookup_def table_has_def)

lemma table_wf_version [simp]:
  "table_wf (t\<lparr>version := v\<rparr>) = table_wf t" "table_wf (t\<lparr>baseVersion := v\<rparr>) = table_wf t"
  "table_capacity (t\<lparr>version := v\<rparr>) = table_capacity t"
  "table_lookup (t\<lparr>version := v\<rparr>) = table_lookup t"
  by (simp_all add: table_wf_def table_capacity_def table_lookup_def table_has_def fun_eq_iff)

lemma table_add_facts:
  assumes wf: "table_wf t" and new: "map_of (strToId t) s = None" and cap: "0 < table_capacity t"
    and res: "table_add s t = (i, t')"
  shows "table_wf t'" "i = length (idToStr t)" "idToStr t' = idToStr t @ [s]"
    "strToId t' = strToId t @ [(s, i)]"
proof -
  from cap have len: "Suc (length (idToStr t)) < 2 ^ 32"
    by (simp add: table_capacity_def)
  then show i: "i = length (idToStr t)" and str: "idToStr t' = idToStr t @ [s]"
    using res by (auto simp: table_add_def Let_def)
  from new have s: "s \<notin> um_keys (strToId t)"
    by (simp add: map_of_um_None)
  then show ids: "strToId t' = strToId t @ [(s, i)]"
    using res by (auto simp: table_add_def Let_def um_emplace_def)
  have no: "idToStr t ! j \<noteq> s" if "j < length (idToStr t)" for j
  proof
    assume "idToStr t ! j = s"
    with that wf have "map_of (strToId t) s = Some j" by (simp add: table_wf_def)
    with new show False by simp
  qed
  have "map_of (strToId t') x = Some j \<longleftrightarrow> j < length (idToStr t') \<and> idToStr t' ! j = x" for x j
    using wf no [of j] new
    by (auto simp: ids str i table_wf_def map_add_Some_iff nth_append less_Suc_eq
        split: if_splits)
  with wf len s show "table_wf t'"
    by (simp add: table_wf_def ids str um_wf_def um_keys_def)
qed

lemma intern_value_facts:
  assumes wf: "table_wf t" and cap: "0 < table_capacity t"
  shows "table_wf (snd (intern_value s t))"
    "table_lookup (snd (intern_value s t)) (fst (intern_value s t)) = Some s"
    "table_lookup t j = Some x \<Longrightarrow> table_lookup (snd (intern_value s t)) j = Some x"
    "table_capacity t \<le> Suc (table_capacity (snd (intern_value s t)))"
proof -
  let ?t = "if version t = baseVersion t then t\<lparr>version := version t + 1\<rparr> else t"
  obtain i t' where add: "table_add s ?t = (i, t')" by fastforce
  have "table_wf (snd (intern_value s t)) \<and>
    table_lookup (snd (intern_value s t)) (fst (intern_value s t)) = Some s \<and>
    (table_lookup t j = Some x \<longrightarrow> table_lookup (snd (intern_value s t)) j = Some x) \<and>
    table_capacity t \<le> Suc (table_capacity (snd (intern_value s t)))"
  proof (cases "map_of (strToId t) s")
    case None
    have "table_wf t'" "i = length (idToStr t)" "idToStr t' = idToStr t @ [s]"
      using table_add_facts [OF _ _ _ add] wf cap None by (auto split: if_splits)
    then show ?thesis
      using None add
      by (auto simp: intern_value_def table_lookup_def table_has_def table_capacity_def nth_append
          split: if_splits)
  next
    case (Some i)
    moreover from this have "table_lookup t i = Some s"
      using table_wf_find [OF wf] by blast
    ultimately show ?thesis
      using wf by (simp add: intern_value_def)
  qed
  then show "table_wf (snd (intern_value s t))"
    "table_lookup (snd (intern_value s t)) (fst (intern_value s t)) = Some s"
    "table_lookup t j = Some x \<Longrightarrow> table_lookup (snd (intern_value s t)) j = Some x"
    "table_capacity t \<le> Suc (table_capacity (snd (intern_value s t)))"
    by auto
qed

interpretation table: string_pool table_wf table_capacity table_lookup intern_value
proof (unfold_locales, goal_cases)
  case (1 t i s j)
  then show ?case
    using table_wf_find [OF 1(1), of s] by (metis option.inject)
qed (use intern_value_facts in blast)+

subsection \<open>The initial table\<close>

lemma fold_um_emplace_fresh:
  "distinct (List.map fst xs) \<Longrightarrow> fst ` set xs \<inter> um_keys m = {} \<Longrightarrow>
     fold (\<lambda>(s, n) m. um_emplace s (f n) m) xs m = m @ List.map (\<lambda>(s, n). (s, f n)) xs"
proof (induction xs arbitrary: m)
  case (Cons x xs)
  then show ?case
    by (cases x) (auto simp: um_emplace_def)
qed simp

lemma fold_update_upt:
  "length xs = n \<Longrightarrow> length rest = n \<Longrightarrow>
     fold (\<lambda>(s, i) ys. ys[i := s]) (zip xs [length pre..<length pre + n]) (pre @ rest) = pre @ xs"
proof (induction xs arbitrary: pre rest n)
  case (Cons x xs)
  obtain m where n: "n = Suc m" "length xs = m"
    using Cons.prems by auto
  obtain r rs where rest: "rest = r # rs" "length rs = m"
    using Cons.prems n by (cases rest) auto
  have upt: "[length pre..<length pre + Suc m] = length pre # [Suc (length pre)..<Suc (length pre) + m]"
    by (simp add: upt_conv_Cons)
  show ?case
    using Cons.IH [of m rs "pre @ [x]"] n rest
    by (simp only: upt zip_Cons_Cons fold_simps split_beta fst_conv snd_conv)
       (simp add: list_update_append)
qed simp

lemma new_table_strToId:
  "strToId new_table = zip (List.map fst predefined_table) [0..<PredefinedStringIds]"
proof -
  have "strToId new_table = List.map (\<lambda>(s, n). (s, StringId n)) predefined_table"
    unfolding new_table_def Let_def
    using fold_um_emplace_fresh [OF distinct_predefined_texts, of "[]" StringId] by simp
  also have "\<dots> = zip (List.map fst predefined_table) (List.map StringId (List.map snd predefined_table))"
    by (simp add: zip_map_map zip_same_conv_map split_def)
  also have "List.map StringId (List.map snd predefined_table) = [0..<PredefinedStringIds]"
    unfolding table_follows_enum StringId_def PredefinedStringIds_def
    by (rule map_index_of [OF distinct_enumerators])
  finally show ?thesis .
qed

lemma new_table_idToStr: "idToStr new_table = List.map fst predefined_table"
proof -
  have len: "length (List.map fst predefined_table) = PredefinedStringIds"
    using table_follows_enum by (metis PredefinedStringIds_def length_map)
  have "idToStr new_table = fold (\<lambda>(s, i) xs. xs[i := s]) (strToId new_table)
      (replicate PredefinedStringIds [])"
    by (simp add: new_table_def Let_def)
  then show ?thesis
    using fold_update_upt [OF len, of "replicate PredefinedStringIds []" "[]"]
    by (simp add: new_table_strToId)
qed

lemma new_table_wf: "table_wf new_table"
proof -
  have len: "length predefined_table = PredefinedStringIds"
    using table_follows_enum by (metis PredefinedStringIds_def length_map)
  have "map_of (strToId new_table) s = Some i \<longleftrightarrow>
      i < length (idToStr new_table) \<and> idToStr new_table ! i = s" for s i
    unfolding new_table_strToId new_table_idToStr
    using distinct_predefined_texts len
    by (subst map_of_eq_Some_iff) (auto simp: set_zip map_fst_zip_take)
  then show ?thesis
    by (simp add: table_wf_def um_wf_def new_table_strToId new_table_idToStr len map_fst_zip_take
        distinct_predefined_texts PredefinedStringIds_value)
qed

lemma new_table_find:
  "i < PredefinedStringIds \<Longrightarrow> table_find new_table (fst (predefined_table ! i)) = i"
proof -
  assume i: "i < PredefinedStringIds"
  have len: "length predefined_table = PredefinedStringIds"
    using table_follows_enum by (metis PredefinedStringIds_def length_map)
  have "map_of (strToId new_table) (fst (predefined_table ! i)) = Some i"
    using new_table_wf i len by (simp add: table_wf_def new_table_idToStr)
  then show ?thesis by (simp add: table_find_def)
qed

end
