(* ===== verification/Raw_Integer.thy ===== *)
theory Raw_Integer
  imports Prelude
begin

unbundle bit_operations_syntax

text \<open>
  The variable-length integers of \<open>chatra_core/Serialize.h\<close>: \<open>Writer::outRawInteger\<close> and
  \<open>Reader::readRawInteger\<close>. Seven bits per byte, least significant first; the last byte has the
  top bit clear and, in numbers of two bytes or more, keeps six bits and the sign in \<open>0x40\<close>.
  An integer of \<open>Type\<close> is its bit pattern, a word; \<open>is_signed\<close> says whether \<open>Type\<close> is signed, which
  decides how the cast to \<open>int64_t\<close> extends it.
\<close>

type_synonym byte = "8 word"
type_synonym 'a reader = "byte list \<Rightarrow> nat \<Rightarrow> ('a \<times> nat) result"

subsection \<open>Writer\<close>

definition cont_byte :: "64 word \<Rightarrow> byte" where
  "cont_byte t = ucast ((t AND 0x7F) OR 0x80)"

definition last_byte :: "bool \<Rightarrow> 64 word \<Rightarrow> byte" where
  "last_byte neg t = ucast (t OR (if neg then 0x40 else 0))"

lemma drop_bit_7_less: "\<not> drop_bit 7 (t::64 word) < 64 \<Longrightarrow> unat (drop_bit 7 t) < unat t"
proof -
  assume "\<not> drop_bit 7 t < 64"
  then have "64 \<le> unat (drop_bit 7 t)"
    by (simp add: word_less_nat_alt)
  moreover have "unat (drop_bit 7 t) = unat t div 128"
    by (simp add: drop_bit_eq_div unat_div_distrib)
  ultimately show ?thesis by simp
qed

function out_loop :: "bool \<Rightarrow> 64 word \<Rightarrow> byte list" where
  "out_loop neg t =
     cont_byte t #
       (let t' = drop_bit 7 t in if t' < 64 then [last_byte neg t'] else out_loop neg t')"
  by pat_completeness auto
termination
  by (relation "measure (\<lambda>(neg, t). unat t)") (use drop_bit_7_less in auto)

declare out_loop.simps [simp del]

definition outRawInteger :: "bool \<Rightarrow> 'a::len word \<Rightarrow> byte list" where
  "outRawInteger is_signed v =
     (let neg = sint v < 0;
          t = (if \<not> neg then ucast v
               else NOT (if is_signed then scast v else ucast v)) :: 64 word
      in if \<not> neg \<and> t < 128 then [ucast t] else out_loop neg t)"

subsection \<open>Reader\<close>

text \<open>\<open>checkSpace\<close>: the sum is a \<open>size_t\<close> and wraps around.\<close>

definition checkSpace :: "byte list \<Rightarrow> nat \<Rightarrow> nat \<Rightarrow> bool" where
  "checkSpace buffer offset n \<longleftrightarrow> \<not> length buffer < size_add offset n"

function in_loop :: "byte list \<Rightarrow> nat \<Rightarrow> nat \<Rightarrow> 64 word \<Rightarrow> (64 word \<times> nat) result" where
  "in_loop buffer offset position t =
     (if position < 64 then
        if \<not> checkSpace buffer offset 1 then Inl IllegalArgument
        else if length buffer \<le> offset then Inl OutOfRange
        else
          let c = ucast (buffer ! offset) :: 64 word
          in if c AND 0x80 \<noteq> 0 then
               in_loop buffer (Suc offset) (position + 7) (t OR push_bit position (c AND 0x7F))
             else
               let t' = t OR push_bit position (c AND 0x3F)
               in Inr (if c AND 0x40 \<noteq> 0 then NOT t' else t', Suc offset)
      else Inl IllegalArgument)"
  by pat_completeness auto
termination
  by (relation "measure (\<lambda>(b, off, position, t). 64 - position)") auto

declare in_loop.simps [simp del]

definition readRawInteger :: "'a::len word reader" where
  "readRawInteger buffer offset =
     (if \<not> checkSpace buffer offset 1 then Inl IllegalArgument
      else if length buffer \<le> offset then Inl OutOfRange
      else
        let t = ucast (buffer ! offset) :: 64 word
        in if t < 128 then Inr (ucast t, Suc offset)
           else
             case in_loop buffer (Suc offset) 7 (t AND 0x7F) of
               Inl e \<Rightarrow> Inl e
             | Inr (r, off) \<Rightarrow> Inr (ucast r, off))"

subsection \<open>Round trip\<close>

lemma byte64_eqI:
  fixes a b :: "64 word"
  assumes "\<And>n. n < 64 \<Longrightarrow> bit a n = bit b n"
  shows "a = b"
  using assms by (intro bit_word_eqI) simp

lemma less_64_bit: "(t::64 word) < 64 \<Longrightarrow> bit t n \<Longrightarrow> n < 6"
proof -
  assume "t < 64" "bit t n"
  then have "take_bit 6 t = t"
    using less_mask_eq [of t 6] by (simp add: take_bit_eq_mask)
  then show ?thesis
    using \<open>bit t n\<close> by (metis bit_take_bit_iff)
qed

text \<open>The bits of the code's masks.\<close>

lemma mask_bits:
  "bit (0x7F :: int) n \<longleftrightarrow> n < 7" "bit (0x3F :: int) n \<longleftrightarrow> n < 6"
  "bit (0x80 :: int) n \<longleftrightarrow> n = 7" "bit (0x40 :: int) n \<longleftrightarrow> n = 6"
proof -
  have "(0x7F :: int) = mask 7" "(0x3F :: int) = mask 6"
    "(0x80 :: int) = 2 ^ 7" "(0x40 :: int) = 2 ^ 6"
    by (simp_all add: mask_eq_exp_minus_1)
  then show "bit (0x7F :: int) n \<longleftrightarrow> n < 7" "bit (0x3F :: int) n \<longleftrightarrow> n < 6"
    "bit (0x80 :: int) n \<longleftrightarrow> n = 7" "bit (0x40 :: int) n \<longleftrightarrow> n = 6"
    by (simp_all only: bit_mask_iff bit_exp_iff) auto
qed

lemma cont_byte_high: "(ucast (cont_byte t) :: 64 word) AND 0x80 \<noteq> 0"
proof -
  have "bit ((ucast (cont_byte t) :: 64 word) AND 0x80) 7"
    by (simp add: cont_byte_def bit_simps)
  then show ?thesis by (metis bit_0_eq bot_apply bot_bool_def)
qed

lemma cont_byte_low: "(ucast (cont_byte t) :: 64 word) AND 0x7F = t AND 0x7F"
  by (rule byte64_eqI) (auto simp: cont_byte_def mask_bits bit_simps)

lemma last_byte_facts:
  assumes "t < 64"
  shows "(ucast (last_byte neg t) :: 64 word) AND 0x80 = 0"
    and "(ucast (last_byte neg t) :: 64 word) AND 0x3F = t"
    and "(ucast (last_byte neg t) :: 64 word) AND 0x40 \<noteq> 0 \<longleftrightarrow> neg"
proof -
  have no: "bit t n \<Longrightarrow> n < 6" "bit t n \<Longrightarrow> n < 7" "bit t n \<Longrightarrow> n < 8" "\<not> bit t 7" "\<not> bit t 6" for n
    using less_64_bit [OF assms, of n] less_64_bit [OF assms, of 6] less_64_bit [OF assms, of 7]
    by auto
  show "(ucast (last_byte neg t) :: 64 word) AND 0x80 = 0"
    by (rule byte64_eqI) (use no in \<open>auto simp: last_byte_def mask_bits bit_simps\<close>)
  show "(ucast (last_byte neg t) :: 64 word) AND 0x3F = t"
    by (rule byte64_eqI) (use no in \<open>auto simp: last_byte_def mask_bits bit_simps\<close>)
  have "(ucast (last_byte neg t) :: 64 word) AND 0x40 = (if neg then 0x40 else 0)"
    by (rule byte64_eqI) (use no in \<open>auto simp: last_byte_def mask_bits bit_simps\<close>)
  then show "(ucast (last_byte neg t) :: 64 word) AND 0x40 \<noteq> 0 \<longleftrightarrow> neg"
    by simp
qed


text \<open>What \<open>out_loop\<close> emits after a continuation byte, for the rest \<open>u\<close> of the number.\<close>

definition out_rest :: "bool \<Rightarrow> 64 word \<Rightarrow> byte list" where
  "out_rest neg u = (if u < 64 then [last_byte neg u] else out_loop neg u)"

lemma out_loop_rest: "out_loop neg t = cont_byte t # out_rest neg (drop_bit 7 t)"
  by (subst out_loop.simps) (simp add: out_rest_def Let_def)

lemma out_rest_simps:
  "u < 64 \<Longrightarrow> out_rest neg u = [last_byte neg u]"
  "\<not> u < 64 \<Longrightarrow> out_rest neg u = cont_byte u # out_rest neg (drop_bit 7 u)"
  by (simp_all add: out_rest_def out_loop_rest)

lemma or_push_split:
  "(acc OR push_bit p (u AND 0x7F)) OR push_bit (p + 7) (drop_bit 7 u) = acc OR push_bit p (u::64 word)"
proof (rule byte64_eqI)
  fix n :: nat
  assume "n < 64"
  then show "bit ((acc OR push_bit p (u AND 0x7F)) OR push_bit (p + 7) (drop_bit 7 u)) n =
      bit (acc OR push_bit p u) n"
    by (cases "n < p + 7") (auto simp: bit_simps mask_bits)
qed

lemma high_rest:
  assumes u: "\<And>n. 64 - p \<le> n \<Longrightarrow> \<not> bit u n" and p: "7 dvd p" "p < 64" and big: "\<not> (u::64 word) < 64"
  shows "p + 7 < 64" "64 - (p + 7) \<le> n \<Longrightarrow> \<not> bit (drop_bit 7 u) n"
proof -
  have "\<exists>n\<ge>6. bit u n"
  proof (rule ccontr)
    assume none: "\<not> (\<exists>n\<ge>6. bit u n)"
    have "u = u AND mask 6"
    proof (rule byte64_eqI)
      fix n
      show "bit u n = bit (u AND mask 6) n"
        using none by (cases "n < 6") (auto simp: bit_simps)
    qed
    then have "u < 2 ^ 6"
      using and_mask_less' [of 6 u] by simp
    with big show False by simp
  qed
  then obtain n where n: "6 \<le> n" "bit u n" by blast
  with u have "n < 64 - p" by (metis linorder_not_less)
  with n(1) have "p < 58" by simp
  moreover obtain k where "p = 7 * k"
    using p(1) by (rule dvdE)
  ultimately show "p + 7 < 64" by presburger
  show "64 - (p + 7) \<le> n \<Longrightarrow> \<not> bit (drop_bit 7 u) n" for n
    using u by (simp add: bit_simps)
qed

lemma in_loop_last:
  assumes "p < 64" "u < 64" "off < length buffer" "length buffer < 2 ^ 64"
    and "buffer ! off = last_byte neg u"
  shows "in_loop buffer off p acc =
    Inr (let t = acc OR push_bit p u in if neg then NOT t else t, Suc off)"
  using assms last_byte_facts [OF assms(2), of neg]
  by (subst in_loop.simps) (simp add: checkSpace_def Let_def)

lemma in_loop_cont:
  assumes "p < 64" "off < length buffer" "length buffer < 2 ^ 64" "buffer ! off = cont_byte u"
  shows "in_loop buffer off p acc =
    in_loop buffer (Suc off) (p + 7) (acc OR push_bit p (u AND 0x7F))"
  using assms cont_byte_high [of u] cont_byte_low [of u]
  by (subst in_loop.simps) (simp add: checkSpace_def Let_def)

lemma in_loop_out_rest:
  assumes "7 dvd p" "p < 64" "\<And>n. 64 - p \<le> n \<Longrightarrow> \<not> bit u n"
    and "length buffer < 2 ^ 64" "off \<le> length buffer" "drop off buffer = out_rest neg u @ post"
  shows "in_loop buffer off p acc =
     Inr (let t = acc OR push_bit p u in if neg then NOT t else t, off + length (out_rest neg u))"
  using assms
proof (induction "unat u" arbitrary: u p acc off rule: less_induct)
  case less
  have nth: "off < length buffer \<and> buffer ! off = x \<and> drop (Suc off) buffer = xs"
    if "drop off buffer = x # xs" for x xs
    using that by (metis Cons_nth_drop_Suc drop_eq_Nil2 linorder_not_less list.distinct(1) list.inject)
  show ?case
  proof (cases "u < 64")
    case True
    then show ?thesis
      using nth less.prems by (simp add: out_rest_simps in_loop_last)
  next
    case False
    note rest = out_rest_simps(2) [OF False, of neg]
    note hi = high_rest [OF less.prems(3) less.prems(1,2) False]
    have byte: "off < length buffer" "buffer ! off = cont_byte u"
      "drop (Suc off) buffer = out_rest neg (drop_bit 7 u) @ post"
      using nth less.prems(6) by (simp_all add: rest)
    have smaller: "unat (drop_bit 7 u) < unat u"
    proof -
      have "unat (drop_bit 7 u) = unat u div 128"
        by (simp add: drop_bit_eq_div unat_div_distrib)
      with False show ?thesis
        by (simp add: word_less_nat_alt)
    qed
    have "in_loop buffer (Suc off) (p + 7) (acc OR push_bit p (u AND 0x7F)) =
        Inr (let t = (acc OR push_bit p (u AND 0x7F)) OR push_bit (p + 7) (drop_bit 7 u)
             in if neg then NOT t else t, Suc off + length (out_rest neg (drop_bit 7 u)))"
      by (rule less.hyps [OF smaller]) (use hi less.prems byte in auto)
    then show ?thesis
      using less.prems(2,4) byte
      unfolding or_push_split by (simp add: in_loop_cont rest)
  qed
qed


lemma ucast_ucast_down:
  fixes v :: "'a::len word"
  assumes "LENGTH('a) \<le> 64"
  shows "ucast (ucast v :: 64 word) = v" and "ucast (scast v :: 64 word) = v"
proof -
  show "ucast (ucast v :: 64 word) = v"
    by (rule bit_word_eqI) (use assms in \<open>simp add: bit_simps\<close>)
  show "ucast (scast v :: 64 word) = v"
    by (rule bit_word_eqI) (use assms in \<open>auto simp add: bit_simps\<close>)
qed

lemma readRawInteger_core:
  fixes t :: "64 word"
  assumes "drop off buffer = (if \<not> neg \<and> t < 128 then [ucast t] else out_loop neg t) @ post"
    and "length buffer < 2 ^ 64"
  shows "readRawInteger buffer off = Inr (ucast (if neg then NOT t else t),
    off + length (if \<not> neg \<and> t < 128 then [ucast t :: byte] else out_loop neg t))"
proof -
  have nth: "off < length buffer \<and> buffer ! off = x \<and> drop (Suc off) buffer = xs"
    if "drop off buffer = x # xs" for x xs
    using that by (metis Cons_nth_drop_Suc drop_eq_Nil2 linorder_not_less list.distinct(1) list.inject)
  show ?thesis
  proof (cases "\<not> neg \<and> t < 128")
    case True
    then have "t AND mask 7 = t"
      by (intro less_mask_eq) simp
    then have "bit t n \<Longrightarrow> n < 7" for n
      by (metis bit_and_iff bit_mask_iff)
    then have "(ucast (ucast t :: byte) :: 64 word) = t"
      by (intro byte64_eqI) (fastforce simp: bit_simps)
    with True assms nth show ?thesis
      by (simp add: readRawInteger_def checkSpace_def Let_def)
  next
    case False
    let ?u = "drop_bit 7 t"
    from False assms(1) have byte: "off < length buffer" "buffer ! off = cont_byte t"
      "drop (Suc off) buffer = out_rest neg ?u @ post"
      using nth by (simp_all add: out_loop_rest split: if_splits)
    have "in_loop buffer (Suc off) 7 (t AND 0x7F) =
        Inr (let r = (t AND 0x7F) OR push_bit 7 ?u in if neg then NOT r else r,
             Suc off + length (out_rest neg ?u))"
      by (rule in_loop_out_rest) (use byte assms(2) in \<open>auto simp: bit_simps dest: bit_imp_le_length\<close>)
    moreover have "(t AND 0x7F) OR push_bit 7 ?u = t"
      using or_push_split [of 0 0 t] by simp
    moreover have "\<not> (ucast (cont_byte t) :: 64 word) < 128"
    proof
      assume "(ucast (cont_byte t) :: 64 word) < 128"
      then have "ucast (cont_byte t) AND mask 7 = (ucast (cont_byte t) :: 64 word)"
        by (intro less_mask_eq) simp
      then have "\<not> bit (ucast (cont_byte t) :: 64 word) 7"
        by (metis bit_and_iff bit_mask_iff less_irrefl)
      then show False by (simp add: cont_byte_def bit_simps)
    qed
    ultimately show ?thesis
      using False byte assms(2) cont_byte_low [of t]
      by (auto simp: readRawInteger_def checkSpace_def Let_def out_loop_rest)
  qed
qed

lemma readRawInteger_outRawInteger:
  fixes v :: "'a::len word"
  assumes "LENGTH('a) \<le> 64" and "length buffer < 2 ^ 64"
    and "drop off buffer = outRawInteger is_signed v @ post"
  shows "readRawInteger buffer off = Inr (v, off + length (outRawInteger is_signed v))"
proof -
  let ?neg = "sint v < 0"
  let ?t = "(if \<not> ?neg then ucast v else NOT (if is_signed then scast v else ucast v)) :: 64 word"
  have "ucast (if ?neg then NOT ?t else ?t) = v"
    by (simp add: ucast_ucast_down [OF assms(1)])
  then show ?thesis
    using readRawInteger_core [of off buffer ?neg ?t post, where ?'a = 'a] assms(2,3)
    by (simp only: outRawInteger_def Let_def)
qed

lemma outRawInteger_nonempty: "outRawInteger is_signed v \<noteq> []"
  by (simp add: outRawInteger_def Let_def out_loop_rest)

lemma in_loop_offset:
  "in_loop buffer off p t = Inr (r, off') \<Longrightarrow> off < off' \<and> off' \<le> length buffer"
proof (induction buffer off p t rule: in_loop.induct)
  case (1 buffer offset position t)
  then show ?case
    by (subst (asm) (2) in_loop.simps) (auto simp: Let_def split: if_splits)
qed

lemma readRawInteger_offset:
  "readRawInteger buffer off = Inr (v, off') \<Longrightarrow> off < off' \<and> off' \<le> length buffer"
  by (fastforce simp: readRawInteger_def Let_def split: if_splits sum.splits dest: in_loop_offset)

text \<open>No encoding is longer than ten bytes.\<close>

lemma length_out_rest:
  "7 dvd p \<Longrightarrow> p < 64 \<Longrightarrow> (\<And>n. 64 - p \<le> n \<Longrightarrow> \<not> bit u n) \<Longrightarrow>
     length (out_rest neg u) \<le> 10 - p div 7"
proof (induction "unat u" arbitrary: u p rule: less_induct)
  case less
  then have p: "p div 7 \<le> 9" by simp
  show ?case
  proof (cases "u < 64")
    case True
    with p show ?thesis by (simp add: out_rest_simps)
  next
    case False
    note hi = high_rest [OF less.prems(3) less.prems(1,2) False]
    have "unat (drop_bit 7 u) = unat u div 128"
      by (simp add: drop_bit_eq_div unat_div_distrib)
    with False have "unat (drop_bit 7 u) < unat u"
      by (simp add: word_less_nat_alt)
    then have "length (out_rest neg (drop_bit 7 u)) \<le> 10 - (p + 7) div 7"
      by (rule less.hyps) (use hi less.prems(1) in auto)
    with hi(1) p show ?thesis by (simp add: out_rest_simps False)
  qed
qed

lemma length_outRawInteger: "length (outRawInteger is_signed v) \<le> 10"
proof -
  have "length (out_rest neg (drop_bit 7 t)) \<le> 10 - 7 div 7" for neg t
    by (rule length_out_rest) (auto simp: bit_simps dest: bit_imp_le_length)
  then show ?thesis
    by (simp add: outRawInteger_def Let_def out_loop_rest)
qed

end
