(* ===== verification/Stream.thy ===== *)
theory Stream
  imports Raw_Integer Text
begin

text \<open>
  The typed streams of \<open>chatra_core/Serialize.h\<close> and \<open>Serialize.cpp\<close>: \<open>Writer::out\<close> and
  \<open>Reader::read\<close> for integers, enums, truth values, floats, strings, byte vectors and lists, and the
  chunked container written by \<open>getBytes\<close> and read by \<open>parse\<close>. The flag \<open>debug\<close> selects the build
  without \<open>CHATRA_NDEBUG\<close>, which writes a marker and a type tag before every value.
  A reader takes the buffer and the offset and returns the value and the new offset.
\<close>

definition rret :: "'a \<Rightarrow> 'a reader" where
  "rret x buffer offset = Inr (x, offset)"

definition rbind :: "'a reader \<Rightarrow> ('a \<Rightarrow> 'b reader) \<Rightarrow> 'b reader" where
  "rbind g f buffer offset =
     (case g buffer offset of Inl e \<Rightarrow> Inl e | Inr (x, off) \<Rightarrow> f x buffer off)"

definition rfail :: "exn \<Rightarrow> 'a reader" where
  "rfail e buffer offset = Inl e"

text \<open>
  \<open>decodes g bs x\<close>: wherever the bytes \<open>bs\<close> stand in a buffer, the reader \<open>g\<close> takes exactly them
  and returns \<open>x\<close>. This is the round-trip law of every pair below.
\<close>

definition decodes :: "'a reader \<Rightarrow> byte list \<Rightarrow> 'a \<Rightarrow> bool" where
  "decodes g bs x \<longleftrightarrow>
     (\<forall>buffer off post. length buffer < 2 ^ 64 \<longrightarrow> off \<le> length buffer \<longrightarrow>
        drop off buffer = bs @ post \<longrightarrow> g buffer off = Inr (x, off + length bs))"

text \<open>\<open>advances g\<close>: a successful read moves the offset forward and stays inside the buffer.\<close>

definition advances :: "'a reader \<Rightarrow> bool" where
  "advances g \<longleftrightarrow> (\<forall>buffer off x off'. g buffer off = Inr (x, off') \<longrightarrow>
     off < off' \<and> off' \<le> length buffer)"

lemma decodesI:
  "(\<And>buffer off post. length buffer < 2 ^ 64 \<Longrightarrow> off \<le> length buffer \<Longrightarrow>
      drop off buffer = bs @ post \<Longrightarrow> g buffer off = Inr (x, off + length bs)) \<Longrightarrow> decodes g bs x"
  by (simp add: decodes_def)

lemma decodesD:
  "decodes g bs x \<Longrightarrow> length buffer < 2 ^ 64 \<Longrightarrow> off \<le> length buffer \<Longrightarrow>
     drop off buffer = bs @ post \<Longrightarrow> g buffer off = Inr (x, off + length bs)"
  by (simp add: decodes_def)

lemma decodes_rret [simp]: "decodes (rret x) [] x"
  by (simp add: decodes_def rret_def)

lemma decodes_rbind:
  assumes g: "decodes g bs x" and f: "decodes (f x) cs y"
  shows "decodes (rbind g f) (bs @ cs) y"
proof (rule decodesI)
  fix buffer :: "byte list" and off :: nat and post
  assume len: "length buffer < 2 ^ 64" "off \<le> length buffer"
    and d: "drop off buffer = (bs @ cs) @ post"
  have "length (drop off buffer) = length ((bs @ cs) @ post)"
    using d by (rule arg_cong)
  with len have inside: "off + length bs \<le> length buffer"
    by simp
  have "drop (off + length bs) buffer = drop (length bs) (drop off buffer)"
    by (simp add: add.commute)
  also have "\<dots> = cs @ post"
    by (simp add: d)
  finally show "rbind g f buffer off = Inr (y, off + length (bs @ cs))"
    using decodesD [OF g len, of "cs @ post"] decodesD [OF f len(1) inside, of post] d
    by (simp add: rbind_def)
qed

text \<open>\<open>safe g\<close>: a successful read does not move the offset back or out of the buffer.\<close>

definition safe :: "'a reader \<Rightarrow> bool" where
  "safe g \<longleftrightarrow> (\<forall>buffer off x off'. off \<le> length buffer \<longrightarrow> g buffer off = Inr (x, off') \<longrightarrow>
     off \<le> off' \<and> off' \<le> length buffer)"

lemma safeI:
  "(\<And>buffer off x off'. off \<le> length buffer \<Longrightarrow> g buffer off = Inr (x, off') \<Longrightarrow>
      off \<le> off' \<and> off' \<le> length buffer) \<Longrightarrow> safe g"
  unfolding safe_def by blast

lemma safeD: "safe g \<Longrightarrow> off \<le> length buffer \<Longrightarrow> g buffer off = Inr (x, off') \<Longrightarrow>
    off \<le> off' \<and> off' \<le> length buffer"
  unfolding safe_def by blast

lemma advancesI:
  "(\<And>buffer off x off'. g buffer off = Inr (x, off') \<Longrightarrow>
      off < off' \<and> off' \<le> length buffer) \<Longrightarrow> advances g"
  unfolding advances_def by blast

lemma advancesD: "advances g \<Longrightarrow> g buffer off = Inr (x, off') \<Longrightarrow> off < off' \<and> off' \<le> length buffer"
  unfolding advances_def by blast

lemma safe_rret [simp]: "safe (rret x)" and safe_rfail [simp]: "safe (rfail e)"
  by (auto simp: safe_def rret_def rfail_def)

lemma advances_safe: "advances g \<Longrightarrow> safe g"
  by (rule safeI) (auto dest: advancesD)

lemma rbind_InrE:
  assumes "rbind g f buffer off = Inr (x, off')"
  obtains y o1 where "g buffer off = Inr (y, o1)" "f y buffer o1 = Inr (x, off')"
  using assms by (auto simp: rbind_def split: sum.splits)

lemma safe_rbind:
  assumes "safe g" and "\<And>x. safe (f x)"
  shows "safe (rbind g f)"
proof (rule safeI)
  fix buffer :: "byte list" and off x off'
  assume off: "off \<le> length buffer" and "rbind g f buffer off = Inr (x, off')"
  then obtain y o1 where "g buffer off = Inr (y, o1)" and f: "f y buffer o1 = Inr (x, off')"
    by (elim rbind_InrE)
  with assms(1) off have "off \<le> o1" "o1 \<le> length buffer"
    by (auto dest: safeD)
  with safeD [OF assms(2) this(2) f] show "off \<le> off' \<and> off' \<le> length buffer"
    by simp
qed

lemma advances_rbind:
  assumes "advances g" and "\<And>x. safe (f x)"
  shows "advances (rbind g f)"
proof (rule advancesI)
  fix buffer :: "byte list" and off x off'
  assume "rbind g f buffer off = Inr (x, off')"
  then obtain y o1 where "g buffer off = Inr (y, o1)" and f: "f y buffer o1 = Inr (x, off')"
    by (elim rbind_InrE)
  with assms(1) have "off < o1" "o1 \<le> length buffer"
    by (auto dest: advancesD)
  with safeD [OF assms(2) this(2) f] show "off < off' \<and> off' \<le> length buffer"
    by simp
qed

subsection \<open>Type tags\<close>

definition tagMarker :: "16 word" where
  "tagMarker = 0xB5A6"

definition saveTypeTag :: "bool \<Rightarrow> 32 word \<Rightarrow> byte list" where
  "saveTypeTag debug tag =
     (if debug then outRawInteger False tagMarker @ outRawInteger False tag else [])"

definition restoreTypeTag :: "bool \<Rightarrow> 32 word \<Rightarrow> unit reader" where
  "restoreTypeTag debug tag =
     (if debug then
        rbind readRawInteger (\<lambda>marker.
          if marker \<noteq> tagMarker then rfail IllegalArgument
          else rbind readRawInteger (\<lambda>foundTag.
            if foundTag \<noteq> tag then rfail IllegalArgument else rret ()))
      else rret ())"

lemma decodes_raw:
  fixes v :: "'a::len word"
  assumes "LENGTH('a) \<le> 64"
  shows "decodes readRawInteger (outRawInteger is_signed v) v"
  by (rule decodesI) (simp add: readRawInteger_outRawInteger assms)

lemma advances_raw: "advances readRawInteger"
  unfolding advances_def using readRawInteger_offset by blast

lemma decodes_tag: "decodes (restoreTypeTag debug tag) (saveTypeTag debug tag) ()"
proof (cases debug)
  case True
  have "decodes (rbind readRawInteger (\<lambda>foundTag.
      if foundTag \<noteq> tag then rfail IllegalArgument else rret ())) (outRawInteger False tag @ []) ()"
    by (rule decodes_rbind [where x = tag]) (simp_all add: decodes_raw)
  with True show ?thesis
    unfolding restoreTypeTag_def saveTypeTag_def
    by (simp del: append_Nil2) (rule decodes_rbind [where x = tagMarker], simp_all add: decodes_raw)
qed (simp add: restoreTypeTag_def saveTypeTag_def)

text \<open>A tag is read before the value: the combination of the two.\<close>

definition tagged :: "bool \<Rightarrow> 32 word \<Rightarrow> 'a reader \<Rightarrow> 'a reader" where
  "tagged debug tag g = rbind (restoreTypeTag debug tag) (\<lambda>_. g)"

lemma decodes_tagged:
  "decodes g bs x \<Longrightarrow> decodes (tagged debug tag g) (saveTypeTag debug tag @ bs) x"
  unfolding tagged_def by (rule decodes_rbind [OF decodes_tag])

lemma restoreTypeTag_True: "advances (restoreTypeTag True tag)"
proof -
  let ?check = "\<lambda>foundTag. if foundTag \<noteq> tag then rfail IllegalArgument else rret ()"
  have "safe (?check foundTag)" for foundTag
    by simp
  then have "safe (rbind readRawInteger ?check)"
    by (rule advances_safe [OF advances_rbind [OF advances_raw]])
  then have "safe (if marker \<noteq> tagMarker then rfail IllegalArgument
      else rbind readRawInteger ?check)" for marker
    by simp
  then show ?thesis
    unfolding restoreTypeTag_def if_True by (rule advances_rbind [OF advances_raw])
qed

lemma advances_tagged:
  assumes "advances g"
  shows "advances (tagged debug tag g)"
proof (cases debug)
  case True
  then show ?thesis
    using advances_rbind [OF restoreTypeTag_True, of "\<lambda>_. g" tag] advances_safe [OF assms]
    by (simp add: tagged_def)
next
  case False
  then show ?thesis
    using assms by (intro advancesI) (auto simp: tagged_def restoreTypeTag_def rbind_def rret_def
        dest: advancesD)
qed

subsection \<open>Scalars\<close>

definition out_integer :: "bool \<Rightarrow> bool \<Rightarrow> 'a::len word \<Rightarrow> byte list" where
  "out_integer debug is_signed v = saveTypeTag debug 6 @ outRawInteger is_signed v"

definition read_integer :: "bool \<Rightarrow> 'a::len word reader" where
  "read_integer debug = tagged debug 6 readRawInteger"

definition out_bool :: "bool \<Rightarrow> bool \<Rightarrow> byte list" where
  "out_bool debug b = saveTypeTag debug 5 @ out_integer debug True (if b then 1 else 0 :: 32 word)"

definition read_bool :: "bool \<Rightarrow> bool reader" where
  "read_bool debug =
     tagged debug 5 (rbind (read_integer debug) (\<lambda>t :: 32 word.
       if t \<noteq> 0 \<and> t \<noteq> 1 then rfail IllegalArgument else rret (t \<noteq> 0)))"

definition out_enum :: "bool \<Rightarrow> bool \<Rightarrow> 'a::len word \<Rightarrow> byte list" where
  "out_enum debug is_signed v = saveTypeTag debug 8 @ out_integer debug is_signed v"

definition read_enum :: "bool \<Rightarrow> 'a::len word reader" where
  "read_enum debug = tagged debug 8 (read_integer debug)"

text \<open>A \<open>double\<close> is stored as the eight bytes it has in memory, which stand for it here.\<close>

definition out_float :: "bool \<Rightarrow> byte list \<Rightarrow> byte list" where
  "out_float debug v = saveTypeTag debug 7 @ v"

definition read_float :: "bool \<Rightarrow> byte list reader" where
  "read_float debug = tagged debug 7 (\<lambda>buffer offset.
     if \<not> checkSpace buffer offset 8 then Inl IllegalArgument
     else if length buffer < offset + 8 then Inl OutOfRange
     else Inr (take 8 (drop offset buffer), offset + 8))"

lemma decodes_integer:
  fixes v :: "'a::len word"
  assumes "LENGTH('a) \<le> 64"
  shows "decodes (read_integer debug) (out_integer debug is_signed v) v"
  unfolding read_integer_def out_integer_def by (intro decodes_tagged decodes_raw assms)

lemma advances_integer: "advances (read_integer debug)"
  unfolding read_integer_def by (intro advances_tagged advances_raw)

lemma decodes_bool: "decodes (read_bool debug) (out_bool debug b) b"
proof -
  let ?v = "if b then 1 else 0 :: 32 word"
  have "decodes (rbind (read_integer debug) (\<lambda>t :: 32 word.
      if t \<noteq> 0 \<and> t \<noteq> 1 then rfail IllegalArgument else rret (t \<noteq> 0))) (out_integer debug True ?v @ []) b"
    by (rule decodes_rbind [where x = ?v]) (auto simp: decodes_integer)
  then show ?thesis
    unfolding read_bool_def out_bool_def by (auto intro: decodes_tagged)
qed

lemma decodes_enum:
  fixes v :: "'a::len word"
  assumes "LENGTH('a) \<le> 64"
  shows "decodes (read_enum debug) (out_enum debug is_signed v) v"
  unfolding read_enum_def out_enum_def by (intro decodes_tagged decodes_integer assms)

lemma decodes_float:
  assumes "length v = 8"
  shows "decodes (read_float debug) (out_float debug v) v"
  unfolding read_float_def out_float_def
proof (intro decodes_tagged decodesI)
  fix buffer :: "byte list" and off :: nat and post
  assume len: "length buffer < 2 ^ 64" "off \<le> length buffer" and d: "drop off buffer = v @ post"
  have "length (drop off buffer) = length (v @ post)"
    using d by (rule arg_cong)
  with len assms have "off + 8 + length post = length buffer"
    by simp
  with len d assms show "(if \<not> checkSpace buffer off 8 then Inl IllegalArgument
      else if length buffer < off + 8 then Inl OutOfRange
      else Inr (take 8 (drop off buffer), off + 8)) = Inr (v, off + length v)"
    by (simp add: checkSpace_def)
qed

subsection \<open>Strings, byte vectors and lists\<close>

text \<open>
  \<open>buffer->at(offset++)\<close> in a loop: \<open>at\<close> checks the index. For byte vectors the code builds an
  iterator range instead, which is not defined when it leaves the buffer.
\<close>

fun read_chars :: "nat \<Rightarrow> string reader" where
  "read_chars 0 buffer offset = Inr ([], offset)"
| "read_chars (Suc n) buffer offset =
     (if length buffer \<le> offset then Inl OutOfRange
      else
        case read_chars n buffer (Suc offset) of
          Inl e \<Rightarrow> Inl e
        | Inr (cs, off) \<Rightarrow> Inr (char_of (unat (buffer ! offset)) # cs, off))"

definition out_string :: "bool \<Rightarrow> string \<Rightarrow> byte list" where
  "out_string debug s =
     saveTypeTag debug 9 @ out_integer debug False (word_of_nat (length s) :: 64 word) @
     List.map byte_of s"

definition read_string :: "bool \<Rightarrow> string reader" where
  "read_string debug =
     tagged debug 9 (rbind (read_integer debug) (\<lambda>n :: 64 word. \<lambda>buffer offset.
       if \<not> checkSpace buffer offset (unat n) then Inl IllegalArgument
       else read_chars (unat n) buffer offset))"

definition out_bytes :: "bool \<Rightarrow> byte list \<Rightarrow> byte list" where
  "out_bytes debug bs =
     saveTypeTag debug 13 @ out_integer debug False (word_of_nat (length bs) :: 64 word) @ bs"

definition read_bytes :: "bool \<Rightarrow> byte list reader" where
  "read_bytes debug =
     tagged debug 13 (rbind (read_integer debug) (\<lambda>n :: 64 word. \<lambda>buffer offset.
       if \<not> checkSpace buffer offset (unat n) then Inl IllegalArgument
       else if length buffer < offset + unat n then Inl OutOfRange
       else Inr (take (unat n) (drop offset buffer), offset + unat n)))"

definition out_list :: "bool \<Rightarrow> ('a \<Rightarrow> byte list) \<Rightarrow> 'a list \<Rightarrow> byte list" where
  "out_list debug out xs =
     saveTypeTag debug 12 @ out_integer debug True (word_of_nat (length xs) :: 64 word) @
     concat (List.map out xs)"

text \<open>The overload with a predicate counts the selected elements first.\<close>

definition out_list_if :: "bool \<Rightarrow> ('a \<Rightarrow> bool) \<Rightarrow> ('a \<Rightarrow> byte list) \<Rightarrow> 'a list \<Rightarrow> byte list" where
  "out_list_if debug predicate out xs =
     saveTypeTag debug 12 @
     out_integer debug False (word_of_nat (foldl (\<lambda>n x. if predicate x then Suc n else n) 0 xs) :: 64 word) @
     concat (List.map (\<lambda>x. if predicate x then out x else []) xs)"

fun read_times :: "nat \<Rightarrow> 'a reader \<Rightarrow> 'a list reader" where
  "read_times 0 g = rret []"
| "read_times (Suc n) g = rbind g (\<lambda>x. rbind (read_times n g) (\<lambda>xs. rret (x # xs)))"

definition read_list :: "bool \<Rightarrow> 'a reader \<Rightarrow> 'a list reader" where
  "read_list debug g =
     tagged debug 12 (rbind (read_integer debug) (\<lambda>n :: 64 word. read_times (unat n) g))"

lemma drop_append_le:
  assumes "drop off buffer = bs @ post" "off \<le> length buffer"
  shows "off + length bs + length post = length buffer"
proof -
  have "length (drop off buffer) = length (bs @ post)"
    using assms(1) by (rule arg_cong)
  with assms(2) show ?thesis by simp
qed

lemma char_of_byte_of: "char_of (unat (byte_of c)) = c"
  by (simp add: byte_of_def unsigned_of_nat take_bit_nat_def)

lemma read_chars_decodes: "decodes (read_chars (length s)) (List.map byte_of s) s"
proof (induction s)
  case Nil
  then show ?case by (simp add: decodes_def)
next
  case (Cons c s)
  show ?case
  proof (rule decodesI)
    fix buffer :: "byte list" and off :: nat and post
    assume len: "length buffer < 2 ^ 64" "off \<le> length buffer"
      and d: "drop off buffer = List.map byte_of (c # s) @ post"
    have off: "off < length buffer"
      using drop_append_le [OF d len(2)] by simp
    then have b: "buffer ! off = byte_of c" and d': "drop (Suc off) buffer = List.map byte_of s @ post"
      using d by (simp_all flip: Cons_nth_drop_Suc)
    from off show "read_chars (length (c # s)) buffer off =
        Inr (c # s, off + length (List.map byte_of (c # s)))"
      using decodesD [OF Cons.IH len(1) _ d'] b by (simp add: char_of_byte_of)
  qed
qed

lemma decodes_string:
  assumes "length s < 2 ^ 64"
  shows "decodes (read_string debug) (out_string debug s) s"
proof -
  let ?n = "word_of_nat (length s) :: 64 word"
  have n: "unat ?n = length s"
    using assms by (simp add: unat_of_nat)
  have "decodes (\<lambda>buffer offset. if \<not> checkSpace buffer offset (unat ?n) then Inl IllegalArgument
      else read_chars (unat ?n) buffer offset) (List.map byte_of s) s"
  proof (rule decodesI)
    fix buffer :: "byte list" and off :: nat and post
    assume len: "length buffer < 2 ^ 64" "off \<le> length buffer"
      and d: "drop off buffer = List.map byte_of s @ post"
    show "(if \<not> checkSpace buffer off (unat ?n) then Inl IllegalArgument
        else read_chars (unat ?n) buffer off) = Inr (s, off + length (List.map byte_of s))"
      using decodesD [OF read_chars_decodes len d] drop_append_le [OF d len(2)] len(1)
      by (simp add: n checkSpace_def)
  qed
  then show ?thesis
    unfolding read_string_def out_string_def
    by (intro decodes_tagged decodes_rbind [where x = ?n] decodes_integer) simp_all
qed

lemma decodes_bytes:
  assumes "length bs < 2 ^ 64"
  shows "decodes (read_bytes debug) (out_bytes debug bs) bs"
proof -
  let ?n = "word_of_nat (length bs) :: 64 word"
  have n: "unat ?n = length bs"
    using assms by (simp add: unat_of_nat)
  have "decodes (\<lambda>buffer offset. if \<not> checkSpace buffer offset (unat ?n) then Inl IllegalArgument
      else if length buffer < offset + unat ?n then Inl OutOfRange
      else Inr (take (unat ?n) (drop offset buffer), offset + unat ?n)) bs bs"
  proof (rule decodesI)
    fix buffer :: "byte list" and off :: nat and post
    assume len: "length buffer < 2 ^ 64" "off \<le> length buffer"
      and d: "drop off buffer = bs @ post"
    show "(if \<not> checkSpace buffer off (unat ?n) then Inl IllegalArgument
      else if length buffer < off + unat ?n then Inl OutOfRange
      else Inr (take (unat ?n) (drop off buffer), off + unat ?n)) = Inr (bs, off + length bs)"
      using drop_append_le [OF d len(2)] len(1) d by (simp add: n checkSpace_def)
  qed
  then show ?thesis
    unfolding read_bytes_def out_bytes_def
    by (intro decodes_tagged decodes_rbind [where x = ?n] decodes_integer) simp_all
qed


lemma read_chars_safe: "safe (read_chars n)"
proof (induction n)
  case 0
  then show ?case by (rule safeI) simp
next
  case (Suc n)
  show ?case
  proof (rule safeI)
    fix buffer :: "byte list" and off x off'
    assume "off \<le> length buffer" and r: "read_chars (Suc n) buffer off = Inr (x, off')"
    then obtain cs where "Suc off \<le> length buffer" "read_chars n buffer (Suc off) = Inr (cs, off')"
      by (cases "read_chars n buffer (Suc off)") (simp_all split: if_splits prod.splits)
    from safeD [OF Suc.IH this] show "off \<le> off' \<and> off' \<le> length buffer"
      by simp
  qed
qed

lemma advances_string: "advances (read_string debug)"
proof -
  have "safe (\<lambda>buffer offset. if \<not> checkSpace buffer offset (unat n) then Inl IllegalArgument
      else read_chars (unat n) buffer offset)" for n :: "64 word"
    by (rule safeI) (auto split: if_splits dest: safeD [OF read_chars_safe])
  then show ?thesis
    unfolding read_string_def by (intro advances_tagged advances_rbind advances_integer)
qed

subsection \<open>Element codecs\<close>

text \<open>
  What the list operations need of the element writer and the element reader they are given, and
  what they then promise.
\<close>

locale codec =
  fixes put :: "'a \<Rightarrow> byte list"
    and get :: "'a reader"
    and ok :: "'a \<Rightarrow> bool"
  assumes get_put: "ok x \<Longrightarrow> decodes get (put x) x"
begin

lemma decodes_times:
  "\<forall>x \<in> set xs. ok x \<Longrightarrow>
     decodes (read_times (length xs) get) (concat (List.map put xs)) xs"
proof (induction xs)
  case (Cons x xs)
  then have "decodes (rbind (read_times (length xs) get) (\<lambda>ys. rret (x # ys)))
      (concat (List.map put xs) @ []) (x # xs)"
    by (intro decodes_rbind [where x = xs]) simp_all
  with Cons.prems show ?case
    by simp (rule decodes_rbind [OF get_put], simp_all)
qed simp

lemma decodes_list:
  assumes "\<forall>x \<in> set xs. ok x" "length xs < 2 ^ 64"
  shows "decodes (read_list debug get) (out_list debug put xs) xs"
proof -
  let ?n = "word_of_nat (length xs) :: 64 word"
  have n: "unat ?n = length xs"
    using assms by (simp add: unat_of_nat)
  show ?thesis
    unfolding read_list_def out_list_def
    by (intro decodes_tagged decodes_rbind [where x = ?n] decodes_integer)
      (use decodes_times [OF assms(1)] n in simp_all)
qed

lemma count_selected:
  "foldl (\<lambda>n x. if P x then Suc n else n) k xs = k + length (filter P xs)"
  by (induction xs arbitrary: k) auto

lemma out_selected:
  "concat (List.map (\<lambda>x. if P x then put x else []) xs) = concat (List.map put (filter P xs))"
  by (induction xs) auto

text \<open>A list written with a predicate is read back as the selected elements.\<close>

lemma decodes_list_if:
  assumes "\<forall>x \<in> set xs. P x \<longrightarrow> ok x" "length xs < 2 ^ 64"
  shows "decodes (read_list debug get) (out_list_if debug P put xs) (filter P xs)"
proof -
  let ?ys = "filter P xs"
  let ?n = "word_of_nat (length ?ys) :: 64 word"
  have ok: "\<forall>x \<in> set ?ys. ok x"
    using assms by simp
  have "length ?ys < 2 ^ 64"
    using assms(2) le_less_trans length_filter_le by blast
  then have n: "unat ?n = length ?ys"
    by (simp add: unat_of_nat)
  show ?thesis
    unfolding read_list_def out_list_if_def count_selected out_selected add_0
    by (intro decodes_tagged decodes_rbind [where x = ?n] decodes_integer)
      (use decodes_times [OF ok] n in simp_all)
qed

end

interpretation int64: codec "out_integer debug is_signed" "read_integer debug"
    "\<lambda>v :: 64 word. True" for debug is_signed
  by unfold_locales (rule decodes_integer, simp)

interpretation int32: codec "out_integer debug is_signed" "read_integer debug"
    "\<lambda>v :: 32 word. True" for debug is_signed
  by unfold_locales (rule decodes_integer, simp)

interpretation boolean: codec "out_bool debug" "read_bool debug" "\<lambda>b. True" for debug
  by unfold_locales (rule decodes_bool)

interpretation stored_text: codec "out_string debug" "read_string debug"
    "\<lambda>s. length s < 2 ^ 64" for debug
  by unfold_locales (rule decodes_string)

end
