(* ===== verification/Archive.thy ===== *)
theory Archive
  imports Stream
begin

text \<open>
  The chunked container of \<open>Serialize.h\<close> and \<open>Serialize.cpp\<close>: \<open>Writer::select\<close>, \<open>getBytes\<close>,
  \<open>Reader::parse\<close> and \<open>Reader::select\<close>, the resynchronisation markers, and the numbering of
  pointers. An unordered map is an association list with distinct keys; its order is the order the
  code's loop over it happens to visit, so a statement about every list is one about every order.
\<close>

type_synonym chunk_map = "(string \<times> byte list) list"

subsection \<open>Writer\<close>

record writer =
  w_chunks :: chunk_map
  w_current :: string

definition new_writer :: writer where
  "new_writer = \<lparr>w_chunks = [([], [])], w_current = []\<rparr>"

definition w_select :: "string \<Rightarrow> writer \<Rightarrow> writer" where
  "w_select chunk w = w\<lparr>w_chunks := um_emplace chunk [] (w_chunks w), w_current := chunk\<rparr>"

text \<open>Every \<open>out\<close> appends its bytes to the selected buffer.\<close>

definition w_emit :: "byte list \<Rightarrow> writer \<Rightarrow> writer" where
  "w_emit bs w = w\<lparr>w_chunks := List.map (\<lambda>(name, b).
     (name, if name = w_current w then b @ bs else b)) (w_chunks w)\<rparr>"

definition out_chunk :: "bool \<Rightarrow> string \<times> byte list \<Rightarrow> byte list" where
  "out_chunk debug e =
     out_string debug (fst e) @
     out_integer debug False (word_of_nat (length (snd e)) :: 64 word) @ snd e"

definition getBytes :: "bool \<Rightarrow> 32 word \<Rightarrow> chunk_map \<Rightarrow> byte list" where
  "getBytes debug version chunks =
     out_integer debug False version @ concat (List.map (out_chunk debug) chunks)"

subsection \<open>Reader\<close>

record reader_state =
  r_chunks :: chunk_map
  r_buffer :: "byte list"
  r_offset :: nat

lemma read_string_moves:
  "read_string debug buffer off = Inr (x, off') \<Longrightarrow> off < off' \<and> off' \<le> length buffer"
  using advancesD [OF advances_string] .

lemma read_integer_moves:
  "read_integer debug buffer off = Inr (x, off') \<Longrightarrow> off < off' \<and> off' \<le> length buffer"
  using advancesD [OF advances_integer] .

text \<open>
  The loop of \<open>parse\<close>. The iterator range of the chunk is not compared with the end of the buffer
  by the code: leaving the buffer is \<open>OutOfRange\<close>, which stands for undefined behaviour.
\<close>

function parse_chunks :: "bool \<Rightarrow> byte list \<Rightarrow> nat \<Rightarrow> chunk_map \<Rightarrow> chunk_map result" where
  "parse_chunks debug buffer offset chunks =
     (if length buffer \<le> offset then Inr chunks
      else
        case read_string debug buffer offset of
          Inl e \<Rightarrow> Inl e
        | Inr (chunk, off1) \<Rightarrow>
            (case read_integer debug buffer off1 of
               Inl e \<Rightarrow> Inl e
             | Inr (n, off2) \<Rightarrow>
                 let chunkSize = unat (n :: 64 word) in
                 if length buffer < off2 + chunkSize then Inl OutOfRange
                 else parse_chunks debug buffer (off2 + chunkSize)
                        (um_emplace chunk (take chunkSize (drop off2 buffer)) chunks)))"
  by pat_completeness auto
termination
proof (relation "measure (\<lambda>(debug, buffer, offset, chunks). length buffer - offset)", goal_cases)
  case 1
  then show ?case by simp
next
  case (2 debug buffer offset chunks p chunk off1 q size off2 chunkSize)
  then have "offset < off1" "off1 < off2"
    using read_string_moves read_integer_moves by fastforce+
  with 2 show ?case by simp
qed

declare parse_chunks.simps [simp del]

definition r_select :: "string \<Rightarrow> chunk_map \<Rightarrow> reader_state result" where
  "r_select chunk chunks =
     (case map_of chunks chunk of
        None \<Rightarrow> Inl IllegalArgument
      | Some bytes \<Rightarrow> Inr \<lparr>r_chunks = chunks, r_buffer = bytes, r_offset = 0\<rparr>)"

definition parse_archive :: "bool \<Rightarrow> 32 word \<Rightarrow> byte list \<Rightarrow> reader_state result" where
  "parse_archive debug expectedVersion bytes =
     (case read_integer debug bytes 0 of
        Inl e \<Rightarrow> Inl e
      | Inr (version, offset) \<Rightarrow>
          if version \<noteq> expectedVersion then Inl IllegalArgument
          else
            case parse_chunks debug bytes offset [] of
              Inl e \<Rightarrow> Inl e
            | Inr chunks \<Rightarrow> r_select [] chunks)"

definition archive_ok :: "bool \<Rightarrow> chunk_map \<Rightarrow> bool" where
  "archive_ok debug chunks \<longleftrightarrow> distinct (List.map fst chunks) \<and>
     (\<forall>e \<in> set chunks. length (fst e) < 2 ^ 64 \<and> length (snd e) < 2 ^ 64)"

subsection \<open>Round trip\<close>

lemma out_string_nonempty: "out_string debug s \<noteq> []"
  by (simp add: out_string_def out_integer_def outRawInteger_nonempty)

lemma parse_chunks_one:
  assumes "length buffer < 2 ^ 64" "offset \<le> length buffer"
    and d: "drop offset buffer = out_chunk debug e @ post"
    and ok: "length (fst e) < 2 ^ 64" "length (snd e) < 2 ^ 64"
  shows "parse_chunks debug buffer offset chunks =
    parse_chunks debug buffer (offset + length (out_chunk debug e))
      (um_emplace (fst e) (snd e) chunks)"
proof -
  let ?n = "word_of_nat (length (snd e)) :: 64 word"
  let ?s = "out_string debug (fst e)"
  let ?i = "out_integer debug False ?n"
  have n: "unat ?n = length (snd e)"
    using ok by (simp add: unat_of_nat)
  have d1: "drop offset buffer = ?s @ (?i @ snd e @ post)"
    using d by (simp add: out_chunk_def)
  note l1 = drop_append_le [OF d1 assms(2)]
  have "drop (offset + length ?s) buffer = drop (length ?s) (drop offset buffer)"
    by (simp add: add.commute)
  also have "\<dots> = ?i @ (snd e @ post)"
    by (simp only: d1 append_eq_conv_conj) simp
  finally have d2: "drop (offset + length ?s) buffer = ?i @ (snd e @ post)" .
  have "drop (offset + length ?s + length ?i) buffer = drop (length ?i) (drop (offset + length ?s) buffer)"
    by (simp add: ac_simps)
  also have "\<dots> = snd e @ post"
    by (simp only: d2) simp
  finally have d3: "drop (offset + length ?s + length ?i) buffer = snd e @ post" .
  have "0 < length ?s"
    using out_string_nonempty by blast
  then have off: "offset < length buffer"
    using l1 by linarith
  have i: "read_integer debug buffer (offset + length ?s) = Inr (?n, offset + length ?s + length ?i)"
    by (rule decodesD [OF decodes_integer assms(1) _ d2]) (use l1 in simp_all)
  from decodesD [OF decodes_string [OF ok(1)] assms(1,2) d1] i off l1 show ?thesis
    by (subst parse_chunks.simps) (simp add: n d3 [unfolded add.assoc] Let_def out_chunk_def add.assoc)
qed

lemma parse_chunks_concat:
  assumes "length buffer < 2 ^ 64" "offset \<le> length buffer"
    and "drop offset buffer = concat (List.map (out_chunk debug) es)"
    and "\<forall>e \<in> set es. length (fst e) < 2 ^ 64 \<and> length (snd e) < 2 ^ 64"
  shows "parse_chunks debug buffer offset chunks =
    Inr (foldl (\<lambda>m e. um_emplace (fst e) (snd e) m) chunks es)"
  using assms(2-)
proof (induction es arbitrary: offset chunks)
  case Nil
  then show ?case by (simp add: parse_chunks.simps)
next
  case (Cons e es)
  have d: "drop offset buffer = out_chunk debug e @ concat (List.map (out_chunk debug) es)"
    using Cons.prems by simp
  note l = drop_append_le [OF d Cons.prems(1)]
  have d': "drop (offset + length (out_chunk debug e)) buffer = concat (List.map (out_chunk debug) es)"
    by (metis add.commute append_eq_conv_conj d drop_drop)
  have "parse_chunks debug buffer offset chunks =
      parse_chunks debug buffer (offset + length (out_chunk debug e)) (um_emplace (fst e) (snd e) chunks)"
    by (rule parse_chunks_one [OF assms(1) Cons.prems(1) d]) (use Cons.prems(3) in simp_all)
  also have "\<dots> = Inr (foldl (\<lambda>m e. um_emplace (fst e) (snd e) m) chunks (e # es))"
    using Cons.IH [OF _ d'] Cons.prems(3) l by simp
  finally show ?case .
qed

lemma foldl_emplace_fresh:
  "distinct (List.map fst m @ List.map fst es) \<Longrightarrow>
     foldl (\<lambda>m e. um_emplace (fst e) (snd e) m) m es = m @ es"
  by (induction es arbitrary: m) (auto simp: um_emplace_def um_has_def um_keys_def)

lemma parse_getBytes:
  assumes "archive_ok debug chunks" "length (getBytes debug version chunks) < 2 ^ 64"
  shows "parse_archive debug version (getBytes debug version chunks) = r_select [] chunks"
proof -
  let ?b = "getBytes debug version chunks"
  let ?h = "out_integer debug False version"
  have "read_integer debug ?b 0 = Inr (version, 0 + length ?h)"
    by (rule decodesD [OF decodes_integer assms(2),
          where post = "concat (List.map (out_chunk debug) chunks)"]) (simp_all add: getBytes_def)
  then have r: "read_integer debug ?b 0 = Inr (version, length ?h)"
    by simp
  have d: "drop (length ?h) ?b = concat (List.map (out_chunk debug) chunks)"
    by (simp add: getBytes_def)
  have "length ?h \<le> length ?b"
    by (simp add: getBytes_def)
  then have "parse_chunks debug ?b (length ?h) [] =
      Inr (foldl (\<lambda>m e. um_emplace (fst e) (snd e) m) [] chunks)"
    by (rule parse_chunks_concat [OF assms(2) _ d]) (use assms(1) in \<open>simp add: archive_ok_def\<close>)
  also have "foldl (\<lambda>m e. um_emplace (fst e) (snd e) m) [] chunks = chunks"
    using foldl_emplace_fresh [of "[]" chunks] assms(1)
    by (simp add: archive_ok_def um_keys_def)
  finally show ?thesis
    by (simp add: parse_archive_def r)
qed

lemma map_of_w_emit:
  "map_of (w_chunks (w_emit bs w)) name =
     map_option (\<lambda>b. if name = w_current w then b @ bs else b) (map_of (w_chunks w) name)"
proof -
  have "map_of (List.map (\<lambda>(n, b). (n, if n = c then b @ bs else b)) m) name =
      map_option (\<lambda>b. if name = c then b @ bs else b) (map_of m name)" for c and m :: chunk_map
    by (induction m) auto
  then show ?thesis by (simp add: w_emit_def)
qed

subsection \<open>Resynchronisation markers\<close>

definition resyncMarker :: "32 word" where
  "resyncMarker = 0xF1E2D3C4"

definition saveResync :: "bool \<Rightarrow> 32 word \<Rightarrow> byte list" where
  "saveResync debug tag =
     (if debug then outRawInteger False resyncMarker @ outRawInteger True tag else [])"

text \<open>Every error while the marker is read is turned into \<open>IllegalArgument\<close> by the \<open>catch\<close>.\<close>

definition restoreResync :: "bool \<Rightarrow> 32 word \<Rightarrow> unit reader" where
  "restoreResync debug tag =
     (if debug then
        rbind (\<lambda>buffer offset.
            case readRawInteger buffer offset of
              Inl e \<Rightarrow> Inl IllegalArgument
            | Inr (marker, off) \<Rightarrow>
                if marker \<noteq> resyncMarker then Inl IllegalArgument else Inr ((), off))
          (\<lambda>_. rbind readRawInteger (\<lambda>lastValidTag.
             if tag \<noteq> lastValidTag then rfail IllegalArgument else rret ()))
      else rret ())"

lemma decodes_resync: "decodes (restoreResync debug tag) (saveResync debug tag) ()"
proof (cases debug)
  case True
  let ?m = "\<lambda>buffer offset.
    case readRawInteger buffer offset of
      Inl e \<Rightarrow> Inl IllegalArgument
    | Inr (marker, off) \<Rightarrow>
        if marker \<noteq> resyncMarker then Inl IllegalArgument else Inr ((), off)"
  let ?t = "rbind readRawInteger (\<lambda>found. if tag \<noteq> found then rfail IllegalArgument else rret ())"
  have "decodes readRawInteger (outRawInteger False resyncMarker) resyncMarker"
    by (rule decodes_raw) simp
  then have "decodes ?m (outRawInteger False resyncMarker) ()"
    by (auto simp: decodes_def)
  moreover have "decodes ?t (outRawInteger True tag @ []) ()"
    by (rule decodes_rbind [where x = tag]) (simp_all add: decodes_raw)
  then have "decodes ?t (outRawInteger True tag) ()"
    by simp
  ultimately have "decodes (rbind ?m (\<lambda>_. ?t)) (outRawInteger False resyncMarker @ outRawInteger True tag) ()"
    by (rule decodes_rbind)
  with True show ?thesis
    by (simp add: restoreResync_def saveResync_def)
qed (simp add: restoreResync_def saveResync_def)

subsection \<open>Pointers\<close>

text \<open>
  The writer numbers the objects in the order they are registered, the reader rebuilds the list of
  the objects it allocates in the same order; number 0 is the null pointer. A pointer is stored as
  its number and, in the debug build, its type. An assertion that fails is \<open>InternalError\<close>.
\<close>

type_synonym pointer_map = "(nat option \<times> (nat \<times> 32 word)) list"

definition new_pointer_map :: pointer_map where
  "new_pointer_map = [(None, (0, 0))]"

definition w_registerPointer :: "nat \<Rightarrow> 32 word \<Rightarrow> pointer_map \<Rightarrow> pointer_map" where
  "w_registerPointer p type pointerMap =
     um_emplace (Some p) (length pointerMap, type) pointerMap"

definition out_pointer :: "bool \<Rightarrow> pointer_map \<Rightarrow> nat option \<Rightarrow> 32 word \<Rightarrow> byte list result" where
  "out_pointer debug pointerMap p type =
     (case map_of pointerMap p of
        None \<Rightarrow> Inl InternalError
      | Some (index, saved) \<Rightarrow>
          let head = saveTypeTag debug 10; number = word_of_nat index :: 64 word in
          if \<not> debug then Inr (head @ out_integer debug False number)
          else if p = None then Inr (head @ out_integer debug False (0 :: 64 word))
          else if saved \<noteq> type then Inl InternalError
          else Inr (head @ out_integer debug False number @ out_enum debug False saved))"

type_synonym 'p pointer_list = "('p option \<times> 32 word) list"

definition new_pointer_list :: "'p pointer_list" where
  "new_pointer_list = [(None, 0)]"

definition r_registerPointer :: "'p \<Rightarrow> 32 word \<Rightarrow> 'p pointer_list \<Rightarrow> 'p pointer_list" where
  "r_registerPointer p type pointerList = pointerList @ [(Some p, type)]"

definition read_pointer :: "bool \<Rightarrow> 'p pointer_list \<Rightarrow> 32 word \<Rightarrow> 'p option reader" where
  "read_pointer debug pointerList type =
     tagged debug 10 (rbind (read_integer debug) (\<lambda>n :: 64 word.
       let index = unat n in
       if debug \<and> index = 0 then rret (fst (pointerList ! 0))
       else if length pointerList \<le> index then rfail IllegalArgument
       else if \<not> debug then rret (fst (pointerList ! index))
       else rbind (read_enum debug) (\<lambda>savedType.
         if savedType \<noteq> type \<or> savedType \<noteq> snd (pointerList ! index) then rfail InternalError
         else rret (fst (pointerList ! index)))))"

definition register_all :: "(nat \<times> 32 word) list \<Rightarrow> pointer_map" where
  "register_all ps = fold (\<lambda>(p, t) m. w_registerPointer p t m) ps new_pointer_map"

definition restore_all :: "('p \<times> 32 word) list \<Rightarrow> 'p pointer_list" where
  "restore_all qs = fold (\<lambda>(q, t) l. r_registerPointer q t l) qs new_pointer_list"

lemma restore_all_conv: "restore_all qs = (None, 0) # List.map (\<lambda>(q, t). (Some q, t)) qs"
proof -
  have "fold (\<lambda>(q, t) l. r_registerPointer q t l) qs l = l @ List.map (\<lambda>(q, t). (Some q, t)) qs"
    for l :: "'a pointer_list"
    by (induction qs arbitrary: l) (auto simp: r_registerPointer_def)
  then show ?thesis by (simp add: restore_all_def new_pointer_list_def)
qed

lemma register_all_snoc:
  "register_all (ps @ [(p, t)]) = w_registerPointer p t (register_all ps)"
  by (simp add: register_all_def)

lemma register_all_conv:
  "distinct (List.map fst ps) \<Longrightarrow>
     register_all ps = (None, (0, 0)) #
       List.map (\<lambda>i. (Some (fst (ps ! i)), (Suc i, snd (ps ! i)))) [0..<length ps]"
proof (induction ps rule: rev_induct)
  case Nil
  then show ?case by (simp add: register_all_def new_pointer_map_def)
next
  case (snoc x ps)
  obtain p t where x: "x = (p, t)" by fastforce
  have "p \<noteq> fst (ps ! i)" if "i < length ps" for i
    using snoc.prems x that by (metis distinct_append distinct_singleton fst_conv
        disjoint_iff imageI list.set_intros(1) list.simps(9) map_append nth_mem set_map)
  with snoc x have "Some p \<notin> um_keys (register_all ps)"
    by (auto simp: um_keys_def)
  moreover have "List.map (\<lambda>i. (Some (fst ((ps @ [x]) ! i)), (Suc i, snd ((ps @ [x]) ! i)))) [0..<length ps] =
      List.map (\<lambda>i. (Some (fst (ps ! i)), (Suc i, snd (ps ! i)))) [0..<length ps]"
    by (simp add: nth_append)
  ultimately show ?case
    using snoc x by (simp add: register_all_snoc w_registerPointer_def um_emplace_def)
qed

lemma register_all_lookup:
  assumes "distinct (List.map fst ps)" "i < length ps"
  shows "map_of (register_all ps) (Some (fst (ps ! i))) = Some (Suc i, snd (ps ! i))"
proof (rule map_of_is_SomeI)
  have "List.map fst (register_all ps) = None # List.map Some (List.map fst ps)"
    unfolding register_all_conv [OF assms(1)] by (intro nth_equalityI) (simp_all add: nth_Cons')
  then show "distinct (List.map fst (register_all ps))"
    using assms(1) by (simp add: distinct_map comp_inj_on del: List.map_map)
  show "(Some (fst (ps ! i)), Suc i, snd (ps ! i)) \<in> set (register_all ps)"
    using assms by (auto simp: register_all_conv)
qed

text \<open>
  When the reader registers, in the order the writer did, the objects \<open>qs\<close> it built for the
  writer's objects \<open>ps\<close>, every stored pointer leads to the copy of the object it pointed to.
\<close>

lemma decodes_pointer:
  assumes d: "distinct (List.map fst ps)" and len: "length qs = length ps" "length ps < 2 ^ 64 - 1"
    and i: "i < length ps"
  shows "\<exists>bs. out_pointer debug (register_all ps) (Some (fst (ps ! i))) (snd (ps ! i)) = Inr bs \<and>
    decodes (read_pointer debug (restore_all (zip qs (List.map snd ps))) (snd (ps ! i))) bs
      (Some (qs ! i))"
proof -
  let ?n = "word_of_nat (Suc i) :: 64 word"
  let ?l = "restore_all (zip qs (List.map snd ps))"
  have n: "unat ?n = Suc i"
    using i len by (simp add: unat_of_nat del: of_nat_Suc)
  have l: "length ?l = Suc (length ps)" "fst (?l ! Suc i) = Some (qs ! i)" "snd (?l ! Suc i) = snd (ps ! i)"
    using i len by (simp_all add: restore_all_conv)
  let ?t = "snd (ps ! i)"
  let ?k = "\<lambda>n :: 64 word.
       let index = unat n in
       if debug \<and> index = 0 then rret (fst (?l ! 0))
       else if length ?l \<le> index then rfail IllegalArgument
       else if \<not> debug then rret (fst (?l ! index))
       else rbind (read_enum debug) (\<lambda>savedType.
         if savedType \<noteq> ?t \<or> savedType \<noteq> snd (?l ! index) then rfail InternalError
         else rret (fst (?l ! index)))"
  let ?c = "if debug then out_enum debug False ?t else []"
  have "decodes (rbind (read_enum debug) (\<lambda>savedType.
         if savedType \<noteq> ?t \<or> savedType \<noteq> snd (?l ! Suc i) then rfail InternalError
         else rret (fst (?l ! Suc i)))) (out_enum debug False ?t @ []) (fst (?l ! Suc i))"
    by (rule decodes_rbind [where x = ?t]) (simp_all add: decodes_enum l)
  then have "decodes (?k ?n) ?c (Some (qs ! i))"
    using i unfolding Let_def n l(1) by (cases debug) (simp_all add: l(2,3) del: of_nat_Suc)
  then have "decodes (read_pointer debug ?l ?t)
      (saveTypeTag debug 10 @ out_integer debug False ?n @ ?c) (Some (qs ! i))"
    unfolding read_pointer_def
    by (intro decodes_tagged decodes_rbind [where x = ?n]) (simp_all add: decodes_integer)
  then show ?thesis
    by (auto simp: out_pointer_def register_all_lookup [OF d i] Let_def simp del: of_nat_Suc)
qed

end
