(* ===== verification/Table_Stream.thy ===== *)
theory Table_Stream
  imports String_Table Archive
begin

text \<open>
  \<open>StringTable::save\<close> and \<open>restore\<close>: only the texts beyond the predefined ones are written; the
  reader starts from a fresh table and adds them in order.
\<close>

definition save_table :: "bool \<Rightarrow> string_table \<Rightarrow> byte list" where
  "save_table debug t =
     out_integer debug False (baseVersion t) @ out_integer debug False (version t) @
     out_list debug (out_string debug) (drop PredefinedStringIds (idToStr t))"

definition restore_table :: "bool \<Rightarrow> string_table \<Rightarrow> string_table reader" where
  "restore_table debug t =
     rbind (read_integer debug) (\<lambda>bv. rbind (read_integer debug) (\<lambda>v.
       rbind (read_list debug (read_string debug)) (\<lambda>ss.
         rret (fold (\<lambda>s t. snd (table_add s t)) ss (t\<lparr>baseVersion := bv, version := v\<rparr>)))))"

text \<open>What every table made by the constructor and by interning satisfies.\<close>

definition table_grown :: "string_table \<Rightarrow> bool" where
  "table_grown t \<longleftrightarrow>
     table_wf t \<and> strToId t = zip (idToStr t) [0..<length (idToStr t)] \<and>
     PredefinedStringIds \<le> length (idToStr t) \<and>
     take PredefinedStringIds (idToStr t) = idToStr new_table \<and>
     (\<forall>s \<in> set (idToStr t). length s < 2 ^ 64)"

lemma length_new_table: "length (idToStr new_table) = PredefinedStringIds"
  unfolding new_table_idToStr using table_follows_enum
  by (metis PredefinedStringIds_def length_map)

lemma predefined_text_sizes: "\<forall>s \<in> set (idToStr new_table). length s < 2 ^ 64"
proof -
  have "list_all (\<lambda>p. length (fst p) < 64) predefined_table"
    by code_simp
  then show ?thesis
    by (fastforce simp: new_table_idToStr list_all_iff)
qed

lemma new_table_grown: "table_grown new_table"
  using predefined_text_sizes length_new_table
  by (simp add: table_grown_def new_table_wf new_table_strToId new_table_idToStr)

lemma table_add_grown:
  assumes "table_grown t" "map_of (strToId t) s = None" "0 < table_capacity t" "length s < 2 ^ 64"
  shows "table_grown (snd (table_add s t))"
proof -
  obtain i t' where add: "table_add s t = (i, t')" by fastforce
  from assms(1) have wf: "table_wf t" by (simp add: table_grown_def)
  note facts = table_add_facts [OF wf assms(2,3) add]
  have "strToId t' = zip (idToStr t') [0..<length (idToStr t')]"
    using facts assms(1) by (simp add: table_grown_def)
  with facts assms show ?thesis
    by (auto simp: add table_grown_def)
qed

lemma table_grown_version [simp]: "table_grown (t\<lparr>version := v\<rparr>) = table_grown t"
  "table_grown (t\<lparr>baseVersion := v\<rparr>) = table_grown t"
  by (simp_all add: table_grown_def)

lemma intern_value_grown:
  assumes "table_grown t" "0 < table_capacity t" "length s < 2 ^ 64"
  shows "table_grown (snd (intern_value s t))"
  using assms table_add_grown [of t s] table_add_grown [of "t\<lparr>version := version t + 1\<rparr>" s]
  by (auto simp: intern_value_def split: option.splits)

lemma fold_table_add:
  assumes "table_wf t" "distinct (idToStr t @ ss)" "length ss \<le> table_capacity t"
    "strToId t = zip (idToStr t) [0..<length (idToStr t)]"
  shows "fold (\<lambda>s t. snd (table_add s t)) ss t =
    t\<lparr>strToId := zip (idToStr t @ ss) [0..<length (idToStr t @ ss)], idToStr := idToStr t @ ss\<rparr>"
  using assms
proof (induction ss arbitrary: t)
  case Nil
  then show ?case by simp
next
  case (Cons s ss)
  obtain i t' where add: "table_add s t = (i, t')" by fastforce
  have new: "map_of (strToId t) s = None"
  proof (cases "map_of (strToId t) s")
    case (Some j)
    with Cons.prems(1) have "s \<in> set (idToStr t)"
      by (auto simp: table_wf_def)
    with Cons.prems(2) show ?thesis by simp
  qed simp
  from Cons.prems(3) have cap: "0 < table_capacity t" by simp
  note facts = table_add_facts [OF Cons.prems(1) new cap add]
  have t': "t' = t\<lparr>strToId := strToId t @ [(s, length (idToStr t))], idToStr := idToStr t @ [s]\<rparr>"
    using add facts by (auto simp: table_add_def Let_def)
  have capacity: "length ss \<le> table_capacity t'"
    using Cons.prems(3) facts by (simp add: table_capacity_def)
  have "strToId t' = zip (idToStr t') [0..<length (idToStr t')]"
    using Cons.prems(4) facts by simp
  from Cons.IH [OF facts(1) _ capacity this] Cons.prems(2) show ?case
    by (simp add: add) (simp add: t')
qed

lemma table_wf_distinct: "table_wf t \<Longrightarrow> distinct (idToStr t)"
  unfolding table_wf_def distinct_conv_nth by (metis option.inject)

lemma decodes_table:
  assumes "table_grown t"
  shows "decodes (restore_table debug new_table) (save_table debug t) t"
proof -
  let ?ss = "drop PredefinedStringIds (idToStr t)"
  let ?n = "new_table\<lparr>baseVersion := baseVersion t, version := version t\<rparr>"
  have split: "idToStr new_table @ ?ss = idToStr t"
    using assms append_take_drop_id by (metis table_grown_def)
  have size: "length (idToStr t) < 2 ^ 32"
    using assms by (simp add: table_grown_def table_wf_def)
  have "length ?ss \<le> table_capacity ?n"
    using size length_new_table by (simp add: table_capacity_def)
  moreover have "distinct (idToStr ?n @ ?ss)"
    using split assms by (simp add: table_grown_def table_wf_distinct)
  moreover have "strToId ?n = zip (idToStr ?n) [0..<length (idToStr ?n)]"
    using new_table_grown by (simp add: table_grown_def)
  ultimately have "fold (\<lambda>s t. snd (table_add s t)) ?ss ?n =
      ?n\<lparr>strToId := zip (idToStr ?n @ ?ss) [0..<length (idToStr ?n @ ?ss)], idToStr := idToStr ?n @ ?ss\<rparr>"
    using new_table_wf by (intro fold_table_add) simp_all
  also have "\<dots> = t"
    using split assms by (simp add: table_grown_def)
  finally have fold: "fold (\<lambda>s t. snd (table_add s t)) ?ss ?n = t" .
  have "decodes (read_list debug (read_string debug)) (out_list debug (out_string debug) ?ss) ?ss"
    using assms size by (intro stored_text.decodes_list) (auto simp: table_grown_def dest: in_set_dropD)
  then have "decodes (rbind (read_list debug (read_string debug)) (\<lambda>ss.
      rret (fold (\<lambda>s t. snd (table_add s t)) ss ?n)))
      (out_list debug (out_string debug) ?ss @ []) t"
    by (rule decodes_rbind) (simp add: fold)
  then show ?thesis
    unfolding restore_table_def save_table_def
    by (intro decodes_rbind [where x = "baseVersion t"] decodes_rbind [where x = "version t"])
      (simp_all add: decodes_integer)
qed

end
