(* ===== verification/Async_Read.thy ===== *)
theory Async_Read
  imports Prelude
begin

text \<open>
  \<open>AsyncRead\<close> of \<open>chatra_core/Internal.h\<close>: two copies of a value, one of them published through an
  atomic pointer. Readers count themselves in and out; the single writer (\<open>AsyncReadWrite\<close> holds a
  lock around it) changes the private copy, publishes it, waits until the count has been 0 once,
  and repeats the change on the other copy. Every access to an atomic, and the start and the end of
  every \<open>process\<close> callback, is a step of its own, so the interleavings of the model are those of
  sequentially consistent atomics.
\<close>

datatype reader_pc = RIdle | REntered | RReading nat

datatype 'v writer_pc =
    WIdle
  | WFirst "'v \<Rightarrow> 'v"
  | WPublish "'v \<Rightarrow> 'v"
  | WWait "'v \<Rightarrow> 'v"
  | WSecond "'v \<Rightarrow> 'v"

record 'v async =
  a_values :: "'v list"
  a_index :: nat
  valueForRead :: nat
  readCount :: nat
  readers :: "nat \<Rightarrow> reader_pc"
  a_writer :: "'v writer_pc"

definition new_async :: "'v \<Rightarrow> 'v async" where
  "new_async v = \<lparr>a_values = [v, v], a_index = 0, valueForRead = 0, readCount = 0,
     readers = (\<lambda>r. RIdle), a_writer = WIdle\<rparr>"

subsection \<open>Steps\<close>

definition read_enter :: "nat \<Rightarrow> 'v async \<Rightarrow> 'v async" where
  "read_enter r a = a\<lparr>readCount := readCount a + 1, readers := (readers a)(r := REntered)\<rparr>"

definition read_load :: "nat \<Rightarrow> 'v async \<Rightarrow> 'v async" where
  "read_load r a = a\<lparr>readers := (readers a)(r := RReading (valueForRead a))\<rparr>"

definition read_leave :: "nat \<Rightarrow> 'v async \<Rightarrow> 'v async" where
  "read_leave r a = a\<lparr>readCount := readCount a - 1, readers := (readers a)(r := RIdle)\<rparr>"

definition write_slot :: "('v \<Rightarrow> 'v) \<Rightarrow> 'v async \<Rightarrow> 'v async" where
  "write_slot f a = a\<lparr>a_values := (a_values a)[a_index a := f (a_values a ! a_index a)]\<rparr>"

inductive astep :: "'v async \<Rightarrow> 'v async \<Rightarrow> bool" where
  enter: "readers a r = RIdle \<Longrightarrow> astep a (read_enter r a)"
| load: "readers a r = REntered \<Longrightarrow> astep a (read_load r a)"
| leave: "readers a r = RReading s \<Longrightarrow> astep a (read_leave r a)"
| begin_write: "a_writer a = WIdle \<Longrightarrow> astep a (a\<lparr>a_writer := WFirst f\<rparr>)"
| first: "a_writer a = WFirst f \<Longrightarrow> astep a ((write_slot f a)\<lparr>a_writer := WPublish f\<rparr>)"
| publish: "a_writer a = WPublish f \<Longrightarrow>
    astep a (a\<lparr>valueForRead := a_index a, a_writer := WWait f\<rparr>)"
| drained: "a_writer a = WWait f \<Longrightarrow> readCount a = 0 \<Longrightarrow>
    astep a (a\<lparr>a_index := xor (a_index a) 1, a_writer := WSecond f\<rparr>)"
| second: "a_writer a = WSecond f \<Longrightarrow> astep a ((write_slot f a)\<lparr>a_writer := WIdle\<rparr>)"

abbreviation asteps :: "'v async \<Rightarrow> 'v async \<Rightarrow> bool" where
  "asteps \<equiv> astep\<^sup>*\<^sup>*"

text \<open>A data race: the writer is inside \<open>process(values[index])\<close> while a reader reads that slot.\<close>

definition writing :: "'v async \<Rightarrow> bool" where
  "writing a \<longleftrightarrow> (case a_writer a of WFirst f \<Rightarrow> True | WSecond f \<Rightarrow> True | _ \<Rightarrow> False)"

definition race :: "'v async \<Rightarrow> nat \<Rightarrow> bool" where
  "race a r \<longleftrightarrow> writing a \<and> readers a r = RReading (a_index a)"

text \<open>The state after one complete write: the published slot is not the writer's.\<close>

definition primed :: "'v \<Rightarrow> 'v async" where
  "primed v = (new_async v)\<lparr>a_index := 1\<rparr>"

subsection \<open>Invariant\<close>

definition active :: "'v async \<Rightarrow> nat set" where
  "active a = {r. readers a r \<noteq> RIdle}"

definition counted :: "'v async \<Rightarrow> bool" where
  "counted a \<longleftrightarrow> finite (active a) \<and> readCount a = card (active a)"

definition split_slots :: "'v async \<Rightarrow> bool" where
  "split_slots a \<longleftrightarrow> a_index a = xor (valueForRead a) 1 \<and> valueForRead a < 2 \<and>
     (\<forall>r s. readers a r = RReading s \<longrightarrow> s = valueForRead a)"

definition slots_inv :: "'v async \<Rightarrow> bool" where
  "slots_inv a \<longleftrightarrow> length (a_values a) = 2 \<and>
     (case a_writer a of
        WIdle \<Rightarrow> split_slots a \<and> a_values a ! 0 = a_values a ! 1
      | WFirst f \<Rightarrow> split_slots a \<and> a_values a ! 0 = a_values a ! 1
      | WPublish f \<Rightarrow> split_slots a \<and> a_values a ! a_index a = f (a_values a ! valueForRead a)
      | WWait f \<Rightarrow> a_index a = valueForRead a \<and> valueForRead a < 2 \<and>
          a_values a ! a_index a = f (a_values a ! xor (a_index a) 1)
      | WSecond f \<Rightarrow> split_slots a \<and> a_values a ! valueForRead a = f (a_values a ! a_index a))"

definition async_inv :: "'v async \<Rightarrow> bool" where
  "async_inv a \<longleftrightarrow> counted a \<and> slots_inv a"

lemma slot_cases:
  assumes "(i :: nat) < 2"
  obtains "i = 0" | "i = 1"
  using assms by linarith

lemma active_update:
  "active (read_enter r a) = insert r (active a)"
  "active (read_leave r a) = active a - {r}"
  "readers a r = REntered \<Longrightarrow> active (read_load r a) = active a"
  by (auto simp: active_def read_enter_def read_leave_def read_load_def)

lemma counted_step:
  assumes "counted a" "astep a b"
  shows "counted b"
  using assms(2,1)
proof (induction rule: astep.induct)
  case (enter a r)
  then have "r \<notin> active a" by (simp add: active_def)
  with enter show ?case
    by (simp add: counted_def active_update) (simp add: read_enter_def)
next
  case (load a r)
  then show ?case
    by (simp add: counted_def active_update) (simp add: read_load_def)
next
  case (leave a r s)
  then have "r \<in> active a" by (simp add: active_def)
  with leave show ?case
    by (simp add: counted_def active_update) (simp add: read_leave_def)
qed (simp_all add: counted_def active_def write_slot_def)

lemma no_reader_when_drained:
  "counted a \<Longrightarrow> readCount a = 0 \<Longrightarrow> readers a r = RIdle"
  by (auto simp: counted_def active_def)

lemma slots_step:
  assumes "counted a" "slots_inv a" "astep a b"
  shows "slots_inv b"
  using assms(3,1,2)
proof (induction rule: astep.induct)
  case (enter a r)
  then show ?case
    by (cases "a_writer a") (auto simp: slots_inv_def split_slots_def read_enter_def)
next
  case (load a r)
  then show ?case
    by (cases "a_writer a") (auto simp: slots_inv_def split_slots_def read_load_def)
next
  case (leave a r s)
  then show ?case
    by (cases "a_writer a") (auto simp: slots_inv_def split_slots_def read_leave_def)
next
  case (drained a f)
  then have "valueForRead a < 2" and i: "a_index a = valueForRead a"
    by (simp_all add: slots_inv_def)
  then show ?case
    using drained no_reader_when_drained [OF drained(3,2)]
    by (elim slot_cases) (auto simp: slots_inv_def split_slots_def)
next
  case (first a f)
  then have "valueForRead a < 2"
    by (simp add: slots_inv_def split_slots_def)
  with first show ?case
    by (elim slot_cases) (auto simp: slots_inv_def split_slots_def write_slot_def)
next
  case (publish a f)
  then have "valueForRead a < 2"
    by (simp add: slots_inv_def split_slots_def)
  with publish show ?case
    by (elim slot_cases) (auto simp: slots_inv_def split_slots_def)
next
  case (second a f)
  then have "valueForRead a < 2"
    by (simp add: slots_inv_def split_slots_def)
  with second show ?case
    by (elim slot_cases) (auto simp: slots_inv_def split_slots_def write_slot_def)
qed (auto simp: slots_inv_def split_slots_def)

lemma async_inv_step: "async_inv a \<Longrightarrow> astep a b \<Longrightarrow> async_inv b"
  using counted_step slots_step by (auto simp: async_inv_def)

lemma async_inv_steps: "asteps a b \<Longrightarrow> async_inv a \<Longrightarrow> async_inv b"
  by (induction rule: rtranclp_induct) (auto intro: async_inv_step)

lemma primed_inv: "async_inv (primed v)"
  by (simp add: async_inv_def counted_def active_def slots_inv_def split_slots_def primed_def
      new_async_def)

lemma split_slots_apart:
  assumes "split_slots a" "readers a r = RReading s"
  shows "s \<noteq> a_index a"
proof -
  from assms have "s = valueForRead a" "valueForRead a < 2" "a_index a = xor (valueForRead a) 1"
    unfolding split_slots_def by blast+
  then show ?thesis
    by (elim slot_cases) simp_all
qed

lemma inv_race_free: "async_inv a \<Longrightarrow> \<not> race a r"
  using split_slots_apart [of a r]
  by (cases "a_writer a") (auto simp: async_inv_def race_def writing_def slots_inv_def)

text \<open>While a reader is inside \<open>process\<close>, nothing changes the slot it was given.\<close>

lemma inv_stable_read:
  assumes "async_inv a" "astep a b" "readers a r = RReading s"
  shows "a_values b ! s = a_values a ! s"
proof -
  have "\<not> race a r"
    using assms(1) by (rule inv_race_free)
  with assms(3) have "writing a \<Longrightarrow> s \<noteq> a_index a"
    by (simp add: race_def)
  with assms(2) show ?thesis
    by (induction rule: astep.induct)
      (auto simp: write_slot_def writing_def read_enter_def read_load_def read_leave_def)
qed

text \<open>A write that has the object to itself, step by step.\<close>

lemma whole_write:
  assumes "a_writer a = WIdle" "readCount a = 0" "a_index a < 2" "length (a_values a) = 2"
  shows "asteps a (a\<lparr>a_values := List.map f (a_values a),
    a_index := xor (a_index a) 1, valueForRead := a_index a\<rparr>)"
proof -
  let ?a1 = "a\<lparr>a_writer := WFirst f\<rparr>"
  let ?a2 = "(write_slot f ?a1)\<lparr>a_writer := WPublish f\<rparr>"
  let ?a3 = "?a2\<lparr>valueForRead := a_index ?a2, a_writer := WWait f\<rparr>"
  let ?a4 = "?a3\<lparr>a_index := xor (a_index ?a3) 1, a_writer := WSecond f\<rparr>"
  let ?a5 = "(write_slot f ?a4)\<lparr>a_writer := WIdle\<rparr>"
  have "astep a ?a1" using assms by (intro astep.begin_write)
  moreover have "astep ?a1 ?a2" by (intro astep.first) simp
  moreover have "astep ?a2 ?a3" by (intro astep.publish) simp
  moreover have "astep ?a3 ?a4" using assms(2) by (intro astep.drained) (simp_all add: write_slot_def)
  moreover have "astep ?a4 ?a5" by (intro astep.second) simp
  ultimately have "asteps a ?a5"
    by (meson converse_rtranclp_into_rtranclp rtranclp.rtrancl_refl)
  moreover obtain x y where "a_values a = [x, y]"
    using assms(4) by (auto simp: numeral_2_eq_2 length_Suc_conv)
  with assms have "?a5 = a\<lparr>a_values := List.map f (a_values a),
    a_index := xor (a_index a) 1, valueForRead := a_index a\<rparr>"
    by (elim slot_cases) (auto simp: write_slot_def)
  ultimately show ?thesis by simp
qed

text \<open>
  The wait of the writer is over as soon as the readers under way have left: from every state of
  the invariant some run brings the object to rest.
\<close>

lemma readers_can_leave:
  assumes "counted a"
  shows "\<exists>b. asteps a b \<and> readCount b = 0 \<and> a_writer b = a_writer a"
  using assms
proof (induction "readCount a" arbitrary: a)
  case 0
  then show ?case by auto
next
  case (Suc n)
  then have "active a \<noteq> {}"
    by (auto simp: counted_def)
  then obtain r where r: "readers a r \<noteq> RIdle"
    by (auto simp: active_def)
  obtain a1 s where a1: "asteps a a1" "readers a1 r = RReading s" "counted a1"
    "readCount a1 = readCount a" "a_writer a1 = a_writer a"
  proof (cases "readers a r")
    case REntered
    then have "astep a (read_load r a)" by (rule astep.load)
    with counted_step [OF Suc.prems this] show ?thesis
      by (intro that [of "read_load r a" "valueForRead a"]) (auto simp: read_load_def)
  qed (use r Suc.prems that in auto)
  have step: "astep a1 (read_leave r a1)"
    by (rule astep.leave [OF a1(2)])
  have "n = readCount (read_leave r a1)"
    using Suc.hyps(2) a1(4) by (simp add: read_leave_def)
  from Suc.hyps(1) [OF this counted_step [OF a1(3) step]] obtain b
    where "asteps (read_leave r a1) b" "readCount b = 0" "a_writer b = a_writer (read_leave r a1)"
    by blast
  with a1 step show ?case
    by (intro exI [of _ b]) (auto simp: read_leave_def)
qed

definition can_finish :: "'v async \<Rightarrow> bool" where
  "can_finish a \<longleftrightarrow> (\<exists>b. asteps a b \<and> a_writer b = WIdle)"

lemma can_finish_steps: "asteps a b \<Longrightarrow> can_finish b \<Longrightarrow> can_finish a"
  by (auto simp: can_finish_def intro: rtranclp_trans)

lemma can_finish_step: "astep a b \<Longrightarrow> can_finish b \<Longrightarrow> can_finish a"
  by (rule can_finish_steps [OF r_into_rtranclp])

lemma write_can_finish:
  assumes "counted a"
  shows "can_finish a"
proof -
  have idle: "can_finish a" if "a_writer a = WIdle" for a :: "'a async"
    using that by (auto simp: can_finish_def)
  have second: "can_finish a" if "a_writer a = WSecond f" for a :: "'a async" and f
    by (rule can_finish_step [OF astep.second [OF that] idle]) simp
  have wait: "can_finish a" if w: "a_writer a = WWait f" and c: "counted a" for a :: "'a async" and f
  proof -
    obtain b where b: "asteps a b" "readCount b = 0" "a_writer b = WWait f"
      using readers_can_leave [OF c] w by auto
    have "can_finish b"
      by (rule can_finish_step [OF astep.drained [OF b(3,2)] second]) simp
    with b(1) show ?thesis by (rule can_finish_steps)
  qed
  have publish: "can_finish a" if w: "a_writer a = WPublish f" and c: "counted a" for a :: "'a async" and f
    by (rule can_finish_step [OF astep.publish [OF w] wait [OF _ counted_step [OF c astep.publish [OF w]]]])
      simp
  have first: "can_finish a" if w: "a_writer a = WFirst f" and c: "counted a" for a :: "'a async" and f
    by (rule can_finish_step [OF astep.first [OF w] publish [OF _ counted_step [OF c astep.first [OF w]]]])
      simp
  show ?thesis
    using assms by (cases "a_writer a") (auto intro: idle first publish wait second)
qed

end
