(* ===== verification/Timer.thy ===== *)
theory Timer
  imports Id_Pool
begin

text \<open>
  \<open>chatra_core/Timer.h\<close> and \<open>Timer.cpp\<close>: the timer's queue of times, its map from a time to the
  handlers due then, and the ids of the handlers. Each definition is one critical section of
  \<open>lockMap\<close>; a handler is an opaque value, and the operations return the handlers they invoke.
  Times are milliseconds.
\<close>

definition time_max :: int where
  "time_max = 2 ^ 63 - 1"

subsection \<open>Ordered maps\<close>

text \<open>\<open>std::map\<close> as an association list in key order.\<close>

fun om_put :: "int \<Rightarrow> 'v \<Rightarrow> (int \<times> 'v) list \<Rightarrow> (int \<times> 'v) list" where
  "om_put k v [] = [(k, v)]"
| "om_put k v ((k', v') # m) =
     (if k < k' then (k, v) # (k', v') # m
      else if k = k' then (k, v) # m
      else (k', v') # om_put k v m)"

abbreviation ascending :: "int list \<Rightarrow> bool" where
  "ascending ks \<equiv> sorted_wrt (<) ks"

definition insert_time :: "int \<Rightarrow> int list \<Rightarrow> int list" where
  "insert_time tm q = takeWhile (\<lambda>u. u < tm) q @ tm # dropWhile (\<lambda>u. u < tm) q"

lemma om_put_keys:
  "ascending (List.map fst m) \<Longrightarrow>
     List.map fst (om_put k v m) =
       (if k \<in> um_keys m then List.map fst m else insert_time k (List.map fst m))"
proof (induction k v m rule: om_put.induct)
  case (2 k v k' v' m)
  then show ?case
    by (auto simp: insert_time_def um_keys_def)
qed (simp add: insert_time_def)

lemma map_of_om_put: "map_of (om_put k v m) = (map_of m)(k \<mapsto> v)"
  by (induction k v m rule: om_put.induct) auto

lemma set_insert_time [simp]: "set (insert_time tm q) = insert tm (set q)"
proof -
  have "set (takeWhile P q) \<union> set (dropWhile P q) = set q" for P
    by (metis set_append takeWhile_dropWhile_id)
  then show ?thesis by (auto simp: insert_time_def)
qed

lemma ascending_insert_time:
  "ascending q \<Longrightarrow> tm \<notin> set q \<Longrightarrow> ascending (insert_time tm q)"
proof (induction q)
  case (Cons u q)
  show ?case
  proof (cases "u < tm")
    case True
    with Cons have "ascending (insert_time tm q)" by simp
    moreover have "insert_time tm (u # q) = u # insert_time tm q"
      using True by (simp add: insert_time_def)
    ultimately show ?thesis
      using Cons.prems True by simp
  next
    case False
    with Cons.prems show ?thesis by (fastforce simp: insert_time_def)
  qed
qed (simp add: insert_time_def)

subsection \<open>State and operations\<close>

record 'h timer =
  timeQueue :: "int list"
  t_map :: "(int \<times> (nat \<times> 'h) list) list"
  idToTime :: "(nat \<times> int) list"
  recycledIds :: "nat list"
  nextId :: nat

definition new_timer :: "'h timer" where
  "new_timer = \<lparr>timeQueue = [], t_map = [], idToTime = [], recycledIds = [], nextId = 0\<rparr>"

definition getNextTime :: "'h timer \<Rightarrow> int" where
  "getNextTime t = (if timeQueue t = [] then time_max else hd (timeQueue t))"

text \<open>The handlers that are invoked, and the state after the critical section.\<close>

definition popAndInvokeHandlers ::
    "int \<Rightarrow> 'h timer \<Rightarrow> ((nat \<times> 'h) list \<times> 'h timer) result" where
  "popAndInvokeHandlers currentTime t =
     (case timeQueue t of
        [] \<Rightarrow> Inr ([], t)
      | tm # rest \<Rightarrow>
          if currentTime < tm then Inr ([], t)
          else
            case map_of (t_map t) tm of
              None \<Rightarrow> Inl InternalError
            | Some handlers \<Rightarrow>
                Inr (handlers,
                  t\<lparr>timeQueue := rest, t_map := um_erase tm (t_map t),
                    idToTime := fold (\<lambda>e m. um_erase (fst e) m) handlers (idToTime t),
                    recycledIds := recycledIds t @ List.map fst handlers\<rparr>))"

text \<open>The id, whether \<open>onHandlerInserted\<close> is to be called, and the new state.\<close>

definition submitHandler :: "int \<Rightarrow> 'h \<Rightarrow> 'h timer \<Rightarrow> nat \<times> bool \<times> 'h timer" where
  "submitHandler tm handler t =
     (let (i, t1) =
            (if recycledIds t = [] then (nextId t, t\<lparr>nextId := nextId t + 1\<rparr>)
             else (last (recycledIds t), t\<lparr>recycledIds := butlast (recycledIds t)\<rparr>));
          t2 = t1\<lparr>idToTime := um_emplace i tm (idToTime t1)\<rparr>
      in case map_of (t_map t2) tm of
           None \<Rightarrow>
             let m = om_put tm [(i, handler)] (t_map t2)
             in (i, fst (hd m) = tm,
                 t2\<lparr>t_map := m,
                    timeQueue := (if timeQueue t2 = [] then [tm] else insert_time tm (timeQueue t2))\<rparr>)
         | Some hs \<Rightarrow> (i, False, t2\<lparr>t_map := om_put tm (um_emplace i handler hs) (t_map t2)\<rparr>))"

text \<open>\<open>map[it->second]\<close> makes an empty element when there is none.\<close>

definition cancel :: "nat \<Rightarrow> 'h timer \<Rightarrow> bool \<times> 'h timer" where
  "cancel i t =
     (case map_of (idToTime t) i of
        None \<Rightarrow> (False, t)
      | Some tm \<Rightarrow>
          let hs = (case map_of (t_map t) tm of None \<Rightarrow> [] | Some hs \<Rightarrow> hs)
          in (True, t\<lparr>t_map := om_put tm (um_erase i hs) (t_map t),
                      idToTime := um_erase i (idToTime t),
                      recycledIds := recycledIds t @ [i]\<rparr>))"

definition cancelAll :: "'h timer \<Rightarrow> 'h timer" where
  "cancelAll t = t\<lparr>timeQueue := [], t_map := [], idToTime := [], recycledIds := [], nextId := 0\<rparr>"

subsection \<open>Invariant\<close>

definition ids_ok :: "nat set \<Rightarrow> nat list \<Rightarrow> nat \<Rightarrow> bool" where
  "ids_ok live recycled n \<longleftrightarrow> distinct recycled \<and>
     (\<forall>i. i \<in> live \<longrightarrow> i \<notin> set recycled) \<and>
     (\<forall>i. i \<in> live \<or> i \<in> set recycled \<longleftrightarrow> i < n)"

definition queue_ok :: "'h timer \<Rightarrow> bool" where
  "queue_ok t \<longleftrightarrow> ascending (timeQueue t) \<and> List.map fst (t_map t) = timeQueue t"

definition slots_ok :: "'h timer \<Rightarrow> bool" where
  "slots_ok t \<longleftrightarrow> um_wf (idToTime t) \<and>
     (\<forall>tm hs. map_of (t_map t) tm = Some hs \<longrightarrow> um_wf hs) \<and>
     (\<forall>i tm. map_of (idToTime t) i = Some tm \<longleftrightarrow>
        (\<exists>hs. map_of (t_map t) tm = Some hs \<and> i \<in> um_keys hs))"

definition timer_live :: "'h timer \<Rightarrow> nat set" where
  "timer_live t = um_keys (idToTime t)"

definition timer_inv :: "'h timer \<Rightarrow> bool" where
  "timer_inv t \<longleftrightarrow> queue_ok t \<and> slots_ok t \<and> ids_ok (timer_live t) (recycledIds t) (nextId t)"

lemma slots_okI:
  assumes "um_wf (idToTime t)"
    "\<And>tm hs. map_of (t_map t) tm = Some hs \<Longrightarrow> um_wf hs"
    "\<And>i tm. map_of (idToTime t) i = Some tm \<longleftrightarrow>
        (\<exists>hs. map_of (t_map t) tm = Some hs \<and> i \<in> um_keys hs)"
  shows "slots_ok t"
  using assms unfolding slots_ok_def by blast

lemma slots_okD:
  assumes "slots_ok t"
  shows "um_wf (idToTime t)"
    "map_of (t_map t) tm = Some hs \<Longrightarrow> um_wf hs"
    "map_of (idToTime t) i = Some tm \<longleftrightarrow>
        (\<exists>hs. map_of (t_map t) tm = Some hs \<and> i \<in> um_keys hs)"
  using assms unfolding slots_ok_def by blast+

lemma slots_ok_fresh:
  "slots_ok t \<Longrightarrow> i \<notin> timer_live t \<Longrightarrow> map_of (t_map t) tm = Some hs \<Longrightarrow> i \<notin> um_keys hs"
  unfolding timer_live_def using slots_okD(3) map_of_um_keys by metis

lemma ids_ok_fresh:
  "ids_ok live recycled n \<Longrightarrow> recycled = [] \<Longrightarrow> n \<notin> live"
  "ids_ok live recycled n \<Longrightarrow> recycled \<noteq> [] \<Longrightarrow> last recycled \<notin> live"
  unfolding ids_ok_def by auto

lemma ids_ok_take:
  "ids_ok live [] n \<Longrightarrow> ids_ok (insert n live) [] (Suc n)"
  "ids_ok live recycled n \<Longrightarrow> recycled \<noteq> [] \<Longrightarrow>
     ids_ok (insert (last recycled) live) (butlast recycled) n"
proof -
  assume "ids_ok live [] n"
  then show "ids_ok (insert n live) [] (Suc n)"
    by (auto simp: ids_ok_def less_Suc_eq)
next
  assume ok: "ids_ok live recycled n" and ne: "recycled \<noteq> []"
  have "set recycled = insert (last recycled) (set (butlast recycled))"
    using ne by (metis append_butlast_last_id list.simps(15) rotate1.simps(2) set_rotate1)
  then show "ids_ok (insert (last recycled) live) (butlast recycled) n"
    using ok ne distinct_butlast_last [of recycled] unfolding ids_ok_def
    by (auto simp: distinct_butlast)
qed

lemma ids_ok_give:
  "ids_ok live recycled n \<Longrightarrow> distinct xs \<Longrightarrow> set xs \<subseteq> live \<Longrightarrow>
     ids_ok (live - set xs) (recycled @ xs) n"
  unfolding ids_ok_def by auto

lemma new_timer_inv: "timer_inv new_timer"
  by (simp add: timer_inv_def new_timer_def queue_ok_def slots_ok_def ids_ok_def timer_live_def)

lemma cancelAll_inv: "timer_inv (cancelAll t)"
  by (simp add: timer_inv_def cancelAll_def queue_ok_def slots_ok_def ids_ok_def timer_live_def)

subsection \<open>Submitting and cancelling\<close>

definition fresh_id :: "'h timer \<Rightarrow> nat" where
  "fresh_id t = (if recycledIds t = [] then nextId t else last (recycledIds t))"

definition due :: "'h timer \<Rightarrow> int \<Rightarrow> (nat \<times> 'h) list" where
  "due t tm = (case map_of (t_map t) tm of None \<Rightarrow> [] | Some hs \<Rightarrow> hs)"

lemma fresh_id_fresh: "timer_inv t \<Longrightarrow> fresh_id t \<notin> timer_live t"
  unfolding timer_inv_def fresh_id_def using ids_ok_fresh by auto

lemma insert_time_Nil [simp]: "insert_time tm [] = [tm]"
  by (simp add: insert_time_def)

text \<open>What \<open>submitHandler\<close> does to each part of the state.\<close>

lemma submit_parts:
  assumes inv: "timer_inv t" and sub: "submitHandler tm h t = (i, ins, t')"
  shows "i = fresh_id t"
    "idToTime t' = idToTime t @ [(i, tm)]"
    "map_of (t_map t') = (map_of (t_map t))(tm \<mapsto> due t tm @ [(i, h)])"
    "nextId t' = (if recycledIds t = [] then Suc (nextId t) else nextId t)"
    "recycledIds t' = butlast (recycledIds t)"
    "timeQueue t' = (if tm \<in> set (timeQueue t) then timeQueue t else insert_time tm (timeQueue t))"
    "t_map t' = om_put tm (due t tm @ [(i, h)]) (t_map t)"
proof -
  show i: "i = fresh_id t"
    using sub by (auto simp: submitHandler_def fresh_id_def Let_def split: if_splits option.splits)
  have i_new: "i \<notin> um_keys (idToTime t)"
    using fresh_id_fresh [OF inv] i by (simp add: timer_live_def)
  have hs_new: "i \<notin> um_keys hs" if "map_of (t_map t) tm = Some hs" for hs
    using slots_ok_fresh [OF _ _ that] inv fresh_id_fresh [OF inv] i by (simp add: timer_inv_def)
  have keys: "tm \<in> set (timeQueue t) \<longleftrightarrow> map_of (t_map t) tm \<noteq> None"
    using inv unfolding timer_inv_def queue_ok_def by (metis map_of_um_None um_keys_map_fst)
  from sub i_new show "idToTime t' = idToTime t @ [(i, tm)]"
    by (auto simp: submitHandler_def Let_def um_emplace_def split: if_splits option.splits)
  from sub show "nextId t' = (if recycledIds t = [] then Suc (nextId t) else nextId t)"
    "recycledIds t' = butlast (recycledIds t)"
    by (auto simp: submitHandler_def Let_def split: if_splits option.splits)
  from sub hs_new show m: "t_map t' = om_put tm (due t tm @ [(i, h)]) (t_map t)"
    by (auto simp: submitHandler_def Let_def due_def um_emplace_def split: if_splits option.splits)
  from m show "map_of (t_map t') = (map_of (t_map t))(tm \<mapsto> due t tm @ [(i, h)])"
    by (simp add: map_of_om_put)
  from sub keys show
    "timeQueue t' = (if tm \<in> set (timeQueue t) then timeQueue t else insert_time tm (timeQueue t))"
    by (auto simp: submitHandler_def Let_def split: if_splits option.splits)
qed

lemma submit_live:
  "timer_inv t \<Longrightarrow> submitHandler tm h t = (i, ins, t') \<Longrightarrow> timer_live t' = insert i (timer_live t)"
  by (simp add: timer_live_def submit_parts)

lemma submit_queue:
  assumes "timer_inv t" "submitHandler tm h t = (i, ins, t')"
  shows "queue_ok t'"
proof -
  have q: "ascending (timeQueue t)" "List.map fst (t_map t) = timeQueue t"
    using assms(1) by (simp_all add: timer_inv_def queue_ok_def)
  then have "List.map fst (t_map t') = timeQueue t'"
    unfolding submit_parts [OF assms] by (subst om_put_keys) (simp_all add: um_keys_map_fst)
  then show ?thesis
    using q by (simp add: queue_ok_def submit_parts(6) [OF assms] ascending_insert_time)
qed

lemma submit_slots:
  assumes inv: "timer_inv t" and sub: "submitHandler tm h t = (i, ins, t')"
  shows "slots_ok t'"
proof (rule slots_okI)
  note parts = submit_parts [OF inv sub]
  from inv have ok: "slots_ok t" by (simp add: timer_inv_def)
  have i: "i \<notin> um_keys (idToTime t)"
    using fresh_id_fresh [OF inv] parts(1) by (simp add: timer_live_def)
  have new: "i \<notin> um_keys (due t tm')" for tm'
    using slots_ok_fresh [OF ok] i by (auto simp: due_def timer_live_def split: option.splits)
  have wf: "um_wf (due t tm')" for tm'
    using slots_okD(2) [OF ok] by (auto simp: due_def split: option.splits)
  show "um_wf (idToTime t')"
    using slots_okD(1) [OF ok] i by (simp add: parts(2) um_wf_def um_keys_map_fst)
  show "um_wf hs" if "map_of (t_map t') tm' = Some hs" for tm' hs
    using that wf [of tm] new [of tm] slots_okD(2) [OF ok]
    by (auto simp: parts(3) um_wf_def um_keys_map_fst split: if_splits)
  have inv_i: "map_of (idToTime t) i = None"
    using i by (simp add: map_of_um_None)
  show "map_of (idToTime t') j = Some u \<longleftrightarrow>
      (\<exists>hs. map_of (t_map t') u = Some hs \<and> j \<in> um_keys hs)" for j u
  proof (cases "u = tm")
    case True
    have "map_of (idToTime t) j = Some tm \<longleftrightarrow> j \<in> um_keys (due t tm)"
      unfolding slots_okD(3) [OF ok] due_def by (auto split: option.splits)
    then show ?thesis
      using True inv_i by (auto simp: parts(2,3) map_add_Some_iff)
  next
    case False
    then show ?thesis
      using slots_okD(3) [OF ok, of j u] inv_i by (auto simp: parts(2,3) map_add_Some_iff)
  qed
qed

lemma submit_inv:
  assumes inv: "timer_inv t" and sub: "submitHandler tm h t = (i, ins, t')"
  shows "timer_inv t'"
proof -
  have "ids_ok (insert i (timer_live t)) (recycledIds t') (nextId t')"
    using inv ids_ok_take(1) [of "timer_live t" "nextId t"]
      ids_ok_take(2) [of "timer_live t" "recycledIds t" "nextId t"]
    by (cases "recycledIds t = []")
      (auto simp: submit_parts [OF inv sub] fresh_id_def timer_inv_def)
  then show ?thesis
    using submit_queue [OF inv sub] submit_slots [OF inv sub]
    by (simp add: timer_inv_def submit_live [OF inv sub])
qed

lemma cancel_parts:
  assumes inv: "timer_inv t" and i: "map_of (idToTime t) i = Some tm"
  shows "\<exists>hs. map_of (t_map t) tm = Some hs \<and> i \<in> um_keys hs \<and>
    cancel i t = (True, t\<lparr>t_map := om_put tm (um_erase i hs) (t_map t),
      idToTime := um_erase i (idToTime t), recycledIds := recycledIds t @ [i]\<rparr>)"
proof -
  obtain hs where "map_of (t_map t) tm = Some hs" "i \<in> um_keys hs"
    using inv i slots_okD(3) [of t i tm] by (auto simp: timer_inv_def)
  with i show ?thesis by (simp add: cancel_def)
qed

lemma cancel_inv:
  assumes inv: "timer_inv t"
  shows "timer_inv (snd (cancel i t))"
proof (cases "map_of (idToTime t) i")
  case None
  with inv show ?thesis by (simp add: cancel_def)
next
  case (Some tm)
  from inv have ok: "slots_ok t" and q: "queue_ok t" by (simp_all add: timer_inv_def)
  obtain hs where hs: "map_of (t_map t) tm = Some hs" "i \<in> um_keys hs"
    and t': "cancel i t = (True, t\<lparr>t_map := om_put tm (um_erase i hs) (t_map t),
      idToTime := um_erase i (idToTime t), recycledIds := recycledIds t @ [i]\<rparr>)"
    using cancel_parts [OF inv Some] by blast
  let ?t = "snd (cancel i t)"
  have "tm \<in> um_keys (t_map t)"
    using hs(1) by (rule map_of_um_keys)
  then have queue: "queue_ok ?t"
    using q by (simp add: queue_ok_def t' om_put_keys)
  have slots: "slots_ok ?t"
  proof (rule slots_okI)
    show "um_wf (idToTime ?t)"
      using slots_okD(1) [OF ok] by (simp add: t')
    show "um_wf hs'" if "map_of (t_map ?t) u = Some hs'" for u hs'
      using that slots_okD(2) [OF ok] hs(1) by (auto simp: t' map_of_om_put split: if_splits)
    show "map_of (idToTime ?t) j = Some u \<longleftrightarrow>
        (\<exists>hs. map_of (t_map ?t) u = Some hs \<and> j \<in> um_keys hs)" for j u
      using slots_okD(3) [OF ok, of j u] slots_okD(3) [OF ok, of i u] hs Some
      by (auto simp: t' map_of_om_put map_of_um_erase)
  qed
  have "i \<in> timer_live t"
    using Some by (simp add: timer_live_def map_of_um_keys)
  then have "ids_ok (timer_live t - set [i]) (recycledIds t @ [i]) (nextId t)"
    using inv by (intro ids_ok_give) (simp_all add: timer_inv_def)
  with queue slots show ?thesis
    by (simp add: timer_inv_def t' timer_live_def)
qed

lemma cancel_live: "timer_inv t \<Longrightarrow> timer_live (snd (cancel i t)) = timer_live t - {i}"
  by (cases "map_of (idToTime t) i")
    (auto simp: cancel_def timer_live_def map_of_um_None Let_def split: option.splits)

subsection \<open>Timer ids\<close>

definition timer_take :: "int \<Rightarrow> 'h \<Rightarrow> 'h timer \<Rightarrow> nat \<times> 'h timer" where
  "timer_take tm h t = (case submitHandler tm h t of (i, ins, t') \<Rightarrow> (i, t'))"

lemma timer_full_iff:
  assumes "ids_ok live recycled n"
  shows "live = {..<n} \<longleftrightarrow> recycled = []"
proof
  assume "live = {..<n}"
  with assms show "recycled = []"
    unfolding ids_ok_def by (metis last_in_set lessThan_iff)
next
  assume "recycled = []"
  with assms show "live = {..<n}"
    unfolding ids_ok_def by auto
qed

lemma timer_ids_used: "timer_inv t \<Longrightarrow> timer_live t \<subseteq> {..<nextId t}"
  unfolding timer_inv_def ids_ok_def by auto

interpretation timer_ids: id_supply timer_inv timer_live nextId "timer_take tm h"
    "\<lambda>i t. snd (cancel i t)" for tm h
proof (unfold_locales, goal_cases)
  case (1 t) then show ?case by (rule timer_ids_used)
next
  case (2 t)
  then show ?case by (cases "submitHandler tm h t") (simp add: timer_take_def submit_inv)
next
  case (3 t)
  then show ?case
    using fresh_id_fresh [OF 3] submit_parts(1) [OF 3, of tm h]
    by (cases "submitHandler tm h t") (simp add: timer_take_def)
next
  case (4 t)
  then show ?case by (cases "submitHandler tm h t") (simp add: timer_take_def submit_live)
next
  case (5 t)
  then have "ids_ok (timer_live t) (recycledIds t) (nextId t)"
    by (simp add: timer_inv_def)
  with 5 show ?case
    by (cases "submitHandler tm h t") (simp add: timer_take_def submit_parts(4) timer_full_iff)
next
  case (6 t i) then show ?case by (intro cancel_inv)
next
  case (7 t i) then show ?case by (intro cancel_live)
next
  case (8 t i)
  then show ?case by (auto simp: cancel_def Let_def split: option.splits)
qed

subsection \<open>Invoking handlers\<close>

lemma fold_erase:
  "um_wf m \<Longrightarrow> um_wf (fold (\<lambda>e m. um_erase (fst e) m) hs m)"
  "um_keys (fold (\<lambda>e m. um_erase (fst e) m) hs m) = um_keys m - um_keys hs"
  "map_of (fold (\<lambda>e m. um_erase (fst e) m) hs m) j =
     (if j \<in> um_keys hs then None else map_of m j)"
  by (induction hs arbitrary: m) (auto simp: map_of_um_erase)

lemma timer_empty_iff: "queue_ok t \<Longrightarrow> timeQueue t = [] \<longleftrightarrow> t_map t = []"
  unfolding queue_ok_def by auto

lemma queue_cons:
  assumes "queue_ok t" "t_map t = (tm, hs) # m"
  shows "timeQueue t = tm # List.map fst m" "ascending (List.map fst m)" "map_of m tm = None"
proof -
  from assms have q: "timeQueue t = tm # List.map fst m" and "ascending (timeQueue t)"
    unfolding queue_ok_def by auto
  then show "timeQueue t = tm # List.map fst m" "ascending (List.map fst m)" "map_of m tm = None"
    by (auto simp: map_of_um_None um_keys_map_fst)
qed

lemma none_due:
  fixes m :: "(int \<times> 'v) list"
  shows "\<forall>k \<in> um_keys m. now < k \<Longrightarrow>
     takeWhile (\<lambda>x. fst x \<le> now) m = [] \<and> dropWhile (\<lambda>x. fst x \<le> now) m = m"
  by (cases m) auto

text \<open>With the invariant, the critical section takes the first element of the map.\<close>

lemma pop_parts:
  assumes inv: "timer_inv t" and m: "t_map t = (tm, hs) # m" and now: "tm \<le> now"
  shows "popAndInvokeHandlers now t = Inr (hs,
    t\<lparr>timeQueue := List.map fst m, t_map := m,
      idToTime := fold (\<lambda>e m. um_erase (fst e) m) hs (idToTime t),
      recycledIds := recycledIds t @ List.map fst hs\<rparr>)"
proof -
  from inv m have q: "timeQueue t = tm # List.map fst m" and "ascending (tm # List.map fst m)"
    unfolding timer_inv_def queue_ok_def by auto
  then have "tm \<notin> fst ` set m" by auto
  then have "um_erase tm (t_map t) = m"
    by (auto simp: m um_erase_def filter_id_conv)
  with q m now show ?thesis
    by (simp add: popAndInvokeHandlers_def)
qed

lemma pop_inv:
  assumes inv: "timer_inv t" and m: "t_map t = (tm, hs) # m" and now: "tm \<le> now"
    and pop: "popAndInvokeHandlers now t = Inr (fired, t')"
  shows "timer_inv t'"
proof -
  have t': "fired = hs" "t' = t\<lparr>timeQueue := List.map fst m, t_map := m,
      idToTime := fold (\<lambda>e m. um_erase (fst e) m) hs (idToTime t),
      recycledIds := recycledIds t @ List.map fst hs\<rparr>"
    using pop pop_parts [OF inv m now] by auto
  from inv have ok: "slots_ok t" and q: "queue_ok t" by (simp_all add: timer_inv_def)
  have wf: "um_wf hs"
    using slots_okD(2) [OF ok, of tm] m by simp
  note tm = queue_cons(3) [OF q m]
  have live: "um_keys hs \<subseteq> timer_live t"
    using slots_okD(3) [OF ok, of _ tm] m unfolding timer_live_def by (force dest: map_of_um_keys)
  have "queue_ok t'"
    using queue_cons [OF q m] by (simp add: queue_ok_def t')
  moreover have "slots_ok t'"
  proof (rule slots_okI)
    show "um_wf (idToTime t')"
      using slots_okD(1) [OF ok] by (simp add: t' fold_erase)
    show "um_wf hs'" if "map_of (t_map t') u = Some hs'" for u hs'
      using that tm slots_okD(2) [OF ok, of u hs'] m by (cases "u = tm") (simp_all add: t')
    show "map_of (idToTime t') j = Some u \<longleftrightarrow>
        (\<exists>hs. map_of (t_map t') u = Some hs \<and> j \<in> um_keys hs)" for j u
    proof (cases "j \<in> um_keys hs")
      case True
      then have "map_of (idToTime t) j = Some tm"
        using slots_okD(3) [OF ok, of j tm] m by simp
      then have "\<not> (\<exists>hs. map_of m u = Some hs \<and> j \<in> um_keys hs)"
        using slots_okD(3) [OF ok, of j u] m tm by (cases "u = tm") auto
      with True show ?thesis by (simp add: t' fold_erase)
    next
      case False
      then show ?thesis
        using slots_okD(3) [OF ok, of j u] m tm by (auto simp: t' fold_erase split: if_splits)
    qed
  qed
  moreover have "ids_ok (timer_live t - set (List.map fst hs)) (recycledIds t @ List.map fst hs) (nextId t)"
    using inv wf live by (intro ids_ok_give) (auto simp: timer_inv_def um_wf_def um_keys_map_fst)
  then have "ids_ok (timer_live t') (recycledIds t') (nextId t')"
    by (simp add: t' timer_live_def fold_erase(2) um_keys_map_fst [of hs])
  ultimately show ?thesis by (simp add: timer_inv_def)
qed

subsection \<open>The emulated timer\<close>

text \<open>
  The loop \<open>while (getNextTime() <= currentTime) popAndInvokeHandlers(currentTime)\<close>; it does not
  return when \<open>currentTime\<close> is \<open>Time::max()\<close>, because that is also the next time of an empty timer.
  The handlers it invokes are collected; handlers that themselves call the timer are sequences of
  the operations above.
\<close>

partial_function (option) pop_loop ::
    "int \<Rightarrow> 'h timer \<Rightarrow> (((nat \<times> 'h) list \<times> 'h timer) result) option" where
  [code]: "pop_loop currentTime t =
     (if getNextTime t \<le> currentTime then
        (case popAndInvokeHandlers currentTime t of
           Inl e \<Rightarrow> Some (Inl e)
         | Inr (hs, t1) \<Rightarrow>
             Option.bind (pop_loop currentTime t1) (\<lambda>r.
               Some (case r of Inl e \<Rightarrow> Inl e | Inr (fired, t2) \<Rightarrow> Inr (hs @ fired, t2))))
      else Some (Inr ([], t)))"

record 'h emulated =
  em_timer :: "'h timer"
  em_time :: int

definition em_increment ::
    "int \<Rightarrow> 'h emulated \<Rightarrow> (((nat \<times> 'h) list \<times> 'h emulated) result) option" where
  "em_increment step e =
     (let currentTime = em_time e + step
      in map_option (map_sum id (\<lambda>(fired, t). (fired, e\<lparr>em_timer := t, em_time := currentTime\<rparr>)))
           (pop_loop currentTime (em_timer e)))"

text \<open>\<open>at\<close> and \<open>delay\<close>, with the call of \<open>onHandlerInserted\<close>.\<close>

definition em_at ::
    "int \<Rightarrow> 'h \<Rightarrow> 'h emulated \<Rightarrow> ((nat \<times> (nat \<times> 'h) list \<times> 'h emulated) result) option" where
  "em_at tm h e =
     (case submitHandler tm h (em_timer e) of
        (i, inserted, t) \<Rightarrow>
          if inserted then
            map_option (map_sum id (\<lambda>(fired, t1). (i, fired, e\<lparr>em_timer := t1\<rparr>))) (pop_loop (em_time e) t)
          else Some (Inr (i, [], e\<lparr>em_timer := t\<rparr>)))"

definition em_delay ::
    "int \<Rightarrow> 'h \<Rightarrow> 'h emulated \<Rightarrow> ((nat \<times> (nat \<times> 'h) list \<times> 'h emulated) result) option" where
  "em_delay timeout h e = em_at (em_time e + timeout) h e"

lemma ascending_split:
  "ascending (List.map fst m) \<Longrightarrow>
     dropWhile (\<lambda>e. fst e \<le> now) m = filter (\<lambda>e. now < fst e) m"
proof (induction m)
  case (Cons e m)
  show ?case
  proof (cases "fst e \<le> now")
    case False
    with Cons.prems have "\<forall>x \<in> set m. now < fst x" by fastforce
    with False show ?thesis by (simp add: filter_id_conv [THEN iffD2])
  qed (use Cons in simp)
qed simp

text \<open>
  The loop returns and has invoked exactly the handlers due by then, in the order of their times;
  the later part of the map is untouched.
\<close>

lemma pop_loop_result:
  assumes "timer_inv t" "now < time_max"
  shows "\<exists>t'. pop_loop now t = Some (Inr (concat (List.map snd (takeWhile (\<lambda>e. fst e \<le> now) (t_map t))), t')) \<and>
    timer_inv t' \<and> t_map t' = dropWhile (\<lambda>e. fst e \<le> now) (t_map t)"
  using assms
proof (induction "t_map t" arbitrary: t)
  case Nil
  then have "getNextTime t = time_max"
    using timer_empty_iff [of t] by (simp add: getNextTime_def timer_inv_def)
  with Nil show ?case
    by (subst pop_loop.simps) auto
next
  case (Cons e m)
  obtain tm hs where e: "e = (tm, hs)" by fastforce
  with Cons have m: "t_map t = (tm, hs) # m" by simp
  then have next_time: "getNextTime t = tm"
    using Cons.prems(1) unfolding getNextTime_def timer_inv_def queue_ok_def
    by (metis fst_conv list.discI list.sel(1) list.simps(9))
  show ?case
  proof (cases "tm \<le> now")
    case False
    with Cons.prems(1) next_time m show ?thesis
      by (subst pop_loop.simps) simp
  next
    case True
    obtain t1 where pop: "popAndInvokeHandlers now t = Inr (hs, t1)" and t1: "t_map t1 = m"
      using pop_parts [OF Cons.prems(1) m True] by simp
    have "timer_inv t1"
      by (rule pop_inv [OF Cons.prems(1) m True pop])
    from Cons.hyps(1) [OF t1 [symmetric] this Cons.prems(2)] obtain t' where
      "pop_loop now t1 = Some (Inr (concat (List.map snd (takeWhile (\<lambda>e. fst e \<le> now) m)), t'))"
      "timer_inv t'" "t_map t' = dropWhile (\<lambda>e. fst e \<le> now) m"
      by (auto simp: t1)
    with True next_time pop m show ?thesis
      by (subst pop_loop.simps) simp
  qed
qed

definition em_inv :: "'h emulated \<Rightarrow> bool" where
  "em_inv e \<longleftrightarrow> timer_inv (em_timer e) \<and> (\<forall>tm \<in> set (timeQueue (em_timer e)). em_time e < tm)"

lemma em_increment_result:
  assumes "em_inv e" "em_time e + step < time_max"
  shows "\<exists>e'. em_increment step e = Some (Inr
      (concat (List.map snd (takeWhile (\<lambda>x. fst x \<le> em_time e + step) (t_map (em_timer e)))), e')) \<and>
    em_inv e' \<and> em_time e' = em_time e + step \<and>
    t_map (em_timer e') = filter (\<lambda>x. em_time e + step < fst x) (t_map (em_timer e))"
proof -
  have inv: "timer_inv (em_timer e)"
    using assms(1) by (simp add: em_inv_def)
  obtain t' where p: "pop_loop (em_time e + step) (em_timer e) = Some (Inr
      (concat (List.map snd (takeWhile (\<lambda>x. fst x \<le> em_time e + step) (t_map (em_timer e)))), t'))"
    and t': "timer_inv t'" "t_map t' = dropWhile (\<lambda>x. fst x \<le> em_time e + step) (t_map (em_timer e))"
    using pop_loop_result [OF inv assms(2)] by blast
  have m: "t_map t' = filter (\<lambda>x. em_time e + step < fst x) (t_map (em_timer e))"
    unfolding t'(2) using inv by (intro ascending_split) (simp add: timer_inv_def queue_ok_def)
  have "timeQueue t' = List.map fst (t_map t')"
    using t'(1) by (simp add: timer_inv_def queue_ok_def)
  then have "\<forall>tm \<in> set (timeQueue t'). em_time e + step < tm"
    by (auto simp: m)
  with p t'(1) m show ?thesis
    by (auto simp: em_increment_def Let_def em_inv_def)
qed

lemma om_put_front:
  "\<forall>k' \<in> um_keys m. k < k' \<Longrightarrow> om_put k v m = (k, v) # m"
  by (cases "(k, v, m)" rule: om_put.cases) auto

lemma submit_inserted:
  assumes inv: "timer_inv t" and sub: "submitHandler tm h t = (i, ins, t')"
  shows "ins \<longleftrightarrow> tm \<notin> set (timeQueue t) \<and> fst (hd (t_map t')) = tm"
proof -
  have "tm \<in> set (timeQueue t) \<longleftrightarrow> map_of (t_map t) tm \<noteq> None"
    using inv unfolding timer_inv_def queue_ok_def by (metis map_of_um_None um_keys_map_fst)
  with sub show ?thesis
    by (auto simp: submitHandler_def Let_def split: if_splits option.splits)
qed

lemma om_put_head:
  "m \<noteq> [] \<Longrightarrow> hd (om_put k v m) = (if fst (hd m) < k then hd m else (k, v))"
  by (cases "(k, v, m)" rule: om_put.cases) auto

lemma em_at_result:
  assumes inv: "em_inv e" and time: "em_time e < time_max"
  shows "\<exists>i e'. em_at tm h e = Some (Inr (i, if tm \<le> em_time e then [(i, h)] else [], e')) \<and>
    i = fresh_id (em_timer e) \<and> em_inv e' \<and> em_time e' = em_time e"
proof -
  let ?t = "em_timer e"
  obtain i ins t' where sub: "submitHandler tm h ?t = (i, ins, t')"
    using prod_cases3 by blast
  from inv have t: "timer_inv ?t" and later: "\<forall>u \<in> set (timeQueue ?t). em_time e < u"
    by (simp_all add: em_inv_def)
  note parts = submit_parts [OF t sub] and inv' = submit_inv [OF t sub] and
    ins = submit_inserted [OF t sub]
  have keys: "um_keys (t_map ?t) = set (timeQueue ?t)"
    using t by (simp add: timer_inv_def queue_ok_def um_keys_map_fst)
  obtain t2 where loop: "pop_loop (em_time e) t' =
      Some (Inr (concat (List.map snd (takeWhile (\<lambda>x. fst x \<le> em_time e) (t_map t'))), t2))"
    and t2: "timer_inv t2" "t_map t2 = dropWhile (\<lambda>x. fst x \<le> em_time e) (t_map t')"
    using pop_loop_result [OF inv' time] by blast
  have q2: "timeQueue t2 = List.map fst (t_map t2)"
    using t2(1) by (simp add: timer_inv_def queue_ok_def)
  show ?thesis
  proof (cases "tm \<le> em_time e")
    case True
    then have new: "tm \<notin> set (timeQueue ?t)" and "\<forall>k \<in> um_keys (t_map ?t). tm < k"
      using later keys by fastforce+
    moreover have "due ?t tm = []"
      using new keys map_of_um_keys [of "t_map ?t" tm] by (auto simp: due_def split: option.splits)
    ultimately have m: "t_map t' = (tm, [(i, h)]) # t_map ?t"
      by (simp add: parts(7) om_put_front)
    have stop: "takeWhile (\<lambda>x. fst x \<le> em_time e) (t_map ?t) = []"
      "dropWhile (\<lambda>x. fst x \<le> em_time e) (t_map ?t) = t_map ?t"
      using later keys none_due by metis+
    have "em_inv (e\<lparr>em_timer := t2\<rparr>)"
      using t2 q2 m stop later True keys by (auto simp: em_inv_def um_keys_map_fst)
    then show ?thesis
      using True sub loop m stop new ins parts(1) by (auto simp: em_at_def)
  next
    case False
    then have later': "\<forall>u \<in> set (timeQueue t'). em_time e < u"
      using later by (auto simp: parts(6))
    have keys': "set (timeQueue t') = um_keys (t_map t')"
      using inv' by (simp add: timer_inv_def queue_ok_def um_keys_map_fst)
    have stop: "takeWhile (\<lambda>x. fst x \<le> em_time e) (t_map t') = []"
      "dropWhile (\<lambda>x. fst x \<le> em_time e) (t_map t') = t_map t'"
      using later' keys' none_due by metis+
    have "em_inv (e\<lparr>em_timer := t2\<rparr>)" "em_inv (e\<lparr>em_timer := t'\<rparr>)"
      using t2 q2 stop later' keys' inv' by (auto simp: em_inv_def um_keys_map_fst)
    then show ?thesis
      using False sub loop stop parts(1) by (auto simp: em_at_def)
  qed
qed

subsection \<open>The system timer\<close>

text \<open>
  \<open>SystemTimer::run\<close>: the thread reads the next time and waits for it with
  \<open>wait_until(lock, nextPoint, predicate)\<close>. That call returns before its deadline only when the
  predicate (\<open>stop\<close>) holds, so the notification sent by \<open>onHandlerInserted\<close> does not make the
  thread read the next time again. The deadline it sleeps for is a part of the state.
\<close>

record 'h system_timer =
  sys_timer :: "'h timer"
  sys_deadline :: int

definition sys_start :: "'h timer \<Rightarrow> 'h system_timer" where
  "sys_start t = \<lparr>sys_timer = t, sys_deadline = getNextTime t\<rparr>"

datatype 'h sys_event = Submit int 'h | Tick int

definition sys_step ::
    "'h sys_event \<Rightarrow> 'h system_timer \<Rightarrow> ((nat \<times> 'h) list \<times> 'h system_timer) result" where
  "sys_step ev s =
     (case ev of
        Submit tm h \<Rightarrow>
          Inr ([], s\<lparr>sys_timer := snd (timer_take tm h (sys_timer s))\<rparr>)
      | Tick now \<Rightarrow>
          if now < sys_deadline s then Inr ([], s)
          else map_sum id (\<lambda>(fired, t). (fired, sys_start t))
                 (popAndInvokeHandlers (sys_deadline s) (sys_timer s)))"

fun sys_run ::
    "'h sys_event list \<Rightarrow> 'h system_timer \<Rightarrow> ((nat \<times> 'h) list \<times> 'h system_timer) result" where
  "sys_run [] s = Inr ([], s)"
| "sys_run (ev # evs) s =
     (case sys_step ev s of
        Inl e \<Rightarrow> Inl e
      | Inr (fired, s1) \<Rightarrow>
          (case sys_run evs s1 of
             Inl e \<Rightarrow> Inl e
           | Inr (fired', s2) \<Rightarrow> Inr (fired @ fired', s2)))"

lemma sys_run_sleeping:
  "\<forall>ev \<in> set evs. \<forall>now. ev = Tick now \<longrightarrow> now < sys_deadline s \<Longrightarrow>
     \<exists>s'. sys_run evs s = Inr ([], s') \<and> sys_deadline s' = sys_deadline s"
proof (induction evs arbitrary: s)
  case (Cons ev evs)
  obtain s1 where "sys_step ev s = Inr ([], s1)" "sys_deadline s1 = sys_deadline s"
    using Cons.prems by (cases ev) (auto simp: sys_step_def)
  with Cons.IH [of s1] Cons.prems show ?case by auto
qed simp

lemma sys_step_inv:
  assumes "timer_inv (sys_timer s)" "sys_step ev s = Inr (fired, s')"
  shows "timer_inv (sys_timer s')"
proof (cases ev)
  case (Submit tm h)
  then show ?thesis
    using assms timer_ids.take_inv [of "sys_timer s" tm h] by (auto simp: sys_step_def)
next
  case (Tick now)
  show ?thesis
  proof (cases "now < sys_deadline s")
    case False
    with Tick assms(2) obtain t where
      pop: "popAndInvokeHandlers (sys_deadline s) (sys_timer s) = Inr (fired, t)"
      and s': "s' = sys_start t"
      by (auto simp: sys_step_def map_sum_def split: sum.splits)
    show ?thesis
    proof (cases "t_map (sys_timer s)")
      case Nil
      then have "timeQueue (sys_timer s) = []"
        using assms(1) by (simp add: timer_empty_iff timer_inv_def)
      with pop assms(1) s' show ?thesis
        by (auto simp: popAndInvokeHandlers_def sys_start_def)
    next
      case (Cons e m)
      obtain tm hs where e: "e = (tm, hs)" by fastforce
      show ?thesis
      proof (cases "tm \<le> sys_deadline s")
        case True
        with pop_inv [OF assms(1) Cons [unfolded e] True pop] s' show ?thesis
          by (simp add: sys_start_def)
      next
        case False
        have "timeQueue (sys_timer s) = tm # List.map fst m"
          using assms(1) Cons e unfolding timer_inv_def queue_ok_def by auto
        with False pop assms(1) s' show ?thesis
          by (auto simp: popAndInvokeHandlers_def sys_start_def)
      qed
    qed
  qed (use Tick assms in \<open>auto simp: sys_step_def\<close>)
qed

end
