(* ===== verification/Lex_Token.thy ===== *)
theory Lex_Token
  imports String_Table Text
begin

text \<open>
  \<open>chatra_core/LexicalAnalyzer.h\<close> and the first half of \<open>LexicalAnalyzer.cpp\<close>: tokens, lines, the
  error receiver, and \<open>parseLine\<close>, which cuts one comment-free line into tokens. A computation
  takes the context (reported errors, string table) and returns the new context with a value or
  an exception; \<open>None\<close> is a computation that does not return.
\<close>

subsection \<open>Data\<close>

datatype error_level = Info | Warning | Error | Fatal

datatype token_type =
    TokenNumber
  | TokenName
  | TokenString
  | TokenOperator
  | TokenAnnotation
  | TokenOpenBracket
  | TokenCloseBracket

record token =
  t_index :: nat
  t_first :: nat
  t_last :: nat
  t_type :: token_type
  t_sid :: nat
  t_literal :: string

record line =
  l_containsError :: bool
  l_fileName :: string
  l_lineNo :: nat
  l_line :: string
  l_indents :: nat
  l_tokens :: "token list"

record lex_error =
  e_level :: error_level
  e_fileName :: string
  e_lineNo :: nat
  e_line :: string
  e_first :: nat
  e_last :: nat
  e_message :: string

record lex_context =
  c_errors :: "lex_error list"
  c_table :: string_table
  c_fileName :: string

type_synonym 'a lex = "(lex_context, 'a) comp"

subsection \<open>Errors\<close>

definition errorAtRawLine ::
    "error_level \<Rightarrow> nat \<Rightarrow> string \<Rightarrow> nat \<Rightarrow> nat \<Rightarrow> string \<Rightarrow> unit lex" where
  "errorAtRawLine level lineNo rawLine first last_pos message ct =
     Some (Inr (), ct\<lparr>c_errors := c_errors ct @
       [\<lparr>e_level = level, e_fileName = c_fileName ct, e_lineNo = lineNo, e_line = rawLine,
         e_first = first, e_last = last_pos, e_message = message\<rparr>]\<rparr>)"

definition column :: "nat list \<Rightarrow> nat \<Rightarrow> nat lex" where
  "column columnIndex i =
     (if i < length columnIndex then lret (columnIndex ! i) else lthrow OutOfRange)"

definition errorAtLine ::
    "error_level \<Rightarrow> line \<Rightarrow> nat list \<Rightarrow> nat \<Rightarrow> nat \<Rightarrow> string \<Rightarrow> unit lex" where
  "errorAtLine level ln columnIndex first last_pos message =
     lbind (if first = size_max then lret size_max else column columnIndex first) (\<lambda>f.
     lbind (if last_pos = size_max then lret size_max
            else lbind (column columnIndex (last_pos - 1)) (\<lambda>c. lret (size_add c 1))) (\<lambda>l.
       errorAtRawLine level (l_lineNo ln) (l_line ln) f l message))"

subsection \<open>Scanning\<close>

definition matches :: "string \<Rightarrow> nat \<Rightarrow> (char \<Rightarrow> bool) \<Rightarrow> (char \<Rightarrow> bool) \<Rightarrow> nat" where
  "matches str index beginningPred pred =
     (case drop index str of
        [] \<Rightarrow> 0
      | c # cs \<Rightarrow> if \<not> beginningPred c then 0 else Suc (length (takeWhile pred cs)))"

definition addToken ::
    "line \<Rightarrow> nat list \<Rightarrow> nat \<Rightarrow> nat \<Rightarrow> token_type \<Rightarrow> string \<Rightarrow> line lex" where
  "addToken ln columnIndex index len type tok =
     lbind (column columnIndex index) (\<lambda>f.
     lbind (column columnIndex (index + len - 1)) (\<lambda>c ct.
       let t = \<lparr>t_index = 0, t_first = f, t_last = size_add c 1, t_type = type,
                t_sid = StringId_Invalid, t_literal = []\<rparr>
       in if type = TokenNumber \<or> type = TokenString then
            lret (ln\<lparr>l_tokens := l_tokens ln @ [t\<lparr>t_literal := tok\<rparr>]\<rparr>) ct
          else
            let (sid, table) = intern_value tok (c_table ct)
            in lret (ln\<lparr>l_tokens := l_tokens ln @ [t\<lparr>t_sid := sid\<rparr>]\<rparr>) (ct\<lparr>c_table := table\<rparr>)))"

text \<open>
  The loops of the two functions that look for the end of a literal. The result is the position
  after the closing quotation mark, or \<open>None\<close> when there is none. Where the bytes are not UTF-8,
  \<open>byteCount\<close> is 0 and the position does not move.
\<close>

partial_function (option) string_scan :: "string \<Rightarrow> char \<Rightarrow> nat \<Rightarrow> nat option option" where
  [code]: "string_scan str quot position =
     (if position < length str then
        if str ! position = quot then Some (Some (position + 1))
        else if str ! position = CHR 0x5C then
          if position + 1 = length str then Some None
          else string_scan str quot (position + (1 + byteCount str (position + 1)))
        else string_scan str quot (position + byteCount str position)
      else Some None)"

partial_function (option) regexp_scan :: "string \<Rightarrow> char \<Rightarrow> nat \<Rightarrow> nat option option" where
  [code]: "regexp_scan str quot position =
     (if position < length str then
        if str ! position = quot then
          if position + 1 = length str \<or> str ! (position + 1) \<noteq> quot then Some (Some (position + 1))
          else regexp_scan str quot (position + 2)
        else regexp_scan str quot (position + byteCount str position)
      else Some None)"

definition unterminated :: "line \<Rightarrow> nat list \<Rightarrow> string \<Rightarrow> nat \<Rightarrow> string \<Rightarrow> line lex" where
  "unterminated ln columnIndex str tokenIndex message =
     lbind (errorAtLine Error ln columnIndex tokenIndex (length str) message) (\<lambda>_.
       lret (ln\<lparr>l_containsError := True\<rparr>))"

definition findEndOfStringOrEmitError ::
    "line \<Rightarrow> nat list \<Rightarrow> string \<Rightarrow> nat \<Rightarrow> nat \<Rightarrow> (nat \<times> line) lex" where
  "findEndOfStringOrEmitError ln columnIndex str tokenIndex scanIndex ct =
     (case string_scan str (str ! scanIndex) (scanIndex + 1) of
        None \<Rightarrow> None
      | Some (Some end_pos) \<Rightarrow> lret (end_pos - scanIndex, ln) ct
      | Some None \<Rightarrow>
          lbind (unterminated ln columnIndex str tokenIndex ''unterminated string'')
            (\<lambda>ln'. lret (length str - scanIndex, ln')) ct)"

definition findEndOfRegexpStringOrEmitError ::
    "line \<Rightarrow> nat list \<Rightarrow> string \<Rightarrow> nat \<Rightarrow> nat \<Rightarrow> (nat \<times> line) lex" where
  "findEndOfRegexpStringOrEmitError ln columnIndex str tokenIndex scanIndex ct =
     (case regexp_scan str (str ! scanIndex) (scanIndex + 1) of
        None \<Rightarrow> None
      | Some (Some end_pos) \<Rightarrow> lret (end_pos - scanIndex, ln) ct
      | Some None \<Rightarrow>
          lbind (unterminated ln columnIndex str tokenIndex ''unterminated regexp-string'')
            (\<lambda>ln'. lret (length str - scanIndex, ln')) ct)"

text \<open>\<open>str.find(pattern, position)\<close>; \<open>None\<close> is \<open>npos\<close>.\<close>

definition find_from :: "string \<Rightarrow> string \<Rightarrow> nat \<Rightarrow> nat option" where
  "find_from str pattern position =
     find (\<lambda>i. startsWith str i pattern) [position..<Suc (length str)]"

definition findEndOfRawStringOrEmitError ::
    "line \<Rightarrow> nat list \<Rightarrow> string \<Rightarrow> nat \<Rightarrow> nat \<Rightarrow> nat lex" where
  "findEndOfRawStringOrEmitError ln columnIndex str tokenIndex scanIndex =
     (case find_from str (CHR 0x0A # ''>>>'') scanIndex of
        None \<Rightarrow>
          lbind (errorAtLine Error ln columnIndex tokenIndex (length str) ''unterminated raw-string'')
            (\<lambda>_. lthrow AbortCompiling)
      | Some position \<Rightarrow> lret (position + 4 - scanIndex))"

subsection \<open>Operators\<close>

definition nameStyleOperators :: "string list" where
  "nameStyleOperators = [''async'', ''is'', ''and'', ''or'', ''xor'', ''not'']"

definition operatorsByLength :: "string list" where
  "operatorsByLength =
    [''>>>='',
     ''...'', ''>>>'', ''&*='', ''**='', ''&+='', ''&-='', ''<<='', ''>>='', ''/-='', ''%-='', ''/+='', ''%+='',
     ''++'', ''--'', ''&*'', ''**'', ''&+'', ''&-'', ''<<'', ''>>'', ''<='', ''>='', ''=='', ''!='', ''&&'', ''||'', [CHR 0x5E, CHR 0x5E],
     ''*='', ''/='', ''%='', ''+='', ''-='', ''&='', ''|='', [CHR 0x5E, CHR ''=''], ''/-'', ''%-'', ''/+'', ''%+'',
     '':'', '','', ''.'', ''~'', ''!'', ''+'', ''-'', ''*'', ''/'', ''%'', ''<'', ''>'', ''&'', ''|'', [CHR 0x5E], ''?'', '';'', ''='']"

definition find_operator :: "string \<Rightarrow> nat \<Rightarrow> nat \<Rightarrow> string option" where
  "find_operator str index mOperator =
     find (\<lambda>oper. startsWithRange (take mOperator (drop index str)) oper) operatorsByLength"

subsection \<open>parseLine\<close>

text \<open>
  One turn of the \<open>while\<close> loop: whether the loop goes on, the next index, the line so far.
\<close>

definition substr :: "string \<Rightarrow> nat \<Rightarrow> nat \<Rightarrow> string" where
  "substr str index len = take len (drop index str)"

definition bracket_type :: "char \<Rightarrow> token_type option" where
  "bracket_type c =
     (if c = CHR ''('' \<or> c = CHR ''['' \<or> c = CHR ''{'' then Some TokenOpenBracket
      else if c = CHR '')'' \<or> c = CHR '']'' \<or> c = CHR ''}'' then Some TokenCloseBracket
      else if c = CHR ''@'' then Some TokenAnnotation
      else None)"

definition parse_step :: "nat list \<Rightarrow> string \<Rightarrow> nat \<Rightarrow> line \<Rightarrow> (bool \<times> nat \<times> line) lex" where
  "parse_step columnIndex str index ret =
     (let c = str ! index;
          go = (\<lambda>len ret. lret (True, index + len, ret));
          mNumber = matches str index isBeginningOfNumber isPartOfNumber;
          mName = matches str index isBeginningOfName isPartOfName;
          mOperator = matches str index isBeginningOfOperator isPartOfOperator
      in
      if isSpace c then go 1 ret
      else if bracket_type c \<noteq> None then
        lbind (addToken ret columnIndex index 1 (the (bracket_type c)) [c]) (go 1)
      else if c = CHR 0x27 \<or> c = CHR 0x22 then
        lbind (findEndOfStringOrEmitError ret columnIndex str index index) (\<lambda>(mString, ret).
          lbind (addToken ret columnIndex index mString TokenString (substr str index (mString - 1)))
            (go mString))
      else if startsWith str index [CHR ''L'', CHR 0x27] \<or> startsWith str index [CHR ''L'', CHR 0x22] then
        lbind (findEndOfStringOrEmitError ret columnIndex str index (index + 1)) (\<lambda>(mString, ret).
          lbind (addToken ret columnIndex index (1 + mString) TokenString
                   (substr str index (1 + mString - 1))) (\<lambda>ret.
            lbind (errorAtLine Error ret columnIndex (index + (1 + mString)) (1 + mString)
                     ''string with multiple language support is not implemented'')
              (\<lambda>_. lthrow AbortCompiling)))
      else if startsWith str index [CHR ''r'', CHR 0x27] \<or> startsWith str index [CHR ''r'', CHR 0x22] then
        lbind (findEndOfRegexpStringOrEmitError ret columnIndex str index (index + 1)) (\<lambda>(mString, ret).
          lbind (addToken ret columnIndex index (1 + mString) TokenString
                   (substr str index (1 + mString - 1)))
            (go (1 + mString)))
      else if startsWith str index (''R<<<'' @ [CHR 0x0A]) then
        lbind (findEndOfRawStringOrEmitError ret columnIndex str index (index + 4)) (\<lambda>mString.
          lbind (addToken ret columnIndex index (4 + mString) TokenString
                   (substr str index (4 + mString - 4)))
            (go (4 + mString)))
      else if mNumber \<noteq> 0 then
        lbind (addToken ret columnIndex index mNumber TokenNumber (substr str index mNumber)) (go mNumber)
      else if mName \<noteq> 0 then
        (let tok = substr str index mName
         in lbind (addToken ret columnIndex index mName
                     (if tok \<in> set nameStyleOperators then TokenOperator else TokenName) tok) (go mName))
      else
        case (if mOperator \<noteq> 0 then find_operator str index mOperator else None) of
          Some oper \<Rightarrow>
            lbind (addToken ret columnIndex index (length oper) TokenOperator (substr str index (length oper)))
              (go (length oper))
        | None \<Rightarrow>
            lbind (errorAtLine Error ret columnIndex index (length str) ''invalid token or character'')
              (\<lambda>_. lret (False, index, ret\<lparr>l_containsError := True\<rparr>)))"

partial_function (option) parse_loop ::
    "nat list \<Rightarrow> string \<Rightarrow> nat \<Rightarrow> line \<Rightarrow> lex_context \<Rightarrow> (line result \<times> lex_context) option" where
  [code]: "parse_loop columnIndex str index ret ct =
     (if index < length str then
        case parse_step columnIndex str index ret ct of
          None \<Rightarrow> None
        | Some (Inl e, ct1) \<Rightarrow> Some (Inl e, ct1)
        | Some (Inr (go_on, index1, ret1), ct1) \<Rightarrow>
            if go_on then parse_loop columnIndex str index1 ret1 ct1 else Some (Inr ret1, ct1)
      else Some (Inr ret, ct))"

definition number_tokens :: "line \<Rightarrow> line" where
  "number_tokens ret = ret\<lparr>l_tokens :=
     List.map (\<lambda>(i, t). t\<lparr>t_index := i\<rparr>) (enumerate 0 (l_tokens ret))\<rparr>"

definition parseLine :: "string \<Rightarrow> nat \<Rightarrow> string \<Rightarrow> string \<Rightarrow> nat list \<Rightarrow> line lex" where
  "parseLine fileName lineNo rawLine str columnIndex =
     (let indents = length (takeWhile (\<lambda>c. c = CHR 0x09) str);
          ret = \<lparr>l_containsError = False, l_fileName = fileName, l_lineNo = lineNo,
                 l_line = rawLine, l_indents = indents, l_tokens = []\<rparr>
      in lbind (parse_loop columnIndex str indents ret) (\<lambda>ret. lret (number_tokens ret)))"

end
