(* ===== verification/Lex_Lines.thy ===== *)
theory Lex_Lines
  imports Lex_Token
begin

text \<open>
  The second half of \<open>chatra_core/LexicalAnalyzer.cpp\<close>: cutting the source into lines, removing
  comments while keeping the column of every character, joining the lines of a raw string, and
  \<open>parseLines\<close>. Columns are byte offsets; \<open>size_max\<close> is the column of a character that is not in
  the source.
\<close>

record code_point =
  p_lineNo :: nat
  p_line :: string
  p_first :: nat
  p_last :: nat

definition no_point :: code_point where
  "no_point = \<lparr>p_lineNo = 0, p_line = [], p_first = size_max, p_last = size_max\<rparr>"

record comment_state =
  cm_level :: nat
  cm_start0 :: code_point

record processed_line =
  pl_valid :: bool
  pl_line :: string
  pl_columnIndex :: "nat list"

definition new_comment :: comment_state where
  "new_comment = \<lparr>cm_level = 0, cm_start0 = no_point\<rparr>"

text \<open>The line and the rest of the source.\<close>

definition consumeLine :: "string \<Rightarrow> string \<times> string" where
  "consumeLine source =
     (let rawLine = takeWhile (\<lambda>c. c \<noteq> CHR 0x0A) source
      in (rawLine, drop (length rawLine + 1) source))"

definition append_line ::
    "string \<Rightarrow> processed_line \<Rightarrow> string \<Rightarrow> processed_line \<Rightarrow> string \<times> processed_line" where
  "append_line rawLine0 line0 rawLine1 line1 =
     (let offset = length rawLine0
      in (rawLine0 @ CHR 0x0A # rawLine1,
          line0\<lparr>pl_line := pl_line line0 @ CHR 0x0A # pl_line line1,
            pl_columnIndex := pl_columnIndex line0 @ offset #
              List.map (\<lambda>i. size_add (offset + 1) (pl_columnIndex line1 ! i)) [0..<length (pl_line line1)]\<rparr>))"

definition wrapRawLine :: "string \<Rightarrow> processed_line" where
  "wrapRawLine rawLine =
     \<lparr>pl_valid = True, pl_line = rawLine, pl_columnIndex = [0..<length rawLine]\<rparr>"

subsection \<open>removeComments\<close>

text \<open>The characters kept so far with their columns, and the local variables of the function.\<close>

record comment_scan =
  cs_line :: string
  cs_columnIndex :: "nat list"
  cs_extra :: nat
  cs_boundary :: bool
  cs_lineComment :: bool
  cs_comment :: comment_state

definition push_char :: "char \<Rightarrow> nat \<Rightarrow> comment_scan \<Rightarrow> comment_scan" where
  "push_char c col s = s\<lparr>cs_line := cs_line s @ [c], cs_columnIndex := cs_columnIndex s @ [col]\<rparr>"

text \<open>The two ways to treat the white space at the beginning.\<close>

function indent_loop :: "string \<Rightarrow> nat \<Rightarrow> comment_scan \<Rightarrow> nat \<times> comment_scan" where
  "indent_loop rawLine position s =
     (if position < length rawLine then
        if startsWith rawLine position [CHR 0x09] then
          indent_loop rawLine (position + 1) (push_char (CHR 0x09) position s)
        else if startsWith rawLine position ''    '' then
          indent_loop rawLine (position + 4) (push_char (CHR 0x09) position s)
        else if startsWith rawLine position '' '' then
          indent_loop rawLine (position + 1) (s\<lparr>cs_extra := min (cs_extra s) position\<rparr>)
        else (position, s)
      else (position, s))"
  by pat_completeness auto
termination
  by (relation "measure (\<lambda>(r, p, s). length r - p)") auto

declare indent_loop.simps [simp del]

definition leading_spaces :: "string \<Rightarrow> nat" where
  "leading_spaces rawLine = length (takeWhile isSpace rawLine)"

text \<open>One turn of the loop over the rest of the line: the step to the next position.\<close>

definition comment_step ::
    "nat \<Rightarrow> string \<Rightarrow> nat \<Rightarrow> comment_scan \<Rightarrow> (nat \<times> comment_scan) lex" where
  "comment_step lineNo rawLine position s =
     (let pitch = byteCount rawLine position; cm = cs_comment s in
      if pitch = 0 then
        lbind (errorAtRawLine Error lineNo [] size_max size_max ''invalid character'')
          (\<lambda>_. lthrow AbortCompiling)
      else if startsWith rawLine position ''/*'' then
        lret (2, s\<lparr>cs_comment := \<lparr>cm_level = cm_level cm + 1,
          cm_start0 = (if cm_level cm = 0
            then \<lparr>p_lineNo = lineNo, p_line = rawLine, p_first = position, p_last = position + 2\<rparr>
            else cm_start0 cm)\<rparr>\<rparr>)
      else if startsWith rawLine position ''*/'' then
        if cm_level cm = 0 then
          lbind (errorAtRawLine Error lineNo rawLine position (position + 2) ''comment mismatch'')
            (\<lambda>_. lthrow AbortCompiling)
        else
          let s1 = s\<lparr>cs_comment := cm\<lparr>cm_level := cm_level cm - 1\<rparr>\<rparr>
          in lret (2, if cm_level cm - 1 = 0 \<and> \<not> cs_boundary s
                      then push_char (CHR '' '') size_max s1 else s1)
      else if startsWith rawLine position ''//'' then
        lret (2, s\<lparr>cs_lineComment := cs_lineComment s \<or> cm_level cm = 0\<rparr>)
      else if cm_level cm = 0 \<and> \<not> cs_lineComment s then
        if isSpace (rawLine ! position) then
          lret (pitch, if \<not> cs_boundary s then push_char (rawLine ! position) position s else s)
        else
          lbind (if cs_extra s \<noteq> size_max
                 then errorAtRawLine Warning lineNo rawLine (cs_extra s) position ''extra indents found''
                 else lret ()) (\<lambda>_.
            lret (pitch, fold (\<lambda>i. push_char (rawLine ! (position + i)) (position + i)) [0..<pitch]
              (s\<lparr>cs_boundary := False, cs_extra := size_max\<rparr>)))
      else lret (pitch, s))"

partial_function (option) comment_loop ::
    "nat \<Rightarrow> string \<Rightarrow> nat \<Rightarrow> comment_scan \<Rightarrow> lex_context \<Rightarrow> (comment_scan result \<times> lex_context) option" where
  [code]: "comment_loop lineNo rawLine position s ct =
     (if position < length rawLine then
        case comment_step lineNo rawLine position s ct of
          None \<Rightarrow> None
        | Some (Inl e, ct1) \<Rightarrow> Some (Inl e, ct1)
        | Some (Inr (pitch, s1), ct1) \<Rightarrow> comment_loop lineNo rawLine (position + pitch) s1 ct1
      else Some (Inr s, ct))"

text \<open>Trailing white space is dropped together with its columns.\<close>

definition drop_trailing :: "string \<Rightarrow> nat list \<Rightarrow> string \<times> nat list" where
  "drop_trailing str cols =
     (let n = length str - length (takeWhile isSpace (rev str)) in (take n str, take n cols))"

definition removeComments ::
    "comment_state \<Rightarrow> nat \<Rightarrow> string \<Rightarrow> bool \<Rightarrow> (processed_line \<times> comment_state) lex" where
  "removeComments comment lineNo rawLine keepIndents =
     (let s0 = \<lparr>cs_line = [], cs_columnIndex = [], cs_extra = size_max, cs_boundary = True,
                cs_lineComment = False, cs_comment = comment\<rparr>;
          (position, s1) =
            (if keepIndents then indent_loop rawLine 0 s0 else (leading_spaces rawLine, s0))
      in lbind (comment_loop lineNo rawLine position s1) (\<lambda>s.
           let (str, cols) = drop_trailing (cs_line s) (cs_columnIndex s);
               valid = (\<not> cs_boundary s)
           in lret (if valid then \<lparr>pl_valid = True, pl_line = str, pl_columnIndex = cols\<rparr>
                    else \<lparr>pl_valid = False, pl_line = [], pl_columnIndex = []\<rparr>, cs_comment s)))"

subsection \<open>parseLines\<close>

definition magicWord :: string where
  "magicWord = ''CHATRA_IGNORE_THIS_LINE''"

definition skip_first_line :: "string \<Rightarrow> string" where
  "skip_first_line source =
     (if startsWithRange source magicWord \<or> startsWithRange source ''#!''
      then snd (consumeLine source) else source)"

text \<open>The loop that drops white space lines, and then a line with the magic word, from the end.\<close>

function trim_tail :: "string \<Rightarrow> string" where
  "trim_tail source =
     (if CHR 0x0A \<notin> set source then source
      else
        let lineLength = length (takeWhile (\<lambda>c. c \<noteq> CHR 0x0A) (rev source));
            str = drop (length source - lineLength) source;
            rest = take (length source - lineLength - 1) source
        in if list_all isSpace str then trim_tail rest
           else if startsWith str 0 magicWord then rest
           else source)"
  by pat_completeness auto
termination
proof (relation "measure length", goal_cases)
  case (2 source)
  then have "source \<noteq> []" by auto
  with 2 show ?case by (cases source) auto
qed simp

declare trim_tail.simps [simp del]

text \<open>The inner \<open>for\<close>: the lines of a raw string up to the one that begins with \<open>>>>\<close>.\<close>

lemma consumeLine_shorter: "source \<noteq> [] \<Longrightarrow> length (snd (consumeLine source)) < length source"
  by (cases source) (auto simp: consumeLine_def Let_def)

function raw_string_loop ::
    "code_point \<Rightarrow> comment_state \<Rightarrow> nat \<Rightarrow> string \<Rightarrow> string \<Rightarrow> processed_line \<Rightarrow> lex_context \<Rightarrow>
     ((comment_state \<times> nat \<times> string \<times> string \<times> processed_line) result \<times> lex_context) option" where
  "raw_string_loop start comment lineNo source rawLine ln ct =
     (if source = [] then
        lbind (errorAtRawLine Error (p_lineNo start) (p_line start) (p_first start) (p_last start)
          ''unterminated raw-string'') (\<lambda>_. lthrow AbortCompiling) ct
      else
        let (nextRawLine, rest) = consumeLine source
        in if startsWithRange (dropWhile isSpace nextRawLine) ''>>>'' then
             lbind (removeComments comment (lineNo + 1) nextRawLine False) (\<lambda>(next, comment).
               let (rawLine, ln) = append_line rawLine ln nextRawLine next
               in lret (comment, lineNo + 1, rest, rawLine, ln)) ct
           else
             let (rawLine, ln) = append_line rawLine ln nextRawLine (wrapRawLine nextRawLine)
             in raw_string_loop start comment (lineNo + 1) rest rawLine ln ct)"
  by pat_completeness auto
termination
proof (relation "measure (\<lambda>(st, cm, n, source, raw, ln, ct). length source)", goal_cases)
  case (2 start comment lineNo source rawLine ln ct x nextRawLine rest)
  then have "rest = snd (consumeLine source)"
    by (metis snd_conv)
  with 2 show ?case
    using consumeLine_shorter [of source] by simp
qed simp

declare raw_string_loop.simps [simp del]

text \<open>The \<open>while\<close> around it.\<close>

partial_function (option) raw_strings ::
    "comment_state \<Rightarrow> nat \<Rightarrow> string \<Rightarrow> string \<Rightarrow> processed_line \<Rightarrow> lex_context \<Rightarrow>
     ((comment_state \<times> nat \<times> string \<times> string \<times> processed_line) result \<times> lex_context) option" where
  [code]: "raw_strings comment lineNo source rawLine ln ct =
     (if cm_level comment = 0 \<and> endsWith (pl_line ln) ''R<<<'' then
        let cols = pl_columnIndex ln;
            start = \<lparr>p_lineNo = lineNo, p_line = rawLine, p_first = cols ! (length cols - 4),
                     p_last = size_add (cols ! (length cols - 1)) 1\<rparr>
        in (case raw_string_loop start comment lineNo source rawLine ln ct of
              None \<Rightarrow> None
            | Some (Inl e, ct1) \<Rightarrow> Some (Inl e, ct1)
            | Some (Inr (comment1, lineNo1, source1, rawLine1, ln1), ct1) \<Rightarrow>
                raw_strings comment1 lineNo1 source1 rawLine1 ln1 ct1)
      else Some (Inr (comment, lineNo, source, rawLine, ln), ct))"

partial_function (option) lines_loop ::
    "comment_state \<Rightarrow> nat \<Rightarrow> string \<Rightarrow> line list \<Rightarrow> lex_context \<Rightarrow>
     ((line list \<times> comment_state) result \<times> lex_context) option" where
  [code]: "lines_loop comment lineNo source lns ct =
     (if source = [] then Some (Inr (lns, comment), ct)
      else
        let (rawLine, rest) = consumeLine source
        in (case removeComments comment lineNo rawLine True ct of
              None \<Rightarrow> None
            | Some (Inl e, ct1) \<Rightarrow> Some (Inl e, ct1)
            | Some (Inr (ln, comment1), ct1) \<Rightarrow>
                if \<not> pl_valid ln then lines_loop comment1 (lineNo + 1) rest lns ct1
                else
                  (case raw_strings comment1 lineNo rest rawLine ln ct1 of
                     None \<Rightarrow> None
                   | Some (Inl e, ct2) \<Rightarrow> Some (Inl e, ct2)
                   | Some (Inr (comment2, lineNo2, rest2, rawLine2, ln2), ct2) \<Rightarrow>
                       (case parseLine (c_fileName ct2) lineNo2 rawLine2 (pl_line ln2) (pl_columnIndex ln2) ct2 of
                          None \<Rightarrow> None
                        | Some (Inl e, ct3) \<Rightarrow> Some (Inl e, ct3)
                        | Some (Inr parsedLine, ct3) \<Rightarrow>
                            lines_loop comment2 (lineNo2 + 1) rest2
                              (if l_tokens parsedLine \<noteq> [] then lns @ [parsedLine] else lns) ct3))))"

definition parseLines :: "nat \<Rightarrow> string \<Rightarrow> (line list) lex" where
  "parseLines lineNo source =
     lbind (lines_loop new_comment lineNo (trim_tail (skip_first_line source)) []) (\<lambda>(lns, comment).
       lbind (if cm_level comment \<noteq> 0
              then let p = cm_start0 comment
                   in errorAtRawLine Error (p_lineNo p) (p_line p) (p_first p) (p_last p)
                        ''unterminated /* comment''
              else lret ()) (\<lambda>_. lret lns))"

end
