(* ===== verification/Lex_Facts.thy ===== *)
theory Lex_Facts
  imports Lex_Lines Utf8
begin

text \<open>
  Facts about \<open>parseLine\<close>: the scanning loops stay inside the line and return on UTF-8 text, every
  turn of the loop moves on, and the tokens of a finished line cover it.
\<close>

subsection \<open>Computations\<close>

lemma returns_errorAtRawLine [simp]: "returns (errorAtRawLine lv n s f l msg)"
  by (simp add: returns_def errorAtRawLine_def)

lemma returns_column [simp]: "returns (column cols i)"
  by (simp add: column_def)

lemma returns_errorAtLine [simp]: "returns (errorAtLine lv ln cols f l msg)"
  unfolding errorAtLine_def by (intro returns_lbind) (auto intro: returns_lbind)

lemma returns_addToken [simp]: "returns (addToken ln cols i n ty tok)"
proof -
  have "returns (\<lambda>ct. let t = T c in if b then lret (A t) ct
      else let (sid, table) = intern_value tok (c_table ct) in lret (B t sid) (ct\<lparr>c_table := table\<rparr>))"
    for T c b and A :: "token \<Rightarrow> line" and B
    by (simp add: returns_def lret_def Let_def split_beta)
  then show ?thesis
    unfolding addToken_def by (intro returns_lbind returns_column)
qed

subsection \<open>Scanning\<close>

lemmas string_scan_induct = string_scan.raw_induct [rotated, consumes 1, case_names step]
lemmas regexp_scan_induct = regexp_scan.raw_induct [rotated, consumes 1, case_names step]

lemma string_scan_bounds:
  "string_scan s q p = Some r \<Longrightarrow> p \<le> length s \<Longrightarrow> r = Some e \<Longrightarrow>
     p < e \<and> e \<le> length s \<and> s ! (e - 1) = q"
proof (induction s q p r rule: string_scan_induct)
  case (step f s q p r)
  show ?case
  proof (cases "p < length s \<and> s ! p \<noteq> q")
    case True
    let ?p = "if s ! p = CHR 0x5C then p + (1 + byteCount s (p + 1)) else p + byteCount s p"
    have "f s q ?p = Some r" "?p \<le> length s"
      using step(2,4) True byteCount_in_range [of p s] byteCount_in_range [of "Suc p" s]
      by (auto split: if_splits)
    from step(1) [OF this step(4)] show ?thesis by (auto split: if_splits)
  next
    case False
    then have "r = None \<or> (p < length s \<and> s ! p = q \<and> r = Some (Suc p))"
      using step(2) by (auto split: if_splits)
    with step(4) show ?thesis by auto
  qed
qed

lemma regexp_scan_bounds:
  "regexp_scan s q p = Some r \<Longrightarrow> p \<le> length s \<Longrightarrow> r = Some e \<Longrightarrow>
     p < e \<and> e \<le> length s \<and> s ! (e - 1) = q"
proof (induction s q p r rule: regexp_scan_induct)
  case (step f s q p r)
  show ?case
  proof (cases "p < length s \<and> \<not> (s ! p = q \<and> (p + 1 = length s \<or> s ! (p + 1) \<noteq> q))")
    case True
    let ?p = "if s ! p = q then p + 2 else p + byteCount s p"
    have "f s q ?p = Some r" "?p \<le> length s"
      using step(2,4) True byteCount_in_range [of p s] by (auto split: if_splits)
    from step(1) [OF this step(4)] show ?thesis by (auto split: if_splits)
  next
    case False
    then have "r = None \<or> (p < length s \<and> s ! p = q \<and> r = Some (Suc p))"
      using step(2) by (auto split: if_splits)
    with step(4) show ?thesis by auto
  qed
qed

text \<open>On UTF-8 text the loops end.\<close>

lemma string_scan_returns:
  "utf8 (drop p s) \<Longrightarrow> p \<le> length s \<Longrightarrow> \<exists>r. string_scan s q p = Some r"
proof (induction "length s - p" arbitrary: p rule: less_induct)
  case less
  show ?case
  proof (cases "p < length s")
    case True
    note here = utf8_step [OF less.prems(1) True]
    show ?thesis
    proof (cases "s ! p = CHR 0x5C")
      case True
      then have "ascii (s ! p)"
        by (intro class_ascii) (simp add: isSpecialCharacters_def)
      then have "byteCount s p = 1"
        using \<open>p < length s\<close> by (intro byteCount_ascii)
      then have next_ok: "utf8 (drop (Suc p) s)"
        using here by simp
      show ?thesis
      proof (cases "Suc p < length s")
        case True
        note there = utf8_step [OF next_ok True]
        then have "\<exists>r. string_scan s q (p + (1 + byteCount s (p + 1))) = Some r"
          by (intro less.hyps) (auto simp: \<open>p < length s\<close>)
        then show ?thesis
          using \<open>p < length s\<close> \<open>s ! p = CHR 0x5C\<close> by (subst string_scan.simps) auto
      next
        case False
        then show ?thesis
          using \<open>p < length s\<close> \<open>s ! p = CHR 0x5C\<close> by (subst string_scan.simps) auto
      qed
    next
      case False
      have "\<exists>r. string_scan s q (p + byteCount s p) = Some r"
        using here True by (intro less.hyps) auto
      then show ?thesis
        using True False by (subst string_scan.simps) auto
    qed
  next
    case False
    then show ?thesis by (subst string_scan.simps) simp
  qed
qed

lemma regexp_scan_returns:
  assumes q: "ascii q"
  shows "utf8 (drop p s) \<Longrightarrow> p \<le> length s \<Longrightarrow> \<exists>r. regexp_scan s q p = Some r"
proof (induction "length s - p" arbitrary: p rule: less_induct)
  case less
  show ?case
  proof (cases "p < length s")
    case True
    note here = utf8_step [OF less.prems(1) True]
    show ?thesis
    proof (cases "s ! p = q \<and> Suc p < length s \<and> s ! Suc p = q")
      case double: True
      then have "byteCount s p = 1" "byteCount s (Suc p) = 1"
        using q True by (metis byteCount_ascii)+
      moreover from this here utf8_step [of "Suc p" s] double
      have "utf8 (drop (Suc (Suc p)) s)" by simp
      ultimately have "\<exists>r. regexp_scan s q (p + 2) = Some r"
        using True double by (intro less.hyps) auto
      then show ?thesis
        using True double by (subst regexp_scan.simps) auto
    next
      case single: False
      have "\<exists>r. regexp_scan s q (p + byteCount s p) = Some r"
        using here True by (intro less.hyps) auto
      then show ?thesis
        using True single by (subst regexp_scan.simps) (auto simp: le_less_Suc_eq)
    qed
  next
    case False
    then show ?thesis by (subst regexp_scan.simps) simp
  qed
qed

text \<open>
  A byte that is not UTF-8 and is neither the quotation mark nor a backslash: the loop does not
  move, so it does not return.
\<close>

lemma string_scan_stuck:
  assumes "bad < length s" "byteCount s bad = 0" "s ! bad \<noteq> q" "s ! bad \<noteq> CHR 0x5C"
  shows "string_scan s q bad = None"
proof -
  have "\<not> (p = bad \<and> s' = s \<and> q' = q)" if "string_scan s' q' p = Some r" for s' q' p r
    using that
  proof (induction s' q' p r rule: string_scan_induct)
    case (step f s' q' p r)
    from step(1) [of s q bad r] step(2) assms show ?case by auto
  qed
  then show ?thesis by (metis not_None_eq)
qed

lemma matches_bounds:
  assumes "matches s i bp p \<noteq> 0"
  shows "i + matches s i bp p \<le> length s" "i < length s" "bp (s ! i)"
    "0 < k \<Longrightarrow> k < matches s i bp p \<Longrightarrow> p (s ! (i + k))"
    "i + matches s i bp p < length s \<Longrightarrow> \<not> p (s ! (i + matches s i bp p))"
proof -
  from assms obtain c cs where d: "drop i s = c # cs" and c: "bp c"
    and m: "matches s i bp p = Suc (length (takeWhile p cs))"
    by (auto simp: matches_def split: list.splits if_splits)
  then show i: "i < length s"
    by (metis drop_all list.distinct(1) not_le_imp_less)
  with d have cs: "c = s ! i" "cs = drop (Suc i) s"
    by (auto simp flip: Cons_nth_drop_Suc)
  then show "bp (s ! i)"
    using c by simp
  have le: "length (takeWhile p cs) \<le> length s - Suc i"
    using cs by (metis length_drop takeWhile_length_le)
  with i m show "i + matches s i bp p \<le> length s"
    by simp
  show "p (s ! (i + k))" if "0 < k" "k < matches s i bp p"
  proof -
    from that obtain j where k: "k = Suc j" "j < length (takeWhile p cs)"
      using m by (cases k) auto
    then have "p (cs ! j)"
      by (metis nth_mem set_takeWhileD takeWhile_nth)
    then show ?thesis
      using cs k le i by simp
  qed
  assume "i + matches s i bp p < length s"
  then have "length (takeWhile p cs) < length cs"
    using m cs by simp
  then have "\<not> p (cs ! length (takeWhile p cs))"
    by (rule nth_length_takeWhile)
  then show "\<not> p (s ! (i + matches s i bp p))"
    using m cs i by simp
qed

lemma operator_lengths: "oper \<in> set operatorsByLength \<Longrightarrow> 0 < length oper"
proof -
  have "list_all (\<lambda>oper. 0 < length oper) operatorsByLength"
    by code_simp
  then show "oper \<in> set operatorsByLength \<Longrightarrow> 0 < length oper"
    by (simp add: list_all_iff)
qed

lemma find_operatorD:
  assumes "find_operator s i m = Some oper"
  shows "oper \<in> set operatorsByLength" "0 < length oper" "length oper \<le> m"
    "i + length oper \<le> length s" "substr s i (length oper) = oper"
proof -
  from assms have mem: "oper \<in> set operatorsByLength"
    and pre: "startsWithRange (take m (drop i s)) oper"
    by (auto simp: find_operator_def find_Some_iff)
  then show "oper \<in> set operatorsByLength" "0 < length oper"
    by (simp_all only: operator_lengths)
  from pre show "length oper \<le> m" "substr s i (length oper) = oper"
    by (auto simp: startsWithRange_def substr_def min_def split: if_splits)
  from pre have "length oper \<le> length s - i"
    by (simp add: startsWithRange_def)
  with \<open>0 < length oper\<close> show "i + length oper \<le> length s"
    by arith
qed

subsection \<open>Tokens of a line\<close>

definition token_at :: "nat list \<Rightarrow> nat \<Rightarrow> nat \<Rightarrow> token \<Rightarrow> bool" where
  "token_at cols i n t \<longleftrightarrow> t_first t = cols ! i \<and> t_last t = size_add (cols ! (i + n - 1)) 1"

text \<open>
  The text a token stands for: the whole lexeme, kept in the string table, or for a literal the
  lexeme without what closes it.
\<close>

definition token_text :: "string_table \<Rightarrow> string \<Rightarrow> nat \<Rightarrow> nat \<Rightarrow> token \<Rightarrow> bool" where
  "token_text tbl str i n t \<longleftrightarrow>
     (if t_type t = TokenNumber then t_literal t = substr str i n
      else if t_type t = TokenString then
        t_literal t = substr str i (n - 1) \<or> t_literal t = substr str i (n - 4)
      else table_lookup tbl (t_sid t) = Some (substr str i n))"

definition table_grows :: "string_table \<Rightarrow> string_table \<Rightarrow> bool" where
  "table_grows t t' \<longleftrightarrow> table_wf t' \<and> table_capacity t \<le> Suc (table_capacity t') \<and>
     (\<forall>j s. table_lookup t j = Some s \<longrightarrow> table_lookup t' j = Some s)"

text \<open>\<open>tbl\<close>, \<open>cols\<close> and \<open>str\<close> given: the tokens \<open>ts\<close> are what the part from \<open>a\<close> to \<open>b\<close> consists of, up to spaces.\<close>

definition spaces :: "string \<Rightarrow> nat \<Rightarrow> nat \<Rightarrow> bool" where
  "spaces str a b \<longleftrightarrow> a \<le> b \<and> (\<forall>k \<in> {a..<b}. isSpace (str ! k))"

fun covers :: "string_table \<Rightarrow> nat list \<Rightarrow> string \<Rightarrow> nat \<Rightarrow> token list \<Rightarrow> nat \<Rightarrow> bool" where
  "covers tbl cols str a [] b \<longleftrightarrow> spaces str a b"
| "covers tbl cols str a (t # ts) b \<longleftrightarrow>
     (\<exists>i \<in> {a..<b}. \<exists>n \<in> {1..b - i}.
        spaces str a i \<and> token_at cols i n t \<and> token_text tbl str i n t \<and>
        covers tbl cols str (i + n) ts b)"

lemma token_text_grows: "table_grows tbl tbl' \<Longrightarrow> token_text tbl str i n t \<Longrightarrow> token_text tbl' str i n t"
  by (auto simp: token_text_def table_grows_def)

lemma covers_space:
  assumes a: "isSpace (str ! a)" and c: "covers tbl cols str (Suc a) ts b"
  shows "covers tbl cols str a ts b"
proof -
  have s: "spaces str a i" if "spaces str (Suc a) i" for i
  proof -
    have "{a..<i} \<subseteq> insert a {Suc a..<i}" by auto
    with a that show ?thesis by (auto simp: spaces_def)
  qed
  show ?thesis
  proof (cases ts)
    case Nil
    with c s show ?thesis by simp
  next
    case (Cons t ts')
    with c obtain i n where i: "i \<in> {Suc a..<b}" and n: "n \<in> {1..b - i}" and sp: "spaces str (Suc a) i"
      and rest: "token_at cols i n t" "token_text tbl str i n t" "covers tbl cols str (i + n) ts' b"
      by auto
    have "i \<in> {a..<b}"
      using i by simp
    with n s [OF sp] rest show ?thesis
      unfolding Cons covers.simps by blast
  qed
qed

lemma covers_token:
  assumes "token_at cols i n t" "token_text tbl str i n t" "0 < n" "i + n \<le> b"
    "covers tbl cols str (i + n) ts b"
  shows "covers tbl cols str i (t # ts) b"
proof -
  have "i \<in> {i..<b}" "n \<in> {1..b - i}" "spaces str i i"
    using assms by (auto simp: spaces_def)
  with assms show ?thesis
    unfolding covers.simps by blast
qed

lemma addTokenD:
  assumes add: "addToken ret cols i n ty tok ct = Some (Inr ret', ct')"
    and wf: "table_wf (c_table ct)" "0 < table_capacity (c_table ct)"
    and lexeme: "ty = TokenNumber \<Longrightarrow> tok = substr str i n"
      "ty = TokenString \<Longrightarrow> tok = substr str i (n - 1) \<or> tok = substr str i (n - 4)"
      "ty \<noteq> TokenString \<Longrightarrow> tok = substr str i n"
  shows "\<exists>t. l_tokens ret' = l_tokens ret @ [t] \<and> l_containsError ret' = l_containsError ret \<and>
    l_indents ret' = l_indents ret \<and>
    token_at cols i n t \<and> token_text (c_table ct') str i n t \<and>
    table_grows (c_table ct) (c_table ct')"
proof -
  let ?r = "intern_value tok (c_table ct)"
  note facts = table.intern_inv [OF wf, of tok] table.intern_lookup [OF wf, of tok]
    table.intern_keeps [OF wf] table.intern_capacity [OF wf, of tok]
  have grow: "table_grows (c_table ct) (snd ?r)"
    using facts by (auto simp: table_grows_def)
  have same: "table_grows (c_table ct) (c_table ct)"
    using wf by (simp add: table_grows_def)
  from add show ?thesis
    using grow same lexeme facts(2)
    by (auto simp: addToken_def lbind_def column_def lret_def lthrow_def Let_def split_beta
        token_at_def token_text_def split: if_splits)
qed

lemma errorAtRawLine_table:
  "errorAtRawLine lv n s f l msg ct = Some (r, ct') \<Longrightarrow> c_table ct' = c_table ct"
  by (auto simp: errorAtRawLine_def)

lemma column_table: "column cols i ct = Some (r, ct') \<Longrightarrow> ct' = ct"
  by (auto simp: column_def lret_def lthrow_def split: if_splits)

lemma errorAtLine_table:
  "errorAtLine lv ln cols f l msg ct = Some (r, ct') \<Longrightarrow> c_table ct' = c_table ct"
  unfolding errorAtLine_def
  by (auto elim!: lbind_SomeE dest!: errorAtRawLine_table column_table simp: lret_def split: if_splits)

lemma unterminatedD:
  "unterminated ret cols str ti msg ct = Some (Inr ret', ct') \<Longrightarrow>
     ret' = ret\<lparr>l_containsError := True\<rparr> \<and> c_table ct' = c_table ct"
  unfolding unterminated_def
  by (auto elim!: lbind_InrE dest!: errorAtLine_table simp: lret_def)

lemma findEndOfStringD:
  assumes "findEndOfStringOrEmitError ret cols str ti si ct = Some (Inr (m, ret'), ct')"
    and "si < length str"
  shows "0 < m \<and> si + m \<le> length str \<and> c_table ct' = c_table ct \<and>
    (ret' = ret \<or> ret' = ret\<lparr>l_containsError := True\<rparr>)"
  using assms string_scan_bounds [of str "str ! si" "si + 1"]
  by (fastforce simp: findEndOfStringOrEmitError_def lret_def split: option.splits
      elim!: lbind_InrE dest!: unterminatedD)

lemma findEndOfRegexpStringD:
  assumes "findEndOfRegexpStringOrEmitError ret cols str ti si ct = Some (Inr (m, ret'), ct')"
    and "si < length str"
  shows "0 < m \<and> si + m \<le> length str \<and> c_table ct' = c_table ct \<and>
    (ret' = ret \<or> ret' = ret\<lparr>l_containsError := True\<rparr>)"
  using assms regexp_scan_bounds [of str "str ! si" "si + 1"]
  by (fastforce simp: findEndOfRegexpStringOrEmitError_def lret_def split: option.splits
      elim!: lbind_InrE dest!: unterminatedD)

lemma find_fromD:
  "find_from s pat p = Some i \<Longrightarrow> p \<le> i \<and> i + length pat \<le> length s \<and> startsWith s i pat"
proof -
  assume "find_from s pat p = Some i"
  then have i: "i \<in> set [p..<Suc (length s)]" and pre: "startsWith s i pat"
    unfolding find_from_def find_Some_iff by (metis nth_mem, blast)
  from i have "p \<le> i"
    by (simp only: set_upt atLeastLessThan_iff)
  with pre show ?thesis
    by (simp add: startsWith_def Let_def)
qed

lemma findEndOfRawStringD:
  assumes "findEndOfRawStringOrEmitError ret cols str ti si ct = Some (Inr m, ct')"
  shows "4 \<le> m \<and> si + m \<le> length str \<and> ct' = ct"
  using assms find_fromD [of str "CHR 0x0A # ''>>>''" si]
  by (auto simp: findEndOfRawStringOrEmitError_def lret_def lthrow_def split: option.splits
      elim!: lbind_InrE)

subsection \<open>One turn of the loop\<close>

text \<open>What a turn can do: skip a space, add one token, or stop at an invalid character.\<close>

definition turn ::
    "nat list \<Rightarrow> string \<Rightarrow> nat \<Rightarrow> line \<Rightarrow> lex_context \<Rightarrow> bool \<times> nat \<times> line \<Rightarrow> lex_context \<Rightarrow> bool" where
  "turn cols str i ret ct r ct' \<longleftrightarrow>
     (case r of (go, i', ret') \<Rightarrow>
        (if \<not> go then l_tokens ret' = l_tokens ret \<and> l_containsError ret' \<and> c_table ct' = c_table ct
         else (isSpace (str ! i) \<and> i' = Suc i \<and> ret' = ret \<and> ct' = ct) \<or>
              (\<exists>n t. 0 < n \<and> i' = i + n \<and> i + n \<le> length str \<and> l_tokens ret' = l_tokens ret @ [t] \<and>
                 (l_containsError ret \<longrightarrow> l_containsError ret') \<and>
                 token_at cols i n t \<and> token_text (c_table ct') str i n t \<and>
                 table_grows (c_table ct) (c_table ct'))))"

definition lexeme_ok :: "string \<Rightarrow> nat \<Rightarrow> nat \<Rightarrow> token_type \<Rightarrow> string \<Rightarrow> bool" where
  "lexeme_ok str i n ty tok \<longleftrightarrow>
     (ty = TokenNumber \<longrightarrow> tok = substr str i n) \<and>
     (ty = TokenString \<longrightarrow> tok = substr str i (n - 1) \<or> tok = substr str i (n - 4)) \<and>
     (ty \<noteq> TokenString \<longrightarrow> tok = substr str i n)"

text \<open>How the code gets there: at most one call of \<open>addToken\<close>, and what is given to it.\<close>

definition shape ::
    "nat list \<Rightarrow> string \<Rightarrow> nat \<Rightarrow> line \<Rightarrow> lex_context \<Rightarrow> bool \<times> nat \<times> line \<Rightarrow> lex_context \<Rightarrow> bool" where
  "shape cols str i ret ct r ct' \<longleftrightarrow>
     (isSpace (str ! i) \<and> r = (True, Suc i, ret) \<and> ct' = ct) \<or>
     (r = (False, i, ret\<lparr>l_containsError := True\<rparr>) \<and> c_table ct' = c_table ct) \<or>
     (\<exists>ret1 n ty tok ct1.
        lbind (addToken ret1 cols i n ty tok) (\<lambda>ret. lret (True, i + n, ret)) ct1 = Some (Inr r, ct') \<and>
        0 < n \<and> i + n \<le> length str \<and> c_table ct1 = c_table ct \<and>
        (ret1 = ret \<or> ret1 = ret\<lparr>l_containsError := True\<rparr>) \<and> lexeme_ok str i n ty tok)"

lemma shape_token:
  assumes "lbind (addToken ret1 cols i n ty tok) (\<lambda>ret. lret (True, i + n, ret)) ct1 = Some (Inr r, ct')"
    and "0 < n" "i + n \<le> length str" "c_table ct1 = c_table ct"
    and "ret1 = ret \<or> ret1 = ret\<lparr>l_containsError := True\<rparr>" "lexeme_ok str i n ty tok"
  shows "shape cols str i ret ct r ct'"
  using assms unfolding shape_def by blast

lemma substr_one: "i < length s \<Longrightarrow> substr s i (Suc 0) = [s ! i]"
  by (simp add: substr_def take_Suc_conv_app_nth flip: Cons_nth_drop_Suc)

lemma startsWith_length: "startsWith s i p \<Longrightarrow> i + length p \<le> length s"
  by (simp add: startsWith_def Let_def)

lemma parse_step_shape:
  assumes step: "parse_step cols str i ret ct = Some (Inr r, ct')"
    and i: "i < length str"
  shows "shape cols str i ret ct r ct'"
proof -
  let ?c = "str ! i"
  let ?Ls = "startsWith str i [CHR ''L'', CHR 0x27] \<or> startsWith str i [CHR ''L'', CHR 0x22]"
  let ?rs = "startsWith str i [CHR ''r'', CHR 0x27] \<or> startsWith str i [CHR ''r'', CHR 0x22]"
  let ?Rs = "startsWith str i (''R<<<'' @ [CHR 0x0A])"
  let ?num = "matches str i isBeginningOfNumber isPartOfNumber"
  let ?nam = "matches str i isBeginningOfName isPartOfName"
  let ?op = "matches str i isBeginningOfOperator isPartOfOperator"
  note step = step [unfolded parse_step_def Let_def]
  show ?thesis
  proof (cases "isSpace ?c")
    case True
    with step show ?thesis by (auto simp: shape_def lret_def)
  next
    case False
    note step = step [unfolded if_not_P [OF False]]
    show ?thesis
    proof (cases "bracket_type ?c \<noteq> None")
      case True
      from step [unfolded if_P [OF True]] show ?thesis
        by (rule shape_token) (use i True in \<open>auto simp: substr_one bracket_type_def lexeme_ok_def split: if_splits\<close>)
    next
      case False
      note step = step [unfolded if_not_P [OF False]]
      show ?thesis
      proof (cases "?c = CHR 0x27 \<or> ?c = CHR 0x22")
        case True
        from step [unfolded if_P [OF True]] obtain m ret1 ct1
          where m: "findEndOfStringOrEmitError ret cols str i i ct = Some (Inr (m, ret1), ct1)"
          and rest: "lbind (addToken ret1 cols i m TokenString (substr str i (m - 1)))
            (\<lambda>ret. lret (True, i + m, ret)) ct1 = Some (Inr r, ct')"
          by (elim lbind_InrE) auto
        from rest show ?thesis
          by (rule shape_token) (use findEndOfStringD [OF m i] in \<open>auto simp: lexeme_ok_def\<close>)
      next
        case False
        note step = step [unfolded if_not_P [OF False]]
        show ?thesis
        proof (cases ?Ls)
          case True
          from step [unfolded if_P [OF True]] show ?thesis
            by (elim lbind_InrE) (auto elim!: lbind_InrE simp: lthrow_def)
        next
          case False
          note step = step [unfolded if_not_P [OF False]]
          show ?thesis
          proof (cases ?rs)
            case True
            then have i1: "i + 1 < length str"
              by (auto dest!: startsWith_length)
            from step [unfolded if_P [OF True]] obtain m ret1 ct1
              where m: "findEndOfRegexpStringOrEmitError ret cols str i (i + 1) ct = Some (Inr (m, ret1), ct1)"
              and rest: "lbind (addToken ret1 cols i (1 + m) TokenString (substr str i (1 + m - 1)))
                (\<lambda>ret. lret (True, i + (1 + m), ret)) ct1 = Some (Inr r, ct')"
              by (elim lbind_InrE) auto
            from rest show ?thesis
              by (rule shape_token) (use findEndOfRegexpStringD [OF m i1] in \<open>auto simp: lexeme_ok_def\<close>)
          next
            case False
            note step = step [unfolded if_not_P [OF False]]
            show ?thesis
            proof (cases ?Rs)
              case True
              from step [unfolded if_P [OF True]] obtain m ct1
                where m: "findEndOfRawStringOrEmitError ret cols str i (i + 4) ct = Some (Inr m, ct1)"
                and rest: "lbind (addToken ret cols i (4 + m) TokenString (substr str i (4 + m - 4)))
                  (\<lambda>ret. lret (True, i + (4 + m), ret)) ct1 = Some (Inr r, ct')"
                by (rule lbind_InrE)
              from rest show ?thesis
                by (rule shape_token) (use findEndOfRawStringD [OF m] in \<open>auto simp: lexeme_ok_def\<close>)
            next
              case False
              note step = step [unfolded if_not_P [OF False]]
              show ?thesis
              proof (cases "?num \<noteq> 0")
                case True
                from step [unfolded if_P [OF True]] show ?thesis
                  by (rule shape_token) (use True matches_bounds(1) [OF True] in \<open>auto simp: lexeme_ok_def\<close>)
              next
                case False
                note step = step [unfolded if_not_P [OF False]]
                show ?thesis
                proof (cases "?nam \<noteq> 0")
                  case True
                  from step [unfolded if_P [OF True]] show ?thesis
                    by (rule shape_token) (use True matches_bounds(1) [OF True] in \<open>auto simp: lexeme_ok_def split: if_splits\<close>)
                next
                  case False
                  note step = step [unfolded if_not_P [OF False]]
                  show ?thesis
                  proof (cases "if ?op \<noteq> 0 then find_operator str i ?op else None")
                    case None
                    from step [unfolded None option.case] show ?thesis
                      by (elim lbind_InrE) (auto simp: shape_def lret_def dest: errorAtLine_table)
                  next
                    case (Some oper)
                    then have op: "find_operator str i ?op = Some oper"
                      by (simp split: if_splits)
                    from step [unfolded Some option.case] show ?thesis
                      by (rule shape_token) (use find_operatorD [OF op] in \<open>auto simp: lexeme_ok_def\<close>)
                  qed
                qed
              qed
            qed
          qed
        qed
      qed
    qed
  qed
qed

lemma turn_token:
  assumes m: "lbind (addToken ret1 cols i n ty tok) (\<lambda>ret. lret (True, i + n, ret)) ct1 = Some (Inr r, ct')"
    and n: "0 < n" "i + n \<le> length str"
    and wf: "table_wf (c_table ct)" "0 < table_capacity (c_table ct)" "c_table ct1 = c_table ct"
    and ret1: "ret1 = ret \<or> ret1 = ret\<lparr>l_containsError := True\<rparr>"
    and lexeme: "lexeme_ok str i n ty tok"
  shows "turn cols str i ret ct r ct'"
proof -
  from m obtain ret2 where add: "addToken ret1 cols i n ty tok ct1 = Some (Inr ret2, ct')"
    and r: "r = (True, i + n, ret2)"
    by (elim lbind_InrE) (auto simp: lret_def)
  from addTokenD [OF add, of str] wf lexeme obtain t where
    "l_tokens ret2 = l_tokens ret1 @ [t]" "l_containsError ret2 = l_containsError ret1"
    "token_at cols i n t" "token_text (c_table ct') str i n t" "table_grows (c_table ct) (c_table ct')"
    by (auto simp: lexeme_ok_def)
  with n ret1 r show ?thesis
    by (auto simp: turn_def)
qed

lemma parse_step_turn:
  assumes "parse_step cols str i ret ct = Some (Inr r, ct')" "i < length str"
    and "table_wf (c_table ct)" "0 < table_capacity (c_table ct)"
  shows "turn cols str i ret ct r ct'"
proof -
  from parse_step_shape [OF assms(1,2)] consider
      "isSpace (str ! i)" "r = (True, Suc i, ret)" "ct' = ct"
    | "r = (False, i, ret\<lparr>l_containsError := True\<rparr>)" "c_table ct' = c_table ct"
    | ret1 n ty tok ct1 where
      "lbind (addToken ret1 cols i n ty tok) (\<lambda>ret. lret (True, i + n, ret)) ct1 = Some (Inr r, ct')"
      "0 < n" "i + n \<le> length str" "c_table ct1 = c_table ct"
      "ret1 = ret \<or> ret1 = ret\<lparr>l_containsError := True\<rparr>" "lexeme_ok str i n ty tok"
    unfolding shape_def by blast
  then show ?thesis
  proof cases
    case 3
    then show ?thesis by (intro turn_token [OF 3(1-3) assms(3,4)])
  qed (simp_all add: turn_def)
qed

lemma parse_step_moves:
  assumes "parse_step cols str i ret ct = Some (Inr (True, i', ret'), ct')" "i < length str"
  shows "i < i' \<and> i' \<le> length str"
  using parse_step_shape [OF assms] assms(2)
  unfolding shape_def by (auto elim!: lbind_InrE simp: lret_def)

subsection \<open>The loop\<close>

lemmas parse_loop_induct = parse_loop.raw_induct [rotated, consumes 1, case_names step]

lemma table_grows_trans:
  "table_grows t t' \<Longrightarrow> table_grows t' t'' \<Longrightarrow>
     table_wf t'' \<and> (\<forall>j s. table_lookup t j = Some s \<longrightarrow> table_lookup t'' j = Some s)"
  by (auto simp: table_grows_def)

definition tables_extend :: "string_table \<Rightarrow> string_table \<Rightarrow> bool" where
  "tables_extend t t' \<longleftrightarrow> table_wf t' \<and> (\<forall>j s. table_lookup t j = Some s \<longrightarrow> table_lookup t' j = Some s)"

lemma token_text_extend:
  "tables_extend tbl tbl' \<Longrightarrow> token_text tbl str i n t \<Longrightarrow> token_text tbl' str i n t"
  by (auto simp: token_text_def tables_extend_def)

text \<open>
  The tokens added by the loop cover the line from \<open>index\<close> to its end, or to the invalid character
  at which an error was reported.
\<close>

definition loop_result :: "nat list \<Rightarrow> string \<Rightarrow> nat \<Rightarrow> line \<Rightarrow> lex_context \<Rightarrow> line \<Rightarrow> lex_context \<Rightarrow> bool" where
  "loop_result cols str i ret ct ret' ct' \<longleftrightarrow>
     tables_extend (c_table ct) (c_table ct') \<and>
     (l_containsError ret \<longrightarrow> l_containsError ret') \<and>
     (\<exists>ts e. l_tokens ret' = l_tokens ret @ ts \<and> covers (c_table ct') cols str i ts e \<and>
        e \<le> length str \<and> (e = length str \<or> l_containsError ret'))"

lemma parse_loop_covers:
  "parse_loop cols str i ret ct = Some (r, ct') \<Longrightarrow> r = Inr ret' \<Longrightarrow> i \<le> length str \<Longrightarrow>
     table_wf (c_table ct) \<Longrightarrow> length str - i \<le> table_capacity (c_table ct) \<Longrightarrow>
     loop_result cols str i ret ct ret' ct'"
proof (induction cols str i ret ct "(r, ct')" arbitrary: r ct' ret' rule: parse_loop_induct)
  case (step f cols str i ret ct r ct')
  show ?case
  proof (cases "i < length str")
    case False
    with step show ?thesis
      by (auto simp: loop_result_def tables_extend_def spaces_def intro!: exI [of _ "[]"])
  next
    case True
    with step(2,3) obtain go i1 ret1 ct1 where
      s: "parse_step cols str i ret ct = Some (Inr (go, i1, ret1), ct1)" and
      f: "if go then f cols str i1 ret1 ct1 = Some (Inr ret', ct') else ret' = ret1 \<and> ct' = ct1"
      by (auto split: option.splits sum.splits if_splits prod.splits)
    have cap: "0 < table_capacity (c_table ct)"
      using step(6) True by simp
    have t: "turn cols str i ret ct (go, i1, ret1) ct1"
      by (rule parse_step_turn [OF s True step(5) cap])
    show ?thesis
    proof (cases go)
      case False
      have "covers (c_table ct') cols str i [] i"
        by (simp add: spaces_def)
      with False t f step(5) True show ?thesis
        by (auto simp: turn_def loop_result_def tables_extend_def intro!: exI [of _ "[]"])
    next
      case go: True
      with t consider (space) "isSpace (str ! i)" "i1 = Suc i" "ret1 = ret" "ct1 = ct"
        | (token) n t where "0 < n" "i1 = i + n" "i + n \<le> length str" "l_tokens ret1 = l_tokens ret @ [t]"
          "l_containsError ret \<longrightarrow> l_containsError ret1" "token_at cols i n t"
          "token_text (c_table ct1) str i n t" "table_grows (c_table ct) (c_table ct1)"
        by (auto simp: turn_def)
      then show ?thesis
      proof cases
        case space
        with step(1) [of cols str i1 ret1 ct1 "Inr ret'" ct' ret'] f go True step(5,6)
        have "loop_result cols str (Suc i) ret ct ret' ct'" by auto
        with space(1) show ?thesis
          by (auto simp: loop_result_def intro: covers_space)
      next
        case token
        have "loop_result cols str i1 ret1 ct1 ret' ct'"
          using step(1) [of cols str i1 ret1 ct1 "Inr ret'" ct' ret'] f go step(6) token
          by (auto simp: table_grows_def)
        then obtain ts e where
          r: "tables_extend (c_table ct1) (c_table ct')" "l_containsError ret1 \<longrightarrow> l_containsError ret'"
            "l_tokens ret' = l_tokens ret1 @ ts" "covers (c_table ct') cols str i1 ts e"
            "e \<le> length str" "e = length str \<or> l_containsError ret'"
          by (auto simp: loop_result_def)
        have "i1 \<le> e"
        proof (cases ts)
          case Nil
          with r(4) show ?thesis by (simp add: spaces_def)
        next
          case (Cons t' ts')
          with r(4) show ?thesis by auto
        qed
        with r token have "covers (c_table ct') cols str i (t # ts) e"
          by (intro covers_token [of cols i n]) (auto intro: token_text_extend)
        moreover have "tables_extend (c_table ct) (c_table ct')"
          using token(8) r(1) by (auto simp: table_grows_def tables_extend_def)
        ultimately show ?thesis
          using r token unfolding loop_result_def
          by (intro conjI exI [of _ "t # ts"] exI [of _ e]) auto
      qed
    qed
  qed
qed

text \<open>On UTF-8 text every turn, and then the loop, returns.\<close>

lemma utf8_after_quote:
  "utf8 str \<Longrightarrow> i < length str \<Longrightarrow> str ! i = CHR 0x27 \<or> str ! i = CHR 0x22 \<Longrightarrow>
     ascii (str ! i) \<and> utf8 (drop (i + 1) str)"
proof -
  assume u: "utf8 str" "i < length str" and q: "str ! i = CHR 0x27 \<or> str ! i = CHR 0x22"
  then have "ascii (str ! i)"
    by (intro class_ascii(2)) (auto simp: isSpecialCharacters_def)
  with utf8_cut_after(2) [OF u] show ?thesis by simp
qed

lemma returns_unterminated [simp]: "returns (unterminated ret cols str ti msg)"
  unfolding unterminated_def by (intro returns_lbind) simp_all

lemma returns_findEndOfString:
  assumes "utf8 str" "si < length str" "str ! si = CHR 0x27 \<or> str ! si = CHR 0x22"
  shows "returns (findEndOfStringOrEmitError ret cols str ti si)"
    "returns (findEndOfRegexpStringOrEmitError ret cols str ti si)"
proof -
  note u = utf8_after_quote [OF assms]
  have u': "utf8 (drop (Suc si) str)" "Suc si \<le> length str"
    using u assms(2) by simp_all
  obtain r where r: "string_scan str (str ! si) (Suc si) = Some r"
    using string_scan_returns [OF u'] by blast
  obtain r' where r': "regexp_scan str (str ! si) (Suc si) = Some r'"
    using regexp_scan_returns [OF _ u'] u by blast
  have n: "returns (lbind (unterminated ret cols str ti msg) (\<lambda>ln'. lret (m, ln')))"
    for msg and m :: nat
    by (intro returns_lbind) simp_all
  show "returns (findEndOfStringOrEmitError ret cols str ti si)"
    using n by (auto simp: returns_def findEndOfStringOrEmitError_def r lret_def split: option.splits)
  show "returns (findEndOfRegexpStringOrEmitError ret cols str ti si)"
    using n by (auto simp: returns_def findEndOfRegexpStringOrEmitError_def r' lret_def split: option.splits)
qed

lemma returns_findEndOfRawString [simp]:
  "returns (findEndOfRawStringOrEmitError ret cols str ti si)"
  unfolding findEndOfRawStringOrEmitError_def
  by (auto split: option.splits intro!: returns_lbind)

lemma startsWith_two:
  "startsWith str i [a, b] \<Longrightarrow> Suc i < length str \<and> str ! Suc i = b"
  by (auto simp: startsWith_nth dest: spec [of _ 1])

lemma parse_step_returns:
  assumes "utf8 str" "i < length str"
  shows "returns (parse_step cols str i ret)"
proof -
  have add: "returns (lbind (addToken ret cols i n ty tok) (\<lambda>ret. lret (True, i + n, ret)))" for ret n ty tok
    by (intro returns_lbind) simp_all
  have prefixed: "returns (findEndOfStringOrEmitError ret cols str i (i + 1))"
    "returns (findEndOfRegexpStringOrEmitError ret cols str i (i + 1))"
    if "startsWith str i [x, CHR 0x27] \<or> startsWith str i [x, CHR 0x22]" for x
    using that startsWith_two [of str i x] by (auto intro!: returns_findEndOfString assms(1))
  have quoted: "returns (findEndOfStringOrEmitError ret cols str i i)"
    if "str ! i = CHR 0x27 \<or> str ! i = CHR 0x22"
    using that by (intro returns_findEndOfString assms)
  show ?thesis
    unfolding parse_step_def Let_def
    by (intro returns_ifI returns_optionI returns_prodI returns_lbind returns_addToken
        returns_errorAtLine returns_findEndOfRawString quoted prefixed | assumption | simp)+
qed

lemma parse_loop_returns:
  assumes "utf8 str"
  shows "\<exists>r. parse_loop cols str i ret ct = Some r"
proof (induction "length str - i" arbitrary: i ret ct rule: less_induct)
  case less
  show ?case
  proof (cases "i < length str")
    case True
    then obtain r ct1 where s: "parse_step cols str i ret ct = Some (r, ct1)"
      using parse_step_returns [OF assms True] unfolding returns_def by fastforce
    show ?thesis
    proof (cases r)
      case (Inr x)
      obtain go i1 ret1 where x: "x = (go, i1, ret1)" by (cases x)
      show ?thesis
      proof (cases go)
        case go: True
        then have "i < i1 \<and> i1 \<le> length str"
          using parse_step_moves [OF _ True] s Inr x by auto
        then have "\<exists>r. parse_loop cols str i1 ret1 ct1 = Some r"
          using True by (intro less) (simp add: diff_less_mono2)
        then show ?thesis
          using True s Inr x go by (subst parse_loop.simps) auto
      qed (use True s Inr x in \<open>subst parse_loop.simps; simp\<close>)
    qed (use True s in \<open>subst parse_loop.simps; simp\<close>)
  qed (subst parse_loop.simps, simp)
qed

lemma parseLine_returns: "utf8 str \<Longrightarrow> returns (parseLine fileName lineNo rawLine str cols)"
  unfolding parseLine_def Let_def
  by (intro returns_lbind) (use parse_loop_returns in \<open>force simp: returns_def lret_def\<close>)+

subsection \<open>The whole line\<close>

lemma covers_number:
  "covers tbl cols str a (List.map (\<lambda>(i, t). t\<lparr>t_index := i\<rparr>) (enumerate k ts)) b =
     covers tbl cols str a ts b"
  by (induction ts arbitrary: a k) (simp_all add: token_at_def token_text_def)

lemma parseLine_result:
  assumes parse: "parseLine fileName n raw str cols ct = Some (Inr ln, ct')"
    and wf: "table_wf (c_table ct)" "length str \<le> table_capacity (c_table ct)"
  shows "tables_extend (c_table ct) (c_table ct') \<and>
    (\<exists>e \<le> length str. covers (c_table ct') cols str (length (takeWhile (\<lambda>c. c = CHR 0x09) str)) (l_tokens ln) e \<and>
       (e = length str \<or> l_containsError ln)) \<and>
    List.map t_index (l_tokens ln) = [0..<length (l_tokens ln)]"
proof -
  let ?i = "length (takeWhile (\<lambda>c. c = CHR 0x09) str)"
  from parse obtain ret where
    loop: "parse_loop cols str ?i \<lparr>l_containsError = False, l_fileName = fileName, l_lineNo = n,
                 l_line = raw, l_indents = ?i, l_tokens = []\<rparr> ct = Some (Inr ret, ct')"
    and ln: "ln = number_tokens ret"
    unfolding parseLine_def Let_def by (elim lbind_InrE) (auto simp: lret_def)
  have "?i \<le> length str"
    by (rule takeWhile_length_le)
  then have r: "loop_result cols str ?i \<lparr>l_containsError = False, l_fileName = fileName, l_lineNo = n,
                 l_line = raw, l_indents = ?i, l_tokens = []\<rparr> ct ret ct'"
    using wf by (intro parse_loop_covers [OF loop]) simp_all
  have "List.map t_index (l_tokens ln) = [0..<length (l_tokens ln)]"
    unfolding ln number_tokens_def
    by (intro nth_equalityI) (simp_all add: nth_enumerate_eq)
  with r show ?thesis
    by (auto simp: loop_result_def ln number_tokens_def covers_number)
qed

end
