(* ===== verification/Line_Facts.thy ===== *)
theory Line_Facts
  imports Lex_Facts
begin

text \<open>
  Facts about \<open>removeComments\<close> and \<open>parseLines\<close>: the columns of the kept characters, what happens
  to text without comments, and that \<open>parseLines\<close> returns on every UTF-8 source.
\<close>

subsection \<open>Lines of a source\<close>

lemma consumeLine_parts:
  "consumeLine s = (l, rest) \<Longrightarrow>
     CHR 0x0A \<notin> set l \<and> (s = l \<and> rest = [] \<or> s = l @ CHR 0x0A # rest)"
proof -
  assume "consumeLine s = (l, rest)"
  then have l: "l = takeWhile (\<lambda>c. c \<noteq> CHR 0x0A) s" and rest: "rest = drop (Suc (length l)) s"
    by (auto simp: consumeLine_def Let_def)
  have no: "CHR 0x0A \<notin> set l"
    unfolding l by (auto dest: set_takeWhileD)
  show ?thesis
  proof (cases "dropWhile (\<lambda>c. c \<noteq> CHR 0x0A) s")
    case Nil
    then have "s = l"
      unfolding l by (metis append_Nil2 takeWhile_dropWhile_id)
    then show ?thesis using no rest by auto
  next
    case (Cons c cs)
    then have "c = CHR 0x0A"
      using hd_dropWhile [of "\<lambda>c. c \<noteq> CHR 0x0A" s] by auto
    moreover have s: "s = l @ c # cs"
      unfolding l using Cons by (metis takeWhile_dropWhile_id)
    moreover have "rest = cs"
      unfolding rest by (subst s) simp
    ultimately show ?thesis using no by auto
  qed
qed

lemma ascii_newline: "ascii (CHR 0x0A)"
  by (rule ascii_small) simp

lemma utf8_newline:
  assumes "utf8 (l @ CHR 0x0A # rest)"
  shows "utf8 l" "utf8 rest"
proof -
  have i: "length l < length (l @ CHR 0x0A # rest)"
    by simp
  have a: "ascii ((l @ CHR 0x0A # rest) ! length l)"
    using ascii_newline by (simp only: nth_append_length)
  show "utf8 l"
    using utf8_cut_before [OF assms i a] by simp
  show "utf8 rest"
    using utf8_cut_after(2) [OF assms i a] by simp
qed

lemma utf8_consumeLine:
  "utf8 s \<Longrightarrow> consumeLine s = (l, rest) \<Longrightarrow> utf8 l \<and> utf8 rest"
  by (drule consumeLine_parts) (metis utf8_Nil utf8_newline)

subsection \<open>The comment scanner\<close>

text \<open>
  The invariant: the kept characters and their columns have the same length, they are UTF-8, and a
  column is either the position of the character in the raw line or, for a space put in the place
  of a comment, \<open>size_max\<close>; a tab may stand for four spaces.
\<close>

definition column_ok :: "string \<Rightarrow> char \<Rightarrow> nat \<Rightarrow> bool" where
  "column_ok raw c col \<longleftrightarrow>
     (if col = size_max then c = CHR '' ''
      else col < length raw \<and> (raw ! col = c \<or> c = CHR 0x09 \<and> raw ! col = CHR '' ''))"

definition scan_ok :: "string \<Rightarrow> nat \<Rightarrow> comment_scan \<Rightarrow> bool" where
  "scan_ok raw position s \<longleftrightarrow>
     utf8 (cs_line s) \<and> list_all2 (column_ok raw) (cs_line s) (cs_columnIndex s) \<and>
     sorted_wrt (<) (filter (\<lambda>c. c \<noteq> size_max) (cs_columnIndex s)) \<and>
     (\<forall>col \<in> set (cs_columnIndex s). col \<noteq> size_max \<longrightarrow> col < position)"

lemma scan_okD:
  "scan_ok raw p s \<Longrightarrow> utf8 (cs_line s)"
  "scan_ok raw p s \<Longrightarrow> length (cs_columnIndex s) = length (cs_line s)"
  by (auto simp: scan_ok_def dest: list_all2_lengthD)

lemma scan_ok_later: "scan_ok raw p s \<Longrightarrow> p \<le> q \<Longrightarrow> scan_ok raw q s"
  by (auto simp: scan_ok_def)

lemma scan_ok_update:
  "scan_ok raw p (s\<lparr>cs_extra := e\<rparr>) = scan_ok raw p s"
  "scan_ok raw p (s\<lparr>cs_boundary := b\<rparr>) = scan_ok raw p s"
  "scan_ok raw p (s\<lparr>cs_lineComment := b\<rparr>) = scan_ok raw p s"
  "scan_ok raw p (s\<lparr>cs_comment := cm\<rparr>) = scan_ok raw p s"
  by (simp_all add: scan_ok_def)

text \<open>Several characters at once: their text is UTF-8 although its bytes are not.\<close>

lemma fold_push:
  "fold (\<lambda>i. push_char (f i) (g i)) xs s =
     s\<lparr>cs_line := cs_line s @ List.map f xs, cs_columnIndex := cs_columnIndex s @ List.map g xs\<rparr>"
  by (induction xs arbitrary: s) (simp_all add: push_char_def)

lemma scan_ok_space:
  "scan_ok raw p s \<Longrightarrow> scan_ok raw p (push_char (CHR '' '') size_max s)"
  by (auto simp: scan_ok_def push_char_def column_ok_def list_all2_appendI utf8_append
      utf8_ascii_Cons class_ascii isSpace_def intro!: list_all2_appendI)

lemma scan_ok_chars:
  assumes ok: "scan_ok raw p s" and n: "0 < n" "p + n \<le> length raw" "length raw < size_max"
    and new: "length cs = n" "utf8 cs"
      "\<forall>i < n. column_ok raw (cs ! i) (p + i)"
  shows "scan_ok raw (p + n) (s\<lparr>cs_line := cs_line s @ cs, cs_columnIndex := cs_columnIndex s @ [p..<p + n]\<rparr>)"
proof -
  have "list_all2 (column_ok raw) cs [p..<p + n]"
    using new by (simp add: list_all2_conv_all_nth)
  moreover have f: "filter (\<lambda>c. c \<noteq> size_max) [p..<p + n] = [p..<p + n]"
    using n by (auto simp: filter_id_conv)
  moreover have "sorted_wrt (<) (filter (\<lambda>c. c \<noteq> size_max) (cs_columnIndex s) @ [p..<p + n])"
    using ok by (auto simp: scan_ok_def sorted_wrt_append)
  ultimately show ?thesis
    using ok new by (auto simp: scan_ok_def utf8_append intro: list_all2_appendI)
qed

lemma push_eq: "push_char c col s =
    s\<lparr>cs_line := cs_line s @ [c], cs_columnIndex := cs_columnIndex s @ [col]\<rparr>"
  by (simp add: push_char_def)

lemma scan_ok_char:
  assumes "scan_ok raw p s" "p < length raw" "length raw < size_max" "ascii c" "column_ok raw c p"
  shows "scan_ok raw (Suc p) (push_char c p s)"
  using scan_ok_chars [OF assms(1), of 1 "[c]"] assms by (simp add: push_eq utf8_ascii_Cons)

text \<open>The local variables other than the characters.\<close>

definition same_flags :: "comment_scan \<Rightarrow> comment_scan \<Rightarrow> bool" where
  "same_flags s s' \<longleftrightarrow> cs_boundary s' = cs_boundary s \<and> cs_lineComment s' = cs_lineComment s \<and>
     cs_comment s' = cs_comment s"

lemma startsWith_first: "startsWith s i (c # cs) \<Longrightarrow> i < length s \<and> s ! i = c"
  by (auto simp: startsWith_nth dest: spec [of _ 0])

lemma indent_loop_ok:
  "indent_loop raw p s = (p', s') \<Longrightarrow> scan_ok raw p s \<Longrightarrow> p \<le> length raw \<Longrightarrow> length raw < size_max \<Longrightarrow>
     scan_ok raw p' s' \<and> p' \<le> length raw \<and> same_flags s s'"
proof (induction raw p s rule: indent_loop.induct)
  case (1 raw p s)
  show ?case
  proof (cases "p < length raw \<and> startsWith raw p [CHR 0x09]")
    case True
    then have "scan_ok raw (Suc p) (push_char (CHR 0x09) p s)"
      using 1(5,7) startsWith_first [of raw p "CHR 0x09" "[]"]
      by (intro scan_ok_char) (auto simp: column_ok_def class_ascii isSpace_def)
    moreover have "indent_loop raw (Suc p) (push_char (CHR 0x09) p s) = (p', s')"
      using 1(4) True by (subst (asm) indent_loop.simps) simp
    ultimately show ?thesis
      using 1(1) True 1(7) by (auto simp: same_flags_def push_char_def)
  next
    case no_tab: False
    show ?thesis
    proof (cases "p < length raw \<and> startsWith raw p ''    ''")
      case True
      then have "scan_ok raw (Suc p) (push_char (CHR 0x09) p s)"
        using 1(5,7) startsWith_first [of raw p "CHR '' ''"]
        by (intro scan_ok_char) (auto simp: column_ok_def class_ascii isSpace_def size_max_def)
      then have "scan_ok raw (p + 4) (push_char (CHR 0x09) p s)"
        by (rule scan_ok_later) simp
      moreover have "indent_loop raw (p + 4) (push_char (CHR 0x09) p s) = (p', s')"
        using 1(4) True no_tab by (subst (asm) indent_loop.simps) simp
      moreover have "p + 4 \<le> length raw"
        using True by (auto dest: startsWith_length)
      ultimately show ?thesis
        using 1(2) True no_tab 1(7) by (auto simp: same_flags_def push_char_def)
    next
      case no_four: False
      show ?thesis
      proof (cases "p < length raw \<and> startsWith raw p '' ''")
        case True
        have "scan_ok raw (Suc p) (s\<lparr>cs_extra := min (cs_extra s) p\<rparr>)"
          using 1(5) by (auto simp: scan_ok_update intro: scan_ok_later)
        moreover have "indent_loop raw (Suc p) (s\<lparr>cs_extra := min (cs_extra s) p\<rparr>) = (p', s')"
          using 1(4) True no_tab no_four by (subst (asm) indent_loop.simps) simp
        ultimately show ?thesis
          using 1(3) True no_tab no_four 1(7) by (auto simp: same_flags_def)
      next
        case False
        with 1(4-7) no_tab no_four show ?thesis
          by (subst (asm) indent_loop.simps) (auto simp: same_flags_def split: if_splits)
      qed
    qed
  qed
qed

lemma returns_comment_step: "returns (comment_step n raw p s)"
  unfolding comment_step_def Let_def
  by (intro returns_ifI returns_lbind returns_simps returns_errorAtRawLine)

lemma comment_stepD:
  assumes step: "comment_step n raw p s ct = Some (Inr (pitch, s'), ct')"
    and ok: "scan_ok raw p s" and p: "p < length raw" "length raw < size_max"
  shows "0 < pitch \<and> p + pitch \<le> length raw \<and> scan_ok raw (p + pitch) s' \<and>
    c_table ct' = c_table ct \<and> c_fileName ct' = c_fileName ct"
proof -
  let ?n = "byteCount raw p"
  have two: "p + 2 \<le> length raw" if "startsWith raw p [a, b]" for a b
    using startsWith_length [OF that] by simp
  note later = scan_ok_later [OF ok]
  show ?thesis
  proof (cases "?n = 0")
    case True
    with step show ?thesis
      by (auto simp: comment_step_def Let_def lthrow_def elim!: lbind_InrE)
  next
    case False
    note d = byteCount_posD [OF False]
    note step = step [unfolded comment_step_def Let_def if_not_P [OF False]]
    consider (mark) "startsWith raw p ''/*'' \<or> startsWith raw p ''*/'' \<or> startsWith raw p ''//''"
      | (skip) "\<not> (startsWith raw p ''/*'' \<or> startsWith raw p ''*/'' \<or> startsWith raw p ''//'')"
        "\<not> (cm_level (cs_comment s) = 0 \<and> \<not> cs_lineComment s)"
      | (space) "\<not> (startsWith raw p ''/*'' \<or> startsWith raw p ''*/'' \<or> startsWith raw p ''//'')"
        "cm_level (cs_comment s) = 0 \<and> \<not> cs_lineComment s" "isSpace (raw ! p)"
      | (code) "\<not> (startsWith raw p ''/*'' \<or> startsWith raw p ''*/'' \<or> startsWith raw p ''//'')"
        "cm_level (cs_comment s) = 0 \<and> \<not> cs_lineComment s" "\<not> isSpace (raw ! p)"
      by blast
    then show ?thesis
    proof cases
      case mark
      with step two have "pitch = 2" "p + 2 \<le> length raw" "ct' = ct"
        by (auto simp: lret_def lthrow_def split: if_splits elim!: lbind_InrE)
      moreover have "scan_ok raw (p + 2) s'"
        using step later [of "p + 2"] mark
        by (auto simp: lret_def lthrow_def scan_ok_update scan_ok_space split: if_splits elim!: lbind_InrE)
      ultimately show ?thesis by simp
    next
      case skip
      with step have "pitch = ?n" "s' = s" "ct' = ct"
        by (auto simp: lret_def split: if_splits)
      then show ?thesis
        using d(1) False later [of "p + ?n"] by simp
    next
      case space
      then have "?n = 1"
        using p by (intro byteCount_ascii class_ascii(1))
      moreover from step space have "pitch = ?n" "ct' = ct"
        "s' = (if \<not> cs_boundary s then push_char (raw ! p) p s else s)"
        by (auto simp: lret_def split: if_splits)
      moreover have "scan_ok raw (Suc p) (push_char (raw ! p) p s)"
        using ok p space(3) by (intro scan_ok_char class_ascii(1)) (auto simp: column_ok_def)
      ultimately show ?thesis
        using p later [of "Suc p"] by simp
    next
      case code
      let ?s = "s\<lparr>cs_boundary := False, cs_extra := size_max\<rparr>"
      let ?cs = "List.map (\<lambda>i. raw ! (p + i)) [0..<?n]"
      from step code have pitch: "pitch = ?n"
        and s': "s' = fold (\<lambda>i. push_char (raw ! (p + i)) (p + i)) [0..<?n] ?s"
        and ct': "c_table ct' = c_table ct" "c_fileName ct' = c_fileName ct"
        by (auto simp: lret_def errorAtRawLine_def split: if_splits elim!: lbind_InrE)
      have cs: "?cs = take ?n (drop p raw)"
        using d(1) by (intro nth_equalityI) simp_all
      have cols: "List.map (\<lambda>i. p + i) [0..<?n] = [p..<p + ?n]"
        by (intro nth_equalityI) simp_all
      have ok': "scan_ok raw p ?s"
        using ok by (simp add: scan_ok_update)
      have "utf8 ?cs"
        unfolding cs using False by (rule utf8_sequence)
      moreover have "\<forall>i < ?n. column_ok raw (?cs ! i) (p + i)"
        using d(1) p(2) by (auto simp: column_ok_def)
      ultimately have "scan_ok raw (p + ?n)
          (?s\<lparr>cs_line := cs_line ?s @ ?cs, cs_columnIndex := cs_columnIndex ?s @ [p..<p + ?n]\<rparr>)"
        using False d(1) p(2) by (intro scan_ok_chars [OF ok']) simp_all
      then show ?thesis
        using False d(1) by (simp add: pitch s' ct' fold_push cols)
    qed
  qed
qed

lemma comment_loop_ok:
  "scan_ok raw p s \<Longrightarrow> p \<le> length raw \<Longrightarrow> length raw < size_max \<Longrightarrow>
     \<exists>r ct'. comment_loop n raw p s ct = Some (r, ct') \<and>
       (\<forall>s'. r = Inr s' \<longrightarrow> scan_ok raw (length raw) s' \<and>
          c_table ct' = c_table ct \<and> c_fileName ct' = c_fileName ct)"
proof (induction "length raw - p" arbitrary: p s ct rule: less_induct)
  case less
  show ?case
  proof (cases "p < length raw")
    case True
    obtain r ct1 where step: "comment_step n raw p s ct = Some (r, ct1)"
      using returns_comment_step [of n raw p s] unfolding returns_def by fastforce
    show ?thesis
    proof (cases r)
      case (Inr x)
      obtain pitch s1 where x: "x = (pitch, s1)" by fastforce
      note d = comment_stepD [OF step [unfolded Inr x] less.prems(1) True less.prems(3)]
      have "\<exists>r ct'. comment_loop n raw (p + pitch) s1 ct1 = Some (r, ct') \<and>
          (\<forall>s'. r = Inr s' \<longrightarrow> scan_ok raw (length raw) s' \<and>
            c_table ct' = c_table ct1 \<and> c_fileName ct' = c_fileName ct1)"
        using d less.prems(3) True by (intro less.hyps) auto
      with True step Inr x d show ?thesis
        by (subst comment_loop.simps) auto
    qed (use True step in \<open>subst comment_loop.simps; simp\<close>)
  next
    case False
    with less.prems show ?thesis
      by (subst comment_loop.simps) auto
  qed
qed

subsection \<open>Processed lines\<close>

text \<open>What \<open>parseLine\<close> needs of a line it is given.\<close>

definition line_ok :: "processed_line \<Rightarrow> bool" where
  "line_ok l \<longleftrightarrow> utf8 (pl_line l) \<and> length (pl_columnIndex l) = length (pl_line l)"

text \<open>What \<open>removeComments\<close> promises of a line that is not empty.\<close>

definition clean_line :: "string \<Rightarrow> processed_line \<Rightarrow> bool" where
  "clean_line raw l \<longleftrightarrow> line_ok l \<and>
     list_all2 (column_ok raw) (pl_line l) (pl_columnIndex l) \<and>
     sorted_wrt (<) (filter (\<lambda>c. c \<noteq> size_max) (pl_columnIndex l)) \<and>
     (pl_line l \<noteq> [] \<longrightarrow> \<not> isSpace (last (pl_line l)))"

lemma drop_trailing_conv:
  "drop_trailing str cols = (s', c') \<Longrightarrow> length cols = length str \<Longrightarrow>
     \<exists>n \<le> length str. s' = take n str \<and> c' = take n cols \<and>
       (\<forall>k. n \<le> k \<and> k < length str \<longrightarrow> isSpace (str ! k)) \<and>
       (s' \<noteq> [] \<longrightarrow> \<not> isSpace (last s'))"
proof -
  assume d: "drop_trailing str cols = (s', c')" and len: "length cols = length str"
  define m where "m = length (takeWhile isSpace (rev str))"
  define n where "n = length str - m"
  have m: "m \<le> length str"
    using takeWhile_length_le [of isSpace "rev str"] by (simp add: m_def)
  from d have s': "s' = take n str" "c' = take n cols"
    by (simp_all add: drop_trailing_def Let_def n_def m_def)
  have tail: "isSpace (str ! k)" if k: "n \<le> k" "k < length str" for k
  proof -
    let ?j = "length str - Suc k"
    have j: "?j < m"
      using k m by (simp add: n_def)
    then have "isSpace (takeWhile isSpace (rev str) ! ?j)"
      unfolding m_def using nth_mem set_takeWhileD by fastforce
    also have "takeWhile isSpace (rev str) ! ?j = rev str ! ?j"
      using j by (simp add: m_def takeWhile_nth)
    also have "rev str ! ?j = str ! k"
      using k by (simp add: rev_nth)
    finally show ?thesis .
  qed
  moreover have "\<not> isSpace (last s')" if "s' \<noteq> []"
  proof -
    from that have n: "0 < n" "n \<le> length str"
      by (auto simp: s'(1) n_def)
    then have "m < length (rev str)"
      using m by (simp add: n_def)
    then have "\<not> isSpace (rev str ! m)"
      unfolding m_def by (rule nth_length_takeWhile)
    also have "rev str ! m = str ! (n - 1)"
      using m n by (simp add: rev_nth n_def)
    finally show ?thesis
      using that n by (simp add: s'(1) last_conv_nth)
  qed
  ultimately show ?thesis
    using s' by (intro exI [of _ n]) (auto simp: n_def)
qed

lemma sorted_filter_take:
  "sorted_wrt R (filter P xs) \<Longrightarrow> sorted_wrt R (filter P (take n xs))"
  by (metis append_take_drop_id filter_append sorted_wrt_append)

lemma trailing_clean:
  assumes ok: "scan_ok raw p s" and d: "drop_trailing (cs_line s) (cs_columnIndex s) = (str, cols)"
  shows "clean_line raw \<lparr>pl_valid = v, pl_line = str, pl_columnIndex = cols\<rparr>"
proof -
  note len = scan_okD(2) [OF ok] and u = scan_okD(1) [OF ok]
  from drop_trailing_conv [OF d len] obtain n where n: "n \<le> length (cs_line s)"
    and str: "str = take n (cs_line s)" and cols: "cols = take n (cs_columnIndex s)"
    and tail: "\<forall>k. n \<le> k \<and> k < length (cs_line s) \<longrightarrow> isSpace (cs_line s ! k)"
    and last: "str \<noteq> [] \<longrightarrow> \<not> isSpace (last str)" by blast
  have "utf8 str"
  proof (cases "n < length (cs_line s)")
    case True
    then show ?thesis
      unfolding str using utf8_cut_before [OF u True] tail by (simp add: class_ascii)
  qed (use u in \<open>simp add: str\<close>)
  moreover have "list_all2 (column_ok raw) str cols"
    using ok unfolding str cols scan_ok_def by (blast intro: list_all2_takeI)
  moreover have "sorted_wrt (<) (filter (\<lambda>c. c \<noteq> size_max) cols)"
    using ok unfolding cols scan_ok_def by (blast intro: sorted_filter_take)
  ultimately show ?thesis
    using last len by (simp add: clean_line_def line_ok_def str cols)
qed

lemma scan_ok_start: "scan_ok raw p \<lparr>cs_line = [], cs_columnIndex = [], cs_extra = e,
    cs_boundary = b, cs_lineComment = lc, cs_comment = cm\<rparr>"
  by (simp add: scan_ok_def)

lemma removeComments_ok:
  assumes "length raw < size_max"
  shows "\<exists>r ct'. removeComments comment n raw keep ct = Some (r, ct') \<and>
    (\<forall>l cm. r = Inr (l, cm) \<longrightarrow> clean_line raw l \<and> c_table ct' = c_table ct \<and>
       c_fileName ct' = c_fileName ct)"
proof -
  let ?s0 = "\<lparr>cs_line = [], cs_columnIndex = [], cs_extra = size_max, cs_boundary = True,
                cs_lineComment = False, cs_comment = comment\<rparr>"
  let ?start = "if keep then indent_loop raw 0 ?s0 else (leading_spaces raw, ?s0)"
  obtain p s1 where start: "?start = (p, s1)" by fastforce
  have "scan_ok raw p s1 \<and> p \<le> length raw"
  proof (cases keep)
    case True
    with start indent_loop_ok [of raw 0 ?s0 p s1] scan_ok_start assms show ?thesis by simp
  next
    case False
    with start have p: "p = leading_spaces raw" "s1 = ?s0" by simp_all
    then show ?thesis
      using scan_ok_start takeWhile_length_le [of isSpace raw] by (simp add: leading_spaces_def)
  qed
  with comment_loop_ok [of raw p s1 n ct] assms obtain r ct' where
    loop: "comment_loop n raw p s1 ct = Some (r, ct')" and
    ok: "\<forall>s'. r = Inr s' \<longrightarrow> scan_ok raw (length raw) s' \<and>
       c_table ct' = c_table ct \<and> c_fileName ct' = c_fileName ct"
    by blast
  have empty: "clean_line raw \<lparr>pl_valid = False, pl_line = [], pl_columnIndex = []\<rparr>"
    by (simp add: clean_line_def line_ok_def)
  show ?thesis
  proof (cases r)
    case (Inl e)
    then show ?thesis
      by (simp add: removeComments_def Let_def start [unfolded Let_def] lbind_def loop)
  next
    case (Inr s)
    obtain str cols where d: "drop_trailing (cs_line s) (cs_columnIndex s) = (str, cols)"
      by fastforce
    then show ?thesis
      using ok Inr trailing_clean [OF _ d, of raw "length raw" True] empty
      by (simp add: removeComments_def Let_def start [unfolded Let_def] lbind_def loop lret_def)
  qed
qed

lemma wrapRawLine_ok: "utf8 raw \<Longrightarrow> line_ok (wrapRawLine raw)"
  by (simp add: line_ok_def wrapRawLine_def)

lemma append_line_ok:
  "line_ok l0 \<Longrightarrow> line_ok l1 \<Longrightarrow> line_ok (snd (append_line r0 l0 r1 l1))"
  using ascii_newline by (auto simp: line_ok_def append_line_def Let_def utf8_append utf8_ascii_Cons)

subsection \<open>parseLines returns\<close>

lemma consumeLine_length:
  "source \<noteq> [] \<Longrightarrow> consumeLine source = (l, rest) \<Longrightarrow> length rest < length source \<and> length l \<le> length source"
  using consumeLine_shorter [of source] consumeLine_parts [of source l rest] by auto

lemma raw_string_loop_ok:
  "utf8 source \<Longrightarrow> length source < size_max \<Longrightarrow> line_ok ln \<Longrightarrow>
     \<exists>r ct'. raw_string_loop st cm n source raw ln ct = Some (r, ct') \<and>
       (\<forall>cm' n' source' raw' ln'. r = Inr (cm', n', source', raw', ln') \<longrightarrow>
          line_ok ln' \<and> utf8 source' \<and> length source' < length source)"
proof (induction "length source" arbitrary: n source raw ln ct rule: less_induct)
  case less
  show ?case
  proof (cases "source = []")
    case True
    then show ?thesis
      by (subst raw_string_loop.simps) (simp add: lbind_def errorAtRawLine_def lthrow_def)
  next
    case False
    obtain l rest where c: "consumeLine source = (l, rest)" by fastforce
    note len = consumeLine_length [OF False c] and u = utf8_consumeLine [OF less.prems(1) c]
    show ?thesis
    proof (cases "startsWithRange (dropWhile isSpace l) ''>>>''")
      case True
      have "length l < size_max"
        using len less.prems(2) by simp
      then obtain r ct' where rc: "removeComments cm (n + 1) l False ct = Some (r, ct')"
        and ok: "\<forall>l' cm'. r = Inr (l', cm') \<longrightarrow> clean_line l l'"
        using removeComments_ok [of l cm "n + 1" False ct] by blast
      show ?thesis
      proof (cases r)
        case (Inl e)
        with False True c rc show ?thesis
          by (subst raw_string_loop.simps) (simp add: lbind_def)
      next
        case (Inr x)
        obtain l' cm' where x: "x = (l', cm')" by fastforce
        have "line_ok l'"
          using ok Inr x by (simp add: clean_line_def)
        with less.prems(3) have "line_ok (snd (append_line raw ln l l'))"
          by (rule append_line_ok)
        with False True c rc Inr x u len show ?thesis
          by (subst raw_string_loop.simps) (auto simp: lbind_def lret_def split_beta)
      qed
    next
      case no: False
      let ?a = "append_line raw ln l (wrapRawLine l)"
      have "line_ok (snd ?a)"
        using less.prems(3) u by (intro append_line_ok wrapRawLine_ok) auto
      with less.hyps [of rest "snd ?a" "n + 1" "fst ?a" ct] len u less.prems(2) obtain r ct' where
        "raw_string_loop st cm (n + 1) rest (fst ?a) (snd ?a) ct = Some (r, ct')"
        "\<forall>cm' n' source' raw' ln'. r = Inr (cm', n', source', raw', ln') \<longrightarrow>
          line_ok ln' \<and> utf8 source' \<and> length source' < length rest"
        by auto
      with False no c len show ?thesis
        by (subst raw_string_loop.simps) (fastforce simp: split_beta)
    qed
  qed
qed

lemma raw_strings_ok:
  "utf8 source \<Longrightarrow> length source < size_max \<Longrightarrow> line_ok ln \<Longrightarrow>
     \<exists>r ct'. raw_strings cm n source raw ln ct = Some (r, ct') \<and>
       (\<forall>cm' n' source' raw' ln'. r = Inr (cm', n', source', raw', ln') \<longrightarrow>
          line_ok ln' \<and> utf8 source' \<and> length source' \<le> length source)"
proof (induction "length source" arbitrary: cm n source raw ln ct rule: less_induct)
  case less
  show ?case
  proof (cases "cm_level cm = 0 \<and> endsWith (pl_line ln) ''R<<<''")
    case True
    let ?cols = "pl_columnIndex ln"
    let ?st = "\<lparr>p_lineNo = n, p_line = raw, p_first = ?cols ! (length ?cols - 4),
                     p_last = size_add (?cols ! (length ?cols - 1)) 1\<rparr>"
    obtain r ct1 where l: "raw_string_loop ?st cm n source raw ln ct = Some (r, ct1)"
      and ok: "\<And>cm' n' source' raw' ln'. r = Inr (cm', n', source', raw', ln') \<Longrightarrow>
          line_ok ln' \<and> utf8 source' \<and> length source' < length source"
      using raw_string_loop_ok [OF less.prems, of ?st cm n raw ct] by blast
    show ?thesis
    proof (cases r)
      case (Inl e)
      with True l show ?thesis by (subst raw_strings.simps) (simp add: Let_def)
    next
      case (Inr x)
      obtain cm' n' source' raw' ln' where x: "x = (cm', n', source', raw', ln')"
        by (cases x) auto
      note ok' = ok [OF Inr [unfolded x]]
      obtain r2 ct2 where "raw_strings cm' n' source' raw' ln' ct1 = Some (r2, ct2)"
        "\<forall>cm'' n'' source'' raw'' ln''. r2 = Inr (cm'', n'', source'', raw'', ln'') \<longrightarrow>
          line_ok ln'' \<and> utf8 source'' \<and> length source'' \<le> length source'"
        using less.hyps [of source' ln' cm' n' raw' ct1] ok' less.prems(2) by auto
      with True l Inr x ok' show ?thesis
        by (subst raw_strings.simps) (fastforce simp: Let_def)
    qed
  next
    case False
    with less.prems show ?thesis
      by (subst raw_strings.simps) auto
  qed
qed

lemma lines_loop_returns:
  "utf8 source \<Longrightarrow> length source < size_max \<Longrightarrow> \<exists>r. lines_loop cm n source lns ct = Some r"
proof (induction "length source" arbitrary: cm n source lns ct rule: less_induct)
  case less
  show ?case
  proof (cases "source = []")
    case True
    then show ?thesis by (subst lines_loop.simps) simp
  next
    case False
    obtain l rest where c: "consumeLine source = (l, rest)" by fastforce
    note len = consumeLine_length [OF False c] and u = utf8_consumeLine [OF less.prems(1) c]
    have size: "length l < size_max" "length rest < size_max"
      using len less.prems(2) by simp_all
    obtain r1 ct1 where rc: "removeComments cm n l True ct = Some (r1, ct1)"
      and clean: "\<forall>l' cm'. r1 = Inr (l', cm') \<longrightarrow> clean_line l l'"
      using removeComments_ok [OF size(1), of cm n True ct] by blast
    note start = False c rc
    show ?thesis
    proof (cases r1)
      case (Inl e)
      with start show ?thesis by (subst lines_loop.simps) simp
    next
      case (Inr x1)
      obtain ln cm1 where x1: "x1 = (ln, cm1)" by fastforce
      have ln: "line_ok ln"
        using clean Inr x1 by (simp add: clean_line_def)
      note start = start Inr x1
      show ?thesis
      proof (cases "pl_valid ln")
        case invalid: False
        have "\<exists>r. lines_loop cm1 (n + 1) rest lns ct1 = Some r"
          using less.hyps len u size by blast
        with start invalid show ?thesis by (subst lines_loop.simps) simp
      next
        case True
        obtain r2 ct2 where rs: "raw_strings cm1 n rest l ln ct1 = Some (r2, ct2)"
          and ok: "\<And>cm' n' source' raw' ln'. r2 = Inr (cm', n', source', raw', ln') \<Longrightarrow>
            line_ok ln' \<and> utf8 source' \<and> length source' \<le> length rest"
          using raw_strings_ok [OF _ size(2) ln, of cm1 n l ct1] u by blast
        note start = start True rs
        show ?thesis
        proof (cases r2)
          case (Inl e)
          with start show ?thesis by (subst lines_loop.simps) simp
        next
          case r2: (Inr x2)
          obtain cm2 n2 rest2 raw2 ln2 where x2: "x2 = (cm2, n2, rest2, raw2, ln2)"
            by (cases x2) auto
          note ok = ok [OF r2 [unfolded x2]]
          obtain r3 ct3 where pl: "parseLine (c_fileName ct2) n2 raw2 (pl_line ln2) (pl_columnIndex ln2) ct2 = Some (r3, ct3)"
            using parseLine_returns [of "pl_line ln2"] ok by (fastforce simp: line_ok_def returns_def)
          note start = start r2 x2 pl
          show ?thesis
          proof (cases r3)
            case (Inl e)
            with start show ?thesis by (subst lines_loop.simps) simp
          next
            case (Inr p)
            have "\<exists>r. lines_loop cm2 (n2 + 1) rest2 (if l_tokens p \<noteq> [] then lns @ [p] else lns) ct3 = Some r"
              using ok len u size by (intro less.hyps) auto
            with start Inr show ?thesis by (subst lines_loop.simps) simp
          qed
        qed
      qed
    qed
  qed
qed

lemma utf8_trim_tail: "utf8 source \<Longrightarrow> utf8 (trim_tail source) \<and> length (trim_tail source) \<le> length source"
proof (induction source rule: trim_tail.induct)
  case (1 source)
  show ?case
  proof (cases "CHR 0x0A \<in> set source")
    case True
    let ?m = "length (takeWhile (\<lambda>c. c \<noteq> CHR 0x0A) (rev source))"
    let ?k = "length source - ?m - 1"
    have m: "?m < length (rev source)"
    proof -
      have "takeWhile (\<lambda>c. c \<noteq> CHR 0x0A) (rev source) \<noteq> rev source"
        using True by (auto simp: takeWhile_eq_all_conv)
      then show ?thesis
        by (metis le_neq_implies_less takeWhile_eq_take take_all_iff takeWhile_length_le order_refl)
    qed
    have "rev source ! ?m = CHR 0x0A"
      using nth_length_takeWhile [OF m] by simp
    then have nl: "source ! ?k = CHR 0x0A"
      using m by (simp add: rev_nth)
    have k: "?k < length source"
      using m by simp
    have rest: "utf8 (take ?k source)" "length (take ?k source) \<le> length source"
      using utf8_cut_before [OF 1(2) k] nl ascii_newline by simp_all
    show ?thesis
    proof (cases "list_all isSpace (drop (length source - ?m) source)")
      case sp: True
      have "utf8 (trim_tail (take ?k source)) \<and> length (trim_tail (take ?k source)) \<le> length (take ?k source)"
        using 1(1) True sp rest by simp
      moreover have "trim_tail source = trim_tail (take ?k source)"
        using True sp by (subst trim_tail.simps) (simp add: Let_def)
      ultimately show ?thesis
        using rest(2) by (metis le_trans)
    next
      case False
      have "trim_tail source = (if startsWith (drop (length source - ?m) source) 0 magicWord
          then take ?k source else source)"
        using True False by (subst trim_tail.simps) (simp add: Let_def)
      then show ?thesis
        using rest 1(2) by (simp del: length_take)
    qed
  next
    case False
    with 1(2) show ?thesis by (simp add: trim_tail.simps)
  qed
qed

lemma utf8_skip_first_line:
  "utf8 source \<Longrightarrow> utf8 (skip_first_line source) \<and> length (skip_first_line source) \<le> length source"
  using utf8_consumeLine [of source "fst (consumeLine source)" "snd (consumeLine source)"]
  by (simp add: skip_first_line_def) (simp add: consumeLine_def Let_def)

lemma parseLines_returns:
  assumes "utf8 source" "length source < size_max"
  shows "returns (parseLines n source)"
proof -
  let ?s = "trim_tail (skip_first_line source)"
  have "utf8 ?s" "length ?s < size_max"
    using utf8_skip_first_line [OF assms(1)] utf8_trim_tail [of "skip_first_line source"] assms(2) by auto
  then have "returns (lines_loop new_comment n ?s [])"
    using lines_loop_returns unfolding returns_def by (metis option.distinct(1))
  then show ?thesis
    unfolding parseLines_def Let_def
    by (intro returns_lbind returns_prodI returns_ifI returns_simps returns_errorAtRawLine)
qed

end
