(* ===== verification/Lex_Behaviour.thy ===== *)
theory Lex_Behaviour
  imports Line_Facts
begin

text \<open>
  What the lexical analyzer does on particular sources: lines without comments, a source on which
  it does not return, and the error report for literals with the prefix \<open>L\<close>.
\<close>


subsection \<open>Lines without comments\<close>

definition plain :: "string \<Rightarrow> bool" where
  "plain raw \<longleftrightarrow> raw \<noteq> [] \<and> \<not> isSpace (hd raw) \<and> \<not> isSpace (last raw) \<and> utf8 raw \<and>
     (\<forall>i < length raw. \<not> startsWith raw i ''/*'' \<and> \<not> startsWith raw i ''*/'' \<and> \<not> startsWith raw i ''//'')"

definition plain_scan :: "string \<Rightarrow> nat \<Rightarrow> comment_state \<Rightarrow> comment_scan" where
  "plain_scan raw p cm = \<lparr>cs_line = take p raw, cs_columnIndex = [0..<p], cs_extra = size_max,
     cs_boundary = (p = 0), cs_lineComment = False, cs_comment = cm\<rparr>"

lemma plain_scan_sel:
  "cs_line (plain_scan raw p cm) = take p raw" "cs_columnIndex (plain_scan raw p cm) = [0..<p]"
  "cs_boundary (plain_scan raw p cm) = (p = 0)" "cs_comment (plain_scan raw p cm) = cm"
  by (simp_all add: plain_scan_def)

lemma plain_step:
  assumes pl: "plain raw" and p: "p < length raw" and u: "utf8 (drop p raw)" and cm: "cm_level cm = 0"
  shows "comment_step n raw p (plain_scan raw p cm) ct =
    Some (Inr (byteCount raw p, plain_scan raw (p + byteCount raw p) cm), ct)"
proof -
  let ?n = "byteCount raw p"
  from utf8_step [OF u p] have n: "?n \<noteq> 0" "p + ?n \<le> length raw" by simp_all
  have marks: "\<not> startsWith raw p ''/*''" "\<not> startsWith raw p ''*/''" "\<not> startsWith raw p ''//''"
    using pl p by (auto simp: plain_def)
  have cs: "List.map (\<lambda>i. raw ! (p + i)) [0..<?n] = take ?n (drop p raw)"
    using n(2) by (intro nth_equalityI) simp_all
  have cols: "List.map (\<lambda>i. p + i) [0..<?n] = [p..<p + ?n]"
    by (intro nth_equalityI) simp_all
  have up: "[0..<p] @ [p..<p + ?n] = [0..<p + ?n]"
    by (simp add: upt_add_eq_append [of 0 p ?n])
  show ?thesis
  proof (cases "isSpace (raw ! p)")
    case True
    then have "?n = 1"
      using p by (intro byteCount_ascii class_ascii(1))
    moreover have "p \<noteq> 0"
      using pl True unfolding plain_def by (metis hd_conv_nth)
    ultimately show ?thesis
      using n marks cm True p
      by (simp add: comment_step_def Let_def plain_scan_def push_char_def lret_def take_Suc_conv_app_nth)
  next
    case False
    then show ?thesis
      using n marks cm
      by (simp add: comment_step_def Let_def plain_scan_def fold_push lret_def cs cols up
          flip: take_add)
  qed
qed

lemma plain_loop:
  assumes pl: "plain raw" and cm: "cm_level cm = 0"
  shows "p \<le> length raw \<Longrightarrow> utf8 (drop p raw) \<Longrightarrow>
    comment_loop n raw p (plain_scan raw p cm) ct = Some (Inr (plain_scan raw (length raw) cm), ct)"
proof (induction "length raw - p" arbitrary: p rule: less_induct)
  case less
  show ?case
  proof (cases "p < length raw")
    case True
    note u = utf8_step [OF less.prems(2) True]
    then have "comment_loop n raw (p + byteCount raw p) (plain_scan raw (p + byteCount raw p) cm) ct =
        Some (Inr (plain_scan raw (length raw) cm), ct)"
      using True by (intro less.hyps) auto
    with True plain_step [OF pl True less.prems(2) cm] show ?thesis
      by (subst comment_loop.simps) simp
  next
    case False
    with less.prems have "p = length raw" by simp
    then show ?thesis by (subst comment_loop.simps) simp
  qed
qed

lemma removeComments_plain:
  assumes pl: "plain raw" and cm: "cm_level cm = 0"
  shows "removeComments cm n raw keep ct = Some (Inr (wrapRawLine raw, cm), ct)"
proof -
  obtain c cs where raw: "raw = c # cs" and c: "\<not> isSpace c"
    using pl by (cases raw) (auto simp: plain_def)
  have start: "\<lparr>cs_line = [], cs_columnIndex = [], cs_extra = size_max, cs_boundary = True,
                cs_lineComment = False, cs_comment = cm\<rparr> = plain_scan raw 0 cm"
    by (simp add: plain_scan_def)
  have "\<not> startsWith raw 0 [CHR 0x09]" "\<not> startsWith raw 0 ''    ''" "\<not> startsWith raw 0 '' ''"
    using c by (auto simp: raw isSpace_def startsWith_def)
  then have indent: "indent_loop raw 0 s = (0, s)" for s
    by (subst indent_loop.simps) simp
  have lead: "leading_spaces raw = 0"
    using c by (simp add: leading_spaces_def raw)
  have loop: "comment_loop n raw 0 (plain_scan raw 0 cm) ct = Some (Inr (plain_scan raw (length raw) cm), ct)"
    using plain_loop [OF pl cm] pl by (simp add: plain_def)
  have "\<not> isSpace (hd (rev raw))"
    using pl by (simp add: plain_def hd_rev)
  then have "takeWhile isSpace (rev raw) = []"
    using raw by (metis Nil_is_rev_conv list.collapse list.distinct(1) takeWhile.simps(2))
  then have "drop_trailing raw [0..<length raw] = (raw, [0..<length raw])"
    by (simp add: drop_trailing_def Let_def)
  moreover have "raw \<noteq> []" by (simp add: raw)
  ultimately show ?thesis
    using loop
    by (cases keep) (simp_all add: removeComments_def Let_def start indent lead lbind_def lret_def
        wrapRawLine_def plain_scan_sel)
qed

subsection \<open>A source on which the analyzer does not return\<close>

text \<open>
  A line that ends in \<open>R<<<\<close> inside a string literal: the bytes of the next lines are taken as they
  are, and are then scanned as a part of the literal.
\<close>

definition stuck_source :: string where
  "stuck_source = [CHR 0x22] @ ''R<<<'' @ [CHR 0x0A, CHR 0xFF, CHR 0x0A] @ ''>>>''"

lemma stuck_scan: "string_scan stuck_source (CHR 0x22) 1 = None"
proof -
  have "byteCount stuck_source 6 = 0" by code_simp
  then have "string_scan stuck_source (CHR 0x22) 6 = None"
    by (intro string_scan_stuck) (simp_all add: stuck_source_def)
  moreover have "string_scan stuck_source (CHR 0x22) i = string_scan stuck_source (CHR 0x22) (i + 1)"
    if "i \<in> {1, 2, 3, 4, 5}" for i
  proof -
    have "list_all (\<lambda>i. byteCount stuck_source i = 1) [1, 2, 3, 4, 5]"
      by code_simp
    then have "byteCount stuck_source i = 1"
      using that by (auto simp: list_all_iff)
    moreover have "i < length stuck_source \<and> stuck_source ! i \<noteq> CHR 0x22 \<and> stuck_source ! i \<noteq> CHR 0x5C"
      using that by (auto simp: stuck_source_def)
    ultimately show ?thesis
      by (subst string_scan.simps) simp
  qed
  ultimately show ?thesis
    by (simp add: numeral_eq_Suc)
qed

lemma ascii_utf8: "list_all ascii s \<Longrightarrow> utf8 s"
  by (induction s) (simp_all add: utf8_ascii_Cons)

lemma stuck_parseLine:
  "cols = [0..<length stuck_source] \<Longrightarrow> parseLine fileName n raw stuck_source cols ct = None"
proof -
  let ?ret = "\<lparr>l_containsError = False, l_fileName = fileName, l_lineNo = n,
                 l_line = raw, l_indents = 0, l_tokens = []\<rparr>"
  have h: "stuck_source ! 0 = CHR 0x22" "0 < length stuck_source"
    by (simp_all add: stuck_source_def)
  have "findEndOfStringOrEmitError ?ret cols stuck_source 0 0 ct = None"
    using stuck_scan by (simp add: findEndOfStringOrEmitError_def h)
  then have "parse_step cols stuck_source 0 ?ret ct = None"
    by (simp add: parse_step_def Let_def h isSpace_def bracket_type_def lbind_def)
  then have "parse_loop cols stuck_source 0 ?ret ct = None"
    using h by (subst parse_loop.simps) simp
  moreover have "takeWhile (\<lambda>c. c = CHR 0x09) stuck_source = []"
    by (simp add: stuck_source_def)
  ultimately show ?thesis
    by (simp add: parseLine_def Let_def lbind_def)
qed

lemma plain_pieces: "plain ([CHR 0x22] @ ''R<<<'')" "plain ''>>>''"
proof -
  have "list_all ascii ([CHR 0x22] @ ''R<<<'')" "list_all ascii ''>>>''"
    by code_simp+
  then have "utf8 ([CHR 0x22] @ ''R<<<'')" "utf8 ''>>>''"
    by (simp_all only: ascii_utf8)
  moreover have "list_all (\<lambda>raw. list_all (\<lambda>i. \<not> startsWith raw i ''/*'' \<and>
      \<not> startsWith raw i ''*/'' \<and> \<not> startsWith raw i ''//'') [0..<length raw]) [[CHR 0x22] @ ''R<<<'', ''>>>'']"
    by code_simp
  ultimately show "plain ([CHR 0x22] @ ''R<<<'')" "plain ''>>>''"
    by (simp_all add: plain_def isSpace_def list_all_iff)
qed

lemma parseLines_stuck: "parseLines n stuck_source ct = None"
proof -
  let ?a = "[CHR 0x22] @ ''R<<<''"
  have trim: "trim_tail (skip_first_line stuck_source) = stuck_source"
    by (subst trim_tail.simps)
      (simp add: skip_first_line_def stuck_source_def startsWithRange_def magicWord_def startsWith_def isSpace_def)
  have c1: "consumeLine stuck_source = (?a, [CHR 0xFF, CHR 0x0A] @ ''>>>'')"
    by (simp add: stuck_source_def consumeLine_def)
  have c2: "consumeLine ([CHR 0xFF, CHR 0x0A] @ ''>>>'') = ([CHR 0xFF], ''>>>'')"
    by (simp add: consumeLine_def)
  have c3: "consumeLine ''>>>'' = (''>>>'', [])"
    by (simp add: consumeLine_def)
  have r: "removeComments new_comment n ?a True ct = Some (Inr (wrapRawLine ?a, new_comment), ct)"
    by (rule removeComments_plain [OF plain_pieces(1)]) (simp add: new_comment_def)
  have r3: "removeComments new_comment m ''>>>'' False ct = Some (Inr (wrapRawLine ''>>>'', new_comment), ct)" for m
    by (rule removeComments_plain [OF plain_pieces(2)]) (simp add: new_comment_def)
  let ?l1 = "append_line ?a (wrapRawLine ?a) [CHR 0xFF] (wrapRawLine [CHR 0xFF])"
  let ?l2 = "append_line (fst ?l1) (snd ?l1) ''>>>'' (wrapRawLine ''>>>'')"
  obtain ln where l2: "?l2 = (stuck_source, ln)" and ln: "pl_line ln = stuck_source"
    "pl_columnIndex ln = [0..<length stuck_source]"
    by (auto simp: append_line_def Let_def wrapRawLine_def stuck_source_def upt_rec)
  obtain raw1 ln1 where l1: "?l1 = (raw1, ln1)" by fastforce
  have loop: "raw_string_loop st new_comment n ([CHR 0xFF, CHR 0x0A] @ ''>>>'') ?a (wrapRawLine ?a) ct =
      Some (Inr (new_comment, n + 2, [], stuck_source, ln), ct)" for st
  proof -
    have "raw_string_loop st new_comment (n + 1) ''>>>'' raw1 ln1 ct =
        Some (Inr (new_comment, n + 2, [], stuck_source, ln), ct)"
      using l2 unfolding l1
      by (subst raw_string_loop.simps)
        (simp add: c3 r3 lbind_def lret_def isSpace_def startsWithRange_def)
    then show ?thesis
      unfolding raw_string_loop.simps [of st new_comment n "[CHR 0xFF, CHR 0x0A] @ ''>>>''"] c2 Let_def
      using l1 by (simp add: isSpace_def startsWithRange_def)
  qed
  have ends: "endsWith (pl_line (wrapRawLine ?a)) ''R<<<''" "\<not> endsWith stuck_source ''R<<<''"
    by (simp_all add: wrapRawLine_def endsWith_def stuck_source_def)
  have level: "cm_level new_comment = 0"
    by (simp add: new_comment_def)
  have "raw_strings new_comment (n + 2) [] stuck_source ln ct =
      Some (Inr (new_comment, n + 2, [], stuck_source, ln), ct)"
    using ends ln by (subst raw_strings.simps) simp
  then have rs: "raw_strings new_comment n ([CHR 0xFF, CHR 0x0A] @ ''>>>'') ?a (wrapRawLine ?a) ct =
      Some (Inr (new_comment, n + 2, [], stuck_source, ln), ct)"
    unfolding raw_strings.simps [of new_comment n "[CHR 0xFF, CHR 0x0A] @ ''>>>''"] loop Let_def
    using ends level by simp
  have valid: "pl_valid (wrapRawLine ?a)" "stuck_source \<noteq> []"
    by (simp_all add: wrapRawLine_def stuck_source_def)
  have "lines_loop new_comment n stuck_source [] ct = None"
    unfolding lines_loop.simps [of new_comment n stuck_source] c1 Let_def prod.case r option.case
      sum.case rs
    using stuck_parseLine [OF ln(2)] valid by (simp add: ln)
  then show ?thesis
    by (simp add: parseLines_def trim lbind_def)
qed

subsection \<open>The error report after an L literal\<close>

text \<open>
  The report is made for the columns after the literal, with the length of the literal as the end
  column: when the literal ends the line, the first of them is outside of \<open>columnIndex\<close>.
\<close>

definition l_literal :: string where
  "l_literal = [CHR ''L'', CHR 0x22, CHR 0x22]"

lemma l_literal_scan: "string_scan l_literal (CHR 0x22) 2 = Some (Some 3)"
  by (subst string_scan.simps) (simp add: l_literal_def)

lemma parseLine_l_literal:
  "fst (the (parseLine fileName n raw l_literal [0, 1, 2] ct)) = Inl OutOfRange"
proof -
  let ?ret = "\<lparr>l_containsError = False, l_fileName = fileName, l_lineNo = n,
                 l_line = raw, l_indents = 0, l_tokens = []\<rparr>"
  have c: "l_literal ! 0 = CHR ''L''" "l_literal ! Suc 0 = CHR 0x22" "length l_literal = 3"
    "startsWith l_literal 0 [CHR ''L'', CHR 0x22]"
    by (simp_all add: l_literal_def startsWith_def)
  have "findEndOfStringOrEmitError ?ret [0, 1, 2] l_literal 0 1 ct = Some (Inr (2, ?ret), ct)"
    using l_literal_scan by (simp add: findEndOfStringOrEmitError_def c lret_def numeral_eq_Suc)
  moreover have "(3 :: nat) \<noteq> size_max"
    by (simp add: size_max_def)
  ultimately have "parse_step [0, 1, 2] l_literal 0 ?ret ct = Some (Inl OutOfRange, ct)"
    by (simp add: parse_step_def Let_def c isSpace_def bracket_type_def lbind_def addToken_def
        column_def lret_def errorAtLine_def lthrow_def)
  then have "parse_loop [0, 1, 2] l_literal 0 ?ret ct = Some (Inl OutOfRange, ct)"
    by (subst parse_loop.simps) (simp add: c)
  moreover have "takeWhile (\<lambda>c. c = CHR 0x09) l_literal = []"
    by (simp add: l_literal_def)
  ultimately show ?thesis
    by (simp add: parseLine_def Let_def lbind_def)
qed

end
