(* ===== verification/Lockable.thy ===== *)
theory Lockable
  imports Prelude
begin

text \<open>
  \<open>Lockable\<close> of \<open>chatra_core/MemoryManagement.h\<close>: the re-entrant lock of a reference group and of an
  object. A requester is a thread id; \<open>InvalidRequester\<close>, the largest \<open>size_t\<close>, means "not locked".
  The lock is taken with \<open>compare_exchange_weak\<close>, which may fail although the lock is free: the
  operations take the outcome of that choice as the argument \<open>weak\<close> (true: the exchange fails
  spuriously).
\<close>

definition InvalidRequester :: nat where
  "InvalidRequester = size_max"

record lockable =
  lockRequester :: nat
  lockCount :: int

definition new_lockable :: "nat \<Rightarrow> lockable" where
  "new_lockable requester =
     \<lparr>lockRequester = requester, lockCount = (if requester = InvalidRequester then 0 else 1)\<rparr>"

definition lockedBy :: "lockable \<Rightarrow> nat" where
  "lockedBy l = lockRequester l"

text \<open>
  \<open>lock\<close> answers true only when it takes a free lock. When the requester holds the lock already it
  counts once more, and the answer is false all the same.
\<close>

definition lock :: "bool \<Rightarrow> nat \<Rightarrow> lockable \<Rightarrow> bool \<times> lockable" where
  "lock weak requester l =
     (if lockRequester l = InvalidRequester \<and> \<not> weak
      then (True, l\<lparr>lockRequester := requester, lockCount := 1\<rparr>)
      else if lockRequester l = requester then (False, l\<lparr>lockCount := lockCount l + 1\<rparr>)
      else (False, l))"

definition lockOnce :: "bool \<Rightarrow> nat \<Rightarrow> lockable \<Rightarrow> bool \<times> lockable" where
  "lockOnce weak requester l =
     (if lockRequester l = InvalidRequester \<and> \<not> weak
      then (True, l\<lparr>lockRequester := requester, lockCount := 1\<rparr>)
      else (lockRequester l = requester, l))"

definition unlock :: "lockable \<Rightarrow> lockable" where
  "unlock l =
     (let l = l\<lparr>lockCount := lockCount l - 1\<rparr>
      in if lockCount l > 0 then l else l\<lparr>lockRequester := InvalidRequester\<rparr>)"

definition lockable_inv :: "lockable \<Rightarrow> bool" where
  "lockable_inv l \<longleftrightarrow>
     (if lockRequester l = InvalidRequester then lockCount l = 0 else lockCount l > 0)"

text \<open>What the lock stands for: nobody, or its holder and how many times it is held.\<close>

definition lock_state :: "lockable \<Rightarrow> (nat \<times> nat) option" where
  "lock_state l =
     (if lockRequester l = InvalidRequester then None
      else Some (lockRequester l, nat (lockCount l)))"

lemmas lock_defs = lock_def lockOnce_def unlock_def lockable_inv_def lock_state_def new_lockable_def Let_def

lemma new_lockable_inv [chatra_inv]: "lockable_inv (new_lockable r)"
  by (simp add: lock_defs)

lemma lock_inv [chatra_inv]: "lockable_inv l \<Longrightarrow> r \<noteq> InvalidRequester \<Longrightarrow> lockable_inv (snd (lock w r l))"
  by (auto simp: lock_defs)

lemma lockOnce_inv [chatra_inv]:
  "lockable_inv l \<Longrightarrow> r \<noteq> InvalidRequester \<Longrightarrow> lockable_inv (snd (lockOnce w r l))"
  by (auto simp: lock_defs)

lemma unlock_inv [chatra_inv]:
  "lockable_inv l \<Longrightarrow> lockRequester l \<noteq> InvalidRequester \<Longrightarrow> lockable_inv (unlock l)"
  by (auto simp: lock_defs)

subsection \<open>The abstract lock\<close>

definition abs_lock :: "bool \<Rightarrow> nat \<Rightarrow> (nat \<times> nat) option \<Rightarrow> bool \<times> (nat \<times> nat) option" where
  "abs_lock weak r m =
     (case m of
        None \<Rightarrow> if weak then (False, None) else (True, Some (r, 1))
      | Some (h, n) \<Rightarrow> (False, Some (h, if h = r then Suc n else n)))"

definition abs_lockOnce :: "bool \<Rightarrow> nat \<Rightarrow> (nat \<times> nat) option \<Rightarrow> bool \<times> (nat \<times> nat) option" where
  "abs_lockOnce weak r m =
     (case m of
        None \<Rightarrow> if weak then (False, None) else (True, Some (r, 1))
      | Some (h, n) \<Rightarrow> (h = r, Some (h, n)))"

definition abs_unlock :: "(nat \<times> nat) option \<Rightarrow> (nat \<times> nat) option" where
  "abs_unlock m = (case m of None \<Rightarrow> None | Some (h, n) \<Rightarrow> if n > 1 then Some (h, n - 1) else None)"

lemmas abs_lock_defs = abs_lock_def abs_lockOnce_def abs_unlock_def

lemma lock_refines:
  "lockable_inv l \<Longrightarrow> r \<noteq> InvalidRequester \<Longrightarrow>
     map_prod id lock_state (lock w r l) = abs_lock w r (lock_state l)"
  by (auto simp: lock_defs abs_lock_defs nat_add_distrib)

lemma lockOnce_refines:
  "lockable_inv l \<Longrightarrow> r \<noteq> InvalidRequester \<Longrightarrow>
     map_prod id lock_state (lockOnce w r l) = abs_lockOnce w r (lock_state l)"
  by (auto simp: lock_defs abs_lock_defs)

lemma unlock_refines:
  "lockable_inv l \<Longrightarrow> lockRequester l \<noteq> InvalidRequester \<Longrightarrow>
     lock_state (unlock l) = abs_unlock (lock_state l)"
  by (auto simp: lock_defs abs_lock_defs nat_diff_distrib)

subsection \<open>Several requesters\<close>

text \<open>
  The calls of all threads on one lock, in the order they take effect. A client unlocks only what
  it has locked: \<open>run_lock\<close> is \<open>None\<close> when a call breaks that rule. The list of the run records who
  called and what the call answered.
\<close>

datatype lock_op = Lock bool nat | LockOnce bool nat | Unlock nat

fun lock_op_by :: "lock_op \<Rightarrow> nat" where
  "lock_op_by (Lock w r) = r"
| "lock_op_by (LockOnce w r) = r"
| "lock_op_by (Unlock r) = r"

fun run_lock :: "lockable \<Rightarrow> lock_op list \<Rightarrow> (bool list \<times> lockable) option" where
  "run_lock l [] = Some ([], l)"
| "run_lock l (Lock w r # os) =
     map_option (map_prod ((#) (fst (lock w r l))) id) (run_lock (snd (lock w r l)) os)"
| "run_lock l (LockOnce w r # os) =
     map_option (map_prod ((#) (fst (lockOnce w r l))) id) (run_lock (snd (lockOnce w r l)) os)"
| "run_lock l (Unlock r # os) =
     (if lockRequester l = r \<and> r \<noteq> InvalidRequester
      then map_option (map_prod ((#) False) id) (run_lock (unlock l) os) else None)"

lemma run_lock_inv:
  "run_lock l os = Some (bs, l') \<Longrightarrow> lockable_inv l \<Longrightarrow>
     \<forall>oper \<in> set os. lock_op_by oper \<noteq> InvalidRequester \<Longrightarrow> lockable_inv l'"
  by (induction l os arbitrary: bs rule: run_lock.induct)
     (auto split: if_splits intro: lock_inv lockOnce_inv unlock_inv)

text \<open>
  While the holder makes no call, the calls of the others leave the lock as it is, and none of
  them is told that it has the lock.
\<close>

lemma others_cannot_lock:
  "run_lock l os = Some (bs, l') \<Longrightarrow> lockRequester l = h \<Longrightarrow> h \<noteq> InvalidRequester \<Longrightarrow>
     \<forall>oper \<in> set os. lock_op_by oper \<noteq> h \<Longrightarrow> l' = l \<and> True \<notin> set bs"
  by (induction l os arbitrary: bs rule: run_lock.induct)
     (auto simp: lock_def lockOnce_def split: if_splits)

text \<open>A holder that locks \<open>n\<close> times more has to unlock \<open>n + 1\<close> times before the lock is free.\<close>

lemma relock_count:
  "lockRequester l = r \<Longrightarrow> r \<noteq> InvalidRequester \<Longrightarrow>
     run_lock l (replicate n (Lock w r)) = Some (replicate n False, l\<lparr>lockCount := lockCount l + int n\<rparr>)"
proof (induction n arbitrary: l)
  case (Suc n)
  then have "snd (lock w r l) = l\<lparr>lockCount := lockCount l + 1\<rparr>" "fst (lock w r l) = False"
    by (simp_all add: lock_def)
  with Suc show ?case by (simp add: add.commute add.left_commute)
qed simp

lemma unlock_count:
  "lockRequester l = r \<Longrightarrow> r \<noteq> InvalidRequester \<Longrightarrow> lockCount l > int n \<Longrightarrow>
     run_lock l (replicate n (Unlock r)) = Some (replicate n False, l\<lparr>lockCount := lockCount l - int n\<rparr>)"
proof (induction n arbitrary: l)
  case (Suc n)
  then have "unlock l = l\<lparr>lockCount := lockCount l - 1\<rparr>"
    by (simp add: unlock_def)
  with Suc show ?case by (simp add: algebra_simps)
qed simp

end
