(* ===== verification/Object_Layout.thy ===== *)
theory Object_Layout
  imports Prelude
begin

text \<open>
  How the constructors of \<open>Object\<close> (\<open>chatra_core/MemoryManagement.cpp\<close>) lay out its references:
  which reference group each node belongs to, under which key or position it is found. Groups and
  nodes are named by their positions in the vectors \<open>groups\<close> and \<open>nodes\<close>; \<open>Storage\<close> places them at
  addresses.
\<close>

record layout =
  l_groups :: nat
  l_nodes :: "nat list"
  l_map :: "(nat \<times> nat) list"
  l_array :: "nat list"

definition empty_layout :: layout where
  "empty_layout = \<lparr>l_groups = 0, l_nodes = [], l_map = [], l_array = []\<rparr>"

definition layout_wf :: "layout \<Rightarrow> bool" where
  "layout_wf l \<longleftrightarrow> set (l_nodes l) \<subseteq> {..<l_groups l} \<and>
     snd ` set (l_map l) \<subseteq> {..<length (l_nodes l)} \<and> set (l_array l) \<subseteq> {..<length (l_nodes l)}"

subsection \<open>Array-like objects\<close>

definition add_element :: "layout \<Rightarrow> layout" where
  "add_element l =
     l\<lparr>l_groups := l_groups l + 1, l_nodes := l_nodes l @ [l_groups l],
       l_array := l_array l @ [length (l_nodes l)]\<rparr>"

fun layout_array :: "nat \<Rightarrow> layout" where
  "layout_array 0 = empty_layout"
| "layout_array (Suc n) = add_element (layout_array n)"

subsection \<open>Compound objects: one group per list of keys\<close>

definition add_key :: "nat \<Rightarrow> nat \<Rightarrow> layout \<Rightarrow> layout" where
  "add_key g key l =
     l\<lparr>l_map := um_emplace key (length (l_nodes l)) (l_map l), l_nodes := l_nodes l @ [g]\<rparr>"

definition add_keys :: "nat list \<Rightarrow> layout \<Rightarrow> layout" where
  "add_keys keys l = fold (add_key (l_groups l)) keys (l\<lparr>l_groups := l_groups l + 1\<rparr>)"

definition layout_compound :: "nat list list \<Rightarrow> layout" where
  "layout_compound references = fold add_keys references empty_layout"

subsection \<open>Classes: the elements with one primary index share a group\<close>

text \<open>
  The loop of \<open>appendElementsAsArray\<close> over the elements that are not there yet; \<open>indexMap\<close> knows the
  groups of this call only.
\<close>

fun append_loop :: "(nat \<times> nat) list \<Rightarrow> nat list \<Rightarrow> layout \<Rightarrow> layout" where
  "append_loop indexMap [] l = l"
| "append_loop indexMap (primaryIndex # is) l =
     (case map_of indexMap primaryIndex of
        None \<Rightarrow>
          append_loop (um_emplace primaryIndex (l_groups l) indexMap) is
            (l\<lparr>l_groups := l_groups l + 1, l_nodes := l_nodes l @ [l_groups l],
               l_array := l_array l @ [length (l_nodes l)]\<rparr>)
      | Some g \<Rightarrow>
          append_loop indexMap is
            (l\<lparr>l_nodes := l_nodes l @ [g], l_array := l_array l @ [length (l_nodes l)]\<rparr>))"

definition appendElementsAsArray :: "nat list \<Rightarrow> layout \<Rightarrow> layout" where
  "appendElementsAsArray primaryIndexes l = append_loop [] (drop (length (l_array l)) primaryIndexes) l"

definition layout_class :: "nat list \<Rightarrow> layout" where
  "layout_class primaryIndexes = appendElementsAsArray primaryIndexes empty_layout"

lemmas layout_defs = layout_wf_def empty_layout_def add_element_def add_key_def add_keys_def
  layout_compound_def appendElementsAsArray_def layout_class_def

subsection \<open>Well-formedness\<close>

lemma empty_layout_wf [chatra_inv]: "layout_wf empty_layout"
  by (simp add: layout_defs)

lemma add_element_wf: "layout_wf l \<Longrightarrow> layout_wf (add_element l)"
  by (fastforce simp: layout_wf_def add_element_def)

lemma layout_array_wf [chatra_inv]: "layout_wf (layout_array n)"
  by (induction n) (simp_all add: empty_layout_wf add_element_wf)

lemma snd_um_emplace: "snd ` set (um_emplace k v m) \<subseteq> insert v (snd ` set m)"
  by (auto simp: um_emplace_def)

lemma add_key_wf: "layout_wf l \<Longrightarrow> g < l_groups l \<Longrightarrow> layout_wf (add_key g k l)"
  using snd_um_emplace [of k "length (l_nodes l)" "l_map l"]
  by (fastforce simp: layout_wf_def add_key_def)

lemma fold_add_key_wf:
  "layout_wf l \<Longrightarrow> g < l_groups l \<Longrightarrow> layout_wf (fold (add_key g) keys l)"
proof (induction keys arbitrary: l)
  case (Cons k keys)
  then show ?case using add_key_wf [of l g k] by (simp add: add_key_def)
qed simp

lemma add_keys_wf: "layout_wf l \<Longrightarrow> layout_wf (add_keys keys l)"
  unfolding add_keys_def by (rule fold_add_key_wf) (fastforce simp: layout_wf_def)+

lemma layout_compound_wf [chatra_inv]: "layout_wf (layout_compound references)"
proof -
  have "layout_wf l \<Longrightarrow> layout_wf (fold add_keys references l)" for l
    by (induction references arbitrary: l) (simp_all add: add_keys_wf)
  then show ?thesis by (simp add: layout_compound_def empty_layout_wf)
qed

lemma append_loop_wf:
  "layout_wf l \<Longrightarrow> snd ` set im \<subseteq> {..<l_groups l} \<Longrightarrow> layout_wf (append_loop im is l)"
proof (induction im "is" l rule: append_loop.induct)
  case (2 im p ps l)
  show ?case
  proof (cases "map_of im p")
    case None
    let ?l = "l\<lparr>l_groups := l_groups l + 1, l_nodes := l_nodes l @ [l_groups l],
                l_array := l_array l @ [length (l_nodes l)]\<rparr>"
    have "layout_wf ?l"
      using "2.prems"(1) by (fastforce simp: layout_wf_def)
    moreover have "snd ` set (um_emplace p (l_groups l) im) \<subseteq> {..<l_groups ?l}"
      using "2.prems"(2) snd_um_emplace [of p "l_groups l" im] by fastforce
    ultimately show ?thesis
      using "2.IH"(1) [OF None] None by simp
  next
    case (Some g)
    then have "g < l_groups l"
      using "2.prems"(2) map_of_SomeD [OF Some] by force
    then have "layout_wf (l\<lparr>l_nodes := l_nodes l @ [g], l_array := l_array l @ [length (l_nodes l)]\<rparr>)"
      using "2.prems"(1) by (fastforce simp: layout_wf_def)
    then show ?thesis
      using "2.IH"(2) [OF Some] "2.prems"(2) Some by simp
  qed
qed simp

lemma appendElementsAsArray_wf [chatra_inv]:
  "layout_wf l \<Longrightarrow> layout_wf (appendElementsAsArray ps l)"
  unfolding appendElementsAsArray_def by (rule append_loop_wf) simp_all

lemma layout_class_wf [chatra_inv]: "layout_wf (layout_class ps)"
  by (simp add: layout_class_def appendElementsAsArray_wf empty_layout_wf)

subsection \<open>What the layouts mean\<close>

definition group_of :: "layout \<Rightarrow> nat \<Rightarrow> nat" where
  "group_of l i = l_nodes l ! (l_array l ! i)"

definition array_shape :: "layout \<Rightarrow> bool" where
  "array_shape l \<longleftrightarrow> l_array l = [0..<length (l_nodes l)]"

lemma layout_array_simps [simp]:
  "l_groups (layout_array n) = n" "l_nodes (layout_array n) = [0..<n]" "l_array (layout_array n) = [0..<n]"
  by (induction n) (simp_all add: empty_layout_def add_element_def)

lemma group_of_array: "i < n \<Longrightarrow> group_of (layout_array n) i = i"
  by (simp add: group_of_def)

lemma append_loop_shape: "array_shape l \<Longrightarrow> array_shape (append_loop im is l)"
  by (induction im "is" l rule: append_loop.induct)
     (auto simp: array_shape_def split: option.splits)

text \<open>
  One call gives the elements it adds the groups \<open>f p\<close> of their primary indexes \<open>p\<close>, for a function
  \<open>f\<close> that extends the map the loop keeps, is injective on the primary indexes, and takes new
  groups for the ones not met before.
\<close>

lemma append_loop_groups:
  assumes "snd ` set im \<subseteq> {..<l_groups l}" "inj_on (the \<circ> map_of im) (um_keys im)"
  shows "\<exists>f. l_nodes (append_loop im is l) = l_nodes l @ List.map f is \<and>
      inj_on f (um_keys im \<union> set is) \<and> (\<forall>p \<in> um_keys im. map_of im p = Some (f p)) \<and>
      (\<forall>p \<in> set is - um_keys im. l_groups l \<le> f p)"
  using assms
proof (induction im "is" l rule: append_loop.induct)
  case (1 im l)
  have "\<forall>p \<in> um_keys im. map_of im p = Some ((the \<circ> map_of im) p)"
    by (metis comp_apply map_of_um_None option.exhaust_sel)
  with 1(2) show ?case by (intro exI [of _ "the \<circ> map_of im"]) simp
next
  case (2 im p ps l)
  show ?case
  proof (cases "map_of im p")
    case None
    let ?im = "um_emplace p (l_groups l) im"
    let ?l = "l\<lparr>l_groups := l_groups l + 1, l_nodes := l_nodes l @ [l_groups l],
                l_array := l_array l @ [length (l_nodes l)]\<rparr>"
    from None have p: "p \<notin> um_keys im" by (simp add: map_of_um_None)
    have val: "map_of ?im q = (if q = p then Some (l_groups l) else map_of im q)" for q
      using p by (simp add: map_of_um_emplace)
    have bound: "the (map_of im q) < l_groups l" if "q \<in> um_keys im" for q
    proof -
      from that obtain g where "map_of im q = Some g" by (metis map_of_um_None option.exhaust)
      with map_of_SomeD [OF this] 2(3) show ?thesis by force
    qed
    have "inj_on (the \<circ> map_of ?im) (um_keys ?im)"
    proof (rule inj_onI)
      fix x y assume "x \<in> um_keys ?im" "y \<in> um_keys ?im" "(the \<circ> map_of ?im) x = (the \<circ> map_of ?im) y"
      with bound [of x] bound [of y] 2(4) p show "x = y"
        by (auto simp: val inj_on_def split: if_splits)
    qed
    moreover have "snd ` set ?im \<subseteq> {..<l_groups ?l}"
      using 2(3) snd_um_emplace [of p "l_groups l" im] by fastforce
    ultimately obtain f where f: "l_nodes (append_loop ?im ps ?l) = l_nodes ?l @ List.map f ps"
      "inj_on f (um_keys ?im \<union> set ps)" "\<forall>q \<in> um_keys ?im. map_of ?im q = Some (f q)"
      "\<forall>q \<in> set ps - um_keys ?im. l_groups ?l \<le> f q"
      using "2.IH"(1) [OF None] by blast
    from f(3) val [of p] have fp: "f p = l_groups l" by (metis insertI1 option.inject um_keys_emplace)
    have "l_groups l \<le> f q" if "q \<in> set (p # ps) - um_keys im" for q
      using that f(4) fp by (cases "q = p") (auto dest: bspec [where x = q])
    moreover note fp
    moreover have "\<forall>q \<in> um_keys im. map_of im q = Some (f q)"
      using f(3) p by (auto simp: val split: if_splits)
    ultimately show ?thesis
      using f(1,2) None by (intro exI [of _ f]) (auto simp: insert_commute)
  next
    case (Some g)
    then have p: "p \<in> um_keys im" by (rule map_of_um_keys)
    let ?l = "l\<lparr>l_nodes := l_nodes l @ [g], l_array := l_array l @ [length (l_nodes l)]\<rparr>"
    from 2(3,4) obtain f where f: "l_nodes (append_loop im ps ?l) = l_nodes ?l @ List.map f ps"
      "inj_on f (um_keys im \<union> set ps)" "\<forall>q \<in> um_keys im. map_of im q = Some (f q)"
      "\<forall>q \<in> set ps - um_keys im. l_groups ?l \<le> f q"
      using "2.IH"(2) [OF Some] by auto
    with Some p have "f p = g" by simp
    moreover have "um_keys im \<union> set (p # ps) = um_keys im \<union> set ps" using p by auto
    ultimately show ?thesis
      using f Some p by (intro exI [of _ f]) auto
  qed
qed

text \<open>The same for a call of \<open>appendElementsAsArray\<close> on an object whose elements are an array.\<close>

lemma appendElements_groups:
  assumes "array_shape l" "length (l_nodes l) \<le> length ps"
  obtains f where "l_nodes (appendElementsAsArray ps l) = l_nodes l @ List.map f (drop (length (l_nodes l)) ps)"
    "inj_on f (set (drop (length (l_nodes l)) ps))"
    "\<forall>p \<in> set (drop (length (l_nodes l)) ps). l_groups l \<le> f p"
    "l_array (appendElementsAsArray ps l) = [0..<length ps]"
proof -
  let ?ps = "drop (length (l_nodes l)) ps"
  have len: "length (l_array l) = length (l_nodes l)"
    using assms(1) by (simp add: array_shape_def)
  from append_loop_groups [of "[]" l ?ps] obtain f where
    f: "l_nodes (append_loop [] ?ps l) = l_nodes l @ List.map f ?ps" "inj_on f (set ?ps)"
       "\<forall>p \<in> set ?ps. l_groups l \<le> f p" by auto
  have "l_array (append_loop [] ?ps l) = [0..<length (l_nodes (append_loop [] ?ps l))]"
    using append_loop_shape [OF assms(1)] by (simp add: array_shape_def)
  also have "\<dots> = [0..<length ps]" using f(1) assms(2) by simp
  finally show thesis
    using f by (intro that [of f]) (simp_all add: appendElementsAsArray_def len)
qed

text \<open>
  In one call two elements share a group exactly when they have the same primary index; an element
  added by a later call never shares the group of an element that was there before.
\<close>

lemma appendElements_share:
  assumes "array_shape l" "length (l_nodes l) \<le> length ps"
    and "length (l_nodes l) \<le> i" "i < length ps" "length (l_nodes l) \<le> j" "j < length ps"
  shows "group_of (appendElementsAsArray ps l) i = group_of (appendElementsAsArray ps l) j \<longleftrightarrow> ps ! i = ps ! j"
proof -
  let ?n = "length (l_nodes l)"
  obtain f where f: "l_nodes (appendElementsAsArray ps l) = l_nodes l @ List.map f (drop ?n ps)"
    "inj_on f (set (drop ?n ps))" "l_array (appendElementsAsArray ps l) = [0..<length ps]"
    using appendElements_groups [OF assms(1,2)] by metis
  have g: "group_of (appendElementsAsArray ps l) k = f (ps ! k) \<and> ps ! k \<in> set (drop ?n ps)"
    if "?n \<le> k" "k < length ps" for k
  proof -
    have "drop ?n ps ! (k - ?n) = ps ! k" "k - ?n < length (drop ?n ps)"
      using that by simp_all
    then show ?thesis
      using that f(1,3) by (metis (no_types) group_of_def length_drop nth_append_length_plus le_add_diff_inverse
          length_map nth_map nth_mem nth_append not_less nth_upt add_0 )
  qed
  show ?thesis
    using g [OF assms(3,4)] g [OF assms(5,6)] f(2) by (auto dest: inj_onD)
qed

lemma appendElements_fresh_group:
  assumes "array_shape l" "layout_wf l" "i < length (l_nodes l)" "length (l_nodes l) \<le> j" "j < length ps"
  shows "group_of (appendElementsAsArray ps l) i \<noteq> group_of (appendElementsAsArray ps l) j"
proof -
  let ?n = "length (l_nodes l)"
  have le: "?n \<le> length ps" using assms(4,5) by simp
  obtain f where f: "l_nodes (appendElementsAsArray ps l) = l_nodes l @ List.map f (drop ?n ps)"
    "\<forall>p \<in> set (drop ?n ps). l_groups l \<le> f p" "l_array (appendElementsAsArray ps l) = [0..<length ps]"
    using appendElements_groups [OF assms(1) le] by metis
  have "group_of (appendElementsAsArray ps l) i = l_nodes l ! i"
    using f(1,3) assms(3) le by (simp add: group_of_def nth_append)
  moreover have "l_nodes l ! i < l_groups l"
    using assms(2,3) by (metis layout_wf_def lessThan_iff nth_mem subsetD)
  moreover have "l_groups l \<le> group_of (appendElementsAsArray ps l) j"
  proof -
    have "drop ?n ps ! (j - ?n) \<in> set (drop ?n ps)" using assms(4,5) by (intro nth_mem) simp
    then have "l_groups l \<le> f (drop ?n ps ! (j - ?n))" using f(2) by blast
    then show ?thesis using f(1,3) assms(4,5) by (simp add: group_of_def nth_append)
  qed
  ultimately show ?thesis by linarith
qed

subsection \<open>Lookup by key\<close>

lemma um_emplace_zip:
  "k \<notin> set ks \<Longrightarrow> um_emplace k (length ks) (zip ks [0..<length ks]) = zip (ks @ [k]) [0..<length (ks @ [k])]"
  by (simp add: um_emplace_def um_keys_map_fst)

lemma fold_add_key:
  "l_map l = zip ks [0..<length ks] \<Longrightarrow> length (l_nodes l) = length ks \<Longrightarrow> distinct (ks @ keys) \<Longrightarrow>
     l_map (fold (add_key g) keys l) = zip (ks @ keys) [0..<length (ks @ keys)] \<and>
     l_nodes (fold (add_key g) keys l) = l_nodes l @ replicate (length keys) g \<and>
     l_groups (fold (add_key g) keys l) = l_groups l"
proof (induction keys arbitrary: l ks)
  case (Cons k keys)
  have "l_map (add_key g k l) = zip (ks @ [k]) [0..<length (ks @ [k])]"
    using Cons.prems um_emplace_zip [of k ks] by (simp add: add_key_def)
  moreover have "length (l_nodes (add_key g k l)) = length (ks @ [k])"
    using Cons.prems by (simp add: add_key_def)
  ultimately show ?case
    using Cons.IH [of "add_key g k l" "ks @ [k]"] Cons.prems(3) by (simp add: add_key_def)
qed simp

lemma length_group_blocks:
  "k \<le> length rs \<Longrightarrow>
     length (concat (List.map (\<lambda>i. replicate (length (rs ! i)) i) [0..<k])) = length (concat (take k rs))"
  by (induction k) (simp_all add: take_Suc_conv_app_nth)

lemma layout_compound_eq:
  "distinct (concat references) \<Longrightarrow>
     l_map (layout_compound references) = zip (concat references) [0..<length (concat references)] \<and>
     l_nodes (layout_compound references) =
       concat (List.map (\<lambda>i. replicate (length (references ! i)) i) [0..<length references]) \<and>
     l_groups (layout_compound references) = length references"
proof (induction references rule: rev_induct)
  case Nil
  then show ?case by (simp add: layout_compound_def empty_layout_def)
next
  case (snoc keys references)
  let ?l = "layout_compound references"
  have IH: "l_map ?l = zip (concat references) [0..<length (concat references)]"
    "l_nodes ?l = concat (List.map (\<lambda>i. replicate (length (references ! i)) i) [0..<length references])"
    "l_groups ?l = length references"
    using snoc by simp_all
  have len: "length (l_nodes ?l) = length (concat references)"
    unfolding IH(2) using length_group_blocks [of "length references" references] by simp
  have step: "layout_compound (references @ [keys]) = add_keys keys ?l"
    by (simp add: layout_compound_def)
  have blocks: "concat (List.map (\<lambda>i. replicate (length ((references @ [keys]) ! i)) i) [0..<length references]) =
      concat (List.map (\<lambda>i. replicate (length (references ! i)) i) [0..<length references])"
    by (rule arg_cong [where f = concat]) (simp add: nth_append)
  let ?m = "?l\<lparr>l_groups := l_groups ?l + 1\<rparr>"
  have "l_map ?m = zip (concat references) [0..<length (concat references)]"
    "length (l_nodes ?m) = length (concat references)" "distinct (concat references @ keys)"
    using IH(1) len snoc.prems by (simp_all del: length_concat)
  note fold_add_key [OF this, of "l_groups ?l"]
  then show ?case
    unfolding step add_keys_def by (simp add: IH(2,3) blocks del: length_concat)
qed

text \<open>Every key of the \<open>i\<close>-th list is found, at a node of the \<open>i\<close>-th group; no other key is there.\<close>

lemma layout_compound_lookup:
  assumes "distinct (concat references)"
  shows "um_keys (l_map (layout_compound references)) = set (concat references)"
    and "i < length references \<Longrightarrow> j < length (references ! i) \<Longrightarrow>
      \<exists>n. map_of (l_map (layout_compound references)) (references ! i ! j) = Some n \<and>
        n < length (l_nodes (layout_compound references)) \<and> l_nodes (layout_compound references) ! n = i"
proof -
  note eq = layout_compound_eq [OF assms]
  show "um_keys (l_map (layout_compound references)) = set (concat references)"
    using eq by (simp add: um_keys_map_fst del: set_map set_concat)
  assume i: "i < length references" and j: "j < length (references ! i)"
  let ?n = "length (concat (take i references)) + j"
  have split: "references = take i references @ references ! i # drop (Suc i) references"
    using i by (rule id_take_nth_drop)
  have cat: "concat references = concat (take i references) @ references ! i @ concat (drop (Suc i) references)"
    by (subst split) simp
  have at: "concat references ! ?n = references ! i ! j" and lt: "?n < length (concat references)"
    using j by (simp_all add: cat nth_append)
  have "map_of (zip (concat references) [0..<length (concat references)]) (concat references ! ?n) =
      Some ([0..<length (concat references)] ! ?n)"
    by (rule map_of_zip_nth) (use assms lt in simp_all)
  then have "map_of (l_map (layout_compound references)) (references ! i ! j) = Some ?n"
    using eq at lt by simp
  moreover have "?n < length (l_nodes (layout_compound references)) \<and> l_nodes (layout_compound references) ! ?n = i"
  proof -
    let ?f = "\<lambda>i. replicate (length (references ! i)) i"
    have up: "[0..<length references] = [0..<i] @ i # [Suc i..<length references]"
      using i by (metis le0 less_imp_le_nat upt_add_eq_append le_add_diff_inverse upt_conv_Cons)
    have "length (concat (List.map ?f [0..<i])) = length (concat (take i references))"
      using i by (simp only: length_group_blocks less_imp_le)
    then show ?thesis
      using eq j by (simp add: up nth_append del: length_concat)
  qed
  ultimately show "\<exists>n. map_of (l_map (layout_compound references)) (references ! i ! j) = Some n \<and>
        n < length (l_nodes (layout_compound references)) \<and> l_nodes (layout_compound references) ! n = i"
    by blast
qed

end
