(* ===== verification/Storage.thy ===== *)
theory Storage
  imports Lockable Object_Layout Id_Pool String_Ids "HOL-Library.Word"
begin

text \<open>
  \<open>Storage\<close>, \<open>Scope\<close>, \<open>Object\<close>, \<open>ReferenceNode\<close> and \<open>Reference\<close> of \<open>chatra_core/MemoryManagement.h\<close>
  and \<open>MemoryManagement.cpp\<close>: the heap of objects with its concurrent mark and sweep collector.
  Pointers are addresses (\<open>nat\<close>), and the record \<open>storage\<close> holds, beside the members of \<open>Storage\<close>, the
  memory they point into: what is allocated at an address is \<open>Some\<close>, what is not (or no longer) is
  \<open>None\<close>. Where the code says \<open>new\<close>, the operation takes the address the allocator chooses as an
  argument. A member function that holds a lock for its whole body, and one that only the thread
  that owns the data may call, is one step here.
\<close>

subsection \<open>Data\<close>

datatype reference_value_type = VBool | VInt | VFloat | VObject | VObjectIndex

text \<open>The union of \<open>ReferenceNode\<close>: the member written last. Floats are kept as their 64 bits.\<close>

datatype node_value = StoredBool bool | StoredInt "64 word" | StoredFloat "64 word" | StoredIndex nat

record reference_group =
  g_lock :: lockable
  g_isConst :: bool
  g_isExclusive :: bool

record reference_node =
  n_group :: nat
  n_type :: reference_value_type
  n_object :: "nat option"
  n_value :: node_value

record object_data =
  o_typeId :: int
  o_objectIndex :: nat
  o_gcGeneration :: "32 word"
  o_groups :: "nat list"
  o_nodes :: "nat list"
  o_refsMap :: "(nat \<times> nat) list"
  o_refsArray :: "nat list"
  o_scope :: "nat option" \<comment> \<open>\<open>CapturedScope::scope\<close>\<close>
  o_hasOnDestroy :: bool

datatype scope_type = ThreadScope | GlobalScope | PackageScope | ScriptRootScope | ClassScope
  | MethodScope | InnerMethodScope | BlockScope

record scope_data =
  s_type :: scope_type
  s_groups :: "nat list"
  s_nodes :: "nat list"
  s_refs :: "(nat \<times> nat) list"
  s_nextId :: "32 word"
  s_captured :: bool

datatype gc_state = GcIdle | MarkingScope | MarkingObject | Sweeping

text \<open>\<open>trashCopy\<close> is the local variable of \<open>collect\<close>, which other threads do not wait for.\<close>

record storage =
  armed :: bool
  systemScopes :: "nat list"
  systemObjectIndex :: nat
  scopes :: "nat list"
  objects :: "nat option list"
  recycledObjectIndexes :: "nat list"
  trash :: "nat list"
  gcGeneration :: "32 word"
  gcState :: gc_state
  marking :: bool
  gcScopes :: "nat list"
  gcTargets :: "nat list"
  totalScopeCount :: nat
  totalObjectCount :: nat
  position :: nat
  trashCopy :: "nat list"
  groupAt :: "nat \<Rightarrow> reference_group option"
  nodeAt :: "nat \<Rightarrow> reference_node option"
  objectAt :: "nat \<Rightarrow> object_data option"
  scopeAt :: "nat \<Rightarrow> scope_data option"

definition newStorage :: storage where
  "newStorage =
     \<lparr>armed = False, systemScopes = [], systemObjectIndex = 0, scopes = [], objects = [],
      recycledObjectIndexes = [], trash = [], gcGeneration = 0, gcState = GcIdle, marking = False,
      gcScopes = [], gcTargets = [], totalScopeCount = 0, totalObjectCount = 0, position = 0,
      trashCopy = [], groupAt = (\<lambda>_. None), nodeAt = (\<lambda>_. None), objectAt = (\<lambda>_. None),
      scopeAt = (\<lambda>_. None)\<rparr>"

definition CapturedScopeId :: nat where
  "CapturedScopeId = StringId ''CapturedScope''"

subsection \<open>Reading the heap\<close>

definition generation :: "storage \<Rightarrow> nat \<Rightarrow> 32 word" where
  "generation s a = (case objectAt s a of None \<Rightarrow> 0 | Some ob \<Rightarrow> o_gcGeneration ob)"

definition object_nodes :: "storage \<Rightarrow> nat \<Rightarrow> nat list" where
  "object_nodes s a = (case objectAt s a of None \<Rightarrow> [] | Some ob \<Rightarrow> o_nodes ob)"

definition scope_nodes :: "storage \<Rightarrow> nat \<Rightarrow> nat list" where
  "scope_nodes s c = (case scopeAt s c of None \<Rightarrow> [] | Some d \<Rightarrow> s_nodes d)"

definition node_object :: "storage \<Rightarrow> nat \<Rightarrow> nat option" where
  "node_object s n = (case nodeAt s n of None \<Rightarrow> None | Some v \<Rightarrow> n_object v)"

definition scope_ref :: "storage \<Rightarrow> nat \<Rightarrow> nat \<Rightarrow> nat option" where
  "scope_ref s c key = (case scopeAt s c of None \<Rightarrow> None | Some d \<Rightarrow> map_of (s_refs d) key)"

definition object_ref :: "storage \<Rightarrow> nat \<Rightarrow> nat \<Rightarrow> nat option" where
  "object_ref s a key = (case objectAt s a of None \<Rightarrow> None | Some ob \<Rightarrow> map_of (o_refsMap ob) key)"

subsection \<open>Reference nodes\<close>

definition on_node :: "nat \<Rightarrow> (reference_node \<Rightarrow> reference_node) \<Rightarrow> storage \<Rightarrow> storage" where
  "on_node n f s = s\<lparr>nodeAt := (nodeAt s)(n := map_option f (nodeAt s n))\<rparr>"

definition setBool :: "nat \<Rightarrow> bool \<Rightarrow> storage \<Rightarrow> storage" where
  "setBool n b = on_node n (\<lambda>v. v\<lparr>n_type := VBool, n_object := None, n_value := StoredBool b\<rparr>)"

definition setInt :: "nat \<Rightarrow> 64 word \<Rightarrow> storage \<Rightarrow> storage" where
  "setInt n i = on_node n (\<lambda>v. v\<lparr>n_type := VInt, n_object := None, n_value := StoredInt i\<rparr>)"

definition setFloat :: "nat \<Rightarrow> 64 word \<Rightarrow> storage \<Rightarrow> storage" where
  "setFloat n x = on_node n (\<lambda>v. v\<lparr>n_type := VFloat, n_object := None, n_value := StoredFloat x\<rparr>)"

text \<open>\<open>ReferenceNode::setObject\<close> with its write barrier.\<close>

definition setObject :: "nat \<Rightarrow> nat option \<Rightarrow> storage \<Rightarrow> storage" where
  "setObject n newObject s =
     (let s = on_node n (\<lambda>v. v\<lparr>n_type := VObject, n_object := newObject\<rparr>) s
      in case newObject of
           None \<Rightarrow> s
         | Some a \<Rightarrow>
             if marking s \<and> generation s a \<noteq> gcGeneration s
             then s\<lparr>gcTargets := gcTargets s @ [a]\<rparr> else s)"

text \<open>\<open>Reference::setWithoutBothLock\<close>, from the node \<open>m\<close> to the node \<open>n\<close>.\<close>

definition setWithoutBothLock :: "nat \<Rightarrow> nat \<Rightarrow> storage \<Rightarrow> storage" where
  "setWithoutBothLock n m s =
     (case nodeAt s m of
        None \<Rightarrow> s
      | Some v \<Rightarrow>
          (case (n_type v, n_value v) of
             (VBool, StoredBool b) \<Rightarrow> setBool n b s
           | (VInt, StoredInt i) \<Rightarrow> setInt n i s
           | (VFloat, StoredFloat x) \<Rightarrow> setFloat n x s
           | (VObject, _) \<Rightarrow> setObject n (n_object v) s
           | _ \<Rightarrow> s))"

definition isNullWithoutLock :: "nat \<Rightarrow> storage \<Rightarrow> bool" where
  "isNullWithoutLock n s =
     (case nodeAt s n of None \<Rightarrow> True | Some v \<Rightarrow> n_type v = VObject \<and> n_object v = None)"

subsection \<open>Allocation\<close>

text \<open>The three constructors of \<open>ReferenceGroup\<close>.\<close>

definition group_for :: "nat \<Rightarrow> reference_group" where
  "group_for requester = \<lparr>g_lock = new_lockable requester, g_isConst = False, g_isExclusive = False\<rparr>"

definition const_group :: reference_group where
  "const_group = \<lparr>g_lock = new_lockable InvalidRequester, g_isConst = True, g_isExclusive = False\<rparr>"

definition exclusive_group :: reference_group where
  "exclusive_group = \<lparr>g_lock = new_lockable InvalidRequester, g_isConst = False, g_isExclusive = True\<rparr>"

definition new_node :: "nat \<Rightarrow> reference_node" where
  "new_node g = \<lparr>n_group = g, n_type = VObject, n_object = None, n_value = StoredBool False\<rparr>"

definition put_groups :: "nat list \<Rightarrow> reference_group \<Rightarrow> storage \<Rightarrow> storage" where
  "put_groups gs v s = s\<lparr>groupAt := (\<lambda>g. if g \<in> set gs then Some v else groupAt s g)\<rparr>"

definition put_nodes :: "(nat \<times> nat) list \<Rightarrow> storage \<Rightarrow> storage" where
  "put_nodes ngs s = s\<lparr>nodeAt := (\<lambda>n. case map_of ngs n of None \<Rightarrow> nodeAt s n | Some g \<Rightarrow> Some (new_node g))\<rparr>"

text \<open>
  What a constructor of an object does: the groups at the addresses \<open>gs\<close>, the nodes at \<open>ns\<close>, the
  references by key and by position as the layout says. The members of \<open>Object\<close> that the constructor
  leaves at their initial values are \<open>objectIndex\<close> and \<open>gcGeneration\<close>.
\<close>

record object_ctor =
  c_typeId :: int
  c_layout :: layout
  c_group :: reference_group
  c_scope :: "nat option"
  c_hasOnDestroy :: bool

definition constructed :: "object_ctor \<Rightarrow> nat list \<Rightarrow> nat list \<Rightarrow> object_data" where
  "constructed c gs ns =
     \<lparr>o_typeId = c_typeId c, o_objectIndex = size_max, o_gcGeneration = 0, o_groups = gs, o_nodes = ns,
      o_refsMap = List.map (map_prod id ((!) ns)) (l_map (c_layout c)),
      o_refsArray = List.map ((!) ns) (l_array (c_layout c)),
      o_scope = c_scope c, o_hasOnDestroy = c_hasOnDestroy c\<rparr>"

definition construct :: "nat \<Rightarrow> object_ctor \<Rightarrow> nat list \<Rightarrow> nat list \<Rightarrow> storage \<Rightarrow> storage" where
  "construct a c gs ns s =
     (let s = put_nodes (zip ns (List.map ((!) gs) (l_nodes (c_layout c)))) (put_groups gs (c_group c) s)
      in s\<lparr>objectAt := (objectAt s)(a \<mapsto> constructed c gs ns)\<rparr>)"

definition on_object :: "nat \<Rightarrow> (object_data \<Rightarrow> object_data) \<Rightarrow> storage \<Rightarrow> storage" where
  "on_object a f s = s\<lparr>objectAt := (objectAt s)(a := map_option f (objectAt s a))\<rparr>"

text \<open>
  \<open>registerObject\<close> is two steps: the index, under \<open>lockObjects\<close>, and then the generation.
\<close>

definition register_index :: "nat \<Rightarrow> storage \<Rightarrow> storage" where
  "register_index a s =
     (if recycledObjectIndexes s = [] then
        on_object a (\<lambda>ob. ob\<lparr>o_objectIndex := length (objects s)\<rparr>) (s\<lparr>objects := objects s @ [Some a]\<rparr>)
      else
        let i = last (recycledObjectIndexes s)
        in on_object a (\<lambda>ob. ob\<lparr>o_objectIndex := i\<rparr>)
             (s\<lparr>recycledObjectIndexes := butlast (recycledObjectIndexes s), objects := (objects s)[i := Some a]\<rparr>))"

definition register_generation :: "nat \<Rightarrow> storage \<Rightarrow> storage" where
  "register_generation a s = on_object a (\<lambda>ob. ob\<lparr>o_gcGeneration := gcGeneration s\<rparr>) s"

definition registerObject :: "nat \<Rightarrow> storage \<Rightarrow> storage" where
  "registerObject a s = register_generation a (register_index a s)"

definition allocateWithoutLock :: "nat \<Rightarrow> nat \<Rightarrow> object_ctor \<Rightarrow> nat list \<Rightarrow> nat list \<Rightarrow> storage \<Rightarrow> storage" where
  "allocateWithoutLock n a c gs ns s = registerObject a (setObject n (Some a) (construct a c gs ns s))"

text \<open>\<open>appendElements\<close>: the layout grows, and only what is new is placed in memory.\<close>

definition appendElements :: "nat \<Rightarrow> nat list \<Rightarrow> nat \<Rightarrow> nat list \<Rightarrow> nat list \<Rightarrow> storage \<Rightarrow> storage" where
  "appendElements a primaryIndexes requester gs ns s =
     (case objectAt s a of
        None \<Rightarrow> s
      | Some ob \<Rightarrow>
          let l = append_loop [] (drop (length (o_refsArray ob)) primaryIndexes)
                    \<lparr>l_groups = length (o_groups ob), l_nodes = [], l_map = [], l_array = []\<rparr>;
              groups = o_groups ob @ gs;
              s = put_nodes (zip ns (List.map ((!) groups) (l_nodes l))) (put_groups gs (group_for requester) s)
          in on_object a (\<lambda>ob. ob\<lparr>o_groups := groups, o_nodes := o_nodes ob @ ns,
                                  o_refsArray := o_refsArray ob @ ns\<rparr>) s)"

subsection \<open>Scopes\<close>

definition on_scope :: "nat \<Rightarrow> (scope_data \<Rightarrow> scope_data) \<Rightarrow> storage \<Rightarrow> storage" where
  "on_scope c f s = s\<lparr>scopeAt := (scopeAt s)(c := map_option f (scopeAt s c))\<rparr>"

text \<open>
  \<open>Scope::add\<close>, \<open>addConst\<close> and \<open>addExclusive\<close> with a key differ in the group they create; \<open>write\<close> of
  \<open>AsyncRead\<close> makes the new reference visible at once.
\<close>

definition scope_add_group :: "nat \<Rightarrow> nat \<Rightarrow> reference_group \<Rightarrow> nat \<Rightarrow> nat \<Rightarrow> storage \<Rightarrow> storage" where
  "scope_add_group c key v g n s =
     on_scope c (\<lambda>d. d\<lparr>s_groups := s_groups d @ [g], s_nodes := s_nodes d @ [n],
                       s_refs := um_emplace key n (s_refs d)\<rparr>)
       (put_nodes [(n, g)] (put_groups [g] v s))"

definition scope_add :: "nat \<Rightarrow> nat \<Rightarrow> nat \<Rightarrow> nat \<Rightarrow> nat \<Rightarrow> storage \<Rightarrow> storage" where
  "scope_add c key requester g n = scope_add_group c key (group_for requester) g n"

definition scope_addConst :: "nat \<Rightarrow> nat \<Rightarrow> nat \<Rightarrow> nat \<Rightarrow> storage \<Rightarrow> storage" where
  "scope_addConst c key g n = scope_add_group c key const_group g n"

definition scope_addExclusive :: "nat \<Rightarrow> nat \<Rightarrow> nat \<Rightarrow> nat \<Rightarrow> storage \<Rightarrow> storage" where
  "scope_addExclusive c key g n = scope_add_group c key exclusive_group g n"

text \<open>Temporaries take the keys \<open>nextId--\<close>.\<close>

definition next_key :: "storage \<Rightarrow> nat \<Rightarrow> nat" where
  "next_key s c = (case scopeAt s c of None \<Rightarrow> 0 | Some d \<Rightarrow> unat (s_nextId d))"

definition scope_add_temporary :: "nat \<Rightarrow> reference_group \<Rightarrow> nat \<Rightarrow> nat \<Rightarrow> storage \<Rightarrow> storage" where
  "scope_add_temporary c v g n s =
     scope_add_group c (next_key s c) v g n (on_scope c (\<lambda>d. d\<lparr>s_nextId := s_nextId d - 1\<rparr>) s)"

text \<open>\<open>Storage::add\<close> with the constructor of \<open>Scope\<close>; the latter adds the reference \<open>CapturedScope\<close>.\<close>

definition new_scope :: "scope_type \<Rightarrow> scope_data" where
  "new_scope ty =
     \<lparr>s_type = ty, s_groups = [], s_nodes = [], s_refs = [],
      s_nextId = word_of_nat StringId_Invalid - 1, s_captured = False\<rparr>"

definition storage_add :: "scope_type \<Rightarrow> nat \<Rightarrow> nat \<Rightarrow> nat \<Rightarrow> storage \<Rightarrow> storage" where
  "storage_add ty c g n s =
     (let s = s\<lparr>scopeAt := (scopeAt s)(c \<mapsto> new_scope ty), scopes := scopes s @ [c]\<rparr>;
          s = scope_add c CapturedScopeId InvalidRequester g n s
      in if armed s then s else s\<lparr>systemScopes := systemScopes s @ [c]\<rparr>)"

definition deploy :: "storage \<Rightarrow> storage" where
  "deploy s = s\<lparr>armed := True, systemObjectIndex := length (objects s)\<rparr>"

definition captured_scope_ctor :: "nat \<Rightarrow> object_ctor" where
  "captured_scope_ctor c =
     \<lparr>c_typeId = - 1, c_layout = layout_compound [[CapturedScopeId]], c_group = group_for InvalidRequester,
      c_scope = Some c, c_hasOnDestroy = False\<rparr>"

text \<open>
  \<open>Reference::capture\<close>: the reference at the node \<open>n\<close> becomes the scope's \<open>CapturedScope\<close> object, which
  is allocated (at \<open>a\<close>, with the group \<open>g\<close> and the node \<open>m\<close>) if there is none yet.
\<close>

definition capture :: "nat \<Rightarrow> nat \<Rightarrow> nat \<Rightarrow> nat \<Rightarrow> nat \<Rightarrow> storage \<Rightarrow> storage result" where
  "capture n c a g m s =
     (case scope_ref s c CapturedScopeId of
        None \<Rightarrow> Inl OutOfRange
      | Some r \<Rightarrow>
          let (captured, s) =
            (case node_object s r of
               Some b \<Rightarrow> (b, s)
             | None \<Rightarrow> (a, allocateWithoutLock r a (captured_scope_ctor c) [g] [m] s))
          in Inr (on_scope c (\<lambda>d. d\<lparr>s_captured := True\<rparr>) (setObject n (Some captured) s)))"

text \<open>Freeing what the vectors \<open>groups\<close> and \<open>nodes\<close> own.\<close>

definition free_refs :: "nat list \<Rightarrow> nat list \<Rightarrow> storage \<Rightarrow> storage" where
  "free_refs gs ns s =
     s\<lparr>groupAt := (\<lambda>g. if g \<in> set gs then None else groupAt s g),
       nodeAt := (\<lambda>n. if n \<in> set ns then None else nodeAt s n)\<rparr>"

text \<open>
  \<open>~Scope\<close>. The references of a captured scope live on in a new object of the type
  \<open>CapturedScopeObject\<close> (at the address \<open>a\<close>), which the \<open>CapturedScope\<close> object refers to from then on.
\<close>

definition captured_object :: "scope_data \<Rightarrow> object_data" where
  "captured_object d =
     \<lparr>o_typeId = - 2, o_objectIndex = size_max, o_gcGeneration = 0, o_groups = s_groups d,
      o_nodes = s_nodes d, o_refsMap = s_refs d, o_refsArray = [], o_scope = None, o_hasOnDestroy = False\<rparr>"

definition move_to_object :: "nat \<Rightarrow> nat \<Rightarrow> nat \<Rightarrow> scope_data \<Rightarrow> storage \<Rightarrow> storage" where
  "move_to_object n a c d s =
     (let s = on_scope c (\<lambda>d. d\<lparr>s_groups := [], s_nodes := []\<rparr>) s;
          s = s\<lparr>objectAt := (objectAt s)(a \<mapsto> captured_object d)\<rparr>
      in registerObject a (setObject n (Some a) s))"

definition erase_scope :: "nat \<Rightarrow> storage \<Rightarrow> storage" where
  "erase_scope c s =
     (let s = s\<lparr>scopes := remove1 c (scopes s)\<rparr>
      in case scopeAt s c of
           None \<Rightarrow> s
         | Some d \<Rightarrow> free_refs (s_groups d) (s_nodes d) (s\<lparr>scopeAt := (scopeAt s)(c := None)\<rparr>))"

definition destroy_scope :: "nat \<Rightarrow> nat \<Rightarrow> storage \<Rightarrow> storage result" where
  "destroy_scope c a s =
     (case scopeAt s c of
        None \<Rightarrow> Inl NullPointerRead
      | Some d \<Rightarrow>
          if s_captured d then
            (case Option.bind (map_of (s_refs d) CapturedScopeId) (node_object s) of
               None \<Rightarrow> Inl NullPointerRead
             | Some captured \<Rightarrow>
                 (case object_ref s captured CapturedScopeId of
                    None \<Rightarrow> Inl OutOfRange
                  | Some n \<Rightarrow>
                      Inr (erase_scope c
                             (on_object captured (\<lambda>ob. ob\<lparr>o_scope := None\<rparr>) (move_to_object n a c d s)))))
          else Inr (erase_scope c s))"

text \<open>
  \<open>CapturedScope::hasCaptured\<close> and \<open>refCaptured\<close>: through the scope while it exists, then through the
  object that took its references over.
\<close>

definition found :: "nat option \<Rightarrow> nat result" where
  "found r = (case r of None \<Rightarrow> Inl OutOfRange | Some n \<Rightarrow> Inr n)"

definition refCaptured :: "nat \<Rightarrow> nat \<Rightarrow> storage \<Rightarrow> nat result" where
  "refCaptured b key s =
     (case Option.bind (objectAt s b) o_scope of
        Some c \<Rightarrow> found (scope_ref s c key)
      | None \<Rightarrow>
          (case object_ref s b CapturedScopeId of
             None \<Rightarrow> Inl OutOfRange
           | Some n \<Rightarrow>
               (case node_object s n of
                  None \<Rightarrow> Inl NullPointerRead
                | Some a \<Rightarrow> found (object_ref s a key))))"

definition hasCaptured :: "nat \<Rightarrow> nat \<Rightarrow> storage \<Rightarrow> bool result" where
  "hasCaptured b key s =
     (case Option.bind (objectAt s b) o_scope of
        Some c \<Rightarrow> Inr (scope_ref s c key \<noteq> None)
      | None \<Rightarrow>
          (case object_ref s b CapturedScopeId of
             None \<Rightarrow> Inl OutOfRange
           | Some n \<Rightarrow>
               (case node_object s n of
                  None \<Rightarrow> Inl NullPointerRead
                | Some a \<Rightarrow> Inr (object_ref s a key \<noteq> None))))"

end
