(* ===== verification/Collector.thy ===== *)
theory Collector
  imports Storage
begin

text \<open>
  The concurrent collector of \<open>Storage\<close> (\<open>chatra_core/MemoryManagement.cpp\<close>): \<open>tidy\<close> runs the phases
  marking of scopes, marking of objects and sweeping a number of steps at a time, \<open>collect\<close>
  deletes what was swept.
\<close>

text \<open>\<open>IConcurrentGcConfiguration\<close>\<close>

record gc_configuration =
  stepCountForScope :: "nat \<Rightarrow> nat"
  stepCountForMarking :: "nat \<Rightarrow> nat"
  stepCountForSweeping :: "nat \<Rightarrow> nat"

subsection \<open>Marking\<close>

definition bump_generation :: "storage \<Rightarrow> storage" where
  "bump_generation s = s\<lparr>gcGeneration := gcGeneration s + 1\<rparr>"

definition start_marking :: "storage \<Rightarrow> storage" where
  "start_marking s = s\<lparr>marking := True\<rparr>"

definition snapshot_scopes :: "storage \<Rightarrow> storage" where
  "snapshot_scopes s = s\<lparr>totalScopeCount := length (scopes s), gcScopes := gcScopes s @ scopes s\<rparr>"

definition beginMarkingScope :: "storage \<Rightarrow> storage" where
  "beginMarkingScope s = snapshot_scopes (start_marking (bump_generation s))"

definition referents :: "storage \<Rightarrow> nat list \<Rightarrow> nat list" where
  "referents s ns = List.map_filter (node_object s) ns"

definition scope_refs :: "storage \<Rightarrow> nat \<Rightarrow> nat list" where
  "scope_refs s c = (case scopeAt s c of None \<Rightarrow> [] | Some d \<Rightarrow> List.map snd (s_refs d))"

definition scan_scope :: "nat \<Rightarrow> storage \<Rightarrow> storage" where
  "scan_scope c s =
     s\<lparr>gcTargets := gcTargets s @
        filter (\<lambda>a. generation s a \<noteq> gcGeneration s) (referents s (scope_refs s c))\<rparr>"

text \<open>One turn of the loop of \<open>stepMarkingScope\<close>: a scope that is gone in the meantime is skipped.\<close>

definition scan_next :: "storage \<Rightarrow> storage" where
  "scan_next s =
     (let c = last (gcScopes s); s = s\<lparr>gcScopes := butlast (gcScopes s)\<rparr>
      in if c \<in> set (scopes s) then scan_scope c s else s)"

fun mark_scopes :: "nat \<Rightarrow> storage \<Rightarrow> storage" where
  "mark_scopes 0 s = s"
| "mark_scopes (Suc steps) s = (if gcScopes s = [] then s else mark_scopes steps (scan_next s))"

definition stepMarkingScope :: "gc_configuration \<Rightarrow> storage \<Rightarrow> bool \<times> storage" where
  "stepMarkingScope conf s =
     (let s = mark_scopes (stepCountForScope conf (totalScopeCount s)) s in (gcScopes s = [], s))"

definition beginMarkingObject :: "storage \<Rightarrow> storage" where
  "beginMarkingObject s = s\<lparr>totalObjectCount := length (objects s)\<rparr>"

definition mark_object :: "nat \<Rightarrow> storage \<Rightarrow> storage" where
  "mark_object a s =
     (if generation s a = gcGeneration s then s
      else
        let s = on_object a (\<lambda>ob. ob\<lparr>o_gcGeneration := gcGeneration s\<rparr>) s
        in s\<lparr>gcTargets := gcTargets s @ referents s (object_nodes s a)\<rparr>)"

fun mark_objects :: "nat \<Rightarrow> storage \<Rightarrow> storage" where
  "mark_objects 0 s = s"
| "mark_objects (Suc steps) s =
     (case gcTargets s of
        [] \<Rightarrow> s
      | a # rest \<Rightarrow> mark_objects steps (mark_object a (s\<lparr>gcTargets := rest\<rparr>)))"

definition stepMarkingObject :: "gc_configuration \<Rightarrow> storage \<Rightarrow> bool \<times> storage" where
  "stepMarkingObject conf s =
     (let s = mark_objects (stepCountForMarking conf (totalObjectCount s)) s in (gcTargets s = [], s))"

subsection \<open>Sweeping\<close>

definition beginSweeping :: "storage \<Rightarrow> storage" where
  "beginSweeping s = s\<lparr>marking := False, position := 0\<rparr>"

text \<open>The references of a dead object to other dead objects are removed.\<close>

definition drop_dead_refs :: "nat list \<Rightarrow> storage \<Rightarrow> storage" where
  "drop_dead_refs ns s =
     s\<lparr>nodeAt := (\<lambda>n. case nodeAt s n of
          None \<Rightarrow> None
        | Some v \<Rightarrow>
            Some (if n \<in> set ns \<and> (case n_object v of None \<Rightarrow> False
                      | Some b \<Rightarrow> generation s b \<noteq> gcGeneration s)
                  then v\<lparr>n_object := None\<rparr> else v))\<rparr>"

definition object_index :: "storage \<Rightarrow> nat \<Rightarrow> nat" where
  "object_index s a = (case objectAt s a of None \<Rightarrow> 0 | Some ob \<Rightarrow> o_objectIndex ob)"

definition release_index :: "nat \<Rightarrow> storage \<Rightarrow> storage" where
  "release_index i s =
     s\<lparr>objects := (objects s)[i := None], recycledObjectIndexes := recycledObjectIndexes s @ [i]\<rparr>"

text \<open>The loop of \<open>stepSweeping\<close>: its body at \<open>position\<close>, and the body with the increment.\<close>

definition sweep_body :: "storage \<Rightarrow> storage" where
  "sweep_body s =
     (case objects s ! position s of
        None \<Rightarrow> s
      | Some a \<Rightarrow>
          if generation s a = gcGeneration s then s
          else
            let s = drop_dead_refs (object_nodes s a) s
            in (release_index (object_index s a) s)\<lparr>trash := trash s @ [a]\<rparr>)"

definition sweep_one :: "storage \<Rightarrow> storage" where
  "sweep_one s = (sweep_body s)\<lparr>position := position s + 1\<rparr>"

definition stepSweeping :: "gc_configuration \<Rightarrow> storage \<Rightarrow> bool \<times> storage" where
  "stepSweeping conf s =
     (let endPosition = min (length (objects s))
            (size_add (position s) (stepCountForSweeping conf (totalObjectCount s)));
          s = (sweep_one ^^ (endPosition - position s)) s
      in (position s \<ge> length (objects s), s))"

subsection \<open>The phases\<close>

definition tidy_sweeping :: "gc_configuration \<Rightarrow> storage \<Rightarrow> bool \<times> storage" where
  "tidy_sweeping conf s =
     (let (finished, s) = stepSweeping conf s
      in if finished then (True, s\<lparr>gcState := GcIdle\<rparr>) else (False, s))"

definition tidy_objects :: "gc_configuration \<Rightarrow> storage \<Rightarrow> bool \<times> storage" where
  "tidy_objects conf s =
     (let (finished, s) = stepMarkingObject conf s
      in if finished then tidy_sweeping conf (beginSweeping (s\<lparr>gcState := Sweeping\<rparr>)) else (False, s))"

definition tidy_scopes :: "gc_configuration \<Rightarrow> storage \<Rightarrow> bool \<times> storage" where
  "tidy_scopes conf s =
     (let (finished, s) = stepMarkingScope conf s
      in if finished then tidy_objects conf (beginMarkingObject (s\<lparr>gcState := MarkingObject\<rparr>)) else (False, s))"

definition tidy :: "gc_configuration \<Rightarrow> storage \<Rightarrow> bool \<times> storage" where
  "tidy conf s =
     (case gcState s of
        GcIdle \<Rightarrow> tidy_scopes conf (beginMarkingScope (s\<lparr>gcState := MarkingScope\<rparr>))
      | MarkingScope \<Rightarrow> tidy_scopes conf s
      | MarkingObject \<Rightarrow> tidy_objects conf s
      | Sweeping \<Rightarrow> tidy_sweeping conf s)"

subsection \<open>Deleting\<close>

text \<open>
  \<open>collect\<close> takes the trash over, and deletes one object after the other. Before it deletes an object
  that has a destroy hook it calls the hook, the argument \<open>onDestroy\<close>: a virtual function, whose effect
  on the storage is whatever the references it is given let it do.
\<close>

definition collect_begin :: "storage \<Rightarrow> storage" where
  "collect_begin s = s\<lparr>trashCopy := trash s, trash := []\<rparr>"

definition delete_object :: "nat \<Rightarrow> storage \<Rightarrow> storage" where
  "delete_object a s =
     (case objectAt s a of
        None \<Rightarrow> s
      | Some ob \<Rightarrow> free_refs (o_groups ob) (o_nodes ob) (s\<lparr>objectAt := (objectAt s)(a := None)\<rparr>))"

definition collect_one :: "(nat \<Rightarrow> storage \<Rightarrow> storage) \<Rightarrow> storage \<Rightarrow> storage" where
  "collect_one onDestroy s =
     (let a = hd (trashCopy s);
          s = (case objectAt s a of
                 None \<Rightarrow> s | Some ob \<Rightarrow> if o_hasOnDestroy ob then onDestroy a s else s)
      in delete_object a (s\<lparr>trashCopy := tl (trashCopy s)\<rparr>))"

definition collect :: "(nat \<Rightarrow> storage \<Rightarrow> storage) \<Rightarrow> storage \<Rightarrow> storage" where
  "collect onDestroy s =
     (let s = collect_begin s in (collect_one onDestroy ^^ length (trashCopy s)) s)"

text \<open>\<open>derefDirect\<close>: access by index, for the host program\<close>

definition derefDirect :: "nat \<Rightarrow> storage \<Rightarrow> (nat option) result" where
  "derefDirect i s =
     (if i \<ge> length (objects s) \<or> i \<in> set (recycledObjectIndexes s) then Inl IllegalArgument
      else Inr (objects s ! i))"

end
