(* ===== verification/Object_Table.thy ===== *)
theory Object_Table
  imports Collector
begin

text \<open>
  The object table of \<open>Storage\<close> as a supply of ids: \<open>registerObject\<close> takes an index and the sweeper gives
  it back. It meets the contract \<open>id_supply\<close> that \<open>IdPool\<close> and \<open>Timer\<close> meet.
\<close>

definition used_indexes :: "storage \<Rightarrow> nat set" where
  "used_indexes s = {i. i < length (objects s) \<and> objects s ! i \<noteq> None}"

definition table_size :: "storage \<Rightarrow> nat" where
  "table_size s = length (objects s)"

definition indexes_ok :: "storage \<Rightarrow> bool" where
  "indexes_ok s \<longleftrightarrow> distinct (recycledObjectIndexes s) \<and>
     set (recycledObjectIndexes s) = {i. i < length (objects s) \<and> objects s ! i = None}"

definition take_index :: "nat \<Rightarrow> storage \<Rightarrow> nat \<times> storage" where
  "take_index a s =
     (if recycledObjectIndexes s = [] then length (objects s) else last (recycledObjectIndexes s),
      register_index a s)"

lemma take_grow:
  assumes "indexes_ok s" "recycledObjectIndexes s = []"
  shows "used_indexes s = {..<length (objects s)}" "fst (take_index a s) = length (objects s)"
    "objects (snd (take_index a s)) = objects s @ [Some a]"
    "recycledObjectIndexes (snd (take_index a s)) = []"
  using assms by (auto simp: take_index_def register_index_def on_object_def used_indexes_def indexes_ok_def)

lemma take_reuse:
  assumes "indexes_ok s" "recycledObjectIndexes s \<noteq> []"
  defines "i \<equiv> last (recycledObjectIndexes s)"
  shows "i < length (objects s)" "objects s ! i = None" "fst (take_index a s) = i"
    "objects (snd (take_index a s)) = (objects s)[i := Some a]"
    "recycledObjectIndexes (snd (take_index a s)) = butlast (recycledObjectIndexes s)"
    "set (butlast (recycledObjectIndexes s)) = set (recycledObjectIndexes s) - {i}"
proof -
  have "i \<in> {i. i < length (objects s) \<and> objects s ! i = None}"
    using assms(1) last_in_set [OF assms(2)] by (simp add: indexes_ok_def i_def)
  then show "i < length (objects s)" "objects s ! i = None" by simp_all
  show "fst (take_index a s) = i" "objects (snd (take_index a s)) = (objects s)[i := Some a]"
    "recycledObjectIndexes (snd (take_index a s)) = butlast (recycledObjectIndexes s)"
    using assms(2) by (simp_all add: take_index_def register_index_def on_object_def i_def Let_def)
  show "set (butlast (recycledObjectIndexes s)) = set (recycledObjectIndexes s) - {i}"
  proof -
    have "distinct (recycledObjectIndexes s)" using assms(1) by (simp add: indexes_ok_def)
    then have "i \<notin> set (butlast (recycledObjectIndexes s))"
      unfolding i_def using assms(2) by (rule distinct_butlast_last)
    moreover have "set (recycledObjectIndexes s) = insert i (set (butlast (recycledObjectIndexes s)))"
      unfolding i_def using assms(2) by (rule set_butlast_last)
    ultimately show ?thesis by blast
  qed
qed

lemma used_after_grow:
  assumes "indexes_ok s" "recycledObjectIndexes s = []"
  shows "used_indexes (snd (take_index a s)) = insert (length (objects s)) (used_indexes s)"
  unfolding used_indexes_def take_grow(3) [OF assms] by (auto simp: nth_append less_Suc_eq)

lemma used_after_reuse:
  assumes "indexes_ok s" "recycledObjectIndexes s \<noteq> []"
  shows "used_indexes (snd (take_index a s)) = insert (last (recycledObjectIndexes s)) (used_indexes s)"
  unfolding used_indexes_def take_reuse(4) [OF assms] using take_reuse(1) [OF assms]
  by (auto simp: nth_list_update)

lemma take_index_ok: "indexes_ok s \<Longrightarrow> indexes_ok (snd (take_index a s))"
proof (cases "recycledObjectIndexes s = []")
  case True
  assume s: "indexes_ok s"
  show ?thesis
    using s True unfolding indexes_ok_def take_grow(3,4) [OF s True]
    by (auto simp: nth_append less_Suc_eq)
next
  case False
  assume s: "indexes_ok s"
  show ?thesis
    using s take_reuse(1) [OF s False]
    unfolding indexes_ok_def take_reuse(4,5) [OF s False] take_reuse(6) [OF s False]
    by (auto simp: nth_list_update distinct_butlast)
qed

interpretation object_ids: id_supply indexes_ok used_indexes table_size "take_index a" release_index for a
proof (unfold_locales, goal_cases)
  case (1 s)
  then show ?case by (auto simp: used_indexes_def table_size_def)
next
  case (2 s)
  then show ?case by (rule take_index_ok)
next
  case (3 s)
  then show ?case
    using take_grow(2) [OF 3, where a = a] take_reuse(2) [OF 3] take_reuse(3) [OF 3, where a = a]
    by (cases "recycledObjectIndexes s = []") (simp_all add: used_indexes_def)
next
  case (4 s)
  then show ?case
    using take_grow(2) [OF 4, where a = a] take_reuse(3) [OF 4, where a = a] used_after_grow [OF 4, where a = a] used_after_reuse [OF 4, where a = a]
    by (cases "recycledObjectIndexes s = []") simp_all
next
  case (5 s)
  show ?case
  proof (cases "recycledObjectIndexes s = []")
    case True
    then show ?thesis using take_grow(1) [OF 5 True] take_grow(3) [OF 5 True, where a = a] by (simp add: table_size_def)
  next
    case False
    then have "last (recycledObjectIndexes s) \<notin> used_indexes s" using take_reuse(2) [OF 5 False] by (simp add: used_indexes_def)
    then show ?thesis using take_reuse(1) [OF 5 False] take_reuse(4) [OF 5 False, where a = a] by (auto simp: table_size_def)
  qed
next
  case (6 s i)
  then show ?case
    by (auto simp: indexes_ok_def used_indexes_def release_index_def nth_list_update)
next
  case (7 s i)
  then show ?case by (auto simp: used_indexes_def release_index_def nth_list_update split: if_splits)
next
  case (8 s i)
  then show ?case by (simp add: table_size_def release_index_def)
qed

end
