(* ===== verification/Storage_Inv.thy ===== *)
theory Storage_Inv
  imports Collector
begin

text \<open>
  The invariant of \<open>Storage\<close> and what each operation does to it: the object table, the ownership of
  reference nodes, the edges of the heap, and the tricolour condition of the collector. An object
  is black when it carries the current generation.
\<close>

subsection \<open>Views of the heap\<close>

definition registered :: "storage \<Rightarrow> nat set" where
  "registered s = {a. Some a \<in> set (objects s)}"

definition black :: "storage \<Rightarrow> nat \<Rightarrow> bool" where
  "black s a \<longleftrightarrow> generation s a = gcGeneration s"

definition allocated :: "storage \<Rightarrow> nat \<Rightarrow> bool" where
  "allocated s n \<longleftrightarrow> nodeAt s n \<noteq> None"

text \<open>\<open>edge s ns b\<close>: one of the nodes \<open>ns\<close> refers to the object \<open>b\<close>.\<close>

definition edge :: "storage \<Rightarrow> nat list \<Rightarrow> nat \<Rightarrow> bool" where
  "edge s ns b \<longleftrightarrow> (\<exists>n \<in> set ns. node_object s n = Some b)"

inductive reachable :: "storage \<Rightarrow> nat \<Rightarrow> bool" for s where
  root: "c \<in> set (scopes s) \<Longrightarrow> edge s (scope_nodes s c) b \<Longrightarrow> reachable s b"
| step: "reachable s a \<Longrightarrow> edge s (object_nodes s a) b \<Longrightarrow> reachable s b"

text \<open>The nodes a program can have a \<open>Reference\<close> to.\<close>

definition live_node :: "storage \<Rightarrow> nat \<Rightarrow> bool" where
  "live_node s n \<longleftrightarrow> (\<exists>c \<in> set (scopes s). n \<in> set (scope_nodes s c)) \<or>
     (\<exists>a. reachable s a \<and> n \<in> set (object_nodes s a))"

subsection \<open>The invariant\<close>

definition table_ok :: "storage \<Rightarrow> bool" where
  "table_ok s \<longleftrightarrow>
     (\<forall>i < length (objects s). \<forall>a. objects s ! i = Some a \<longrightarrow> object_index s a = i) \<and>
     distinct (recycledObjectIndexes s) \<and>
     set (recycledObjectIndexes s) = {i. i < length (objects s) \<and> objects s ! i = None}"

definition heap_ok :: "storage \<Rightarrow> bool" where
  "heap_ok s \<longleftrightarrow>
     dom (objectAt s) = registered s \<union> set (trash s) \<union> set (trashCopy s) \<and>
     registered s \<inter> (set (trash s) \<union> set (trashCopy s)) = {} \<and>
     distinct (trash s @ trashCopy s) \<and>
     dom (scopeAt s) = set (scopes s) \<and> distinct (scopes s) \<and>
     (\<forall>c \<in> set (scopes s). set (scope_refs s c) = set (scope_nodes s c))"

datatype owner = OfScope nat | OfObject nat

fun owned :: "storage \<Rightarrow> owner \<Rightarrow> nat list" where
  "owned s (OfScope c) = scope_nodes s c"
| "owned s (OfObject a) = object_nodes s a"

definition owners_ok :: "storage \<Rightarrow> bool" where
  "owners_ok s \<longleftrightarrow> (\<forall>p n. n \<in> set (owned s p) \<longrightarrow> allocated s n) \<and>
     (\<forall>p q n. n \<in> set (owned s p) \<longrightarrow> n \<in> set (owned s q) \<longrightarrow> p = q)"

text \<open>
  Every reference of a scope and of a registered object refers to a registered object; only while
  sweeping, a dead object that is still registered may refer to one that is not any more.
\<close>

definition edges_ok :: "storage \<Rightarrow> bool" where
  "edges_ok s \<longleftrightarrow>
     (\<forall>c b. edge s (scope_nodes s c) b \<longrightarrow> b \<in> registered s) \<and>
     (\<forall>a b. a \<in> registered s \<longrightarrow> edge s (object_nodes s a) b \<longrightarrow>
        b \<in> registered s \<or> gcState s = Sweeping \<and> \<not> black s a \<and> b \<in> set (trash s)) \<and>
     (\<forall>a b. a \<in> set (trash s) \<union> set (trashCopy s) \<longrightarrow> edge s (object_nodes s a) b \<longrightarrow> b \<in> registered s)"

text \<open>
  The collector's invariant: while marking, what a black object or an already scanned scope refers
  to is black or waits in \<open>gcTargets\<close>.
\<close>

definition marking_ok :: "storage \<Rightarrow> bool" where
  "marking_ok s \<longleftrightarrow> marking s \<and> trash s = [] \<and> trashCopy s = [] \<and> set (gcTargets s) \<subseteq> registered s \<and>
     (\<forall>a b. a \<in> registered s \<longrightarrow> black s a \<longrightarrow> edge s (object_nodes s a) b \<longrightarrow>
        black s b \<or> b \<in> set (gcTargets s)) \<and>
     (\<forall>c b. c \<in> set (scopes s) \<longrightarrow> c \<notin> set (gcScopes s) \<longrightarrow> edge s (scope_nodes s c) b \<longrightarrow>
        black s b \<or> b \<in> set (gcTargets s))"

definition sweeping_ok :: "storage \<Rightarrow> bool" where
  "sweeping_ok s \<longleftrightarrow> \<not> marking s \<and> trashCopy s = [] \<and> gcTargets s = [] \<and> gcScopes s = [] \<and>
     (\<forall>a \<in> set (trash s). \<not> black s a) \<and>
     (\<forall>c b. edge s (scope_nodes s c) b \<longrightarrow> black s b) \<and>
     (\<forall>a b. a \<in> registered s \<longrightarrow> black s a \<longrightarrow> edge s (object_nodes s a) b \<longrightarrow> black s b) \<and>
     (\<forall>a b. a \<in> set (trash s) \<longrightarrow> edge s (object_nodes s a) b \<longrightarrow> black s b) \<and>
     (\<forall>i < length (objects s). \<forall>a. i < position s \<longrightarrow> objects s ! i = Some a \<longrightarrow> black s a)"

definition phase_ok :: "storage \<Rightarrow> bool" where
  "phase_ok s \<longleftrightarrow>
     (\<forall>a \<in> registered s. generation s a = gcGeneration s \<or> generation s a + 1 = gcGeneration s) \<and>
     (case gcState s of
        GcIdle \<Rightarrow> \<not> marking s \<and> gcTargets s = [] \<and> gcScopes s = [] \<and> (\<forall>a \<in> registered s. black s a)
      | MarkingScope \<Rightarrow> marking_ok s
      | MarkingObject \<Rightarrow> marking_ok s \<and> gcScopes s = []
      | Sweeping \<Rightarrow> sweeping_ok s)"

definition storage_inv :: "storage \<Rightarrow> bool" where
  "storage_inv s \<longleftrightarrow> table_ok s \<and> heap_ok s \<and> owners_ok s \<and> edges_ok s \<and> phase_ok s"

lemmas inv_parts = table_ok_def heap_ok_def owners_ok_def edges_ok_def marking_ok_def
  sweeping_ok_def phase_ok_def

text \<open>What the invariant is for: a reachable object is registered, and black once marking is over.\<close>

lemma reachable_registered:
  assumes "storage_inv s" "reachable s a"
  shows "a \<in> registered s \<and> (gcState s = Sweeping \<longrightarrow> black s a)"
  using assms(2)
proof induction
  case (root c b)
  then show ?case
    using assms(1) by (auto simp: storage_inv_def edges_ok_def phase_ok_def sweeping_ok_def)
next
  case (step a b)
  then show ?case
    using assms(1) by (cases "gcState s = Sweeping")
      (auto simp: storage_inv_def edges_ok_def phase_ok_def sweeping_ok_def)
qed

lemma reachable_not_garbage:
  "storage_inv s \<Longrightarrow> reachable s a \<Longrightarrow> objectAt s a \<noteq> None \<and> a \<notin> set (trash s) \<and> a \<notin> set (trashCopy s)"
  using reachable_registered [of s a] unfolding storage_inv_def heap_ok_def by blast

lemma live_node_allocated: "storage_inv s \<Longrightarrow> live_node s n \<Longrightarrow> allocated s n"
  unfolding storage_inv_def owners_ok_def live_node_def by (metis owned.simps)

subsection \<open>Views of the primitive updates\<close>

named_theorems views \<open>how the primitive updates change what the invariant looks at\<close>

lemma views_on_node [views]:
  "node_object (on_node n f s) m =
     (if m = n then Option.bind (nodeAt s n) (n_object \<circ> f) else node_object s m)"
  "allocated (on_node n f s) m = allocated s m"
  "generation (on_node n f s) = generation s"
  "object_nodes (on_node n f s) = object_nodes s"
  "object_index (on_node n f s) = object_index s"
  "scope_nodes (on_node n f s) = scope_nodes s"
  "scope_refs (on_node n f s) = scope_refs s"
  by (auto simp: on_node_def node_object_def allocated_def generation_def object_nodes_def
      object_index_def scope_nodes_def scope_refs_def fun_eq_iff split: option.splits)

lemma fields_on_node [simp]:
  "objects (on_node n f s) = objects s" "scopes (on_node n f s) = scopes s"
  "recycledObjectIndexes (on_node n f s) = recycledObjectIndexes s"
  "trash (on_node n f s) = trash s" "trashCopy (on_node n f s) = trashCopy s"
  "gcGeneration (on_node n f s) = gcGeneration s" "gcState (on_node n f s) = gcState s"
  "marking (on_node n f s) = marking s" "gcScopes (on_node n f s) = gcScopes s"
  "gcTargets (on_node n f s) = gcTargets s" "position (on_node n f s) = position s"
  "objectAt (on_node n f s) = objectAt s" "scopeAt (on_node n f s) = scopeAt s"
  by (simp_all add: on_node_def)

lemma edge_on_node:
  assumes "\<forall>w. n_object (f w) = v" "edge (on_node n f s) ns b"
  shows "edge s ns b \<or> n \<in> set ns \<and> v = Some b"
  using assms by (auto simp: edge_def views Option.bind_eq_Some_conv split: if_splits)

lemma registered_on_node [simp]: "registered (on_node n f s) = registered s"
  and black_on_node [simp]: "black (on_node n f s) = black s"
  and owned_on_node [simp]: "owned (on_node n f s) p = owned s p"
  by (auto simp: registered_def black_def fun_eq_iff views) (cases p; simp add: views)+


subsection \<open>Writing references\<close>

text \<open>The object a reference may be set to, and the collector's condition on it.\<close>

definition target_ok :: "storage \<Rightarrow> nat \<Rightarrow> bool" where
  "target_ok s b \<longleftrightarrow> b \<in> registered s \<and> (gcState s = Sweeping \<longrightarrow> black s b)"

definition noticed :: "storage \<Rightarrow> nat \<Rightarrow> bool" where
  "noticed s b \<longleftrightarrow> (marking s \<longrightarrow> black s b \<or> b \<in> set (gcTargets s))"

lemma marking_iff: "storage_inv s \<Longrightarrow> marking s \<longleftrightarrow> gcState s = MarkingScope \<or> gcState s = MarkingObject"
  by (auto simp: storage_inv_def phase_ok_def marking_ok_def sweeping_ok_def split: gc_state.splits)

lemma inv_on_node:
  assumes inv: "storage_inv s" and f: "\<forall>w. n_object (f w) = v"
    and v: "\<And>b. v = Some b \<Longrightarrow> target_ok s b \<and> noticed s b"
  shows "storage_inv (on_node n f s)"
proof -
  note e = edge_on_node [OF f]
  have "table_ok (on_node n f s)" "heap_ok (on_node n f s)" "owners_ok (on_node n f s)"
    using inv by (simp_all add: storage_inv_def table_ok_def heap_ok_def owners_ok_def views)
  moreover have "edges_ok (on_node n f s)"
    using inv v unfolding storage_inv_def edges_ok_def target_ok_def
    by (auto simp: views dest!: e)
  moreover have "phase_ok (on_node n f s)"
    using inv v unfolding storage_inv_def phase_ok_def target_ok_def noticed_def
    by (auto simp: views marking_ok_def sweeping_ok_def dest!: e split: gc_state.splits)
  ultimately show ?thesis by (simp add: storage_inv_def)
qed

definition push_target :: "nat \<Rightarrow> storage \<Rightarrow> storage" where
  "push_target a s = s\<lparr>gcTargets := gcTargets s @ [a]\<rparr>"

lemma views_push [views]:
  "node_object (push_target a s) = node_object s" "allocated (push_target a s) = allocated s"
  "generation (push_target a s) = generation s" "object_nodes (push_target a s) = object_nodes s"
  "object_index (push_target a s) = object_index s" "scope_nodes (push_target a s) = scope_nodes s"
  "scope_refs (push_target a s) = scope_refs s"
  by (auto simp: push_target_def node_object_def allocated_def generation_def object_nodes_def
      object_index_def scope_nodes_def scope_refs_def fun_eq_iff)

lemma fields_push [simp]:
  "objects (push_target a s) = objects s" "scopes (push_target a s) = scopes s"
  "recycledObjectIndexes (push_target a s) = recycledObjectIndexes s"
  "trash (push_target a s) = trash s" "trashCopy (push_target a s) = trashCopy s"
  "gcGeneration (push_target a s) = gcGeneration s" "gcState (push_target a s) = gcState s"
  "marking (push_target a s) = marking s" "gcScopes (push_target a s) = gcScopes s"
  "gcTargets (push_target a s) = gcTargets s @ [a]" "position (push_target a s) = position s"
  "objectAt (push_target a s) = objectAt s" "scopeAt (push_target a s) = scopeAt s"
  by (simp_all add: push_target_def)

lemma registered_push [simp]: "registered (push_target a s) = registered s"
  and black_push [simp]: "black (push_target a s) = black s"
  and edge_push [simp]: "edge (push_target a s) = edge s"
  and owned_push [simp]: "owned (push_target a s) p = owned s p"
  by (auto simp: registered_def black_def edge_def fun_eq_iff views) (cases p; simp add: views)+

lemma inv_push:
  assumes "storage_inv s" "marking s" "a \<in> registered s"
  shows "storage_inv (push_target a s)"
proof -
  have "table_ok (push_target a s)" "heap_ok (push_target a s)" "owners_ok (push_target a s)"
    "edges_ok (push_target a s)"
    using assms by (simp_all add: storage_inv_def table_ok_def heap_ok_def owners_ok_def edges_ok_def views)
  moreover have "marking_ok (push_target a s)" if "marking_ok s"
    using that assms(3) unfolding marking_ok_def by (simp add: views) blast
  then have "phase_ok (push_target a s)"
    using assms marking_iff [OF assms(1)]
    by (simp add: storage_inv_def phase_ok_def views split: gc_state.splits)
  ultimately show ?thesis by (simp add: storage_inv_def)
qed

lemma setObject_None: "setObject n None = on_node n (\<lambda>v. v\<lparr>n_type := VObject, n_object := None\<rparr>)"
  by (simp add: setObject_def fun_eq_iff)

lemma setObject_Some:
  "setObject n (Some a) s =
     on_node n (\<lambda>v. v\<lparr>n_type := VObject, n_object := Some a\<rparr>)
       (if marking s \<and> \<not> black s a then push_target a s else s)"
  by (simp add: setObject_def views black_def Let_def) (simp add: push_target_def on_node_def)

lemma inv_setObject [chatra_inv]:
  assumes "storage_inv s" "\<And>b. v = Some b \<Longrightarrow> target_ok s b"
  shows "storage_inv (setObject n v s)"
proof (cases v)
  case None
  then show ?thesis using assms(1) by (auto simp: setObject_None intro: inv_on_node)
next
  case (Some a)
  let ?s = "if marking s \<and> \<not> black s a then push_target a s else s"
  have ok: "target_ok s a" using assms(2) Some by simp
  then have "storage_inv ?s"
    using assms(1) inv_push [of s a] by (simp add: target_ok_def)
  moreover have "target_ok ?s a \<and> noticed ?s a"
    using ok by (auto simp: target_ok_def noticed_def)
  ultimately show ?thesis
    unfolding Some setObject_Some by (intro inv_on_node [where v = "Some a"]) auto
qed

lemma inv_setValue [chatra_inv]:
  assumes "storage_inv s"
  shows "storage_inv (setBool n b s)" "storage_inv (setInt n i s)" "storage_inv (setFloat n x s)"
  using assms by (auto simp: setBool_def setInt_def setFloat_def intro!: inv_on_node)

lemma inv_setWithoutBothLock [chatra_inv]:
  assumes "storage_inv s" "\<And>b. node_object s m = Some b \<Longrightarrow> target_ok s b"
  shows "storage_inv (setWithoutBothLock n m s)"
proof (cases "nodeAt s m")
  case None
  then show ?thesis using assms(1) by (simp add: setWithoutBothLock_def)
next
  case (Some v)
  then have "storage_inv (setObject n (n_object v) s)"
    using assms by (intro inv_setObject) (simp_all add: node_object_def)
  with Some show ?thesis
    using assms(1) by (auto simp: setWithoutBothLock_def inv_setValue
        split: reference_value_type.splits node_value.splits)
qed

end
