(* ===== verification/Storage_Alloc.thy ===== *)
theory Storage_Alloc
  imports Storage_Inv
begin

text \<open>
  Allocation keeps the invariant of \<open>Storage_Inv\<close>: new objects, scopes and references, the capture of
  a scope, and the end of a scope.
\<close>

subsection \<open>Updates the invariant does not see\<close>

text \<open>The same state, except for what hangs at nodes that nobody owns, and for locks and types.\<close>

definition same_view :: "storage \<Rightarrow> storage \<Rightarrow> bool" where
  "same_view s t \<longleftrightarrow>
     objects t = objects s \<and> recycledObjectIndexes t = recycledObjectIndexes s \<and> trash t = trash s \<and>
     trashCopy t = trashCopy s \<and> scopes t = scopes s \<and> gcGeneration t = gcGeneration s \<and>
     gcState t = gcState s \<and> marking t = marking s \<and> gcScopes t = gcScopes s \<and>
     gcTargets t = gcTargets s \<and> position t = position s \<and>
     dom (objectAt t) = dom (objectAt s) \<and> dom (scopeAt t) = dom (scopeAt s) \<and>
     generation t = generation s \<and> object_nodes t = object_nodes s \<and> object_index t = object_index s \<and>
     scope_nodes t = scope_nodes s \<and> scope_refs t = scope_refs s \<and>
     (\<forall>p. \<forall>n \<in> set (owned s p). allocated t n = allocated s n \<and> node_object t n = node_object s n)"

lemma inv_same_view:
  assumes "storage_inv s" "same_view s t"
  shows "storage_inv t"
proof -
  have sc: "edge t (scope_nodes s c) = edge s (scope_nodes s c)"
    and ob: "edge t (object_nodes s a) = edge s (object_nodes s a)" for c a
    using assms(2) unfolding same_view_def edge_def by (metis owned.simps)+
  have own: "owned t p = owned s p" for p
    using assms(2) by (cases p) (simp_all add: same_view_def)
  have "registered t = registered s" "black t = black s"
    using assms(2) by (auto simp: same_view_def registered_def black_def fun_eq_iff)
  note eqs = this sc ob own
  have "table_ok t" "heap_ok t" "owners_ok t" "edges_ok t"
    using assms unfolding storage_inv_def same_view_def
    by (simp_all add: table_ok_def heap_ok_def owners_ok_def edges_ok_def eqs)
  moreover have "phase_ok t"
    using assms unfolding storage_inv_def same_view_def phase_ok_def
    by (cases "gcState s") (simp_all add: marking_ok_def sweeping_ok_def eqs)
  ultimately show ?thesis by (simp add: storage_inv_def)
qed

lemma same_view_on_object:
  "\<forall>ob. o_nodes (f ob) = o_nodes ob \<and> o_gcGeneration (f ob) = o_gcGeneration ob \<and>
      o_objectIndex (f ob) = o_objectIndex ob \<Longrightarrow> same_view s (on_object a f s)"
  by (auto simp: same_view_def on_object_def generation_def object_nodes_def object_index_def
      scope_nodes_def scope_refs_def allocated_def node_object_def fun_eq_iff split: option.splits if_splits)

lemma same_view_on_scope:
  "\<forall>d. s_nodes (f d) = s_nodes d \<and> s_refs (f d) = s_refs d \<Longrightarrow> same_view s (on_scope c f s)"
  by (auto simp: same_view_def on_scope_def generation_def object_nodes_def object_index_def
      scope_nodes_def scope_refs_def allocated_def node_object_def fun_eq_iff split: option.splits if_splits)

lemma same_view_memory:
  "\<forall>p. \<forall>n \<in> set (owned s p). X n = nodeAt s n \<Longrightarrow> same_view s (s\<lparr>groupAt := Y, nodeAt := X\<rparr>)"
  by (auto simp: same_view_def generation_def object_nodes_def object_index_def
      scope_nodes_def scope_refs_def allocated_def node_object_def fun_eq_iff)

lemma same_view_groups: "same_view s (s\<lparr>groupAt := Y\<rparr>)"
  by (auto simp: same_view_def generation_def object_nodes_def object_index_def
      scope_nodes_def scope_refs_def allocated_def node_object_def fun_eq_iff)

lemma same_view_fields:
  "same_view s (s\<lparr>armed := x\<rparr>)" "same_view s (s\<lparr>systemScopes := y\<rparr>)" "same_view s (s\<lparr>systemObjectIndex := z\<rparr>)"
  "same_view s (s\<lparr>totalScopeCount := z\<rparr>)" "same_view s (s\<lparr>totalObjectCount := z\<rparr>)"
  by (auto simp: same_view_def generation_def object_nodes_def object_index_def
      scope_nodes_def scope_refs_def allocated_def node_object_def fun_eq_iff)

text \<open>Memory for nodes and groups can be added and freed as long as no owner has it.\<close>

definition unowned :: "storage \<Rightarrow> nat \<Rightarrow> bool" where
  "unowned s n \<longleftrightarrow> (\<forall>p. n \<notin> set (owned s p))"

lemma fresh_unowned: "storage_inv s \<Longrightarrow> nodeAt s n = None \<Longrightarrow> unowned s n"
  unfolding storage_inv_def owners_ok_def unowned_def allocated_def by blast

lemma put_memory_alt:
  "put_nodes ngs (put_groups gs v s) =
     s\<lparr>groupAt := (\<lambda>g. if g \<in> set gs then Some v else groupAt s g),
       nodeAt := (\<lambda>n. case map_of ngs n of None \<Rightarrow> nodeAt s n | Some g \<Rightarrow> Some (new_node g))\<rparr>"
  by (simp add: put_nodes_def put_groups_def cong: option.case_cong)

lemma inv_put_memory:
  assumes "storage_inv s" "\<forall>n \<in> fst ` set ngs. nodeAt s n = None"
  shows "storage_inv (put_nodes ngs (put_groups gs v s))"
proof -
  have "map_of ngs n = None" if "n \<in> set (owned s p)" for p n
    using that assms fresh_unowned [of s n] by (auto simp: unowned_def map_of_eq_None_iff)
  then show ?thesis
    unfolding put_memory_alt by (intro inv_same_view [OF assms(1)] same_view_memory) simp
qed

lemma inv_free_refs:
  assumes "storage_inv s" "\<forall>n \<in> set ns. unowned s n"
  shows "storage_inv (free_refs gs ns s)"
  unfolding free_refs_def
  by (intro inv_same_view [OF assms(1)] same_view_memory) (use assms(2) in \<open>auto simp: unowned_def\<close>)

subsection \<open>New objects\<close>

text \<open>Nodes that an object can take over: nobody owns them, and what they refer to is in order.\<close>

definition nodes_ready :: "storage \<Rightarrow> nat list \<Rightarrow> bool" where
  "nodes_ready s ns \<longleftrightarrow> (\<forall>n \<in> set ns. allocated s n \<and> unowned s n) \<and>
     (\<forall>b. edge s ns b \<longrightarrow> target_ok s b \<and> noticed s b)"

definition place_object :: "nat \<Rightarrow> object_data \<Rightarrow> storage \<Rightarrow> storage" where
  "place_object a ob s = s\<lparr>objectAt := (objectAt s)(a \<mapsto> ob)\<rparr>"

lemma register_views:
  fixes ob :: object_data
  assumes "objectAt s a = None"
  defines "t \<equiv> registerObject a (place_object a ob s)"
  shows "generation t b = (if b = a then gcGeneration s else generation s b)"
    "object_nodes t b = (if b = a then o_nodes ob else object_nodes s b)"
    "scope_nodes t = scope_nodes s" "scope_refs t = scope_refs s" "node_object t = node_object s"
    "allocated t = allocated s" "dom (objectAt t) = insert a (dom (objectAt s))" "scopeAt t = scopeAt s"
    "trash t = trash s" "trashCopy t = trashCopy s" "scopes t = scopes s" "gcGeneration t = gcGeneration s"
    "gcState t = gcState s" "marking t = marking s" "gcScopes t = gcScopes s" "gcTargets t = gcTargets s"
    "position t = position s"
  by (auto simp: t_def registerObject_def register_generation_def register_index_def place_object_def
      on_object_def generation_def object_nodes_def scope_nodes_def scope_refs_def node_object_def
      allocated_def fun_eq_iff Let_def split: if_splits option.splits)

lemma register_table:
  fixes ob :: object_data
  assumes "table_ok s" "objectAt s a = None" "a \<notin> registered s"
  defines "t \<equiv> registerObject a (place_object a ob s)"
  shows "table_ok t" "registered t = insert a (registered s)"
    "\<And>i b. i < length (objects t) \<Longrightarrow> objects t ! i = Some b \<Longrightarrow> b \<noteq> a \<Longrightarrow>
       i < length (objects s) \<and> objects s ! i = Some b"
proof -
  let ?r = "recycledObjectIndexes s"
  have idx: "object_index t b = (if b = a then if ?r = [] then length (objects s) else last ?r else object_index s b)" for b
    by (auto simp: t_def registerObject_def register_generation_def register_index_def place_object_def
        on_object_def object_index_def Let_def)
  have objs: "objects t = (if ?r = [] then objects s @ [Some a] else (objects s)[last ?r := Some a])"
    and rec: "recycledObjectIndexes t = (if ?r = [] then [] else butlast ?r)"
    by (auto simp: t_def registerObject_def register_generation_def register_index_def place_object_def
        on_object_def Let_def)
  have r: "distinct ?r" "set ?r = {i. i < length (objects s) \<and> objects s ! i = None}"
    and ix: "\<And>i b. i < length (objects s) \<Longrightarrow> objects s ! i = Some b \<Longrightarrow> object_index s b = i"
    using assms(1) by (auto simp: table_ok_def)
  have ne: "b \<noteq> a" if "i < length (objects s)" "objects s ! i = Some b" for i b
    using that assms(3) by (auto simp: registered_def in_set_conv_nth)
  have last: "last ?r < length (objects s)" "objects s ! last ?r = None" if "?r \<noteq> []"
    using that r(2) last_in_set [OF that] by auto
  show "table_ok t"
  proof (cases "?r = []")
    case True
    then have "\<forall>i<length (objects s). objects s ! i \<noteq> None" using r(2) by auto
    with True ix ne show ?thesis
      by (auto simp: table_ok_def objs rec idx nth_append less_Suc_eq)
  next
    case False
    have "set (butlast ?r) = {i. i < length (objects s) \<and> objects s ! i = None} - {last ?r}"
      using r False distinct_butlast_last [OF r(1) False] set_butlast_last [OF False] by auto
    with False ix ne last r(1) show ?thesis
      by (auto simp: table_ok_def objs rec idx nth_list_update distinct_butlast split: if_splits)
  qed
  show "registered t = insert a (registered s)"
  proof (cases "?r = []")
    case True then show ?thesis by (auto simp: registered_def objs)
  next
    case False
    then show ?thesis
      using last by (auto simp: registered_def objs in_set_conv_nth nth_list_update)
        (metis length_list_update nth_list_update option.distinct(1))+
  qed
  show "i < length (objects s) \<and> objects s ! i = Some b"
    if "i < length (objects t)" "objects t ! i = Some b" "b \<noteq> a" for i b
    using that by (cases "i = last ?r") (auto simp: objs nth_append split: if_splits)
qed

lemma inv_add_object:
  assumes inv: "storage_inv s" and a: "objectAt s a = None" and ns: "nodes_ready s (o_nodes ob)"
  shows "storage_inv (registerObject a (place_object a ob s))" (is "storage_inv ?t")
proof -
  note v = register_views [OF a, where ob = ob]
  have a': "a \<notin> registered s" "a \<notin> set (trash s)" "a \<notin> set (trashCopy s)"
    using inv a unfolding storage_inv_def heap_ok_def by auto
  have tab: "table_ok s" using inv by (simp add: storage_inv_def)
  note reg = register_table [OF tab a a'(1), where ob = ob]
  have e: "edge ?t = edge s" by (simp add: edge_def v fun_eq_iff)
  have bl: "black ?t b \<longleftrightarrow> b = a \<or> black s b" for b by (simp add: black_def v)
  have own: "owned ?t p = (if p = OfObject a then o_nodes ob else owned s p)" for p
    by (cases p) (simp_all add: v)
  have "table_ok ?t" by (rule reg(1))
  moreover have "heap_ok ?t"
    using inv a' by (auto simp: storage_inv_def heap_ok_def v reg(2))
  moreover have "owners_ok ?t"
    using inv ns unfolding storage_inv_def owners_ok_def nodes_ready_def unowned_def
    by (simp add: own v) blast
  moreover have "edges_ok ?t"
    using inv ns a' unfolding storage_inv_def edges_ok_def nodes_ready_def target_ok_def
    by (auto simp: v reg(2) e bl)
  moreover have "phase_ok ?t"
  proof -
    have gens: "\<forall>b \<in> registered ?t. generation ?t b = gcGeneration ?t \<or> generation ?t b + 1 = gcGeneration ?t"
      using inv by (auto simp: storage_inv_def phase_ok_def v reg(2))
    have "marking_ok ?t" if "marking_ok s"
      using that ns a' unfolding marking_ok_def nodes_ready_def noticed_def
      by (auto simp: v reg(2) e bl)
    moreover have "sweeping_ok ?t" if "sweeping_ok s" "gcState s = Sweeping"
    proof -
      have "black ?t b" if "i < length (objects ?t)" "i < position ?t" "objects ?t ! i = Some b" for i b
        using reg(3) [OF that(1,3)] that(2) \<open>sweeping_ok s\<close>
        by (cases "b = a") (auto simp: sweeping_ok_def v bl)
      then show ?thesis
        using that ns a' unfolding sweeping_ok_def nodes_ready_def target_ok_def
        by (auto simp: v reg(2) e bl)
    qed
    ultimately show ?thesis
      using inv gens unfolding storage_inv_def phase_ok_def
      by (auto simp: v reg(2) bl split: gc_state.splits)
  qed
  ultimately show ?thesis by (simp add: storage_inv_def)
qed

end
