(* ===== verification/Storage_Ops.thy ===== *)
theory Storage_Ops
  imports Storage_Alloc
begin

text \<open>
  The operations of \<open>Storage\<close>, \<open>Scope\<close> and \<open>Reference\<close> that a program performs keep the invariant of
  \<open>Storage_Inv\<close>, each under the conditions its caller has to observe.
\<close>

subsection \<open>Allocating an object\<close>

lemma register_on_node: "registerObject a (on_node n f s) = on_node n f (registerObject a s)"
  by (simp add: registerObject_def register_generation_def register_index_def on_object_def on_node_def Let_def)

lemma register_push: "registerObject a (push_target b s) = push_target b (registerObject a s)"
  by (simp add: registerObject_def register_generation_def register_index_def on_object_def
      push_target_def Let_def)

lemma inv_set_and_register:
  assumes inv: "storage_inv s" and a: "objectAt s a = None" and ns: "nodes_ready s (o_nodes ob)"
  shows "storage_inv (registerObject a (setObject n (Some a) (place_object a ob s)))"
    and "a \<in> registered (registerObject a (setObject n (Some a) (place_object a ob s)))"
proof -
  let ?P = "place_object a ob s" and ?t = "registerObject a (place_object a ob s)"
  have t: "storage_inv ?t" by (rule inv_add_object [OF assms])
  have "a \<notin> registered s"
    using inv a unfolding storage_inv_def heap_ok_def by auto
  then have reg: "a \<in> registered ?t"
    using register_table(2) [OF _ a, where ob = ob] inv by (simp add: storage_inv_def)
  have bl: "black ?t a" by (simp add: black_def register_views [OF a])
  have mk: "marking ?t = marking ?P"
    by (subst register_views(14) [OF a]) (simp add: place_object_def)
  let ?u = "if marking ?P \<and> \<not> black ?P a then push_target a ?t else ?t"
  have u: "storage_inv ?u" using inv_push [OF t _ reg] t mk by simp
  have ok: "target_ok ?u a \<and> noticed ?u a"
    using reg bl by (simp add: target_ok_def noticed_def)
  have eq: "registerObject a (setObject n (Some a) ?P) =
      on_node n (\<lambda>v. v\<lparr>n_type := VObject, n_object := Some a\<rparr>) ?u"
    by (simp add: setObject_Some register_on_node register_push)
  show "storage_inv (registerObject a (setObject n (Some a) ?P))"
    unfolding eq using ok by (intro inv_on_node [OF u, where v = "Some a"]) auto
  show "a \<in> registered (registerObject a (setObject n (Some a) ?P))"
    unfolding eq using reg by simp
qed

text \<open>
  What the caller of an allocation provides: distinct new addresses, as many as the layout needs.
\<close>

definition fresh_for :: "storage \<Rightarrow> nat \<Rightarrow> object_ctor \<Rightarrow> nat list \<Rightarrow> nat list \<Rightarrow> bool" where
  "fresh_for s a c gs ns \<longleftrightarrow> objectAt s a = None \<and> length gs = l_groups (c_layout c) \<and>
     length ns = length (l_nodes (c_layout c)) \<and> distinct gs \<and> distinct ns \<and>
     (\<forall>g \<in> set gs. groupAt s g = None) \<and> (\<forall>n \<in> set ns. nodeAt s n = None)"

lemma put_nodes_views:
  assumes "length ns = length gs"
  shows "node_object (put_nodes (zip ns gs) s) n = (if n \<in> set ns then None else node_object s n)"
    and "allocated (put_nodes (zip ns gs) s) n \<longleftrightarrow> n \<in> set ns \<or> allocated s n"
    and "owned (put_nodes (zip ns gs) s) p = owned s p"
proof -
  have dom: "(map_of (zip ns gs) n = None) = (n \<notin> set ns)"
    using assms by (rule map_of_zip_is_None)
  show "node_object (put_nodes (zip ns gs) s) n = (if n \<in> set ns then None else node_object s n)"
    and "allocated (put_nodes (zip ns gs) s) n \<longleftrightarrow> n \<in> set ns \<or> allocated s n"
    using dom by (auto simp: node_object_def put_nodes_def new_node_def allocated_def split: option.splits)
  show "owned (put_nodes (zip ns gs) s) p = owned s p"
    by (cases p) (simp_all add: put_nodes_def scope_nodes_def object_nodes_def)
qed

lemma put_groups_views [simp]:
  "node_object (put_groups gs v s) = node_object s" "allocated (put_groups gs v s) = allocated s"
  "owned (put_groups gs v s) p = owned s p"
  by (auto simp: put_groups_def node_object_def allocated_def fun_eq_iff)
     (cases p; simp add: scope_nodes_def object_nodes_def)

lemma inv_allocate [chatra_inv]:
  assumes inv: "storage_inv s" and fresh: "fresh_for s a c gs ns"
  shows "storage_inv (allocateWithoutLock n a c gs ns s)"
    and "a \<in> registered (allocateWithoutLock n a c gs ns s)"
proof -
  let ?gs = "List.map ((!) gs) (l_nodes (c_layout c))"
  let ?m = "put_nodes (zip ns ?gs) (put_groups gs (c_group c) s)"
  have len: "length ns = length ?gs" using fresh by (simp add: fresh_for_def)
  have m: "storage_inv ?m"
    using fresh by (intro inv_put_memory [OF inv]) (auto simp: fresh_for_def dest: set_zip_leftD)
  have a: "objectAt ?m a = None"
    using fresh by (simp add: fresh_for_def put_memory_alt)
  have "unowned s x" if "x \<in> set ns" for x
    using that fresh fresh_unowned [OF inv] by (simp add: fresh_for_def)
  then have ready: "nodes_ready ?m (o_nodes (constructed c gs ns))"
    using len by (auto simp: nodes_ready_def constructed_def put_nodes_views edge_def unowned_def)
  have eq: "allocateWithoutLock n a c gs ns s =
      registerObject a (setObject n (Some a) (place_object a (constructed c gs ns) ?m))"
    by (simp add: allocateWithoutLock_def construct_def place_object_def Let_def)
  show "storage_inv (allocateWithoutLock n a c gs ns s)"
    and "a \<in> registered (allocateWithoutLock n a c gs ns s)"
    unfolding eq by (rule inv_set_and_register [OF m a ready])+
qed

subsection \<open>References added to scopes and objects\<close>

text \<open>An owner takes new nodes over, all of them null.\<close>

definition null_ready :: "storage \<Rightarrow> nat list \<Rightarrow> bool" where
  "null_ready s ns \<longleftrightarrow> (\<forall>n \<in> set ns. allocated s n \<and> unowned s n \<and> node_object s n = None)"

lemma inv_scope_gets:
  assumes inv: "storage_inv s" and c: "scopeAt s c = Some d" and n: "null_ready s [n]"
    and key: "key \<notin> um_keys (s_refs d)"
  shows "storage_inv (on_scope c (\<lambda>d. d\<lparr>s_groups := s_groups d @ [g], s_nodes := s_nodes d @ [n],
                       s_refs := um_emplace key n (s_refs d)\<rparr>) s)" (is "storage_inv ?t")
proof -
  have nodes: "scope_nodes ?t x = (if x = c then scope_nodes s x @ [n] else scope_nodes s x)" for x
    using c by (simp add: scope_nodes_def on_scope_def)
  have refs: "set (scope_refs ?t x) = (if x = c then insert n (set (scope_refs s x)) else set (scope_refs s x))" for x
    using c key by (auto simp: scope_refs_def on_scope_def um_emplace_def)
  have v: "generation ?t = generation s" "object_nodes ?t = object_nodes s" "object_index ?t = object_index s"
    "node_object ?t = node_object s" "allocated ?t = allocated s" "registered ?t = registered s" "black ?t = black s"
    by (auto simp: on_scope_def generation_def object_nodes_def object_index_def node_object_def
        allocated_def registered_def black_def fun_eq_iff)
  have f: "objects ?t = objects s" "scopes ?t = scopes s" "recycledObjectIndexes ?t = recycledObjectIndexes s"
    "trash ?t = trash s" "trashCopy ?t = trashCopy s" "gcGeneration ?t = gcGeneration s" "gcState ?t = gcState s"
    "marking ?t = marking s" "gcScopes ?t = gcScopes s" "gcTargets ?t = gcTargets s" "position ?t = position s"
    "objectAt ?t = objectAt s" "dom (scopeAt ?t) = dom (scopeAt s)"
    using c by (auto simp: on_scope_def)
  have e: "edge ?t ns = edge s ns" for ns by (simp add: edge_def v fun_eq_iff)
  have e1: "edge s (scope_nodes ?t x) = edge s (scope_nodes s x)" for x
    using n by (auto simp: nodes edge_def null_ready_def fun_eq_iff)
  have own: "set (owned ?t p) = (if p = OfScope c then insert n (set (owned s p)) else set (owned s p))" for p
    by (cases p) (auto simp: nodes v)
  have "heap_ok ?t" using inv by (simp add: storage_inv_def heap_ok_def f v refs nodes)
  moreover have "owners_ok ?t"
  proof -
    have "allocated s x \<and> (\<forall>q. x \<in> set (owned ?t q) \<longrightarrow> p = q)" if "x \<in> set (owned ?t p)" for x p
      using that inv n unfolding own storage_inv_def owners_ok_def null_ready_def unowned_def
      by (auto simp del: owned.simps split: if_splits)
    then show ?thesis unfolding owners_ok_def v by blast
  qed
  moreover have "table_ok ?t" "edges_ok ?t"
    using inv by (simp_all add: storage_inv_def table_ok_def edges_ok_def f v e e1)
  moreover have "phase_ok ?t"
    using inv unfolding storage_inv_def phase_ok_def
    by (cases "gcState s") (simp_all add: marking_ok_def sweeping_ok_def f v e e1)
  ultimately show ?thesis by (simp add: storage_inv_def)
qed

lemma inv_object_gets:
  assumes inv: "storage_inv s" and a: "objectAt s a \<noteq> None" and ns: "null_ready s ns"
    and f: "\<forall>ob. o_nodes (f ob) = o_nodes ob @ ns \<and> o_gcGeneration (f ob) = o_gcGeneration ob \<and>
              o_objectIndex (f ob) = o_objectIndex ob"
  shows "storage_inv (on_object a f s)" (is "storage_inv ?t")
proof -
  have nodes: "object_nodes ?t x = (if x = a then object_nodes s x @ ns else object_nodes s x)" for x
    using a f by (auto simp: object_nodes_def on_object_def)
  have v: "generation ?t = generation s" "scope_nodes ?t = scope_nodes s" "object_index ?t = object_index s"
    "node_object ?t = node_object s" "allocated ?t = allocated s" "registered ?t = registered s" "black ?t = black s"
    "scope_refs ?t = scope_refs s"
    using f by (auto simp: on_object_def generation_def scope_nodes_def object_index_def node_object_def
        allocated_def registered_def black_def scope_refs_def fun_eq_iff split: option.splits)
  have fl: "objects ?t = objects s" "scopes ?t = scopes s" "recycledObjectIndexes ?t = recycledObjectIndexes s"
    "trash ?t = trash s" "trashCopy ?t = trashCopy s" "gcGeneration ?t = gcGeneration s" "gcState ?t = gcState s"
    "marking ?t = marking s" "gcScopes ?t = gcScopes s" "gcTargets ?t = gcTargets s" "position ?t = position s"
    "dom (objectAt ?t) = dom (objectAt s)" "scopeAt ?t = scopeAt s"
    using a by (auto simp: on_object_def)
  have e: "edge ?t ns = edge s ns" for ns by (simp add: edge_def v fun_eq_iff)
  have e1: "edge s (object_nodes ?t x) = edge s (object_nodes s x)" for x
    using ns by (auto simp: nodes edge_def null_ready_def fun_eq_iff)
  have own: "set (owned ?t p) = (if p = OfObject a then set ns \<union> set (owned s p) else set (owned s p))" for p
    by (cases p) (auto simp: nodes v)
  have "owners_ok ?t"
  proof -
    have "allocated s x \<and> (\<forall>q. x \<in> set (owned ?t q) \<longrightarrow> p = q)" if "x \<in> set (owned ?t p)" for x p
      using that inv ns unfolding own storage_inv_def owners_ok_def null_ready_def unowned_def
      by (auto simp del: owned.simps split: if_splits)
    then show ?thesis unfolding owners_ok_def v by blast
  qed
  moreover have "heap_ok ?t" "table_ok ?t" "edges_ok ?t"
    using inv by (simp_all add: storage_inv_def heap_ok_def table_ok_def edges_ok_def fl v e e1)
  moreover have "phase_ok ?t"
    using inv unfolding storage_inv_def phase_ok_def
    by (cases "gcState s") (simp_all add: marking_ok_def sweeping_ok_def fl v e e1)
  ultimately show ?thesis by (simp add: storage_inv_def)
qed

lemma put_one_ready:
  assumes "storage_inv s" "nodeAt s n = None"
  shows "storage_inv (put_nodes [(n, g)] (put_groups [g] v s))"
    and "null_ready (put_nodes [(n, g)] (put_groups [g] v s)) [n]"
proof -
  show "storage_inv (put_nodes [(n, g)] (put_groups [g] v s))"
    using assms by (intro inv_put_memory) simp_all
  show "null_ready (put_nodes [(n, g)] (put_groups [g] v s)) [n]"
    using put_nodes_views [of "[n]" "[g]" "put_groups [g] v s"] fresh_unowned [OF assms]
    by (simp add: null_ready_def unowned_def)
qed

lemma inv_scope_add_group [chatra_inv]:
  assumes "storage_inv s" "scopeAt s c = Some d" "nodeAt s n = None" "key \<notin> um_keys (s_refs d)"
  shows "storage_inv (scope_add_group c key v g n s)"
  unfolding scope_add_group_def
  by (rule inv_scope_gets [where d = d])
     (use assms put_one_ready [OF assms(1,3)] in \<open>simp_all add: put_memory_alt\<close>)

lemma inv_scope_adds [chatra_inv]:
  assumes "storage_inv s" "scopeAt s c = Some d" "nodeAt s n = None" "key \<notin> um_keys (s_refs d)"
  shows "storage_inv (scope_add c key r g n s)" "storage_inv (scope_addConst c key g n s)"
    "storage_inv (scope_addExclusive c key g n s)"
  using assms by (simp_all add: scope_add_def scope_addConst_def scope_addExclusive_def inv_scope_add_group)

lemma inv_scope_add_temporary [chatra_inv]:
  assumes "storage_inv s" "scopeAt s c = Some d" "nodeAt s n = None" "next_key s c \<notin> um_keys (s_refs d)"
  shows "storage_inv (scope_add_temporary c v g n s)"
  unfolding scope_add_temporary_def
proof (rule inv_scope_add_group [where d = "d\<lparr>s_nextId := s_nextId d - 1\<rparr>"])
  show "storage_inv (on_scope c (\<lambda>d. d\<lparr>s_nextId := s_nextId d - 1\<rparr>) s)"
    by (rule inv_same_view [OF assms(1) same_view_on_scope]) simp
qed (use assms in \<open>simp_all add: on_scope_def\<close>)

lemma inv_appendElements [chatra_inv]:
  assumes inv: "storage_inv s" and a: "objectAt s a = Some ob"
    and fresh: "\<forall>n \<in> set ns. nodeAt s n = None"
    and len: "length ns = length ps - length (o_refsArray ob)"
  shows "storage_inv (appendElements a ps r gs ns s)"
proof -
  let ?l = "append_loop [] (drop (length (o_refsArray ob)) ps)
      \<lparr>l_groups = length (o_groups ob), l_nodes = [], l_map = [], l_array = []\<rparr>"
  let ?groups = "o_groups ob @ gs"
  let ?gs = "List.map ((!) ?groups) (l_nodes ?l)"
  let ?m = "put_nodes (zip ns ?gs) (put_groups gs (group_for r) s)"
  have "length (l_nodes ?l) = length ps - length (o_refsArray ob)"
    using append_loop_groups [of "[]" "\<lparr>l_groups = length (o_groups ob), l_nodes = [], l_map = [], l_array = []\<rparr>"
        "drop (length (o_refsArray ob)) ps"] by auto
  with len have ln: "length ns = length ?gs" by simp
  have m: "storage_inv ?m"
    using fresh by (intro inv_put_memory [OF inv]) (auto dest: set_zip_leftD)
  have ready: "null_ready ?m ns"
    using ln fresh fresh_unowned [OF inv] by (auto simp: null_ready_def put_nodes_views unowned_def)
  have "storage_inv (on_object a (\<lambda>ob. ob\<lparr>o_groups := ?groups, o_nodes := o_nodes ob @ ns,
                                  o_refsArray := o_refsArray ob @ ns\<rparr>) ?m)"
    by (rule inv_object_gets [OF m _ ready]) (use a in \<open>simp_all add: put_memory_alt\<close>)
  then show ?thesis by (simp add: appendElements_def a Let_def)
qed

subsection \<open>Scopes begin and end\<close>

lemma inv_new_scope:
  assumes inv: "storage_inv s" and c: "scopeAt s c = None"
  shows "storage_inv (s\<lparr>scopeAt := (scopeAt s)(c \<mapsto> new_scope ty), scopes := scopes s @ [c]\<rparr>)"
    (is "storage_inv ?t")
proof -
  have v: "generation ?t = generation s" "object_nodes ?t = object_nodes s" "object_index ?t = object_index s"
    "node_object ?t = node_object s" "allocated ?t = allocated s" "registered ?t = registered s" "black ?t = black s"
    "scope_nodes ?t = scope_nodes s" "scope_refs ?t = scope_refs s"
    using c by (auto simp: generation_def object_nodes_def object_index_def node_object_def new_scope_def
        allocated_def registered_def black_def scope_nodes_def scope_refs_def fun_eq_iff)
  have e: "edge ?t ns = edge s ns" for ns by (simp add: edge_def v fun_eq_iff)
  have own: "owned ?t p = owned s p" for p by (cases p) (simp_all add: v)
  have "c \<notin> set (scopes s)" using inv c unfolding storage_inv_def heap_ok_def by blast
  moreover have "scope_nodes s c = []" "scope_refs s c = []" using c by (simp_all add: scope_nodes_def scope_refs_def)
  ultimately have "heap_ok ?t" using inv by (auto simp: storage_inv_def heap_ok_def v)
  moreover have "table_ok ?t" "owners_ok ?t" "edges_ok ?t"
    using inv by (simp_all add: storage_inv_def table_ok_def owners_ok_def edges_ok_def v e own)
  moreover have "phase_ok ?t"
    using inv \<open>scope_nodes s c = []\<close> unfolding storage_inv_def phase_ok_def
    by (cases "gcState s") (auto simp: marking_ok_def sweeping_ok_def v e edge_def)
  ultimately show ?thesis by (simp add: storage_inv_def)
qed

lemma inv_storage_add [chatra_inv]:
  assumes "storage_inv s" "scopeAt s c = None" "nodeAt s n = None"
  shows "storage_inv (storage_add ty c g n s)"
proof -
  let ?s = "s\<lparr>scopeAt := (scopeAt s)(c \<mapsto> new_scope ty), scopes := scopes s @ [c]\<rparr>"
  have "storage_inv (scope_add c CapturedScopeId InvalidRequester g n ?s)"
    by (rule inv_scope_adds [where d = "new_scope ty"])
       (use assms inv_new_scope in \<open>simp_all add: new_scope_def\<close>)
  then show ?thesis
    using inv_same_view [OF _ same_view_fields(2)] by (simp add: storage_add_def Let_def)
qed

definition drop_scope :: "nat \<Rightarrow> storage \<Rightarrow> storage" where
  "drop_scope c s = s\<lparr>scopes := remove1 c (scopes s), scopeAt := (scopeAt s)(c := None)\<rparr>"

lemma drop_scope_views:
  "generation (drop_scope c s) = generation s" "object_nodes (drop_scope c s) = object_nodes s"
  "object_index (drop_scope c s) = object_index s" "node_object (drop_scope c s) = node_object s"
  "allocated (drop_scope c s) = allocated s" "registered (drop_scope c s) = registered s"
  "black (drop_scope c s) = black s" "edge (drop_scope c s) = edge s"
  "scope_nodes (drop_scope c s) x = (if x = c then [] else scope_nodes s x)"
  "scope_refs (drop_scope c s) x = (if x = c then [] else scope_refs s x)"
  "owned (drop_scope c s) p = (if p = OfScope c then [] else owned s p)"
  by (auto simp: drop_scope_def generation_def object_nodes_def object_index_def node_object_def
      allocated_def registered_def black_def edge_def scope_nodes_def scope_refs_def fun_eq_iff)
     (cases p; auto simp: scope_nodes_def object_nodes_def)

lemma inv_drop_scope:
  assumes inv: "storage_inv s"
  shows "storage_inv (drop_scope c s)" (is "storage_inv ?t")
proof -
  note v = drop_scope_views
  have f: "objects ?t = objects s" "recycledObjectIndexes ?t = recycledObjectIndexes s"
    "trash ?t = trash s" "trashCopy ?t = trashCopy s" "gcGeneration ?t = gcGeneration s" "gcState ?t = gcState s"
    "marking ?t = marking s" "gcScopes ?t = gcScopes s" "gcTargets ?t = gcTargets s" "position ?t = position s"
    "objectAt ?t = objectAt s"
    by (simp_all add: drop_scope_def)
  have sc: "set (scopes ?t) = set (scopes s) - {c}" "distinct (scopes ?t)" "dom (scopeAt ?t) = dom (scopeAt s) - {c}"
    using inv by (auto simp: drop_scope_def storage_inv_def heap_ok_def)
  have "heap_ok ?t" using inv by (auto simp: storage_inv_def heap_ok_def v f sc)
  moreover have "owners_ok ?t"
    using inv unfolding storage_inv_def owners_ok_def v by (auto simp del: owned.simps split: if_splits)
  moreover have "edge s [] b \<longleftrightarrow> False" for b by (simp add: edge_def)
  then have "table_ok ?t" "edges_ok ?t" "phase_ok ?t"
    using inv unfolding storage_inv_def phase_ok_def
    by (cases "gcState s"; auto simp: table_ok_def edges_ok_def marking_ok_def sweeping_ok_def v f sc split: if_splits)+
  ultimately show ?thesis by (simp add: storage_inv_def)
qed

lemma erase_scope_alt:
  "scopeAt s c = Some d \<Longrightarrow> erase_scope c s = free_refs (s_groups d) (s_nodes d) (drop_scope c s)"
  by (simp add: erase_scope_def drop_scope_def Let_def)

lemma unowned_after_drop:
  assumes "storage_inv s" "scopeAt s c = Some d" "n \<in> set (s_nodes d)"
  shows "unowned (drop_scope c s) n" "allocated s n"
proof -
  have "n \<in> set (owned s (OfScope c))" using assms by (simp add: scope_nodes_def)
  then show "allocated s n" and "unowned (drop_scope c s) n"
    using assms(1) unfolding storage_inv_def owners_ok_def unowned_def
    by (auto simp del: owned.simps simp: drop_scope_views)
qed

lemma inv_erase_scope:
  assumes "storage_inv s" "scopeAt s c = Some d"
  shows "storage_inv (erase_scope c s)"
  unfolding erase_scope_alt [OF assms(2)]
  using unowned_after_drop [OF assms] by (intro inv_free_refs inv_drop_scope assms) auto

text \<open>
  The references of a captured scope move to an object. That is only in order for a scope that does
  not wait in \<open>gcScopes\<close>: nobody would look at what its references refer to.
\<close>

lemma drop_scope_commutes:
  "drop_scope c (on_object b f s) = on_object b f (drop_scope c s)"
  "drop_scope c (setObject n v s) = setObject n v (drop_scope c s)"
  "drop_scope c (place_object a ob s) = place_object a ob (drop_scope c s)"
  "drop_scope c (registerObject a s) = registerObject a (drop_scope c s)"
  "drop_scope c (on_scope c h s) = drop_scope c s"
proof -
  show ob: "drop_scope c (on_object b f s) = on_object b f (drop_scope c s)" for b f s
    by (simp add: drop_scope_def on_object_def)
  show "drop_scope c (setObject n v s) = setObject n v (drop_scope c s)"
    by (cases v) (simp_all add: drop_scope_def setObject_def on_node_def generation_def Let_def)
  show "drop_scope c (place_object a ob s) = place_object a ob (drop_scope c s)"
    by (simp add: drop_scope_def place_object_def)
  show "drop_scope c (registerObject a s) = registerObject a (drop_scope c s)"
    by (simp add: registerObject_def register_generation_def register_index_def ob Let_def)
      (simp add: drop_scope_def on_object_def)
  show "drop_scope c (on_scope c h s) = drop_scope c s"
    by (simp add: drop_scope_def on_scope_def)
qed

lemma scopeAt_keeps [simp]:
  "scopeAt (on_object b f s) = scopeAt s" "scopeAt (setObject n v s) = scopeAt s"
  "scopeAt (place_object a ob s) = scopeAt s" "scopeAt (registerObject a s) = scopeAt s"
  by (auto simp: registerObject_def register_generation_def register_index_def on_object_def setObject_def
      place_object_def Let_def split: option.splits)

lemma move_to_object_alt:
  assumes "scopeAt s c = Some d"
  shows "erase_scope c (on_object b f (move_to_object n a c d s)) =
    on_object b f (registerObject a (setObject n (Some a) (place_object a (captured_object d) (drop_scope c s))))"
proof -
  let ?clear = "on_scope c (\<lambda>d. d\<lparr>s_groups := [], s_nodes := []\<rparr>) s"
  let ?m = "move_to_object n a c d s"
  have m: "?m = registerObject a (setObject n (Some a) (place_object a (captured_object d) ?clear))"
    by (simp add: move_to_object_def place_object_def Let_def)
  have at: "scopeAt (on_object b f ?m) c = Some (d\<lparr>s_groups := [], s_nodes := []\<rparr>)"
    using assms by (simp add: m on_scope_def)
  have "free_refs [] [] s = s" for s by (simp add: free_refs_def)
  then show ?thesis
    by (simp add: erase_scope_alt [OF at]) (simp add: m drop_scope_commutes)
qed

lemma reachable_target: "storage_inv s \<Longrightarrow> reachable s b \<Longrightarrow> target_ok s b"
  using reachable_registered by (simp add: target_ok_def)

lemma scanned_noticed:
  assumes "storage_inv s" "c \<in> set (scopes s)" "c \<notin> set (gcScopes s)" "edge s (scope_nodes s c) b"
  shows "noticed s b"
proof (cases "marking s")
  case True
  then have "marking_ok s"
    using assms(1) marking_iff [OF assms(1)] by (auto simp: storage_inv_def phase_ok_def)
  then show ?thesis using assms(2-) unfolding marking_ok_def noticed_def by blast
qed (simp add: noticed_def)

lemma captured_nodes_ready:
  assumes inv: "storage_inv s" and c: "scopeAt s c = Some d" and scanned: "c \<notin> set (gcScopes s)"
  shows "nodes_ready (drop_scope c s) (o_nodes (captured_object d))"
proof -
  have nodes: "o_nodes (captured_object d) = s_nodes d" "scope_nodes s c = s_nodes d"
    using c by (simp_all add: captured_object_def scope_nodes_def)
  have c': "c \<in> set (scopes s)" using inv c unfolding storage_inv_def heap_ok_def by blast
  have "target_ok s b \<and> noticed s b" if "edge s (s_nodes d) b" for b
    using that nodes(2) reachable_target [OF inv reachable.root [OF c']] scanned_noticed [OF inv c' scanned]
    by simp
  then show ?thesis
    using unowned_after_drop [OF inv c]
    unfolding nodes_ready_def nodes target_ok_def noticed_def
    by (simp add: drop_scope_views) (simp add: drop_scope_def)
qed

lemma inv_destroy_scope [chatra_inv]:
  assumes inv: "storage_inv s" and t: "destroy_scope c a s = Inr t" and a: "objectAt s a = None"
    and scanned: "\<forall>d. scopeAt s c = Some d \<longrightarrow> s_captured d \<longrightarrow> c \<notin> set (gcScopes s)"
  shows "storage_inv t"
proof -
  from t obtain d where d: "scopeAt s c = Some d"
    by (auto simp: destroy_scope_def split: option.splits)
  show ?thesis
  proof (cases "s_captured d")
    case False
    then show ?thesis using t d inv_erase_scope [OF inv d] by (simp add: destroy_scope_def)
  next
    case True
    with t d obtain b n where eq: "t = erase_scope c (on_object b (\<lambda>ob. ob\<lparr>o_scope := None\<rparr>) (move_to_object n a c d s))"
      by (auto simp: destroy_scope_def split: option.splits)
    have "objectAt (drop_scope c s) a = None" using a by (simp add: drop_scope_def)
    moreover have "nodes_ready (drop_scope c s) (o_nodes (captured_object d))"
      using captured_nodes_ready [OF inv d] scanned d True by simp
    ultimately have "storage_inv (registerObject a (setObject n (Some a)
        (place_object a (captured_object d) (drop_scope c s))))"
      by (intro inv_set_and_register(1) inv_drop_scope inv)
    then show ?thesis
      unfolding eq move_to_object_alt [OF d]
      by (rule inv_same_view [OF _ same_view_on_object]) simp
  qed
qed

text \<open>\<open>Reference::capture\<close>\<close>

lemma inv_capture [chatra_inv]:
  assumes inv: "storage_inv s" and t: "capture n c a g m s = Inr t"
    and c: "c \<in> set (scopes s)"
    and fresh: "fresh_for s a (captured_scope_ctor c) [g] [m]"
  shows "storage_inv t"
proof -
  obtain r where r: "scope_ref s c CapturedScopeId = Some r"
    using t by (auto simp: capture_def split: option.splits)
  have r': "r \<in> set (scope_nodes s c)"
  proof -
    obtain d where d: "scopeAt s c = Some d" "map_of (s_refs d) CapturedScopeId = Some r"
      using r by (auto simp: scope_ref_def split: option.splits)
    have "r \<in> snd ` set (s_refs d)" using map_of_SomeD [OF d(2)] by force
    moreover have "set (scope_refs s c) = set (scope_nodes s c)"
      using inv c by (simp add: storage_inv_def heap_ok_def)
    ultimately show ?thesis using d(1) by (simp add: scope_refs_def)
  qed
  have sv: "storage_inv (on_scope c (\<lambda>d. d\<lparr>s_captured := True\<rparr>) u)" if "storage_inv u" for u
    by (rule inv_same_view [OF that same_view_on_scope]) simp
  show ?thesis
  proof (cases "node_object s r")
    case (Some b)
    have "reachable s b" using reachable.root [OF c] r' Some by (auto simp: edge_def)
    then have "target_ok s b" by (rule reachable_target [OF inv])
    then have "storage_inv (setObject n (Some b) s)" by (intro inv_setObject [OF inv]) simp
    then show ?thesis using t r Some sv by (auto simp: capture_def)
  next
    case None
    let ?s = "allocateWithoutLock r a (captured_scope_ctor c) [g] [m] s"
    note al = inv_allocate [OF inv fresh, of r]
    have "black ?s a"
      using fresh by (simp add: black_def generation_def allocateWithoutLock_def registerObject_def register_generation_def
          register_index_def on_object_def setObject_def on_node_def construct_def put_nodes_def put_groups_def Let_def)
    with al(2) have "target_ok ?s a" by (simp add: target_ok_def)
    then have "storage_inv (setObject n (Some a) ?s)" by (intro inv_setObject [OF al(1)]) simp
    then show ?thesis using t r None sv by (auto simp: capture_def)
  qed
qed

end
