(* ===== verification/Collector_Inv.thy ===== *)
theory Collector_Inv
  imports Storage_Ops
begin

text \<open>
  The collector keeps the invariant of \<open>Storage_Inv\<close>: scanning the scopes, marking, sweeping and
  deleting, for every configuration of step counts.
\<close>

subsection \<open>Steps that leave the memory alone\<close>

definition same_memory :: "storage \<Rightarrow> storage \<Rightarrow> bool" where
  "same_memory s t \<longleftrightarrow> objectAt t = objectAt s \<and> nodeAt t = nodeAt s \<and> scopeAt t = scopeAt s"

lemma same_memory_views:
  assumes "same_memory s t"
  shows "generation t = generation s" "object_nodes t = object_nodes s" "object_index t = object_index s"
    "node_object t = node_object s" "allocated t = allocated s" "scope_nodes t = scope_nodes s"
    "scope_refs t = scope_refs s" "edge t = edge s" "owned t p = owned s p"
    "objectAt t = objectAt s" "scopeAt t = scopeAt s"
  using assms
  by (auto simp: same_memory_def generation_def object_nodes_def object_index_def node_object_def
      allocated_def scope_nodes_def scope_refs_def edge_def fun_eq_iff)
     (cases p; simp add: scope_nodes_def object_nodes_def)

lemma inv_partsD:
  assumes "storage_inv s"
  shows "table_ok s" "heap_ok s" "owners_ok s" "edges_ok s" "phase_ok s"
  using assms by (simp_all add: storage_inv_def)

text \<open>Only fields of the collector change, and it is not the phase \<open>Sweeping\<close> before or after.\<close>

lemma inv_collector_fields:
  assumes inv: "storage_inv s" and m: "same_memory s t"
    and f: "objects t = objects s" "recycledObjectIndexes t = recycledObjectIndexes s" "trash t = trash s"
      "trashCopy t = trashCopy s" "scopes t = scopes s"
    and no_sweep: "gcState s \<noteq> Sweeping" and phase: "phase_ok t"
  shows "storage_inv t"
proof -
  note v = same_memory_views [OF m]
  have r: "registered t = registered s" by (simp add: registered_def f)
  have "table_ok t" "heap_ok t" "owners_ok t"
    using inv_partsD(1-3) [OF inv] by (simp_all add: table_ok_def heap_ok_def owners_ok_def v f r)
  moreover have "edges_ok t"
    using inv_partsD(4) [OF inv] no_sweep unfolding edges_ok_def v f r by blast
  ultimately show ?thesis using phase by (simp add: storage_inv_def)
qed

subsection \<open>Marking of scopes\<close>

lemma bumped_white: "(g :: 32 word) \<noteq> g + 1"
  by simp

lemma inv_beginMarkingScope:
  assumes inv: "storage_inv s" and idle: "gcState s = GcIdle" and empty: "trash s = []" "trashCopy s = []"
  shows "storage_inv (beginMarkingScope (s\<lparr>gcState := MarkingScope\<rparr>))" (is "storage_inv ?t")
proof -
  have m: "same_memory s ?t"
    by (simp add: same_memory_def beginMarkingScope_def bump_generation_def start_marking_def snapshot_scopes_def)
  note v = same_memory_views [OF m]
  have f: "objects ?t = objects s" "recycledObjectIndexes ?t = recycledObjectIndexes s" "trash ?t = trash s"
    "trashCopy ?t = trashCopy s" "scopes ?t = scopes s" "gcState ?t = MarkingScope" "marking ?t"
    "gcGeneration ?t = gcGeneration s + 1" "gcScopes ?t = gcScopes s @ scopes s" "gcTargets ?t = gcTargets s"
    by (simp_all add: beginMarkingScope_def bump_generation_def start_marking_def snapshot_scopes_def)
  have r: "registered ?t = registered s" by (simp add: registered_def f)
  have old: "gcTargets s = []" "\<forall>a \<in> registered s. generation s a = gcGeneration s"
    using inv_partsD(5) [OF inv] idle by (simp_all add: phase_ok_def black_def)
  have "phase_ok ?t"
    using old empty by (auto simp: phase_ok_def marking_ok_def black_def f r v)
  then show ?thesis
    using inv_collector_fields [OF inv m f(1-5)] idle by simp
qed

lemma set_referents: "set (referents s ns) = {b. edge s ns b}"
  by (induction ns) (auto simp: referents_def edge_def List.map_filter_simps split: option.splits)

lemma scan_step:
  assumes inv: "storage_inv s" and st: "gcState s = MarkingScope" and ne: "gcScopes s \<noteq> []"
  shows "storage_inv (scan_next s) \<and> gcState (scan_next s) = MarkingScope"
proof -
  define c u where "c = last (gcScopes s)" and "u = s\<lparr>gcScopes := butlast (gcScopes s)\<rparr>"
  let ?t = "if c \<in> set (scopes u) then scan_scope c u else u"
  have t: "scan_next s = ?t" by (simp add: scan_next_def c_def u_def)
  have m: "same_memory s ?t"
    by (simp add: same_memory_def scan_scope_def u_def)
  note v = same_memory_views [OF m]
  have f: "objects ?t = objects s" "recycledObjectIndexes ?t = recycledObjectIndexes s" "trash ?t = trash s"
    "trashCopy ?t = trashCopy s" "scopes ?t = scopes s" "gcState ?t = MarkingScope" "marking ?t = marking s"
    "gcGeneration ?t = gcGeneration s" "gcScopes ?t = butlast (gcScopes s)"
    by (simp_all add: scan_scope_def u_def st)
  have vu: "generation u = generation s" "edge u = edge s" "scope_refs u = scope_refs s"
    using same_memory_views [of s u] by (simp_all add: same_memory_def u_def)
  have tg: "set (gcTargets ?t) = set (gcTargets s) \<union>
      (if c \<in> set (scopes s) then {b. edge s (scope_refs s c) b \<and> \<not> black s b} else {})"
    by (auto simp: scan_scope_def set_referents vu black_def) (auto simp: u_def)
  have r: "registered ?t = registered s" and bl: "black ?t = black s"
    by (auto simp: registered_def black_def f v fun_eq_iff)
  have mk: "marking_ok s" using inv_partsD(5) [OF inv] st by (simp add: phase_ok_def)
  have same: "edge s (scope_refs s x) = edge s (scope_nodes s x)" if "x \<in> set (scopes s)" for x
    using inv_partsD(2) [OF inv] that by (simp add: heap_ok_def edge_def fun_eq_iff)
  have rest: "x \<in> set (gcScopes s) \<longleftrightarrow> x = c \<or> x \<in> set (butlast (gcScopes s))" for x
    using set_butlast_last [OF ne] by (auto simp: c_def)
  have "edge s (scope_nodes s x) b \<Longrightarrow> b \<in> registered s" for x b
    using inv_partsD(4) [OF inv] by (simp add: edges_ok_def)
  then have "set (gcTargets ?t) \<subseteq> registered s"
    using mk same unfolding tg marking_ok_def by auto
  moreover have "black s b \<or> b \<in> set (gcTargets ?t)"
    if "x \<in> set (scopes s)" "x \<notin> set (butlast (gcScopes s))" "edge s (scope_nodes s x) b" for x b
  proof (cases "x = c")
    case True
    then show ?thesis using that same [OF that(1)] by (auto simp: tg)
  next
    case False
    then have "x \<notin> set (gcScopes s)" using that(2) rest by simp
    then have "black s b \<or> b \<in> set (gcTargets s)" using mk that(1,3) unfolding marking_ok_def by blast
    then show ?thesis by (auto simp: tg)
  qed
  ultimately have "marking_ok ?t"
    using mk unfolding marking_ok_def f v r bl by (simp add: tg) blast
  then have "phase_ok ?t"
    using inv_partsD(5) [OF inv] by (simp add: phase_ok_def f v r st)
  then show ?thesis using inv_collector_fields [OF inv m f(1-5)] st f(6) unfolding t by simp
qed

lemma inv_mark_scopes:
  "storage_inv s \<Longrightarrow> gcState s = MarkingScope \<Longrightarrow>
     storage_inv (mark_scopes k s) \<and> gcState (mark_scopes k s) = MarkingScope"
proof (induction k s rule: mark_scopes.induct)
  case (2 k s)
  then show ?case
    using scan_step [of s] by (cases "gcScopes s = []") simp_all
qed simp

lemma inv_beginMarkingObject:
  assumes inv: "storage_inv s" and st: "gcState s = MarkingScope" and fin: "gcScopes s = []"
  shows "storage_inv (beginMarkingObject (s\<lparr>gcState := MarkingObject\<rparr>))" (is "storage_inv ?t")
proof -
  have m: "same_memory s ?t" by (simp add: same_memory_def beginMarkingObject_def)
  note v = same_memory_views [OF m]
  have f: "objects ?t = objects s" "recycledObjectIndexes ?t = recycledObjectIndexes s" "trash ?t = trash s"
    "trashCopy ?t = trashCopy s" "scopes ?t = scopes s" "gcState ?t = MarkingObject" "marking ?t = marking s"
    "gcGeneration ?t = gcGeneration s" "gcScopes ?t = gcScopes s" "gcTargets ?t = gcTargets s"
    by (simp_all add: beginMarkingObject_def)
  have r: "registered ?t = registered s" "black ?t = black s"
    by (auto simp: registered_def black_def f v fun_eq_iff)
  have "phase_ok ?t"
    using inv_partsD(5) [OF inv] by (simp add: phase_ok_def marking_ok_def f v r st fin)
  then show ?thesis using inv_collector_fields [OF inv m f(1-5)] st by simp
qed

subsection \<open>Marking of objects\<close>

lemma mark_step:
  assumes inv: "storage_inv s" and st: "gcState s = MarkingObject" and tg: "gcTargets s = a # rest"
  shows "storage_inv (mark_object a (s\<lparr>gcTargets := rest\<rparr>))" (is "storage_inv ?t")
proof -
  let ?u = "s\<lparr>gcTargets := rest\<rparr>"
  have mu: "same_memory s ?u" by (simp add: same_memory_def)
  note vu = same_memory_views [OF mu]
  have mk: "marking_ok s" "gcScopes s = []"
    using inv_partsD(5) [OF inv] st by (simp_all add: phase_ok_def)
  have a: "a \<in> registered s" using mk(1) tg by (simp add: marking_ok_def)
  then obtain ob where ob: "objectAt s a = Some ob"
    using inv_partsD(2) [OF inv] unfolding heap_ok_def by blast
  have ru: "registered ?u = registered s" and bu: "black ?u = black s"
    by (auto simp: registered_def black_def vu fun_eq_iff)
  show ?thesis
  proof (cases "black s a")
    case True
    have "marking_ok ?u"
      using mk(1) True unfolding marking_ok_def by (auto simp: tg vu ru bu)
    then have "phase_ok ?u"
      using inv_partsD(5) [OF inv] mk(2) by (simp add: phase_ok_def vu ru st)
    then have "storage_inv ?u"
      using inv_collector_fields [OF inv mu] st by simp
    then show ?thesis
      using True by (simp add: mark_object_def vu black_def)
  next
    case False
    let ?w = "on_object a (\<lambda>ob. ob\<lparr>o_gcGeneration := gcGeneration s\<rparr>) ?u"
    have t: "?t = ?w\<lparr>gcTargets := rest @ referents ?w (object_nodes ?w a)\<rparr>"
      using False by (simp add: mark_object_def vu black_def Let_def) (simp add: on_object_def)
    have v: "object_nodes ?t = object_nodes s" "object_index ?t = object_index s" "node_object ?t = node_object s"
      "allocated ?t = allocated s" "scope_nodes ?t = scope_nodes s" "scope_refs ?t = scope_refs s" "edge ?t = edge s"
      "generation ?t x = (if x = a then gcGeneration s else generation s x)"
      "dom (objectAt ?t) = dom (objectAt s)" "scopeAt ?t = scopeAt s" for x
      unfolding t using ob
      by (auto simp: on_object_def object_nodes_def object_index_def node_object_def allocated_def scope_nodes_def
          scope_refs_def edge_def generation_def fun_eq_iff split: option.splits)
    have wv: "object_nodes ?w = object_nodes s" "edge ?w = edge s"
      by (auto simp: on_object_def object_nodes_def edge_def node_object_def fun_eq_iff split: option.splits)
    have f: "objects ?t = objects s" "recycledObjectIndexes ?t = recycledObjectIndexes s" "trash ?t = trash s"
      "trashCopy ?t = trashCopy s" "scopes ?t = scopes s" "gcState ?t = gcState s" "marking ?t = marking s"
      "gcGeneration ?t = gcGeneration s" "gcScopes ?t = gcScopes s"
      unfolding t by (simp_all add: on_object_def)
    have tgt: "set (gcTargets ?t) = set rest \<union> {b. edge s (object_nodes s a) b}"
      unfolding t by (simp add: set_referents wv)
    have r: "registered ?t = registered s" by (simp add: registered_def f)
    have bl: "black ?t x \<longleftrightarrow> x = a \<or> black s x" for x by (simp add: black_def v f)
    have own: "owned ?t p = owned s p" for p by (cases p) (simp_all add: v)
    have "b \<in> registered s" if "edge s (object_nodes s a) b" for b
      using inv_partsD(4) [OF inv] a that st unfolding edges_ok_def by auto
    then have "set (gcTargets ?t) \<subseteq> registered s"
      using mk(1) by (auto simp: marking_ok_def tgt tg)
    moreover have "black ?t b \<or> b \<in> set (gcTargets ?t)"
      if "x \<in> registered s" "black ?t x" "edge s (object_nodes s x) b" for x b
      using that mk(1) unfolding marking_ok_def bl tgt tg by auto
    moreover have "black ?t b \<or> b \<in> set (gcTargets ?t)" if "x \<in> set (scopes s)" "edge s (scope_nodes s x) b" for x b
      using that mk unfolding marking_ok_def bl tgt tg by auto
    ultimately have "marking_ok ?t"
      using mk(1) unfolding marking_ok_def by (simp add: f r v)
    moreover have "\<forall>x \<in> registered ?t. generation ?t x = gcGeneration ?t \<or> generation ?t x + 1 = gcGeneration ?t"
      using inv_partsD(5) [OF inv] by (simp add: phase_ok_def r v f)
    ultimately have "phase_ok ?t" using mk(2) st by (simp add: phase_ok_def f)
    moreover have "table_ok ?t" "heap_ok ?t" "owners_ok ?t"
      using inv_partsD(1-3) [OF inv] by (simp_all add: table_ok_def heap_ok_def owners_ok_def v f r own)
    moreover have "edges_ok ?t"
      using inv_partsD(4) [OF inv] st by (simp add: edges_ok_def v f r)
    ultimately show ?thesis by (simp add: storage_inv_def)
  qed
qed

lemma mark_object_state [simp]:
  "gcState (mark_object a s) = gcState s"
  by (simp add: mark_object_def on_object_def Let_def)

lemma inv_mark_objects:
  "storage_inv s \<Longrightarrow> gcState s = MarkingObject \<Longrightarrow>
     storage_inv (mark_objects k s) \<and> gcState (mark_objects k s) = MarkingObject"
proof (induction k s rule: mark_objects.induct)
  case (2 k s)
  then show ?case
    using mark_step [of s] by (cases "gcTargets s") simp_all
qed simp

lemma inv_beginSweeping:
  assumes inv: "storage_inv s" and st: "gcState s = MarkingObject" and fin: "gcTargets s = []"
  shows "storage_inv (beginSweeping (s\<lparr>gcState := Sweeping\<rparr>))" (is "storage_inv ?t")
proof -
  have m: "same_memory s ?t" by (simp add: same_memory_def beginSweeping_def)
  note v = same_memory_views [OF m]
  have f: "objects ?t = objects s" "recycledObjectIndexes ?t = recycledObjectIndexes s" "trash ?t = trash s"
    "trashCopy ?t = trashCopy s" "scopes ?t = scopes s" "gcState ?t = Sweeping" "\<not> marking ?t" "position ?t = 0"
    "gcGeneration ?t = gcGeneration s" "gcScopes ?t = gcScopes s" "gcTargets ?t = gcTargets s"
    by (simp_all add: beginSweeping_def)
  have r: "registered ?t = registered s" "black ?t = black s"
    by (auto simp: registered_def black_def f v fun_eq_iff)
  have mk: "marking_ok s" "gcScopes s = []"
    using inv_partsD(5) [OF inv] st by (simp_all add: phase_ok_def)
  have roots: "black s b" if "edge s (scope_nodes s c) b" for c b
  proof (cases "c \<in> set (scopes s)")
    case True
    then show ?thesis using that mk fin unfolding marking_ok_def by auto
  next
    case False
    then have "scopeAt s c = None" using inv_partsD(2) [OF inv] unfolding heap_ok_def by blast
    then show ?thesis using that by (simp add: scope_nodes_def edge_def)
  qed
  have "sweeping_ok ?t"
    using mk roots fin unfolding marking_ok_def sweeping_ok_def by (simp add: f v r)
  then have "phase_ok ?t"
    using inv_partsD(5) [OF inv] by (simp add: phase_ok_def f v r)
  then show ?thesis using inv_collector_fields [OF inv m f(1-5)] st by simp
qed

subsection \<open>Sweeping\<close>

lemma drop_dead_refs_fields [simp]:
  "objects (drop_dead_refs ns s) = objects s" "recycledObjectIndexes (drop_dead_refs ns s) = recycledObjectIndexes s"
  "trash (drop_dead_refs ns s) = trash s" "position (drop_dead_refs ns s) = position s"
  "object_index (drop_dead_refs ns s) a = object_index s a" "gcState (drop_dead_refs ns s) = gcState s"
  by (simp_all add: drop_dead_refs_def object_index_def)

lemma sweep_one_shape:
  assumes inv: "storage_inv s" and p: "position s < length (objects s)"
  shows "sweep_one s =
     (case objects s ! position s of
        None \<Rightarrow> s\<lparr>position := Suc (position s)\<rparr>
      | Some a \<Rightarrow>
          if black s a then s\<lparr>position := Suc (position s)\<rparr>
          else (drop_dead_refs (object_nodes s a) s)\<lparr>position := Suc (position s),
                 objects := (objects s)[position s := None],
                 recycledObjectIndexes := recycledObjectIndexes s @ [position s], trash := trash s @ [a]\<rparr>)"
proof (cases "objects s ! position s")
  case (Some a)
  then have "object_index s a = position s"
    using inv_partsD(1) [OF inv] p by (simp add: table_ok_def)
  with Some show ?thesis by (simp add: sweep_one_def sweep_body_def release_index_def black_def Let_def)
qed (simp add: sweep_one_def sweep_body_def release_index_def)

lemma drop_dead_refs_views:
  "node_object (drop_dead_refs ns s) n =
     (case node_object s n of None \<Rightarrow> None
      | Some b \<Rightarrow> if n \<in> set ns \<and> \<not> black s b then None else Some b)"
  "allocated (drop_dead_refs ns s) = allocated s"
  "objectAt (drop_dead_refs ns s) = objectAt s" "scopeAt (drop_dead_refs ns s) = scopeAt s"
  by (auto simp: drop_dead_refs_def node_object_def allocated_def black_def fun_eq_iff
      generation_def split: option.splits)

lemma inv_sweep_keep:
  assumes inv: "storage_inv s" and st: "gcState s = Sweeping" and p: "position s < length (objects s)"
    and keep: "\<forall>a. objects s ! position s = Some a \<longrightarrow> black s a"
  shows "storage_inv (s\<lparr>position := Suc (position s)\<rparr>)" (is "storage_inv ?t")
proof -
  have m: "same_memory s ?t" by (simp add: same_memory_def)
  note v = same_memory_views [OF m]
  have r: "registered ?t = registered s" "black ?t = black s"
    by (auto simp: registered_def black_def v fun_eq_iff)
  have sw: "sweeping_ok s" using inv_partsD(5) [OF inv] st by (simp add: phase_ok_def)
  then have "\<forall>i<length (objects s). \<forall>a. i < Suc (position s) \<longrightarrow> objects s ! i = Some a \<longrightarrow> black s a"
    using keep unfolding sweeping_ok_def by (metis less_Suc_eq)
  with sw have "sweeping_ok ?t" unfolding sweeping_ok_def by (simp add: v r)
  moreover have "table_ok ?t" "heap_ok ?t" "owners_ok ?t" "edges_ok ?t"
    using inv_partsD(1-4) [OF inv] by (simp_all add: table_ok_def heap_ok_def owners_ok_def edges_ok_def v r)
  moreover have "phase_ok ?t"
    using calculation(1) inv_partsD(5) [OF inv] st by (simp add: phase_ok_def v r)
  ultimately show ?thesis by (simp add: storage_inv_def)
qed

lemma inv_sweep_dead:
  assumes inv: "storage_inv s" and st: "gcState s = Sweeping" and p: "position s < length (objects s)"
    and a: "objects s ! position s = Some a" "\<not> black s a"
  shows "storage_inv ((drop_dead_refs (object_nodes s a) s)\<lparr>position := Suc (position s),
                 objects := (objects s)[position s := None],
                 recycledObjectIndexes := recycledObjectIndexes s @ [position s], trash := trash s @ [a]\<rparr>)"
    (is "storage_inv ?t")
proof -
  let ?u = "drop_dead_refs (object_nodes s a) s"
  note dv = drop_dead_refs_views
  have m: "same_memory ?u ?t" by (simp add: same_memory_def)
  have v: "generation ?t = generation s" "object_nodes ?t = object_nodes s" "object_index ?t = object_index s"
    "allocated ?t = allocated s" "scope_nodes ?t = scope_nodes s" "scope_refs ?t = scope_refs s"
    "owned ?t p = owned s p" "objectAt ?t = objectAt s" "scopeAt ?t = scopeAt s" for p
    using same_memory_views [OF m] dv
    by (auto simp: generation_def object_nodes_def object_index_def scope_nodes_def scope_refs_def fun_eq_iff)
       (cases p; simp add: scope_nodes_def object_nodes_def dv)
  have f: "scopes ?t = scopes s" "trashCopy ?t = trashCopy s" "gcGeneration ?t = gcGeneration s" "gcState ?t = gcState s"
    "marking ?t = marking s" "gcScopes ?t = gcScopes s" "gcTargets ?t = gcTargets s"
    by (simp_all add: drop_dead_refs_def)
  have bl: "black ?t = black s" by (simp add: black_def v f fun_eq_iff)
  have idx: "objects s ! i = Some b \<Longrightarrow> i < length (objects s) \<Longrightarrow> object_index s b = i" for i b
    using inv_partsD(1) [OF inv] by (simp add: table_ok_def)
  have reg: "registered ?t = registered s - {a}"
  proof (rule set_eqI)
    fix b
    show "b \<in> registered ?t \<longleftrightarrow> b \<in> registered s - {a}"
      using idx p a(1) by (auto simp: registered_def in_set_conv_nth nth_list_update) (metis option.inject)+
  qed
  have a': "a \<in> registered s" using a(1) p by (auto simp: registered_def in_set_conv_nth)
  have e: "edge ?t ns b \<Longrightarrow> edge s ns b" for ns b
    using same_memory_views(4) [OF m] by (auto simp: edge_def dv split: option.splits if_splits)
  have ea: "edge ?t (object_nodes s a) b \<Longrightarrow> black s b" for b
    using same_memory_views(4) [OF m] by (auto simp: edge_def dv split: option.splits if_splits)
  have sw: "sweeping_ok s" using inv_partsD(5) [OF inv] st by (simp add: phase_ok_def)
  have "table_ok ?t"
    using inv_partsD(1) [OF inv] p a(1) unfolding table_ok_def v
    by (auto simp: nth_list_update split: if_splits)
  moreover have "heap_ok ?t"
    using inv_partsD(2) [OF inv] a' unfolding heap_ok_def by (simp add: v f reg) blast
  moreover have "owners_ok ?t"
    using inv_partsD(3) [OF inv] by (simp add: owners_ok_def v)
  moreover have "edges_ok ?t"
  proof -
    note ed = inv_partsD(4) [OF inv]
    have "b \<in> registered s - {a}" if "edge ?t (scope_nodes s c) b" for c b
      using e [OF that] ed sw a(2) unfolding edges_ok_def sweeping_ok_def by blast
    moreover have "b \<in> registered s - {a} \<or> \<not> black s x \<and> b \<in> insert a (set (trash s))"
      if "x \<in> registered s" "edge ?t (object_nodes s x) b" for x b
      using that(1) e [OF that(2)] ed sw a(2) unfolding edges_ok_def sweeping_ok_def by blast
    moreover have "b \<in> registered s - {a}"
      if "x \<in> set (trash s) \<union> set (trashCopy s)" "edge ?t (object_nodes s x) b" for x b
      using that(1) e [OF that(2)] ed sw a(2) unfolding edges_ok_def sweeping_ok_def by auto
    moreover have "b \<in> registered s - {a}" if "edge ?t (object_nodes s a) b" for b
    proof -
      have "black s b" "edge s (object_nodes s a) b" using that ea e by blast+
      moreover have "b \<notin> set (trash s)" using calculation(1) sw unfolding sweeping_ok_def by blast
      ultimately show ?thesis using ed a' a(2) st unfolding edges_ok_def by blast
    qed
    ultimately show ?thesis
      unfolding edges_ok_def v f reg bl using st by auto
  qed
  moreover have "phase_ok ?t"
  proof -
    have "black s b" if "i < length (objects ?t)" "i < Suc (position s)" "objects ?t ! i = Some b" for i b
      using that sw unfolding sweeping_ok_def by (auto simp: nth_list_update less_Suc_eq split: if_splits)
    moreover have "black s b" if "x \<in> insert a (set (trash s))" "edge ?t (object_nodes s x) b" for x b
      using that sw ea e unfolding sweeping_ok_def by auto
    moreover have "black s b" if "edge ?t (scope_nodes s c) b" for c b
      using sw e [OF that] unfolding sweeping_ok_def by blast
    moreover have "black s b" if "x \<in> registered s" "black s x" "edge ?t (object_nodes s x) b" for x b
      using sw that(1,2) e [OF that(3)] unfolding sweeping_ok_def by blast
    moreover have "\<forall>x \<in> insert a (set (trash s)). \<not> black s x"
      using sw a(2) unfolding sweeping_ok_def by blast
    moreover have "\<not> marking s" "trashCopy s = []" "gcTargets s = []" "gcScopes s = []"
      using sw unfolding sweeping_ok_def by blast+
    ultimately have "sweeping_ok ?t"
      unfolding sweeping_ok_def v f reg bl by simp blast
    then show ?thesis
      using inv_partsD(5) [OF inv] st by (simp add: phase_ok_def v f reg)
  qed
  ultimately show ?thesis by (simp add: storage_inv_def)
qed

lemma sweep_one_state:
  assumes "storage_inv s" "position s < length (objects s)"
  shows "gcState (sweep_one s) = gcState s" "length (objects (sweep_one s)) = length (objects s)"
    "position (sweep_one s) = Suc (position s)"
  by (auto simp: sweep_one_shape [OF assms] split: option.split)

lemma inv_sweep_one:
  assumes "storage_inv s" "gcState s = Sweeping" "position s < length (objects s)"
  shows "storage_inv (sweep_one s)"
  using inv_sweep_keep [OF assms] inv_sweep_dead [OF assms]
  by (auto simp: sweep_one_shape [OF assms(1,3)] split: option.split)

lemma inv_sweep_many:
  "storage_inv s \<Longrightarrow> gcState s = Sweeping \<Longrightarrow> position s + k \<le> length (objects s) \<Longrightarrow>
     storage_inv ((sweep_one ^^ k) s) \<and> gcState ((sweep_one ^^ k) s) = Sweeping \<and>
     length (objects ((sweep_one ^^ k) s)) = length (objects s) \<and> position ((sweep_one ^^ k) s) = position s + k"
proof (induction k)
  case (Suc k)
  then have "storage_inv ((sweep_one ^^ k) s)" "gcState ((sweep_one ^^ k) s) = Sweeping"
    "position ((sweep_one ^^ k) s) < length (objects ((sweep_one ^^ k) s))"
    "length (objects ((sweep_one ^^ k) s)) = length (objects s)" "position ((sweep_one ^^ k) s) = position s + k"
    by simp_all
  then show ?case using inv_sweep_one sweep_one_state by simp
qed simp

text \<open>The assertion of \<open>stepSweeping\<close>: a dead object is exactly one generation behind.\<close>

lemma swept_is_one_behind:
  "storage_inv s \<Longrightarrow> objects s ! i = Some a \<Longrightarrow> i < length (objects s) \<Longrightarrow> \<not> black s a \<Longrightarrow>
     generation s a + 1 = gcGeneration s"
  using inv_partsD(5) [of s] by (auto simp: phase_ok_def black_def registered_def in_set_conv_nth)

lemma inv_finish:
  assumes inv: "storage_inv s" and st: "gcState s = Sweeping" and fin: "position s \<ge> length (objects s)"
  shows "storage_inv (s\<lparr>gcState := GcIdle\<rparr>)" (is "storage_inv ?t")
proof -
  have m: "same_memory s ?t" by (simp add: same_memory_def)
  note v = same_memory_views [OF m]
  have r: "registered ?t = registered s" "black ?t = black s"
    by (auto simp: registered_def black_def v fun_eq_iff)
  have sw: "sweeping_ok s" using inv_partsD(5) [OF inv] st by (simp add: phase_ok_def)
  then have all: "\<forall>a \<in> registered s. black s a"
    using fin unfolding sweeping_ok_def registered_def by (auto simp: in_set_conv_nth)
  have "table_ok ?t" "heap_ok ?t" "owners_ok ?t"
    using inv_partsD(1-3) [OF inv] by (simp_all add: table_ok_def heap_ok_def owners_ok_def v r)
  moreover have "edges_ok ?t"
    using inv_partsD(4) [OF inv] all unfolding edges_ok_def v r by simp
  moreover have "phase_ok ?t"
    using inv_partsD(5) [OF inv] all sw unfolding phase_ok_def by (simp add: v r sweeping_ok_def)
  ultimately show ?thesis by (simp add: storage_inv_def)
qed

subsection \<open>One call of \<open>tidy\<close>\<close>

lemma inv_tidy_sweeping:
  assumes "storage_inv s" "gcState s = Sweeping"
  shows "storage_inv (snd (tidy_sweeping conf s))"
proof -
  let ?e = "min (length (objects s)) (size_add (position s) (stepCountForSweeping conf (totalObjectCount s)))"
  let ?t = "(sweep_one ^^ (?e - position s)) s"
  have t: "storage_inv ?t \<and> gcState ?t = Sweeping"
  proof (cases "position s \<le> ?e")
    case True
    then show ?thesis using inv_sweep_many [OF assms, of "?e - position s"] by simp
  next
    case False
    then have "?e - position s = 0" by (metis diff_is_0_eq nat_le_linear)
    then show ?thesis using assms by (simp only: funpow_0)
  qed
  then show ?thesis
    using inv_finish [of ?t] by (auto simp: tidy_sweeping_def stepSweeping_def Let_def)
qed

lemma inv_tidy_objects:
  assumes "storage_inv s" "gcState s = MarkingObject"
  shows "storage_inv (snd (tidy_objects conf s))"
proof -
  let ?t = "mark_objects (stepCountForMarking conf (totalObjectCount s)) s"
  have t: "storage_inv ?t" "gcState ?t = MarkingObject" using inv_mark_objects [OF assms] by blast+
  have "storage_inv (snd (tidy_sweeping conf (beginSweeping (?t\<lparr>gcState := Sweeping\<rparr>))))" if "gcTargets ?t = []"
    using inv_beginSweeping [OF t that] by (rule inv_tidy_sweeping) (simp add: beginSweeping_def)
  then show ?thesis using t by (auto simp: tidy_objects_def stepMarkingObject_def Let_def)
qed

lemma inv_tidy_scopes:
  assumes "storage_inv s" "gcState s = MarkingScope"
  shows "storage_inv (snd (tidy_scopes conf s))"
proof -
  let ?t = "mark_scopes (stepCountForScope conf (totalScopeCount s)) s"
  have t: "storage_inv ?t" "gcState ?t = MarkingScope" using inv_mark_scopes [OF assms] by blast+
  have "storage_inv (snd (tidy_objects conf (beginMarkingObject (?t\<lparr>gcState := MarkingObject\<rparr>))))" if "gcScopes ?t = []"
    using inv_beginMarkingObject [OF t that] by (rule inv_tidy_objects) (simp add: beginMarkingObject_def)
  then show ?thesis using t by (auto simp: tidy_scopes_def stepMarkingScope_def Let_def)
qed

text \<open>\<open>tidy\<close> is only called when the trash of the cycle before has been collected.\<close>

lemma inv_tidy [chatra_inv]:
  assumes "storage_inv s" "gcState s = GcIdle \<Longrightarrow> trash s = [] \<and> trashCopy s = []"
  shows "storage_inv (snd (tidy conf s))"
proof (cases "gcState s")
  case GcIdle
  then have "storage_inv (beginMarkingScope (s\<lparr>gcState := MarkingScope\<rparr>))"
    using assms by (intro inv_beginMarkingScope) auto
  then have "storage_inv (snd (tidy_scopes conf (beginMarkingScope (s\<lparr>gcState := MarkingScope\<rparr>))))"
    by (rule inv_tidy_scopes)
      (simp add: beginMarkingScope_def bump_generation_def start_marking_def snapshot_scopes_def)
  with GcIdle show ?thesis by (simp add: tidy_def)
qed (use assms inv_tidy_scopes inv_tidy_objects inv_tidy_sweeping in \<open>simp_all add: tidy_def\<close>)

subsection \<open>\<open>collect\<close>\<close>

lemma inv_collect_begin [chatra_inv]:
  assumes inv: "storage_inv s" and st: "gcState s = GcIdle" and none: "trashCopy s = []"
  shows "storage_inv (collect_begin s)" (is "storage_inv ?t")
proof -
  have m: "same_memory s ?t" by (simp add: same_memory_def collect_begin_def)
  note v = same_memory_views [OF m]
  have f: "objects ?t = objects s" "recycledObjectIndexes ?t = recycledObjectIndexes s" "trash ?t = []"
    "trashCopy ?t = trash s" "scopes ?t = scopes s" "gcState ?t = GcIdle" "marking ?t = marking s"
    "gcGeneration ?t = gcGeneration s" "gcScopes ?t = gcScopes s" "gcTargets ?t = gcTargets s"
    by (simp_all add: collect_begin_def st)
  have r: "registered ?t = registered s" "black ?t = black s"
    by (auto simp: registered_def black_def f v fun_eq_iff)
  show ?thesis
    using inv none st unfolding storage_inv_def
    by (simp add: table_ok_def heap_ok_def owners_ok_def edges_ok_def phase_ok_def v f r)
qed

lemma inv_delete [chatra_inv]:
  assumes inv: "storage_inv s" and a: "trashCopy s = a # rest"
  shows "storage_inv (delete_object a (s\<lparr>trashCopy := rest\<rparr>))" (is "storage_inv ?t")
proof -
  let ?u = "s\<lparr>trashCopy := rest, objectAt := (objectAt s)(a := None)\<rparr>"
  note hp = inv_partsD(2) [OF inv, unfolded heap_ok_def]
  from hp a obtain ob where ob: "objectAt s a = Some ob"
    by (metis UnI2 domD list.set_intros(1))
  have v: "generation ?u x = (if x = a then 0 else generation s x)" "object_nodes ?u x = (if x = a then [] else object_nodes s x)"
    "object_index ?u x = (if x = a then 0 else object_index s x)"
    "node_object ?u = node_object s" "allocated ?u = allocated s" "scope_nodes ?u = scope_nodes s"
    "scope_refs ?u = scope_refs s" "edge ?u = edge s"
    "owned ?u p = (if p = OfObject a then [] else owned s p)" for x p
    by (auto simp: generation_def object_nodes_def object_index_def node_object_def allocated_def scope_nodes_def
        scope_refs_def edge_def fun_eq_iff) (cases p; simp add: scope_nodes_def object_nodes_def)
  have r: "registered ?u = registered s" by (simp add: registered_def)
  have na: "a \<notin> registered s" "a \<notin> set (trash s)" "a \<notin> set rest" using hp a by auto
  have nx: "objects s ! i = Some b \<Longrightarrow> i < length (objects s) \<Longrightarrow> b \<noteq> a" for i b
    using na(1) by (auto simp: registered_def in_set_conv_nth)
  have bl: "black ?u x = black s x" if "x \<in> registered s" for x
    using that na(1) by (auto simp: black_def v)
  have idle: "gcState s = GcIdle"
    using inv_partsD(5) [OF inv] a
    by (cases "gcState s") (simp_all add: phase_ok_def marking_ok_def sweeping_ok_def)
  have "edge s [] b \<longleftrightarrow> False" for b by (simp add: edge_def)
  then have "table_ok ?u" "edges_ok ?u" "owners_ok ?u" "phase_ok ?u"
    using inv_partsD [OF inv] nx na a idle bl
    by (auto simp: table_ok_def edges_ok_def owners_ok_def phase_ok_def v r
        simp del: owned.simps split: if_splits)
  moreover have "heap_ok ?u"
    using hp a na unfolding heap_ok_def by (auto simp: v r)
  ultimately have u: "storage_inv ?u" by (simp add: storage_inv_def)
  have "unowned ?u n" if "n \<in> set (o_nodes ob)" for n
  proof -
    have "n \<in> set (owned s (OfObject a))" using that ob by (simp add: object_nodes_def)
    then show ?thesis
      using inv_partsD(3) [OF inv] unfolding owners_ok_def unowned_def by (auto simp del: owned.simps simp: v)
  qed
  then have "storage_inv (free_refs (o_groups ob) (o_nodes ob) ?u)" by (intro inv_free_refs [OF u]) auto
  then show ?thesis using ob by (simp add: delete_object_def)
qed

end
