(* ===== verification/Storage_Steps.thy ===== *)
theory Storage_Steps
  imports Collector_Inv
begin

text \<open>
  Programs and the collector running together: the steps of all threads on one \<open>Storage\<close>, in the
  order in which they take effect. Every step keeps the invariant of \<open>Storage_Inv\<close>, so that nothing
  a program can reach is ever swept or deleted.
\<close>

subsection \<open>Locks of references\<close>

definition on_group :: "nat \<Rightarrow> (reference_group \<Rightarrow> reference_group) \<Rightarrow> storage \<Rightarrow> storage" where
  "on_group g f s = s\<lparr>groupAt := (groupAt s)(g := map_option f (groupAt s g))\<rparr>"

definition node_group :: "storage \<Rightarrow> nat \<Rightarrow> nat" where
  "node_group s n = (case nodeAt s n of None \<Rightarrow> 0 | Some v \<Rightarrow> n_group v)"

definition ref_lockedBy :: "nat \<Rightarrow> storage \<Rightarrow> nat" where
  "ref_lockedBy n s =
     (case groupAt s (node_group s n) of None \<Rightarrow> InvalidRequester | Some v \<Rightarrow> lockedBy (g_lock v))"

definition ref_lock :: "bool \<Rightarrow> nat \<Rightarrow> nat \<Rightarrow> storage \<Rightarrow> bool \<times> storage" where
  "ref_lock weak r n s =
     (case groupAt s (node_group s n) of
        None \<Rightarrow> (False, s)
      | Some v \<Rightarrow> let (b, l) = lock weak r (g_lock v) in (b, on_group (node_group s n) (\<lambda>v. v\<lparr>g_lock := l\<rparr>) s))"

definition ref_lockOnce :: "bool \<Rightarrow> nat \<Rightarrow> nat \<Rightarrow> storage \<Rightarrow> bool \<times> storage" where
  "ref_lockOnce weak r n s =
     (case groupAt s (node_group s n) of
        None \<Rightarrow> (False, s)
      | Some v \<Rightarrow> let (b, l) = lockOnce weak r (g_lock v) in (b, on_group (node_group s n) (\<lambda>v. v\<lparr>g_lock := l\<rparr>) s))"

definition ref_unlock :: "nat \<Rightarrow> storage \<Rightarrow> storage" where
  "ref_unlock n s = on_group (node_group s n) (\<lambda>v. v\<lparr>g_lock := unlock (g_lock v)\<rparr>) s"

definition ref_requiresLock :: "nat \<Rightarrow> storage \<Rightarrow> bool" where
  "ref_requiresLock n s =
     (case groupAt s (node_group s n) of None \<Rightarrow> False | Some v \<Rightarrow> \<not> g_isConst v \<and> \<not> g_isExclusive v)"

lemma inv_on_group [chatra_inv]: "storage_inv s \<Longrightarrow> storage_inv (on_group g f s)"
  unfolding on_group_def by (rule inv_same_view [OF _ same_view_groups])

lemma inv_ref_locks [chatra_inv]:
  assumes "storage_inv s"
  shows "storage_inv (snd (ref_lock w r n s))" "storage_inv (snd (ref_lockOnce w r n s))"
    "storage_inv (ref_unlock n s)"
  using assms inv_on_group
  by (auto simp: ref_lock_def ref_lockOnce_def ref_unlock_def split: option.splits prod.splits)

subsection \<open>The steps\<close>

text \<open>
  A program has references only to nodes of live scopes and of reachable objects; it allocates with
  new addresses; keys of a scope are added once. The switch \<open>careful\<close> adds the one condition that
  the code does not observe: that no captured scope ends while it waits to be scanned.
\<close>

inductive storage_step :: "bool \<Rightarrow> gc_configuration \<Rightarrow> storage \<Rightarrow> storage \<Rightarrow> bool" for careful conf where
  set_null: "live_node s n \<Longrightarrow> storage_step careful conf s (setObject n None s)"
| set_bool: "live_node s n \<Longrightarrow> storage_step careful conf s (setBool n b s)"
| set_int: "live_node s n \<Longrightarrow> storage_step careful conf s (setInt n i s)"
| set_float: "live_node s n \<Longrightarrow> storage_step careful conf s (setFloat n x s)"
| set_reference: "live_node s n \<Longrightarrow> live_node s m \<Longrightarrow> storage_step careful conf s (setWithoutBothLock n m s)"
| set_object: "live_node s n \<Longrightarrow> reachable s a \<Longrightarrow> storage_step careful conf s (setObject n (Some a) s)"
| allocate: "live_node s n \<Longrightarrow> fresh_for s a c gs ns \<Longrightarrow>
    storage_step careful conf s (allocateWithoutLock n a c gs ns s)"
| append: "reachable s a \<Longrightarrow> objectAt s a = Some ob \<Longrightarrow> \<forall>n \<in> set ns. nodeAt s n = None \<Longrightarrow> distinct ns \<Longrightarrow>
    length ns = length ps - length (o_refsArray ob) \<Longrightarrow>
    storage_step careful conf s (appendElements a ps r gs ns s)"
| locks: "live_node s n \<Longrightarrow> storage_step careful conf s (snd (ref_lock w r n s))"
| locks_once: "live_node s n \<Longrightarrow> storage_step careful conf s (snd (ref_lockOnce w r n s))"
| unlocks: "live_node s n \<Longrightarrow> storage_step careful conf s (ref_unlock n s)"
| add_key: "scopeAt s c = Some d \<Longrightarrow> nodeAt s n = None \<Longrightarrow> key \<notin> um_keys (s_refs d) \<Longrightarrow>
    storage_step careful conf s (scope_add c key r g n s)"
| add_const: "scopeAt s c = Some d \<Longrightarrow> nodeAt s n = None \<Longrightarrow> key \<notin> um_keys (s_refs d) \<Longrightarrow>
    storage_step careful conf s (scope_addConst c key g n s)"
| add_exclusive: "scopeAt s c = Some d \<Longrightarrow> nodeAt s n = None \<Longrightarrow> key \<notin> um_keys (s_refs d) \<Longrightarrow>
    storage_step careful conf s (scope_addExclusive c key g n s)"
| add_temporary: "scopeAt s c = Some d \<Longrightarrow> nodeAt s n = None \<Longrightarrow> next_key s c \<notin> um_keys (s_refs d) \<Longrightarrow>
    storage_step careful conf s (scope_add_temporary c v g n s)"
| begin_scope: "scopeAt s c = None \<Longrightarrow> nodeAt s n = None \<Longrightarrow> storage_step careful conf s (storage_add ty c g n s)"
| captures: "live_node s n \<Longrightarrow> c \<in> set (scopes s) \<Longrightarrow> fresh_for s a (captured_scope_ctor c) [g] [m] \<Longrightarrow>
    capture n c a g m s = Inr t \<Longrightarrow> storage_step careful conf s t"
| end_scope: "destroy_scope c a s = Inr t \<Longrightarrow> objectAt s a = None \<Longrightarrow>
    (careful \<Longrightarrow> \<forall>d. scopeAt s c = Some d \<longrightarrow> s_captured d \<longrightarrow> c \<notin> set (gcScopes s)) \<Longrightarrow>
    storage_step careful conf s t"
| deploys: "storage_step careful conf s (deploy s)"
| tidies: "(gcState s = GcIdle \<Longrightarrow> trash s = [] \<and> trashCopy s = []) \<Longrightarrow>
    storage_step careful conf s (snd (tidy conf s))"
| collects: "gcState s = GcIdle \<Longrightarrow> trashCopy s = [] \<Longrightarrow> storage_step careful conf s (collect_begin s)"
| finalizes: "live_node s n \<Longrightarrow> a \<in> set (trashCopy s) \<Longrightarrow> m \<in> set (object_nodes s a) \<Longrightarrow>
    storage_step careful conf s (setWithoutBothLock n m s)"
| deletes: "trashCopy s = a # rest \<Longrightarrow>
    storage_step careful conf s (delete_object a (s\<lparr>trashCopy := rest\<rparr>))"

abbreviation storage_run :: "bool \<Rightarrow> gc_configuration \<Rightarrow> storage \<Rightarrow> storage \<Rightarrow> bool" where
  "storage_run careful conf \<equiv> (storage_step careful conf)\<^sup>*\<^sup>*"

lemma live_node_target:
  assumes "storage_inv s" "live_node s n" "node_object s n = Some b"
  shows "target_ok s b"
proof -
  have "reachable s b"
    using assms(2,3) unfolding live_node_def by (metis edge_def reachable.root reachable.step)
  then show ?thesis by (rule reachable_target [OF assms(1)])
qed

lemma finalizes_target:
  assumes inv: "storage_inv s" and a: "a \<in> set (trashCopy s)" and m: "m \<in> set (object_nodes s a)"
    and b: "node_object s m = Some b"
  shows "target_ok s b"
proof -
  have "edge s (object_nodes s a) b" using m b by (auto simp: edge_def)
  then have "b \<in> registered s" using inv a unfolding storage_inv_def edges_ok_def by blast
  moreover have "gcState s \<noteq> Sweeping"
    using inv a by (auto simp: storage_inv_def phase_ok_def sweeping_ok_def)
  ultimately show ?thesis by (simp add: target_ok_def)
qed

theorem step_keeps_inv:
  assumes "storage_step True conf s t" "storage_inv s"
  shows "storage_inv t"
  using assms
proof cases
  case (set_reference n m)
  then show ?thesis using assms(2) live_node_target inv_setWithoutBothLock by blast
next
  case (set_object n a)
  then show ?thesis using assms(2) reachable_target by (auto intro: inv_setObject)
next
  case (finalizes n a m)
  then show ?thesis using assms(2) finalizes_target inv_setWithoutBothLock by blast
next
  case deploys
  have "same_view s t"
    unfolding deploys deploy_def
    by (auto simp: same_view_def generation_def object_nodes_def object_index_def
        scope_nodes_def scope_refs_def allocated_def node_object_def fun_eq_iff)
  then show ?thesis using assms(2) by (rule inv_same_view [rotated])
next
  case (end_scope c a)
  then show ?thesis using assms(2) by (auto intro: inv_destroy_scope)
next
  case (captures n c a g m)
  then show ?thesis using assms(2) by (auto intro: inv_capture)
next
  case (tidies)
  then show ?thesis using assms(2) by (auto intro: inv_tidy)
next
  case (allocate n a c gs ns)
  then show ?thesis using assms(2) inv_allocate(1) by blast
qed (auto intro: inv_setObject inv_setValue inv_appendElements inv_ref_locks inv_scope_adds
      inv_scope_add_temporary inv_storage_add inv_collect_begin inv_delete)

lemma newStorage_owns_nothing [simp]:
  "owned newStorage p = []" "scope_nodes newStorage c = []" "object_nodes newStorage a = []"
  "scopeAt newStorage = (\<lambda>_. None)" "objectAt newStorage = (\<lambda>_. None)" "objects newStorage = []"
  "registered newStorage = {}"
  by (cases p) (simp_all add: newStorage_def scope_nodes_def object_nodes_def registered_def)

lemma inv_newStorage: "storage_inv newStorage"
  by (simp add: storage_inv_def table_ok_def heap_ok_def owners_ok_def edges_ok_def phase_ok_def edge_def)
     (simp add: newStorage_def registered_def)

lemma run_keeps_inv: "storage_run True conf s t \<Longrightarrow> storage_inv s \<Longrightarrow> storage_inv t"
  by (induction rule: rtranclp_induct) (auto intro: step_keeps_inv)

lemma registered_deref:
  assumes "storage_inv s" "a \<in> registered s"
  obtains ob where "objectAt s a = Some ob" "derefDirect (o_objectIndex ob) s = Inr (Some a)"
proof -
  obtain i where i: "i < length (objects s)" "objects s ! i = Some a"
    using assms(2) by (auto simp: registered_def in_set_conv_nth)
  obtain ob where ob: "objectAt s a = Some ob"
    using assms unfolding storage_inv_def heap_ok_def by blast
  have "object_index s a = i" "i \<notin> set (recycledObjectIndexes s)"
    using assms(1) i by (auto simp: storage_inv_def table_ok_def)
  then have "derefDirect (o_objectIndex ob) s = Inr (Some a)"
    using ob i by (simp add: derefDirect_def object_index_def)
  with ob show thesis by (rule that)
qed

end
