(* ===== verification/Collector_Gap.thy ===== *)
theory Collector_Gap
  imports Storage_Steps
begin

text \<open>
  Two ways in which the collector takes away what a program can still reach: a captured scope that
  ends while it waits to be scanned, and an object that is swept between the two steps of
  \<open>registerObject\<close>.
\<close>

subsection \<open>What the careful run excludes\<close>

text \<open>
  A scope (1) whose variable \<open>x\<close> refers to an object (21) is captured by the variable of another scope
  (2). The collector starts, scans the scope 2 and pauses; the scope 1 ends; the collector goes on.
\<close>

definition one_scope :: gc_configuration where
  "one_scope = \<lparr>stepCountForScope = (\<lambda>_. 1), stepCountForMarking = (\<lambda>_. 4), stepCountForSweeping = (\<lambda>_. 4)\<rparr>"

definition plain_ctor :: object_ctor where
  "plain_ctor = \<lparr>c_typeId = 100, c_layout = empty_layout, c_group = group_for InvalidRequester,
                c_scope = None, c_hasOnDestroy = False\<rparr>"

definition demo1 :: storage where "demo1 = storage_add BlockScope 1 1 1 newStorage"
definition demo2 :: storage where "demo2 = scope_add 1 (Suc CapturedScopeId) InvalidRequester 2 2 demo1"
definition demo3 :: storage where "demo3 = allocateWithoutLock 2 21 plain_ctor [] [] demo2"
definition demo4 :: storage where "demo4 = storage_add BlockScope 2 3 3 demo3"
definition demo5 :: storage where "demo5 = scope_add 2 (Suc CapturedScopeId) InvalidRequester 4 4 demo4"
definition demo6 :: storage where "demo6 = projr (capture 4 1 22 5 5 demo5)"
definition demo7 :: storage where "demo7 = snd (tidy one_scope demo6)"
definition demo8 :: storage where "demo8 = projr (destroy_scope 1 23 demo7)"
definition demo9 :: storage where "demo9 = snd (tidy one_scope demo8)"

abbreviation to_object :: "nat \<Rightarrow> nat \<Rightarrow> reference_node" where
  "to_object g a \<equiv> \<lparr>n_group = g, n_type = VObject, n_object = Some a, n_value = StoredBool False\<rparr>"

lemmas scope_ops = storage_add_def scope_add_def scope_add_group_def on_scope_def put_nodes_def put_groups_def
  new_scope_def um_emplace_def
lemmas alloc_ops = allocateWithoutLock_def construct_def constructed_def registerObject_def
  register_generation_def register_index_def on_object_def setObject_def on_node_def generation_def
lemmas tidy_ops = tidy_def tidy_scopes_def tidy_objects_def tidy_sweeping_def stepMarkingScope_def
  stepMarkingObject_def stepSweeping_def beginMarkingScope_def bump_generation_def start_marking_def
  snapshot_scopes_def beginMarkingObject_def beginSweeping_def scan_next_def scan_scope_def
  mark_object_def referents_def scope_refs_def one_scope_def

lemma demo1_facts:
  "scopes demo1 = [1]" "objects demo1 = []" "recycledObjectIndexes demo1 = []" "gcGeneration demo1 = 0"
  "gcState demo1 = GcIdle" "marking demo1 = False" "gcScopes demo1 = []" "gcTargets demo1 = []" "trash demo1 = []"
  "trashCopy demo1 = []" "armed demo1 = False" "objectAt demo1 = (\<lambda>_. None)"
  "nodeAt demo1 = [1 \<mapsto> new_node 1]" "groupAt demo1 2 = None" "groupAt demo1 3 = None"
  "scopeAt demo1 = [1 \<mapsto> (new_scope BlockScope)\<lparr>s_groups := [1], s_nodes := [1], s_refs := [(CapturedScopeId, 1)]\<rparr>]"
  by (auto simp: demo1_def newStorage_def scope_ops Let_def fun_eq_iff)

lemma demo2_facts:
  "scopes demo2 = [1]" "objects demo2 = []" "recycledObjectIndexes demo2 = []" "gcGeneration demo2 = 0"
  "gcState demo2 = GcIdle" "marking demo2 = False" "gcScopes demo2 = []" "gcTargets demo2 = []" "trash demo2 = []"
  "trashCopy demo2 = []" "armed demo2 = False" "objectAt demo2 = (\<lambda>_. None)"
  "nodeAt demo2 = [1 \<mapsto> new_node 1, 2 \<mapsto> new_node 2]" 
  "scopeAt demo2 = [1 \<mapsto> (new_scope BlockScope)\<lparr>s_groups := [1, 2], s_nodes := [1, 2],
     s_refs := [(CapturedScopeId, 1), (Suc CapturedScopeId, 2)]\<rparr>]"
  by (auto simp: demo2_def demo1_facts scope_ops Let_def fun_eq_iff)

lemma demo3_facts:
  "scopes demo3 = [1]" "objects demo3 = [Some 21]" "recycledObjectIndexes demo3 = []" "gcGeneration demo3 = 0"
  "gcState demo3 = GcIdle" "marking demo3 = False" "gcScopes demo3 = []" "gcTargets demo3 = []" "trash demo3 = []"
  "trashCopy demo3 = []" "armed demo3 = False"
  "objectAt demo3 = [21 \<mapsto> (constructed plain_ctor [] [])\<lparr>o_objectIndex := 0\<rparr>]"
  "nodeAt demo3 = [1 \<mapsto> new_node 1, 2 \<mapsto> to_object 2 21]"
  "scopeAt demo3 = scopeAt demo2"
  by (auto simp: demo3_def demo2_facts alloc_ops scope_ops new_node_def Let_def fun_eq_iff plain_ctor_def)

lemma demo4_facts:
  "scopes demo4 = [1, 2]" "objects demo4 = [Some 21]" "recycledObjectIndexes demo4 = []" "gcGeneration demo4 = 0"
  "gcState demo4 = GcIdle" "marking demo4 = False" "gcScopes demo4 = []" "gcTargets demo4 = []" "trash demo4 = []"
  "trashCopy demo4 = []" "armed demo4 = False"
  "objectAt demo4 = objectAt demo3"
  "nodeAt demo4 = [1 \<mapsto> new_node 1, 2 \<mapsto> to_object 2 21, 3 \<mapsto> new_node 3]"
  "scopeAt demo4 = (scopeAt demo2)(2 \<mapsto> (new_scope BlockScope)\<lparr>s_groups := [3], s_nodes := [3], s_refs := [(CapturedScopeId, 3)]\<rparr>)"
  by (auto simp: demo4_def demo3_facts scope_ops Let_def fun_eq_iff)

lemma demo5_facts:
  "scopes demo5 = [1, 2]" "objects demo5 = [Some 21]" "recycledObjectIndexes demo5 = []" "gcGeneration demo5 = 0"
  "gcState demo5 = GcIdle" "marking demo5 = False" "gcScopes demo5 = []" "gcTargets demo5 = []" "trash demo5 = []"
  "trashCopy demo5 = []"
  "objectAt demo5 = objectAt demo3"
  "nodeAt demo5 = [1 \<mapsto> new_node 1, 2 \<mapsto> to_object 2 21, 3 \<mapsto> new_node 3, 4 \<mapsto> new_node 4]"
  "scopeAt demo5 = (scopeAt demo2)(2 \<mapsto> (new_scope BlockScope)\<lparr>s_groups := [3, 4], s_nodes := [3, 4],
     s_refs := [(CapturedScopeId, 3), (Suc CapturedScopeId, 4)]\<rparr>)"
  by (auto simp: demo5_def demo4_facts scope_ops Let_def fun_eq_iff)

lemma groups5: "groupAt demo5 5 = None"
  by (simp add: demo5_def demo4_def demo3_def demo2_def demo1_def newStorage_def scope_ops alloc_ops
      plain_ctor_def empty_layout_def Let_def)

lemma captured_layout:
  "l_map (layout_compound [[k]]) = [(k, 0)]" "l_nodes (layout_compound [[k]]) = [0]"
  "l_groups (layout_compound [[k]]) = 1" "l_array (layout_compound [[k]]) = []"
  by (simp_all add: layout_defs um_emplace_def)

lemma capture_demo5: "\<exists>s. capture 4 1 22 5 5 demo5 = Inr s"
  by (simp add: capture_def scope_ref_def demo5_facts demo2_facts split: prod.split)

lemma demo6_facts:
  "scopes demo6 = [1, 2]" "objects demo6 = [Some 21, Some 22]" "recycledObjectIndexes demo6 = []" "gcGeneration demo6 = 0"
  "gcState demo6 = GcIdle" "marking demo6 = False" "gcScopes demo6 = []" "gcTargets demo6 = []" "trash demo6 = []"
  "trashCopy demo6 = []"
  "objectAt demo6 = (objectAt demo3)(22 \<mapsto> (constructed (captured_scope_ctor 1) [5] [5])\<lparr>o_objectIndex := 1\<rparr>)"
  "nodeAt demo6 = [1 \<mapsto> to_object 1 22, 2 \<mapsto> to_object 2 21, 3 \<mapsto> new_node 3, 4 \<mapsto> to_object 4 22, 5 \<mapsto> new_node 5]"
  "scopeAt demo6 = (scopeAt demo5)(1 \<mapsto> (the (scopeAt demo2 1))\<lparr>s_captured := True\<rparr>)"
  by (auto simp: demo6_def capture_def scope_ref_def node_object_def demo5_facts demo3_facts demo2_facts
      alloc_ops scope_ops new_node_def captured_scope_ctor_def captured_layout Let_def fun_eq_iff)

lemma demo7_facts:
  "scopes demo7 = [1, 2]" "objects demo7 = [Some 21, Some 22]" "recycledObjectIndexes demo7 = []" "gcGeneration demo7 = 1"
  "gcState demo7 = MarkingScope" "marking demo7 = True" "gcScopes demo7 = [1]" "gcTargets demo7 = [22]" "trash demo7 = []"
  "trashCopy demo7 = []" "objectAt demo7 = objectAt demo6" "nodeAt demo7 = nodeAt demo6" "scopeAt demo7 = scopeAt demo6"
  "totalScopeCount demo7 = 2" "totalObjectCount demo7 = totalObjectCount demo6"
  by (auto simp: demo7_def tidy_ops demo6_facts demo5_facts demo3_facts demo2_facts node_object_def
      List.map_filter_simps generation_def constructed_def new_node_def Let_def)

lemma destroy_demo7: "\<exists>s. destroy_scope 1 23 demo7 = Inr s"
  by (simp add: destroy_scope_def object_ref_def demo7_facts demo6_facts demo2_facts node_object_def
      constructed_def captured_scope_ctor_def captured_layout)

lemma demo8_facts:
  "scopes demo8 = [2]" "objects demo8 = [Some 21, Some 22, Some 23]" "recycledObjectIndexes demo8 = []" "gcGeneration demo8 = 1"
  "gcState demo8 = MarkingScope" "marking demo8 = True" "gcScopes demo8 = [1]" "gcTargets demo8 = [22, 23]" "trash demo8 = []"
  "trashCopy demo8 = []" "totalScopeCount demo8 = 2" 
  "objectAt demo8 = (objectAt demo3)
     (22 \<mapsto> (constructed (captured_scope_ctor 1) [5] [5])\<lparr>o_objectIndex := 1, o_scope := None\<rparr>,
      23 \<mapsto> (captured_object (the (scopeAt demo6 1)))\<lparr>o_objectIndex := 2, o_gcGeneration := 1\<rparr>)"
  "nodeAt demo8 = [1 \<mapsto> to_object 1 22, 2 \<mapsto> to_object 2 21, 3 \<mapsto> new_node 3, 4 \<mapsto> to_object 4 22, 5 \<mapsto> to_object 5 23]"
  "scopeAt demo8 = (scopeAt demo6)(1 := None)"
  by (auto simp: demo8_def destroy_scope_def object_ref_def move_to_object_def erase_scope_def free_refs_def
      demo7_facts demo6_facts demo5_facts demo3_facts demo2_facts alloc_ops on_scope_def node_object_def new_scope_def
      captured_object_def captured_scope_ctor_def captured_layout new_node_def Let_def fun_eq_iff)

text \<open>The second call of \<open>tidy\<close>, phase by phase: 22 and 23 are marked, 21 is not.\<close>

definition demo8_marking :: storage where
  "demo8_marking = beginMarkingObject (mark_scopes 1 demo8\<lparr>gcState := MarkingObject\<rparr>)"

definition demo8_sweeping :: storage where
  "demo8_sweeping = beginSweeping (mark_objects 4 demo8_marking\<lparr>gcState := Sweeping\<rparr>)"

lemma demo8_marking_facts:
  "scopes demo8_marking = [2]" "objects demo8_marking = [Some 21, Some 22, Some 23]" "gcGeneration demo8_marking = 1"
  "gcTargets demo8_marking = [22, 23]" "trash demo8_marking = []" "gcScopes demo8_marking = []"
  "objectAt demo8_marking = objectAt demo8" "nodeAt demo8_marking = nodeAt demo8" "scopeAt demo8_marking = scopeAt demo8"
  "totalObjectCount demo8_marking = 3"
  by (simp_all add: demo8_marking_def beginMarkingObject_def demo8_facts scan_next_def)

lemma demo8_objects:
  "objectAt demo8 21 = Some ((constructed plain_ctor [] [])\<lparr>o_objectIndex := 0\<rparr>)"
  "objectAt demo8 22 = Some ((constructed (captured_scope_ctor 1) [5] [5])\<lparr>o_objectIndex := 1, o_scope := None\<rparr>)"
  "objectAt demo8 23 = Some ((captured_object (the (scopeAt demo6 1)))\<lparr>o_objectIndex := 2, o_gcGeneration := 1\<rparr>)"
  by (simp_all add: demo8_facts demo3_facts)

lemma mark_objects_4:
  "mark_objects 4 demo8_marking =
     demo8_marking\<lparr>gcTargets := [], objectAt := (objectAt demo8)(22 \<mapsto>
        (constructed (captured_scope_ctor 1) [5] [5])\<lparr>o_objectIndex := 1, o_scope := None, o_gcGeneration := 1\<rparr>)\<rparr>"
proof -
  let ?ob = "(constructed (captured_scope_ctor 1) [5] [5])\<lparr>o_objectIndex := 1, o_scope := None, o_gcGeneration := 1\<rparr>"
  let ?s = "\<lambda>ts. demo8_marking\<lparr>gcTargets := ts, objectAt := (objectAt demo8)(22 \<mapsto> ?ob)\<rparr>"
  have 1: "mark_object 22 (demo8_marking\<lparr>gcTargets := [23]\<rparr>) = ?s [23, 23]"
    by (simp add: mark_object_def generation_def on_object_def referents_def object_nodes_def node_object_def
        demo8_marking_facts demo8_objects List.map_filter_simps constructed_def demo8_facts)
  have 2: "mark_object 23 (?s [23, 23]\<lparr>gcTargets := ts\<rparr>) = ?s ts" for ts
    by (simp add: mark_object_def generation_def demo8_marking_facts demo8_objects)
  have 3: "mark_object 23 (?s [23]\<lparr>gcTargets := ts\<rparr>) = ?s ts" for ts
    by (simp add: mark_object_def generation_def demo8_marking_facts demo8_objects)
  have "mark_objects (Suc (Suc (Suc (Suc 0)))) demo8_marking = ?s []"
    using 1 2 [of "[23]"] 3 [of "[]"] by (simp add: demo8_marking_facts)
  moreover have "(4 :: nat) = Suc (Suc (Suc (Suc 0)))" by simp
  ultimately show ?thesis by metis
qed

lemma demo8_sweeping_facts:
  "scopes demo8_sweeping = [2]" "objects demo8_sweeping = [Some 21, Some 22, Some 23]" "gcGeneration demo8_sweeping = 1"
  "trash demo8_sweeping = []" "nodeAt demo8_sweeping = nodeAt demo8" "scopeAt demo8_sweeping = scopeAt demo8"
  "position demo8_sweeping = 0" "totalObjectCount demo8_sweeping = 3" "recycledObjectIndexes demo8_sweeping = recycledObjectIndexes demo8_marking"
  "objectAt demo8_sweeping = (objectAt demo8)(22 \<mapsto>
        (constructed (captured_scope_ctor 1) [5] [5])\<lparr>o_objectIndex := 1, o_scope := None, o_gcGeneration := 1\<rparr>)"
  by (simp_all add: demo8_sweeping_def beginSweeping_def mark_objects_4 demo8_marking_facts)

lemma sweep_demo8:
  "(sweep_one ^^ 3) demo8_sweeping =
     (drop_dead_refs [] demo8_sweeping)\<lparr>position := 3, objects := [None, Some 22, Some 23],
        recycledObjectIndexes := recycledObjectIndexes demo8_marking @ [0], trash := [21]\<rparr>"
proof -
  let ?s = "\<lambda>p. (drop_dead_refs [] demo8_sweeping)\<lparr>position := p, objects := [None, Some 22, Some 23],
        recycledObjectIndexes := recycledObjectIndexes demo8_marking @ [0], trash := [21]\<rparr>"
  have gen: "generation demo8_sweeping 21 = 0" "object_nodes demo8_sweeping 21 = []" "object_index demo8_sweeping 21 = 0"
    by (simp_all add: generation_def object_nodes_def object_index_def demo8_sweeping_facts demo8_objects constructed_def)
  have 1: "sweep_one demo8_sweeping = ?s 1"
    by (simp add: sweep_one_def sweep_body_def release_index_def demo8_sweeping_facts gen Let_def)
  have 2: "generation (?s p) 22 = 1" "generation (?s p) 23 = 1" "gcGeneration (?s p) = 1" for p
    by (simp_all add: generation_def drop_dead_refs_def demo8_sweeping_facts demo8_objects)
  have 3: "sweep_one (?s 1) = ?s 2" "sweep_one (?s 2) = ?s 3"
    using 2 by (simp_all add: sweep_one_def sweep_body_def release_index_def)
  have "(sweep_one ^^ Suc (Suc (Suc 0))) demo8_sweeping = sweep_one (sweep_one (sweep_one demo8_sweeping))"
    by simp
  then have "(sweep_one ^^ 3) demo8_sweeping = sweep_one (sweep_one (sweep_one demo8_sweeping))"
    by (metis numeral_3_eq_3)
  then show ?thesis by (simp only: 1 3)
qed

lemma demo9_alt: "demo9 = (sweep_one ^^ 3) demo8_sweeping\<lparr>gcState := GcIdle\<rparr>"
proof -
  have "mark_scopes 1 demo8\<lparr>gcState := MarkingObject\<rparr> = demo8\<lparr>gcScopes := [], gcState := MarkingObject\<rparr>"
    by (simp add: demo8_facts scan_next_def)
  have "snd (tidy_sweeping one_scope demo8_sweeping) = (sweep_one ^^ 3) demo8_sweeping\<lparr>gcState := GcIdle\<rparr>"
  proof -
    have "min (length (objects demo8_sweeping)) (size_add (position demo8_sweeping)
        (stepCountForSweeping one_scope (totalObjectCount demo8_sweeping))) - position demo8_sweeping = 3"
      by (simp add: one_scope_def demo8_sweeping_facts)
    then have "stepSweeping one_scope demo8_sweeping = (True, (sweep_one ^^ 3) demo8_sweeping)"
      unfolding stepSweeping_def sweep_demo8 by (simp only: sweep_demo8 Let_def) simp
    then show ?thesis by (simp only: tidy_sweeping_def split: prod.split) simp
  qed
  moreover have "snd (tidy_objects one_scope demo8_marking) = snd (tidy_sweeping one_scope demo8_sweeping)"
    by (simp add: tidy_objects_def stepMarkingObject_def one_scope_def mark_objects_4 demo8_sweeping_def)
  moreover have "demo9 = snd (tidy_objects one_scope demo8_marking)"
    by (simp add: demo9_def tidy_def tidy_scopes_def stepMarkingScope_def one_scope_def demo8_facts
        demo8_marking_def scan_next_def del: One_nat_def) (simp add: demo8_facts scan_next_def)
  ultimately show ?thesis by simp
qed

lemma demo9_facts:
  "scopes demo9 = [2]" "trash demo9 = [21]" "scope_nodes demo9 2 = [3, 4]"
  "object_nodes demo9 22 = [5]" "object_nodes demo9 23 = [1, 2]"
  "node_object demo9 4 = Some 22" "node_object demo9 5 = Some 23" "node_object demo9 2 = Some 21"
  unfolding demo9_alt sweep_demo8
  by (simp_all add: scope_nodes_def object_nodes_def node_object_def drop_dead_refs_def demo8_sweeping_facts
      demo8_objects demo8_facts demo6_facts demo5_facts demo2_facts constructed_def captured_object_def)

lemma demo9_reachable: "reachable demo9 21"
proof -
  have "reachable demo9 22" by (rule reachable.root [of 2]) (simp_all add: demo9_facts edge_def)
  then have "reachable demo9 23" by (rule reachable.step) (simp add: demo9_facts edge_def)
  then show ?thesis by (rule reachable.step) (simp add: demo9_facts edge_def)
qed

text \<open>The states follow from each other by steps of a program and of the collector.\<close>

lemma demo_run6: "storage_run careful one_scope newStorage demo6"
proof -
  note sn = scope_nodes_def
  have "storage_run careful one_scope newStorage demo1" unfolding demo1_def
    by (rule r_into_rtranclp, rule begin_scope) (simp_all add: newStorage_def)
  also have "storage_step careful one_scope demo1 demo2" unfolding demo2_def
    by (rule add_key [where d = "the (scopeAt demo1 1)"]) (simp_all add: demo1_facts)
  also have "storage_step careful one_scope demo2 demo3" unfolding demo3_def
    by (rule allocate) (auto simp: demo2_facts live_node_def sn fresh_for_def plain_ctor_def empty_layout_def)
  also have "storage_step careful one_scope demo3 demo4" unfolding demo4_def
    by (rule begin_scope) (simp_all add: demo3_facts demo2_facts)
  also have "storage_step careful one_scope demo4 demo5" unfolding demo5_def
    by (rule add_key [where d = "the (scopeAt demo4 2)"]) (simp_all add: demo4_facts)
  also have "storage_step careful one_scope demo5 demo6"
  proof (rule captures)
    show "live_node demo5 4" by (simp add: live_node_def sn demo5_facts)
    show "fresh_for demo5 22 (captured_scope_ctor 1) [5] [5]"
      using captured_layout by (simp add: fresh_for_def captured_scope_ctor_def demo5_facts demo3_facts groups5)
    show "capture 4 1 22 5 5 demo5 = Inr demo6" using capture_demo5 by (auto simp: demo6_def)
  qed (simp add: demo5_facts)
  finally show ?thesis .
qed

lemma demo_run: "storage_run False one_scope newStorage demo9"
proof -
  note demo_run6
  also have "storage_step False one_scope demo6 demo7" unfolding demo7_def
    by (rule tidies) (simp add: demo6_facts)
  also have "storage_step False one_scope demo7 demo8"
  proof (rule end_scope)
    show "destroy_scope 1 23 demo7 = Inr demo8" using destroy_demo7 by (auto simp: demo8_def)
  qed (simp_all add: demo7_facts demo6_facts demo3_facts)
  also have "storage_step False one_scope demo8 demo9" unfolding demo9_def
    by (rule tidies) (simp add: demo8_facts)
  finally show ?thesis .
qed

subsection \<open>Sweeping in the middle of \<open>registerObject\<close>\<close>

lemma setObject_sweeping:
  "\<not> marking s \<Longrightarrow> setObject n (Some a) s = on_node n (\<lambda>v. v\<lparr>n_type := VObject, n_object := Some a\<rparr>) s"
  by (simp add: setObject_def Let_def on_node_def)

text \<open>
  An allocation has stored the new object in the node \<open>n\<close> and entered it in the table, and has not
  stamped it yet, when \<open>stepSweeping\<close> gets the lock.
\<close>

definition half_allocated :: "nat \<Rightarrow> nat \<Rightarrow> object_ctor \<Rightarrow> nat list \<Rightarrow> nat list \<Rightarrow> storage \<Rightarrow> storage" where
  "half_allocated n a c gs ns s = register_index a (setObject n (Some a) (construct a c gs ns s))"

lemma half_allocated_completes:
  "allocateWithoutLock n a c gs ns s = register_generation a (half_allocated n a c gs ns s)"
  by (simp add: half_allocated_def allocateWithoutLock_def registerObject_def)

lemma half_allocated_swept:
  assumes inv: "storage_inv s" and st: "gcState s = Sweeping" "recycledObjectIndexes s = []"
      "position s = length (objects s)" "gcGeneration s \<noteq> 0"
    and conf: "0 < stepCountForSweeping conf (totalObjectCount s)"
      "position s + stepCountForSweeping conf (totalObjectCount s) < 2 ^ 64"
    and sc: "c \<in> set (scopes s)" "n \<in> set (scope_nodes s c)" and fresh: "fresh_for s a ct gs ns"
  defines "t \<equiv> snd (stepSweeping conf (half_allocated n a ct gs ns s))"
  shows "reachable t a" "a \<in> set (trash t)"
proof -
  let ?h = "half_allocated n a ct gs ns s"
  have mk: "\<not> marking s" using inv st(1) by (simp add: storage_inv_def phase_ok_def sweeping_ok_def)
  have al: "nodeAt s n \<noteq> None" using live_node_allocated [OF inv, of n] sc by (auto simp: live_node_def allocated_def)
  then have new: "n \<notin> set ns" using fresh by (auto simp: fresh_for_def)
  have zip: "map_of (zip ns (List.map ((!) gs) (l_nodes (c_layout ct)))) n = None"
    using new by (auto simp: map_of_eq_None_iff dest: set_zip_leftD)
  let ?c = "construct a ct gs ns s"
  have h: "?h = register_index a (on_node n (\<lambda>v. v\<lparr>n_type := VObject, n_object := Some a\<rparr>) ?c)"
    using mk by (simp add: half_allocated_def setObject_sweeping construct_def put_nodes_def put_groups_def Let_def)
  have hv: "objects ?h = objects s @ [Some a]" "position ?h = length (objects s)" "scopes ?h = scopes s"
    "scopeAt ?h = scopeAt s" "generation ?h a = 0" "gcGeneration ?h = gcGeneration s" "object_nodes ?h a = ns"
    "node_object ?h n = Some a" "totalObjectCount ?h = totalObjectCount s" "trash ?h = trash s"
    using st al zip
    by (auto simp: h register_index_def on_object_def on_node_def construct_def put_nodes_def put_groups_def
        constructed_def generation_def object_nodes_def node_object_def Let_def)
  have "min (length (objects ?h)) (size_add (position ?h) (stepCountForSweeping conf (totalObjectCount ?h)))
      - position ?h = 1"
    using conf st(3) by (simp add: hv)
  then have t: "t = sweep_one ?h" unfolding t_def stepSweeping_def by (simp add: Let_def)
  have dead: "objects ?h ! position ?h = Some a" "generation ?h a \<noteq> gcGeneration ?h"
    using st(4) by (simp_all add: hv)
  then show "a \<in> set (trash t)"
    by (simp add: t sweep_one_def sweep_body_def release_index_def Let_def)
  have "node_object t n = Some a" "scopes t = scopes s" "scopeAt t = scopeAt s"
    using dead new hv drop_dead_refs_views(1) [of ns ?h n]
    by (auto simp: t sweep_one_def sweep_body_def release_index_def Let_def node_object_def drop_dead_refs_def split: option.splits if_splits)
  then show "reachable t a"
    using sc by (intro reachable.root [of c]) (auto simp: edge_def scope_nodes_def)
qed

end
