(* ===== verification/Collector_Live.thy ===== *)
theory Collector_Live
  imports Collector_Inv
begin

text \<open>
  A collection that no program interferes with, as \<open>RuntimeImp::fullGc\<close> (\<open>chatra_core/Runtime.cpp\<close>)
  runs it: it comes to an end, and leaves exactly the reachable objects.
\<close>

text \<open>The loop \<open>while (!storage->tidy(*this));\<close>\<close>

partial_function (option) tidy_loop :: "gc_configuration \<Rightarrow> storage \<Rightarrow> storage option" where
  "tidy_loop conf s =
     (if fst (tidy conf s) then Some (snd (tidy conf s)) else tidy_loop conf (snd (tidy conf s)))"

definition gc_cycle :: "gc_configuration \<Rightarrow> (nat \<Rightarrow> storage \<Rightarrow> storage) \<Rightarrow> storage \<Rightarrow> storage option" where
  "gc_cycle conf onDestroy s = map_option (collect onDestroy) (tidy_loop conf s)"

definition fullGc :: "gc_configuration \<Rightarrow> (nat \<Rightarrow> storage \<Rightarrow> storage) \<Rightarrow> storage \<Rightarrow> storage option" where
  "fullGc conf onDestroy s = Option.bind (gc_cycle conf onDestroy s) (gc_cycle conf onDestroy)"

text \<open>The step counts are positive and small enough for \<open>position\<close> not to wrap around.\<close>

definition conf_ok :: "gc_configuration \<Rightarrow> nat \<Rightarrow> bool" where
  "conf_ok conf len \<longleftrightarrow> (\<forall>k. 0 < stepCountForScope conf k \<and> 0 < stepCountForMarking conf k \<and>
     0 < stepCountForSweeping conf k \<and> len + stepCountForSweeping conf k < 2 ^ 64)"

subsection \<open>Reachability does not change\<close>

definition same_graph :: "storage \<Rightarrow> storage \<Rightarrow> bool" where
  "same_graph s t \<longleftrightarrow> (\<forall>a. reachable t a \<longleftrightarrow> reachable s a) \<and> length (objects t) = length (objects s)"

lemma reachable_mono:
  assumes "\<And>b c. c \<in> set (scopes s) \<Longrightarrow> edge s (scope_nodes s c) b \<Longrightarrow> c \<in> set (scopes t) \<and> edge t (scope_nodes t c) b"
    and "\<And>a b. reachable s a \<Longrightarrow> edge s (object_nodes s a) b \<Longrightarrow> edge t (object_nodes t a) b"
    and "reachable s a"
  shows "reachable t a"
  using assms(3) by induction (use assms(1,2) in \<open>blast intro: reachable.intros\<close>)+

lemma same_views_reachable:
  assumes "scopes t = scopes s" "scope_nodes t = scope_nodes s" "object_nodes t = object_nodes s" "edge t = edge s"
  shows "reachable t a \<longleftrightarrow> reachable s a"
proof
  show "reachable t a \<Longrightarrow> reachable s a" by (rule reachable_mono [of t s]) (simp_all add: assms)
  show "reachable s a \<Longrightarrow> reachable t a" by (rule reachable_mono [of s t]) (simp_all add: assms)
qed

lemma same_memory_graph:
  "same_memory s t \<Longrightarrow> scopes t = scopes s \<Longrightarrow> objects t = objects s \<Longrightarrow> same_graph s t"
  using same_views_reachable [of t s] same_memory_views [of s t] by (simp add: same_graph_def)

lemma same_graph_trans: "same_graph s t \<Longrightarrow> same_graph t u \<Longrightarrow> same_graph s u"
  by (simp add: same_graph_def)

lemma same_graph_refl [simp]: "same_graph s s"
  by (simp add: same_graph_def)

text \<open>What is black or waits to be marked is reachable: nothing dead gets marked.\<close>

definition exact :: "storage \<Rightarrow> bool" where
  "exact s \<longleftrightarrow> (\<forall>a \<in> registered s. black s a \<longrightarrow> reachable s a) \<and> (\<forall>a \<in> set (gcTargets s). reachable s a)"

subsection \<open>Marking of scopes\<close>

lemma exact_begin:
  assumes "storage_inv s" "gcState s = GcIdle"
  defines "t \<equiv> beginMarkingScope (s\<lparr>gcState := MarkingScope\<rparr>)"
  shows "exact t" "same_graph s t" "gcState t = MarkingScope"
proof -
  have m: "same_memory s t" "scopes t = scopes s" "objects t = objects s" "gcState t = MarkingScope"
    "gcGeneration t = gcGeneration s + 1" "gcTargets t = gcTargets s"
    by (simp_all add: t_def same_memory_def beginMarkingScope_def bump_generation_def start_marking_def snapshot_scopes_def)
  then show "same_graph s t" "gcState t = MarkingScope" by (simp_all add: same_memory_graph)
  have "\<forall>a \<in> registered s. generation s a = gcGeneration s" "gcTargets s = []"
    using inv_partsD(5) [OF assms(1)] assms(2) by (simp_all add: phase_ok_def black_def)
  moreover have "registered t = registered s" by (simp add: registered_def m)
  ultimately show "exact t"
    by (simp add: exact_def black_def m same_memory_views [OF m(1)])
qed

lemma scan_next_facts:
  assumes inv: "storage_inv s" and ne: "gcScopes s \<noteq> []"
  shows "exact s \<Longrightarrow> exact (scan_next s)" "same_graph s (scan_next s)" "length (gcScopes (scan_next s)) < length (gcScopes s)"
proof -
  let ?c = "last (gcScopes s)"
  have m: "same_memory s (scan_next s)" "scopes (scan_next s) = scopes s" "objects (scan_next s) = objects s"
    "gcGeneration (scan_next s) = gcGeneration s"
    "gcScopes (scan_next s) = butlast (gcScopes s)"
    by (simp_all add: scan_next_def scan_scope_def same_memory_def Let_def)
  then show g: "same_graph s (scan_next s)" by (simp add: same_memory_graph)
  show "length (gcScopes (scan_next s)) < length (gcScopes s)" using ne m(5) by (cases "gcScopes s") simp_all
  have u: "generation (s\<lparr>gcScopes := x\<rparr>) = generation s" "referents (s\<lparr>gcScopes := x\<rparr>) = referents s"
    "scope_refs (s\<lparr>gcScopes := x\<rparr>) = scope_refs s" for x
    by (auto simp: generation_def referents_def scope_refs_def node_object_def [abs_def] fun_eq_iff)
  have tg: "a \<in> set (gcTargets (scan_next s)) \<longleftrightarrow> a \<in> set (gcTargets s) \<or>
      ?c \<in> set (scopes s) \<and> edge s (scope_refs s ?c) a \<and> \<not> black s a" for a
    by (auto simp: scan_next_def scan_scope_def Let_def u set_referents black_def)
  have "edge s (scope_refs s ?c) a = edge s (scope_nodes s ?c) a" if "?c \<in> set (scopes s)" for a
    using inv_partsD(2) [OF inv] that by (simp add: heap_ok_def edge_def)
  then have "reachable s a" if "exact s" "a \<in> set (gcTargets (scan_next s))" for a
    using that tg by (auto simp: exact_def intro: reachable.root)
  moreover have "registered (scan_next s) = registered s" "black (scan_next s) = black s"
    by (auto simp: registered_def black_def m same_memory_views [OF m(1)] fun_eq_iff)
  ultimately show "exact (scan_next s)" if "exact s"
    using that g by (simp add: exact_def same_graph_def)
qed

lemma mark_scopes_facts:
  "storage_inv s \<Longrightarrow> gcState s = MarkingScope \<Longrightarrow>
     (exact s \<longrightarrow> exact (mark_scopes k s)) \<and> same_graph s (mark_scopes k s) \<and> length (gcScopes (mark_scopes k s)) \<le> length (gcScopes s) - k"
proof (induction k s rule: mark_scopes.induct)
  case (2 k s)
  show ?case
  proof (cases "gcScopes s = []")
    case False
    note f = scan_next_facts [OF "2.prems"(1) False]
    note st = scan_step [OF "2.prems"(1,2) False]
    have "(exact (scan_next s) \<longrightarrow> exact (mark_scopes k (scan_next s))) \<and> same_graph (scan_next s) (mark_scopes k (scan_next s)) \<and>
      length (gcScopes (mark_scopes k (scan_next s))) \<le> length (gcScopes (scan_next s)) - k"
      using "2.IH" [OF False] st by blast
    then show ?thesis using False f same_graph_trans by auto
  qed (use 2 in simp)
qed simp

subsection \<open>Marking of objects\<close>

definition white_count :: "storage \<Rightarrow> nat" where
  "white_count s = card {a \<in> registered s. \<not> black s a}"

lemma finite_registered [simp]: "finite (registered s)"
proof -
  have "registered s \<subseteq> the ` set (objects s)" by (force simp: registered_def)
  then show ?thesis by (rule finite_subset) simp
qed

definition mark_measure :: "(storage \<times> storage) set" where
  "mark_measure = measures [white_count, \<lambda>s. length (gcTargets s)]"

lemma wf_mark_measure: "wf mark_measure"
  by (simp add: mark_measure_def)

lemma mark_next_facts:
  assumes inv: "storage_inv s" and st: "gcState s = MarkingObject" and tg: "gcTargets s = a # rest"
  defines "t \<equiv> mark_object a (s\<lparr>gcTargets := rest\<rparr>)"
  shows "exact s \<Longrightarrow> exact t" "same_graph s t" "(t, s) \<in> mark_measure"
proof -
  let ?u = "s\<lparr>gcTargets := rest\<rparr>"
  have mu: "same_memory s ?u" by (simp add: same_memory_def)
  note vu = same_memory_views [OF mu]
  have mk: "marking_ok s" using inv_partsD(5) [OF inv] st by (simp add: phase_ok_def)
  have a: "a \<in> registered s" using mk tg by (simp add: marking_ok_def)
  then obtain ob where ob: "objectAt s a = Some ob"
    using inv_partsD(2) [OF inv] unfolding heap_ok_def by blast
  have ra: "reachable s a" if "exact s" using that tg by (simp add: exact_def)
  have v: "object_nodes t = object_nodes s" "scope_nodes t = scope_nodes s" "edge t = edge s" "scopes t = scopes s"
    "objects t = objects s" "gcGeneration t = gcGeneration s"
    "generation t x = (if x = a then gcGeneration s else generation s x)" for x
    using ob by (auto simp: t_def mark_object_def Let_def on_object_def object_nodes_def scope_nodes_def edge_def
        node_object_def generation_def fun_eq_iff split: option.splits)
  show g: "same_graph s t" using same_views_reachable [of t s] v by (simp add: same_graph_def)
  have r: "registered t = registered s" by (simp add: registered_def v)
  have bl: "black t x \<longleftrightarrow> x = a \<or> black s x" for x by (simp add: black_def v)
  have ts: "set (gcTargets t) \<subseteq> set rest \<union> {b. edge s (object_nodes s a) b}"
  proof -
    let ?w = "on_object a (\<lambda>ob. ob\<lparr>o_gcGeneration := gcGeneration s\<rparr>) ?u"
    have "object_nodes ?w = object_nodes s" "edge ?w = edge s"
      by (auto simp: on_object_def object_nodes_def edge_def node_object_def fun_eq_iff split: option.splits)
    moreover have "gcTargets ?w = rest" by (simp add: on_object_def)
    ultimately show ?thesis by (auto simp: t_def mark_object_def Let_def set_referents)
  qed
  then have rt: "reachable s x" if ex: "exact s" and x: "x \<in> set (gcTargets t)" for x
  proof -
    have "x \<in> set rest \<or> edge s (object_nodes s a) x" using ts x by blast
    then show ?thesis using ex tg reachable.step [OF ra [OF ex]] unfolding exact_def by (metis list.set_intros(2))
  qed
  show "exact t" if ex: "exact s"
  proof -
    have "reachable t x = reachable s x" for x using g by (simp add: same_graph_def)
    then show ?thesis using ex ra [OF ex] rt [OF ex] unfolding exact_def r bl by blast
  qed
  show "(t, s) \<in> mark_measure"
  proof (cases "black s a")
    case True
    then have "t = ?u" by (simp add: t_def mark_object_def vu black_def)
    then have "white_count t = white_count s" "gcTargets t = rest"
      by (simp_all add: white_count_def r bl registered_def black_def vu)
    then show ?thesis by (simp add: mark_measure_def tg)
  next
    case False
    have "{x \<in> registered t. \<not> black t x} \<subset> {x \<in> registered s. \<not> black s x}"
      using a False r bl by blast
    then have "white_count t < white_count s"
      unfolding white_count_def by (intro psubset_card_mono) simp_all
    then show ?thesis by (simp add: mark_measure_def)
  qed
qed

text \<open>A call of the marking step makes progress unless there is nothing left to mark.\<close>

lemma mark_objects_facts:
  "storage_inv s \<Longrightarrow> gcState s = MarkingObject \<Longrightarrow>
     (exact s \<longrightarrow> exact (mark_objects k s)) \<and> same_graph s (mark_objects k s) \<and>
     (k > 0 \<longrightarrow> gcTargets s \<noteq> [] \<longrightarrow> (mark_objects k s, s) \<in> mark_measure)"
proof (induction k s rule: mark_objects.induct)
  case (2 k s)
  show ?case
  proof (cases "gcTargets s")
    case (Cons a rest)
    let ?t = "mark_object a (s\<lparr>gcTargets := rest\<rparr>)"
    note f = mark_next_facts [OF "2.prems" Cons]
    have t: "storage_inv ?t" "gcState ?t = MarkingObject"
      using mark_step [OF "2.prems"(1,2) Cons] "2.prems"(2) by simp_all
    note IH = "2.IH" [OF Cons t]
    have "mark_objects k ?t = ?t \<or> (mark_objects k ?t, ?t) \<in> mark_measure"
    proof (cases "k = 0 \<or> gcTargets ?t = []")
      case True
      then show ?thesis by (cases k) auto
    next
      case False
      then show ?thesis using IH by simp
    qed
    then have "(mark_objects k ?t, s) \<in> mark_measure"
      using f(3) by (auto simp: mark_measure_def)
    then show ?thesis using IH f(1,2) same_graph_trans Cons by auto
  qed (use 2 in simp)
qed simp

subsection \<open>Sweeping\<close>

definition survivors :: "storage \<Rightarrow> nat set" where
  "survivors s = {a \<in> registered s. black s a}"

lemma sweep_one_facts:
  assumes inv: "storage_inv s" and st: "gcState s = Sweeping" and p: "position s < length (objects s)"
  shows "same_graph s (sweep_one s)" "survivors (sweep_one s) = survivors s"
    "totalObjectCount (sweep_one s) = totalObjectCount s"
proof -
  have idx: "objects s ! position s = Some a \<Longrightarrow> object_index s a = position s" for a
    using inv_partsD(1) [OF inv] p by (simp add: table_ok_def)
  have sw: "sweeping_ok s" using inv_partsD(5) [OF inv] st by (simp add: phase_ok_def)
  have v: "scopes (sweep_one s) = scopes s" "scope_nodes (sweep_one s) = scope_nodes s"
    "object_nodes (sweep_one s) = object_nodes s" "generation (sweep_one s) = generation s"
    "gcGeneration (sweep_one s) = gcGeneration s" "length (objects (sweep_one s)) = length (objects s)"
    by (auto simp: sweep_one_def sweep_body_def release_index_def scope_nodes_def object_nodes_def generation_def Let_def
        drop_dead_refs_def fun_eq_iff split: option.splits)
  show "totalObjectCount (sweep_one s) = totalObjectCount s"
    by (auto simp: sweep_one_def sweep_body_def release_index_def drop_dead_refs_def Let_def split: option.splits)
  have bl: "black (sweep_one s) = black s" by (auto simp: black_def v fun_eq_iff)
  have node: "node_object (sweep_one s) n = node_object s n \<or>
      node_object (sweep_one s) n = None \<and> (\<exists>b. node_object s n = Some b \<and> \<not> black s b)" for n
    using drop_dead_refs_views(1) [of _ s n]
    by (auto simp: sweep_one_def sweep_body_def release_index_def Let_def node_object_def [of "s\<lparr>position := x\<rparr>" for x] node_object_def
        drop_dead_refs_def black_def generation_def split: option.splits if_splits)
  have e1: "edge (sweep_one s) ns b \<Longrightarrow> edge s ns b" for ns b
    using node unfolding edge_def by (metis option.distinct(1))
  have e2: "edge s ns b \<Longrightarrow> black s b \<Longrightarrow> edge (sweep_one s) ns b" for ns b
    using node unfolding edge_def by (metis option.inject)
  have rb: "reachable s a \<Longrightarrow> black s a" for a
    using reachable_registered [OF inv] st by blast
  have "reachable (sweep_one s) a \<longleftrightarrow> reachable s a" for a
  proof
    show "reachable (sweep_one s) a \<Longrightarrow> reachable s a"
      by (rule reachable_mono [of "sweep_one s" s]) (use e1 v in auto)
    show "reachable s a \<Longrightarrow> reachable (sweep_one s) a"
    proof (induction rule: reachable.induct)
      case (root c b)
      then have "black s b" using rb reachable.root by blast
      then have "edge (sweep_one s) (scope_nodes (sweep_one s) c) b"
        unfolding v(2) using root by (intro e2)
      then show ?case using root(1) by (intro reachable.root [of c]) (simp_all only: v)
    next
      case (step a b)
      then have "black s b" using rb reachable.step by blast
      then have "edge (sweep_one s) (object_nodes (sweep_one s) a) b"
        unfolding v(3) using step by (intro e2)
      then show ?case by (rule reachable.step [OF step.IH])
    qed
  qed
  then show "same_graph s (sweep_one s)" by (simp add: same_graph_def v)
  have "a \<in> registered (sweep_one s) \<longleftrightarrow> a \<in> registered s" if "black s a" for a
  proof (cases "sweep_one s = s\<lparr>position := Suc (position s)\<rparr>")
    case True
    then show ?thesis by (simp add: registered_def)
  next
    case False
    then obtain b where b: "objects s ! position s = Some b" "\<not> black s b"
      and obj: "objects (sweep_one s) = (objects s)[position s := None]"
      by (auto simp: sweep_one_shape [OF inv p] split: option.splits if_splits)
    from b(2) that have "b \<noteq> a" by blast
    with b(1) p show ?thesis
      by (auto simp: registered_def obj in_set_conv_nth nth_list_update)
        (metis option.inject)+
  qed
  then show "survivors (sweep_one s) = survivors s" by (auto simp: survivors_def bl)
qed

lemma sweep_many_facts:
  "storage_inv s \<Longrightarrow> gcState s = Sweeping \<Longrightarrow> position s + k \<le> length (objects s) \<Longrightarrow>
     same_graph s ((sweep_one ^^ k) s) \<and> survivors ((sweep_one ^^ k) s) = survivors s \<and>
     totalObjectCount ((sweep_one ^^ k) s) = totalObjectCount s"
proof (induction k)
  case (Suc k)
  let ?t = "(sweep_one ^^ k) s"
  have "storage_inv ?t" "gcState ?t = Sweeping" "position ?t < length (objects ?t)"
    using inv_sweep_many [OF Suc.prems(1,2), of k] Suc.prems(3) by simp_all
  then show ?case
    using Suc sweep_one_facts [of ?t] same_graph_trans by auto
qed simp

text \<open>What the end of a collection looks like.\<close>

definition collected_from :: "storage \<Rightarrow> storage \<Rightarrow> bool" where
  "collected_from s t \<longleftrightarrow> storage_inv t \<and> gcState t = GcIdle \<and> trashCopy t = [] \<and> same_graph s t"

lemma tidy_loop_sweeping:
  assumes "storage_inv s" "gcState s = Sweeping" "conf_ok conf (length (objects s))"
  shows "\<exists>t. tidy_loop conf s = Some t \<and> collected_from s t \<and> registered t = survivors s"
  using assms
proof (induction "length (objects s) - position s" arbitrary: s rule: less_induct)
  case less
  let ?n = "stepCountForSweeping conf (totalObjectCount s)"
  let ?e = "min (length (objects s)) (size_add (position s) ?n)"
  define t where "t = (sweep_one ^^ (?e - position s)) s"
  have tc: "trashCopy s = []"
    using inv_partsD(5) [OF less.prems(1)] less.prems(2) by (simp add: phase_ok_def sweeping_ok_def)
  have step: "stepSweeping conf s = (position t \<ge> length (objects t), t)"
    by (simp add: stepSweeping_def Let_def t_def)
  have "0 < ?n" "length (objects s) + ?n < 2 ^ 64" using less.prems(3) by (simp_all add: conf_ok_def)
  then have e: "?e = min (length (objects s)) (position s + ?n)" if "position s < length (objects s)"
    using that by simp
  have k: "?e - position s = 0 \<or> position s + (?e - position s) \<le> length (objects s)" by arith
  then have many: "storage_inv t \<and> gcState t = Sweeping \<and> length (objects t) = length (objects s) \<and>
      position t = position s + (?e - position s)"
    using inv_sweep_many [OF less.prems(1,2), of "?e - position s"] less.prems(1,2) unfolding t_def by (metis add_0_right funpow_0)
  have facts: "same_graph s t \<and> survivors t = survivors s"
    using k sweep_many_facts [OF less.prems(1,2), of "?e - position s"]
    unfolding t_def by (metis funpow_0 same_graph_refl)
  have tidy: "tidy conf s = (if position t \<ge> length (objects t) then (True, t\<lparr>gcState := GcIdle\<rparr>) else (False, t))"
    using less.prems(2) by (simp add: tidy_def tidy_sweeping_def step)
  show ?case
  proof (cases "position t \<ge> length (objects t)")
    case True
    let ?u = "t\<lparr>gcState := GcIdle\<rparr>"
    have u: "storage_inv ?u" using inv_finish [of t] many True by simp
    have m: "same_memory t ?u" by (simp add: same_memory_def)
    have "registered ?u = survivors ?u"
      using inv_partsD(5) [OF u] by (auto simp: phase_ok_def survivors_def)
    also have "survivors ?u = survivors t"
      by (simp add: survivors_def registered_def black_def same_memory_views [OF m])
    finally have "registered ?u = survivors s" using facts by simp
    moreover have "same_graph s ?u"
      using facts same_memory_graph [OF m] by (auto intro: same_graph_trans)
    moreover have "trashCopy t = []"
      using many inv_partsD(5) [of t] by (simp add: phase_ok_def sweeping_ok_def)
    ultimately show ?thesis
      using u True tidy by (subst tidy_loop.simps) (simp add: collected_from_def)
  next
    case False
    then have p: "position s < length (objects s)" using many by auto
    then have "position s < ?e" using e \<open>0 < ?n\<close> by simp
    then have "length (objects t) - position t < length (objects s) - position s"
      using many p by linarith
    then obtain u where u: "tidy_loop conf t = Some u" "collected_from t u" "registered u = survivors t"
      using less.hyps [of t] many less.prems(3) by auto
    moreover have "same_graph s u"
      using facts u(2) unfolding collected_from_def by (blast intro: same_graph_trans)
    ultimately show ?thesis
      using False tidy facts by (subst tidy_loop.simps) (simp add: collected_from_def)
  qed
qed

subsection \<open>A whole cycle\<close>

lemma survivors_exact:
  assumes "storage_inv s" "gcState s = Sweeping" "exact s"
  shows "survivors s = {a. reachable s a}"
  using assms reachable_registered [OF assms(1)] by (auto simp: survivors_def exact_def)

lemma exact_field_step:
  assumes "exact s" "same_memory s t" "scopes t = scopes s" "objects t = objects s"
    "gcGeneration t = gcGeneration s" "gcTargets t = gcTargets s"
  shows "exact t"
proof -
  have "reachable t a \<longleftrightarrow> reachable s a" for a
    using same_memory_graph [OF assms(2,3,4)] by (simp add: same_graph_def)
  moreover have "registered t = registered s" "black t = black s"
    by (auto simp: registered_def black_def assms same_memory_views [OF assms(2)] fun_eq_iff)
  ultimately show ?thesis using assms(1,6) by (simp add: exact_def)
qed

text \<open>
  The loop from a state \<open>s\<close> ends; when nothing dead was marked before, it leaves exactly the objects
  that are reachable in \<open>s\<close>.
\<close>

definition collects_exactly :: "gc_configuration \<Rightarrow> storage \<Rightarrow> bool" where
  "collects_exactly conf s \<longleftrightarrow>
     (\<exists>t. tidy_loop conf s = Some t \<and> collected_from s t \<and> (exact s \<longrightarrow> registered t = {a. reachable s a}))"

lemma collects_exactly_step:
  assumes "collects_exactly conf t" "same_graph s t" "tidy_loop conf s = tidy_loop conf t" "exact s \<Longrightarrow> exact t"
  shows "collects_exactly conf s"
  using assms unfolding collects_exactly_def collected_from_def same_graph_def by auto

lemma loop_sweeping:
  assumes "storage_inv s" "gcState s = Sweeping" "conf_ok conf (length (objects s))"
  shows "collects_exactly conf s"
  using tidy_loop_sweeping [OF assms] survivors_exact [OF assms(1,2)]
  by (auto simp: collects_exactly_def)

lemma tidy_loop_cong: "tidy conf s = tidy conf t \<Longrightarrow> tidy_loop conf s = tidy_loop conf t"
  by (subst (1 2) tidy_loop.simps) simp

lemma loop_marking:
  assumes "storage_inv s" "gcState s = MarkingObject" "conf_ok conf (length (objects s))"
  shows "collects_exactly conf s"
  using assms
proof (induction s rule: wf_induct_rule [OF wf_mark_measure])
  case (1 s)
  define t where "t = mark_objects (stepCountForMarking conf (totalObjectCount s)) s"
  have t: "storage_inv t" "gcState t = MarkingObject"
    using inv_mark_objects [OF "1.prems"(1,2)] unfolding t_def by blast+
  have f: "exact s \<Longrightarrow> exact t" "same_graph s t" "gcTargets s \<noteq> [] \<Longrightarrow> (t, s) \<in> mark_measure"
    using mark_objects_facts [OF "1.prems"(1,2)] "1.prems"(3) unfolding t_def conf_ok_def by blast+
  have tidy: "tidy conf s = (if gcTargets t = [] then tidy_sweeping conf (beginSweeping (t\<lparr>gcState := Sweeping\<rparr>))
      else (False, t))"
    using "1.prems"(2) by (simp add: tidy_def tidy_objects_def stepMarkingObject_def t_def Let_def)
  have len: "length (objects t) = length (objects s)" using f(2) by (simp add: same_graph_def)
  show ?case
  proof (cases "gcTargets t = []")
    case True
    let ?u = "beginSweeping (t\<lparr>gcState := Sweeping\<rparr>)"
    have m: "same_memory t ?u" by (simp add: same_memory_def beginSweeping_def)
    have u: "storage_inv ?u" by (rule inv_beginSweeping [OF t True])
    have st: "gcState ?u = Sweeping" by (simp add: beginSweeping_def)
    have ex: "exact ?u" if "exact s"
      by (rule exact_field_step [OF f(1) [OF that] m]) (simp_all add: beginSweeping_def)
    have c: "collects_exactly conf ?u"
      using u st "1.prems"(3) len by (intro loop_sweeping) (simp_all add: beginSweeping_def)
    have "tidy conf s = tidy conf ?u" using tidy True st by (simp add: tidy_def)
    then have l: "tidy_loop conf s = tidy_loop conf ?u" by (rule tidy_loop_cong)
    have "same_graph t ?u" by (rule same_memory_graph [OF m]) (simp_all add: beginSweeping_def)
    then have "same_graph s ?u" by (rule same_graph_trans [OF f(2)])
    then show ?thesis by (rule collects_exactly_step [OF c _ l ex])
  next
    case False
    then have "gcTargets s \<noteq> []"
      unfolding t_def by (cases "stepCountForMarking conf (totalObjectCount s)") auto
    then have "collects_exactly conf t"
      using "1.IH" [OF f(3) t] "1.prems"(3) len by simp
    moreover have "tidy_loop conf s = tidy_loop conf t"
      using tidy False by (subst tidy_loop.simps) simp
    ultimately show ?thesis using f(1,2) by (blast intro: collects_exactly_step)
  qed
qed

lemma tidy_scopes_marking:
  assumes "storage_inv s" "gcState s = MarkingScope" "conf_ok conf (length (objects s))"
    and "\<And>t. storage_inv t \<Longrightarrow> gcState t = MarkingScope \<Longrightarrow> same_graph s t \<Longrightarrow>
      length (gcScopes t) < length (gcScopes s) \<Longrightarrow> collects_exactly conf t"
  shows "collects_exactly conf s"
proof -
  define t where "t = mark_scopes (stepCountForScope conf (totalScopeCount s)) s"
  have t: "storage_inv t" "gcState t = MarkingScope"
    using inv_mark_scopes [OF assms(1,2)] unfolding t_def by blast+
  have f: "exact s \<Longrightarrow> exact t" "same_graph s t"
    and dec: "length (gcScopes t) \<le> length (gcScopes s) - stepCountForScope conf (totalScopeCount s)"
    using mark_scopes_facts [OF assms(1,2)] unfolding t_def by blast+
  have tidy: "tidy conf s = (if gcScopes t = [] then tidy_objects conf (beginMarkingObject (t\<lparr>gcState := MarkingObject\<rparr>))
      else (False, t))"
    using assms(2) by (simp add: tidy_def tidy_scopes_def stepMarkingScope_def t_def Let_def)
  have len: "length (objects t) = length (objects s)" using f(2) by (simp add: same_graph_def)
  show ?thesis
  proof (cases "gcScopes t = []")
    case True
    let ?u = "beginMarkingObject (t\<lparr>gcState := MarkingObject\<rparr>)"
    have m: "same_memory t ?u" by (simp add: same_memory_def beginMarkingObject_def)
    have u: "storage_inv ?u" by (rule inv_beginMarkingObject [OF t True])
    have st: "gcState ?u = MarkingObject" by (simp add: beginMarkingObject_def)
    have ex: "exact ?u" if "exact s"
      by (rule exact_field_step [OF f(1) [OF that] m]) (simp_all add: beginMarkingObject_def)
    have c: "collects_exactly conf ?u"
      using u st assms(3) len by (intro loop_marking) (simp_all add: beginMarkingObject_def)
    have "tidy conf s = tidy conf ?u" using tidy True st by (simp add: tidy_def)
    then have l: "tidy_loop conf s = tidy_loop conf ?u" by (rule tidy_loop_cong)
    have "same_graph t ?u" by (rule same_memory_graph [OF m]) (simp_all add: beginMarkingObject_def)
    then have "same_graph s ?u" by (rule same_graph_trans [OF f(2)])
    then show ?thesis by (rule collects_exactly_step [OF c _ l ex])
  next
    case False
    have "0 < stepCountForScope conf (totalScopeCount s)" using assms(3) by (simp add: conf_ok_def)
    moreover have "0 < length (gcScopes t)" using False by simp
    ultimately have "length (gcScopes t) < length (gcScopes s)" using dec by linarith
    then have "collects_exactly conf t" using assms(4) t f(2) by blast
    moreover have "tidy_loop conf s = tidy_loop conf t"
      using tidy False by (subst tidy_loop.simps) simp
    ultimately show ?thesis using f(1,2) by (blast intro: collects_exactly_step)
  qed
qed

lemma loop_scopes:
  assumes "storage_inv s" "gcState s = MarkingScope" "conf_ok conf (length (objects s))"
  shows "collects_exactly conf s"
  using assms
proof (induction "length (gcScopes s)" arbitrary: s rule: less_induct)
  case less
  show ?case
    by (rule tidy_scopes_marking [OF less.prems])
       (use less.hyps less.prems(3) in \<open>simp add: same_graph_def\<close>)
qed

lemma loop_idle:
  assumes "storage_inv s" "gcState s = GcIdle" "trash s = []" "trashCopy s = []" "conf_ok conf (length (objects s))"
  shows "\<exists>t. tidy_loop conf s = Some t \<and> collected_from s t \<and> registered t = {a. reachable s a}"
proof -
  let ?t = "beginMarkingScope (s\<lparr>gcState := MarkingScope\<rparr>)"
  note e = exact_begin [OF assms(1,2)]
  have "collects_exactly conf ?t"
    using inv_beginMarkingScope [OF assms(1-4)] e assms(5) by (intro loop_scopes) (simp_all add: same_graph_def)
  moreover have "tidy conf s = tidy conf ?t" using assms(2) e(3) by (simp add: tidy_def)
  then have "tidy_loop conf s = tidy_loop conf ?t" by (rule tidy_loop_cong)
  ultimately show ?thesis
    using e(1,2) unfolding collects_exactly_def collected_from_def same_graph_def by auto
qed

lemma loop_ends:
  assumes "storage_inv s" "gcState s = GcIdle \<Longrightarrow> trash s = [] \<and> trashCopy s = []" "conf_ok conf (length (objects s))"
  shows "\<exists>t. tidy_loop conf s = Some t \<and> collected_from s t"
proof (cases "gcState s")
  case GcIdle
  then show ?thesis using loop_idle [OF assms(1)] assms by blast
next
  case MarkingScope
  then show ?thesis using loop_scopes [OF assms(1) _ assms(3)] unfolding collects_exactly_def by blast
next
  case MarkingObject
  then show ?thesis using loop_marking [OF assms(1) _ assms(3)] unfolding collects_exactly_def by blast
next
  case Sweeping
  then show ?thesis using loop_sweeping [OF assms(1) _ assms(3)] unfolding collects_exactly_def by blast
qed

subsection \<open>\<open>collect\<close> and \<open>fullGc\<close>\<close>

definition no_hooks :: "storage \<Rightarrow> bool" where
  "no_hooks s \<longleftrightarrow> (\<forall>a ob. objectAt s a = Some ob \<longrightarrow> \<not> o_hasOnDestroy ob)"

lemma no_hooks_delete: "no_hooks s \<Longrightarrow> no_hooks (delete_object a (s\<lparr>trashCopy := x\<rparr>))"
  by (auto simp: no_hooks_def delete_object_def free_refs_def split: option.splits if_splits)

lemma collect_one_no_hooks:
  "no_hooks s \<Longrightarrow> trashCopy s = a # rest \<Longrightarrow> collect_one h s = delete_object a (s\<lparr>trashCopy := rest\<rparr>)"
  by (auto simp: collect_one_def no_hooks_def split: option.splits)

lemma delete_facts:
  assumes inv: "storage_inv s" and a: "trashCopy s = a # rest"
  defines "t \<equiv> delete_object a (s\<lparr>trashCopy := rest\<rparr>)"
  shows "same_graph s t" "trashCopy t = rest" "trash t = trash s" "objects t = objects s" "gcState t = gcState s"
proof -
  show f: "trashCopy t = rest" "trash t = trash s" "objects t = objects s" "gcState t = gcState s"
    by (auto simp: t_def delete_object_def free_refs_def split: option.splits)
  have na: "a \<notin> registered s" using inv_partsD(2) [OF inv] a by (auto simp: heap_ok_def)
  have v: "scopes t = scopes s" "scope_nodes t = scope_nodes s" "x \<noteq> a \<Longrightarrow> object_nodes t x = object_nodes s x" for x
    by (auto simp: t_def delete_object_def free_refs_def scope_nodes_def object_nodes_def fun_eq_iff split: option.splits)
  have node: "node_object t n = (if n \<in> set (object_nodes s a) then None else node_object s n)" if "objectAt s a \<noteq> None" for n
    using that by (auto simp: t_def delete_object_def free_refs_def node_object_def object_nodes_def split: option.splits)
  have "objectAt s a \<noteq> None" using inv_partsD(2) [OF inv] a unfolding heap_ok_def by auto
  note node = node [OF this]
  have own: "n \<notin> set (object_nodes s a)" if "n \<in> set (owned s p)" "p \<noteq> OfObject a" for n p
    using inv_partsD(3) [OF inv] that unfolding owners_ok_def by (metis owned.simps(2))
  have "edge t (scope_nodes s c) b = edge s (scope_nodes s c) b" for c b
    using own [of _ "OfScope c"] by (auto simp: edge_def node)
  moreover have "edge t (object_nodes s x) b = edge s (object_nodes s x) b" if "x \<noteq> a" for x b
    using own [of _ "OfObject x"] that by (auto simp: edge_def node)
  moreover have "reachable s x \<Longrightarrow> x \<noteq> a" for x using reachable_registered [OF inv] na by blast
  ultimately have st: "reachable s x \<Longrightarrow> reachable t x" for x
    by (rule_tac reachable_mono [of s t]) (auto simp: v)
  have "reachable t x \<Longrightarrow> reachable s x" for x
  proof (induction rule: reachable.induct)
    case (root c b)
    then show ?case using own [of _ "OfScope c"] by (intro reachable.root [of c]) (auto simp: v edge_def node)
  next
    case (step x b)
    then have "x \<noteq> a" using reachable_registered [OF inv] na by blast
    then have "edge s (object_nodes s x) b"
      using step.hyps(2) own [of _ "OfObject x"] by (auto simp: v edge_def node)
    then show ?case by (rule reachable.step [OF step.IH])
  qed
  with st show "same_graph s t" by (auto simp: same_graph_def f)
qed

lemma collect_loop:
  "storage_inv s \<Longrightarrow> no_hooks s \<Longrightarrow> trashCopy s = ds \<Longrightarrow>
     storage_inv ((collect_one h ^^ length ds) s) \<and> no_hooks ((collect_one h ^^ length ds) s) \<and>
     same_graph s ((collect_one h ^^ length ds) s) \<and> trashCopy ((collect_one h ^^ length ds) s) = [] \<and>
     trash ((collect_one h ^^ length ds) s) = trash s \<and> objects ((collect_one h ^^ length ds) s) = objects s \<and>
     gcState ((collect_one h ^^ length ds) s) = gcState s"
proof (induction ds arbitrary: s)
  case (Cons a ds)
  let ?t = "delete_object a (s\<lparr>trashCopy := ds\<rparr>)"
  have one: "(collect_one h ^^ length (a # ds)) s = (collect_one h ^^ length ds) ?t"
    using collect_one_no_hooks [OF Cons.prems(2,3)] by (simp add: funpow_swap1)
  note d = delete_facts [OF Cons.prems(1,3)]
  show ?case
    unfolding one using Cons.IH [OF inv_delete [OF Cons.prems(1,3)] no_hooks_delete [OF Cons.prems(2)] d(2)]
      d same_graph_trans by auto
qed simp

lemma collect_facts:
  assumes "storage_inv s" "no_hooks s" "gcState s = GcIdle" "trashCopy s = []"
  shows "storage_inv (collect h s) \<and> no_hooks (collect h s) \<and> same_graph s (collect h s) \<and>
    trashCopy (collect h s) = [] \<and> trash (collect h s) = [] \<and> objects (collect h s) = objects s \<and>
    gcState (collect h s) = GcIdle"
proof -
  have m: "same_memory s (collect_begin s)" by (simp add: same_memory_def collect_begin_def)
  have "no_hooks (collect_begin s)" using assms(2) by (simp add: no_hooks_def collect_begin_def)
  moreover have "same_graph s (collect_begin s)" by (rule same_memory_graph [OF m]) (simp_all add: collect_begin_def)
  moreover have "objects (collect_begin s) = objects s" "gcState (collect_begin s) = GcIdle" "trash (collect_begin s) = []"
    using assms(3) by (simp_all add: collect_begin_def)
  ultimately show ?thesis
    using collect_loop [OF inv_collect_begin [OF assms(1,3,4)] _ refl, of h] same_graph_trans
    by (auto simp: collect_def Let_def)
qed

text \<open>\<open>tidy\<close> creates no destroy hooks.\<close>

lemma no_hooks_marks: "no_hooks s \<Longrightarrow> no_hooks (mark_objects k s)"
proof (induction k s rule: mark_objects.induct)
  case (2 k s)
  have "no_hooks (mark_object a (s\<lparr>gcTargets := r\<rparr>))" for a r
    using "2.prems" by (auto simp: no_hooks_def mark_object_def on_object_def Let_def split: if_splits)
  then show ?case using 2 by (auto split: list.split)
qed simp

lemma no_hooks_scans: "no_hooks s \<Longrightarrow> no_hooks (mark_scopes k s)"
proof (induction k s rule: mark_scopes.induct)
  case (2 k s)
  have "no_hooks (scan_next s)"
    using "2.prems" by (simp add: no_hooks_def scan_next_def scan_scope_def Let_def)
  then show ?case using 2 by simp
qed simp

lemma objectAt_sweeps: "objectAt ((sweep_one ^^ k) s) = objectAt s"
proof -
  have "objectAt (sweep_one s) = objectAt s" for s
    by (auto simp: sweep_one_def sweep_body_def release_index_def drop_dead_refs_def Let_def split: option.splits)
  then show ?thesis by (induction k) simp_all
qed

lemma no_hooks_tidy: "no_hooks s \<Longrightarrow> no_hooks (snd (tidy conf s))"
proof -
  have sw: "no_hooks (snd (tidy_sweeping conf s))" if "no_hooks s" for s
    using that by (auto simp: tidy_sweeping_def stepSweeping_def no_hooks_def objectAt_sweeps Let_def)
  have ob: "no_hooks (snd (tidy_objects conf s))" if "no_hooks s" for s
  proof -
    let ?t = "mark_objects (stepCountForMarking conf (totalObjectCount s)) s"
    have "no_hooks (beginSweeping (?t\<lparr>gcState := Sweeping\<rparr>))"
      using no_hooks_marks [OF that] by (simp add: no_hooks_def beginSweeping_def)
    then show ?thesis
      using sw no_hooks_marks [OF that] by (simp add: tidy_objects_def stepMarkingObject_def Let_def)
  qed
  have sc: "no_hooks (snd (tidy_scopes conf s))" if "no_hooks s" for s
  proof -
    let ?t = "mark_scopes (stepCountForScope conf (totalScopeCount s)) s"
    have "no_hooks (beginMarkingObject (?t\<lparr>gcState := MarkingObject\<rparr>))"
      using no_hooks_scans [OF that] by (simp add: no_hooks_def beginMarkingObject_def)
    then show ?thesis
      using ob no_hooks_scans [OF that] by (simp add: tidy_scopes_def stepMarkingScope_def Let_def)
  qed
  show "no_hooks s \<Longrightarrow> no_hooks (snd (tidy conf s))"
  proof -
    assume h: "no_hooks s"
    then have "no_hooks (beginMarkingScope (s\<lparr>gcState := MarkingScope\<rparr>))"
      by (simp add: no_hooks_def beginMarkingScope_def bump_generation_def start_marking_def snapshot_scopes_def)
    then show ?thesis using h sw ob sc by (cases "gcState s") (simp_all add: tidy_def)
  qed
qed

lemmas tidy_loop_induct = tidy_loop.raw_induct [rotated, consumes 1, case_names step]

lemma no_hooks_loop: "tidy_loop conf s = Some t \<Longrightarrow> no_hooks s \<Longrightarrow> no_hooks t"
proof (induction conf s t rule: tidy_loop_induct)
  case (step f conf s t)
  then show ?case using no_hooks_tidy [of s conf] by (auto split: if_splits)
qed

lemma gc_cycle_ends:
  assumes "storage_inv s" "no_hooks s" "gcState s = GcIdle \<Longrightarrow> trash s = [] \<and> trashCopy s = []"
    "conf_ok conf (length (objects s))"
  shows "\<exists>t. gc_cycle conf h s = Some t \<and> storage_inv t \<and> no_hooks t \<and> same_graph s t \<and> gcState t = GcIdle \<and>
    trash t = [] \<and> trashCopy t = [] \<and> (gcState s = GcIdle \<longrightarrow> registered t = {a. reachable s a})"
proof -
  obtain u where u: "tidy_loop conf s = Some u" "collected_from s u"
    "gcState s = GcIdle \<longrightarrow> registered u = {a. reachable s a}"
    using loop_ends [OF assms(1,3,4)] loop_idle [OF assms(1) _ _ _ assms(4)] assms(3) by blast
  have "no_hooks u" by (rule no_hooks_loop [OF u(1) assms(2)])
  then have c: "storage_inv (collect h u) \<and> no_hooks (collect h u) \<and> same_graph u (collect h u) \<and>
    trashCopy (collect h u) = [] \<and> trash (collect h u) = [] \<and> objects (collect h u) = objects u \<and>
    gcState (collect h u) = GcIdle"
    using u(2) by (intro collect_facts) (simp_all add: collected_from_def)
  moreover have "same_graph s (collect h u)"
    using c u(2) unfolding collected_from_def by (blast intro: same_graph_trans)
  moreover have "registered (collect h u) = registered u" using c by (simp add: registered_def)
  ultimately show ?thesis using u by (simp add: gc_cycle_def)
qed

lemma fullGc_exact:
  assumes "storage_inv s" "no_hooks s" "gcState s = GcIdle \<Longrightarrow> trash s = [] \<and> trashCopy s = []"
    "conf_ok conf (length (objects s))"
  shows "\<exists>t. fullGc conf h s = Some t \<and> storage_inv t \<and> (\<forall>a. reachable t a \<longleftrightarrow> reachable s a) \<and>
    dom (objectAt t) = {a. reachable s a}"
proof -
  obtain t where t: "gc_cycle conf h s = Some t" "storage_inv t" "no_hooks t" "same_graph s t" "gcState t = GcIdle"
    "trash t = []" "trashCopy t = []"
    using gc_cycle_ends [OF assms] by blast
  have "conf_ok conf (length (objects t))" using t(4) assms(4) by (simp add: same_graph_def)
  then obtain u where u: "gc_cycle conf h t = Some u" "storage_inv u" "same_graph t u" "trash u = []" "trashCopy u = []"
    "registered u = {a. reachable t a}"
    using gc_cycle_ends [OF t(2,3)] t(5-7) by blast
  have "dom (objectAt u) = registered u"
    using inv_partsD(2) [OF u(2)] u(4,5) by (simp add: heap_ok_def)
  then show ?thesis
    using t(1,4) u by (auto simp: fullGc_def same_graph_def)
qed

end
