(* ===== verification/Storage_Properties.thy ===== *)
theory Storage_Properties
  imports Object_Table Collector_Gap Collector_Live
begin







text \<open>
  C21: the proviso of \<open>gc_safe\<close> is needed, and the code does not observe it. A captured scope that ends
  between two steps of the scanning of scopes passes its references to an object that counts as
  marked; what only they refer to is swept although it is reachable.
\<close>
theorem gc_loses_captured:
  "\<exists>s. storage_run False one_scope newStorage s \<and> reachable s 21 \<and> 21 \<in> set (trash s)"
  using demo_run demo9_reachable demo9_facts(2) by (intro exI [of _ demo9]) simp







text \<open>
  C24: indexes of objects stay compact. The table is an id supply like \<open>IdPool\<close>: after any sequence of
  registrations and releases it is no longer than the largest number of objects that were registered
  together, or than it was before.
\<close>
theorem object_table_compact:
  assumes "indexes_ok s" "run_ids used_indexes (take_index a) release_index s os = Some t"
  shows "indexes_ok t \<and>
    length (objects t) \<le> max (length (objects s)) (peak_ids used_indexes (take_index a) release_index s os)"
  using object_ids.run_inv [OF assms] object_ids.run_compact [OF assms] by (simp add: table_size_def)

lemma object_table_compact_witness:
  "indexes_ok newStorage \<and> (\<exists>t. run_ids used_indexes (take_index 7) release_index newStorage [Take, Give 0, Take] = Some t \<and>
     length (objects t) \<le> 1)"
proof -
  have ok: "indexes_ok newStorage" by (simp add: indexes_ok_def) (simp add: newStorage_def)
  have run: "run_ids used_indexes (take_index 7) release_index newStorage [Take, Give 0, Take] =
      Some (snd (take_index 7 (release_index 0 (snd (take_index 7 newStorage)))))"
    by (simp add: used_indexes_def take_index_def register_index_def on_object_def newStorage_def)
  have "used_indexes newStorage = {}" "used_indexes (snd (take_index 7 newStorage)) = {0}"
    "used_indexes (release_index 0 (snd (take_index 7 newStorage))) = {}"
    "used_indexes (snd (take_index 7 (release_index 0 (snd (take_index 7 newStorage))))) = {0}"
    by (auto simp: used_indexes_def take_index_def register_index_def release_index_def on_object_def newStorage_def
        nth_Cons split: nat.splits) (metis not0_implies_Suc)+
  then show ?thesis using object_table_compact [OF ok run] ok run by simp
qed

text \<open>
  C25: elements of a class share the lock of their group exactly when they have the same primary index,
  as long as they are added by one call; elements of a later call never share a group with elements
  that were there before.
\<close>
theorem element_groups:
  assumes "array_shape l" "layout_wf l" "length (l_nodes l) \<le> length ps"
    "length (l_nodes l) \<le> i" "i < length ps" "j < length ps"
  shows "group_of (appendElementsAsArray ps l) i = group_of (appendElementsAsArray ps l) j \<longleftrightarrow>
    length (l_nodes l) \<le> j \<and> ps ! i = ps ! j"
  using appendElements_share [OF assms(1,3,4,5) _ assms(6)] appendElements_fresh_group [OF assms(1,2) _ assms(4,5), of j]
  by (metis not_less)

lemma element_groups_witness:
  "group_of (appendElementsAsArray [0, 0, 0, 3] (layout_class [0])) 1 = group_of (appendElementsAsArray [0, 0, 0, 3] (layout_class [0])) 2 \<and>
   group_of (appendElementsAsArray [0, 0, 0, 3] (layout_class [0])) 1 \<noteq> group_of (appendElementsAsArray [0, 0, 0, 3] (layout_class [0])) 0"
proof -
  have "layout_wf (layout_class [0])" by (rule layout_class_wf)
  moreover have "array_shape (layout_class [0])" "length (l_nodes (layout_class [0])) = 1"
    by (simp_all add: layout_defs array_shape_def)
  ultimately show ?thesis
    using element_groups [of "layout_class [0]" "[0, 0, 0, 3]" 1 2] element_groups [of "layout_class [0]" "[0, 0, 0, 3]" 1 0]
    by simp
qed

text \<open>
  C23: \<open>Lockable\<close> implements a re-entrant lock: each operation, with or without a spurious failure of the
  exchange, does what the abstract lock (nobody, or the holder and how often) does, and keeps the
  count consistent with the holder.
\<close>
theorem lockable_refines:
  assumes "lockable_inv l" "r \<noteq> InvalidRequester"
  shows "map_prod id lock_state (lock weak r l) = abs_lock weak r (lock_state l) \<and>
    map_prod id lock_state (lockOnce weak r l) = abs_lockOnce weak r (lock_state l) \<and>
    lockable_inv (snd (lock weak r l)) \<and> lockable_inv (snd (lockOnce weak r l)) \<and>
    (lockRequester l = r \<longrightarrow> lock_state (unlock l) = abs_unlock (lock_state l) \<and> lockable_inv (unlock l))"
  using lock_refines [OF assms] lockOnce_refines [OF assms] lock_inv [OF assms] lockOnce_inv [OF assms]
    unlock_refines [OF assms(1)] unlock_inv [OF assms(1)] assms(2) by auto

lemma lockable_refines_witness:
  "map_prod id lock_state (lock False 3 (new_lockable InvalidRequester)) = (True, Some (3, 1)) \<and>
   lock_state (unlock (new_lockable 3)) = None"
proof -
  have ne: "(3 :: nat) \<noteq> InvalidRequester" by (simp add: InvalidRequester_def size_max_def)
  have "lock_state (new_lockable InvalidRequester) = None" "lock_state (new_lockable 3) = Some (3, 1)"
    "lockRequester (new_lockable 3) = 3"
    using ne by (simp_all add: lock_state_def new_lockable_def)
  then show ?thesis
    using lockable_refines [OF new_lockable_inv ne, of False InvalidRequester] lockable_refines [OF new_lockable_inv ne, of False 3]
    by (simp add: abs_lock_defs)
qed

text \<open>
  mutual exclusion. While the holder of a lock makes no call, whatever calls the others make leave
  the lock as it is, and none of them is told that it got the lock.
\<close>
theorem lock_exclusive:
  assumes "run_lock l os = Some (answers, l')" "lockRequester l = h" "h \<noteq> InvalidRequester"
    "\<forall>oper \<in> set os. lock_op_by oper \<noteq> h"
  shows "l' = l \<and> True \<notin> set answers"
  using others_cannot_lock [OF assms] .

lemma lock_exclusive_witness:
  "run_lock (new_lockable 3) [Lock False 4, LockOnce False 5, Lock True 4] = Some ([False, False, False], new_lockable 3)"
proof -
  have ne: "(3 :: nat) \<noteq> InvalidRequester" by (simp add: InvalidRequester_def size_max_def)
  have f: "lockRequester (new_lockable 3) = 3" by (simp add: new_lockable_def)
  have run: "\<exists>bs l'. run_lock (new_lockable 3) [Lock False 4, LockOnce False 5, Lock True 4] = Some (bs, l')"
    by simp
  then obtain bs l' where r: "run_lock (new_lockable 3) [Lock False 4, LockOnce False 5, Lock True 4] = Some (bs, l')"
    by blast
  have "length bs = 3" using r by (auto simp: map_prod_def)
  moreover have "l' = new_lockable 3 \<and> True \<notin> set bs"
    by (rule lock_exclusive [OF r f ne]) simp
  ultimately have "bs = [False, False, False]"
    by (cases bs; cases "tl bs"; cases "tl (tl bs)") auto
  with r \<open>l' = new_lockable 3 \<and> True \<notin> set bs\<close> show ?thesis by simp
qed

text \<open>
  A captured scope stays readable. Ending the scope changes no answer of its \<open>CapturedScope\<close>
  object: every variable is found at the node it was found at before.
\<close>
theorem captured_scope_survives:
  assumes "storage_inv s" "destroy_scope c a s = Inr t" "objectAt s a = None"
    "scopeAt s c = Some d" "s_captured d" "map_of (s_refs d) CapturedScopeId = Some m" "node_object s m = Some b"
    "objectAt s b = Some ob" "o_scope ob = Some c" "map_of (o_refsMap ob) CapturedScopeId = Some n" "n \<in> set (o_nodes ob)"
  shows "refCaptured b key t = refCaptured b key s \<and> hasCaptured b key t = hasCaptured b key s \<and> scopeAt t c = None"
proof -
  have n: "nodeAt s n \<noteq> None"
    using assms(1,8,11) unfolding storage_inv_def owners_ok_def allocated_def
    by (metis object_nodes_def option.simps(5) owned.simps(2))
  have ab: "a \<noteq> b" using assms(3,8) by auto
  have obj: "object_ref s b CapturedScopeId = Some n" using assms(8,10) by (simp add: object_ref_def)
  have t: "t = on_object b (\<lambda>ob. ob\<lparr>o_scope := None\<rparr>)
      (registerObject a (setObject n (Some a) (place_object a (captured_object d) (drop_scope c s))))"
    using assms(2,4-7) obj by (simp add: destroy_scope_def move_to_object_alt [OF assms(4)])
  have "objectAt t b = Some (ob\<lparr>o_scope := None\<rparr>)" "object_ref t a key = map_of (s_refs d) key"
    "node_object t n = Some a" "scopeAt t c = None"
    using ab assms(8) n
    by (auto simp: t registerObject_def register_generation_def register_index_def on_object_def setObject_def
        on_node_def place_object_def drop_scope_def captured_object_def object_ref_def node_object_def Let_def
        split: option.splits)
  then show ?thesis
    using assms(4,8-10) by (simp add: refCaptured_def hasCaptured_def object_ref_def scope_ref_def)
qed

lemma captured_scope_survives_witness:
  "refCaptured 22 (Suc CapturedScopeId) demo8 = Inr 2 \<and> scopeAt demo8 1 = None"
proof -
  have run: "storage_run True one_scope newStorage demo6" by (rule demo_run6)
  have "storage_step True one_scope demo6 demo7" unfolding demo7_def
    by (rule tidies) (simp add: demo6_facts)
  with run have inv: "storage_inv demo7"
    using run_keeps_inv [OF run inv_newStorage] step_keeps_inv by blast
  have d: "destroy_scope 1 23 demo7 = Inr demo8" using destroy_demo7 by (auto simp: demo8_def)
  have "refCaptured 22 (Suc CapturedScopeId) demo7 = Inr 2"
    by (simp add: refCaptured_def found_def scope_ref_def demo7_facts demo6_facts demo2_facts constructed_def captured_scope_ctor_def)
  moreover have "refCaptured 22 (Suc CapturedScopeId) demo8 = refCaptured 22 (Suc CapturedScopeId) demo7 \<and>
      hasCaptured 22 (Suc CapturedScopeId) demo8 = hasCaptured 22 (Suc CapturedScopeId) demo7 \<and> scopeAt demo8 1 = None"
    by (rule captured_scope_survives [OF inv d, where d = "(the (scopeAt demo2 1))\<lparr>s_captured := True\<rparr>" and m = 1 and n = 5
          and ob = "the (objectAt demo7 22)"])
       (simp_all add: demo7_facts demo6_facts demo3_facts demo2_facts node_object_def constructed_def
          captured_scope_ctor_def captured_layout)
  ultimately show ?thesis by simp
qed

end
