(* ===== verification/Parser_Data.thy ===== *)
theory Parser_Data
  imports Lex_Token
begin

text \<open>
  The data of the parser (\<open>chatra_core/Parser.h\<close>, and the tables \<open>Parser.cpp\<close> fills in
  \<open>initializeOpTables\<close>): node types, literals, operators, the context with its error reports, the
  nodes of expressions, and the operator patterns in the order in which \<open>parseExpression\<close> tries
  them. A \<open>const Token*\<close> is the token with the line it points back to (\<open>None\<close> when that line is
  gone); a node of an expression is not changed once it is part of another node, so it is a value.
\<close>

subsection \<open>Enumerations\<close>

datatype (plugins only: code) node_type =
    Node_Unknown | Node_ScriptRoot | Node_Import | Node_Def | Node_DefOperator | Node_Class |
    Node_Expression | Node_Sync | Node_Touch | Node_Var | Node_IfGroup | Node_If |
    Node_ElseIf | Node_Else | Node_For | Node_While | Node_Switch | Node_Case | Node_Default |
    Node_Do | Node_Catch | Node_Finally | Node_Break | Node_Continue | Node_Return |
    Node_Throw | Node_Literal | Node_Name | Node_Operator

datatype (plugins only: code) literal =
    LitNull
  | LitBool bool
  | LitInt "64 word"
  | LitFloat "64 word"
  | LitString string
  | LitMultilingualString string

datatype (plugins only: code) operator =
    Op_Container | Op_Subscript | Op_Call | Op_Parenthesis | Op_ElementSelection |
    Op_PostfixIncrement | Op_PostfixDecrement | Op_VarArg | Op_PrefixIncrement |
    Op_PrefixDecrement | Op_BitwiseComplement | Op_LogicalNot | Op_UnaryPlus | Op_UnaryMinus |
    Op_TupleExtraction | Op_FunctionObject | Op_Async | Op_Multiplication |
    Op_MultiplicationOv | Op_Division | Op_DivisionFloor | Op_DivisionCeiling | Op_Modulus |
    Op_ModulusFloor | Op_ModulusCeiling | Op_Exponent | Op_Addition | Op_AdditionOv |
    Op_Subtraction | Op_SubtractionOv | Op_LeftShift | Op_RightShift | Op_UnsignedRightShift |
    Op_BitwiseAnd | Op_BitwiseOr | Op_BitwiseXor | Op_LessThan | Op_GreaterThan |
    Op_LessThanOrEqualTo | Op_GreaterThanOrEqualTo | Op_InstanceOf | Op_EqualTo |
    Op_NotEqualTo | Op_LogicalAnd | Op_LogicalOr | Op_LogicalXor | Op_Conditional | Op_Pair |
    Op_Tuple | Op_TupleDelimiter | Op_Assignment | Op_MultiplicationAssignment |
    Op_MultiplicationOvAssignment | Op_DivisionAssignment | Op_DivisionFloorAssignment |
    Op_DivisionCeilingAssignment | Op_ModulusAssignment | Op_ModulusFloorAssignment |
    Op_ModulusCeilingAssignment | Op_ExponentAssignment | Op_AdditionAssignment |
    Op_AdditionOvAssignment | Op_SubtractionAssignment | Op_SubtractionOvAssignment |
    Op_LeftShiftAssignment | Op_RightShiftAssignment | Op_UnsignedRightShiftAssignment |
    Op_BitwiseAndAssignment | Op_BitwiseOrAssignment | Op_BitwiseXorAssignment

definition operators :: "operator list" where
  "operators = [
     Op_Container, Op_Subscript, Op_Call, Op_Parenthesis, Op_ElementSelection,
     Op_PostfixIncrement, Op_PostfixDecrement, Op_VarArg, Op_PrefixIncrement,
     Op_PrefixDecrement, Op_BitwiseComplement, Op_LogicalNot, Op_UnaryPlus, Op_UnaryMinus,
     Op_TupleExtraction, Op_FunctionObject, Op_Async, Op_Multiplication, Op_MultiplicationOv,
     Op_Division, Op_DivisionFloor, Op_DivisionCeiling, Op_Modulus, Op_ModulusFloor,
     Op_ModulusCeiling, Op_Exponent, Op_Addition, Op_AdditionOv, Op_Subtraction,
     Op_SubtractionOv, Op_LeftShift, Op_RightShift, Op_UnsignedRightShift, Op_BitwiseAnd,
     Op_BitwiseOr, Op_BitwiseXor, Op_LessThan, Op_GreaterThan, Op_LessThanOrEqualTo,
     Op_GreaterThanOrEqualTo, Op_InstanceOf, Op_EqualTo, Op_NotEqualTo, Op_LogicalAnd,
     Op_LogicalOr, Op_LogicalXor, Op_Conditional, Op_Pair, Op_Tuple, Op_TupleDelimiter,
     Op_Assignment, Op_MultiplicationAssignment, Op_MultiplicationOvAssignment,
     Op_DivisionAssignment, Op_DivisionFloorAssignment, Op_DivisionCeilingAssignment,
     Op_ModulusAssignment, Op_ModulusFloorAssignment, Op_ModulusCeilingAssignment,
     Op_ExponentAssignment, Op_AdditionAssignment, Op_AdditionOvAssignment,
     Op_SubtractionAssignment, Op_SubtractionOvAssignment, Op_LeftShiftAssignment,
     Op_RightShiftAssignment, Op_UnsignedRightShiftAssignment, Op_BitwiseAndAssignment,
     Op_BitwiseOrAssignment, Op_BitwiseXorAssignment]"

text \<open>The value of an enumerator is its position.\<close>

definition opcode :: "operator \<Rightarrow> nat" where
  "opcode oper = index_of oper operators"

definition Container_Class :: nat where "Container_Class = 0"
definition Container_Args :: nat where "Container_Args = 1"
definition Container_Values :: nat where "Container_Values = 2"
definition Container_SubNodes :: nat where "Container_SubNodes = 3"

subsection \<open>Context and errors\<close>

datatype token_ptr = TokenPtr (tk_line: "line option") (tk: token)

record parse_error = lex_error +
  e_args :: "string list"

record parse_context =
  p_errors :: "parse_error list"
  p_table :: string_table

type_synonym 'a parse = "(parse_context, 'a) comp"

definition getLine :: "token_ptr \<Rightarrow> line parse" where
  "getLine t = (case tk_line t of None \<Rightarrow> lthrow AbortCompiling | Some ln \<Rightarrow> lret ln)"

definition receive ::
    "error_level \<Rightarrow> line \<Rightarrow> nat \<Rightarrow> nat \<Rightarrow> string \<Rightarrow> string list \<Rightarrow> unit parse" where
  "receive level ln first_pos last_pos message args ct =
     Some (Inr (), ct\<lparr>p_errors := p_errors ct @
       [\<lparr>e_level = level, e_fileName = l_fileName ln, e_lineNo = l_lineNo ln, e_line = l_line ln,
         e_first = first_pos, e_last = last_pos, e_message = message, e_args = args\<rparr>]\<rparr>)"

definition errorAtWholeLine :: "error_level \<Rightarrow> line \<Rightarrow> string \<Rightarrow> string list \<Rightarrow> unit parse" where
  "errorAtWholeLine level ln message args = receive level ln size_max size_max message args"

definition errorAtToken :: "error_level \<Rightarrow> token_ptr \<Rightarrow> string \<Rightarrow> string list \<Rightarrow> unit parse" where
  "errorAtToken level t message args =
     lbind (getLine t) (\<lambda>ln. receive level ln (t_first (tk t)) (t_last (tk t)) message args)"

definition errorAtNextToken :: "error_level \<Rightarrow> token_ptr \<Rightarrow> string \<Rightarrow> string list \<Rightarrow> unit parse" where
  "errorAtNextToken level t message args =
     lbind (getLine t) (\<lambda>ln. receive level ln (t_last (tk t)) (t_last (tk t)) message args)"

definition errorAtInnerToken ::
    "error_level \<Rightarrow> token_ptr \<Rightarrow> nat \<Rightarrow> nat \<Rightarrow> string \<Rightarrow> string list \<Rightarrow> unit parse" where
  "errorAtInnerToken level t first_pos last_pos message args =
     lbind (getLine t) (\<lambda>ln. receive level ln (size_add (t_first (tk t)) first_pos)
       (size_add (t_first (tk t)) last_pos) message args)"

text \<open>The text of a string id, as the error messages quote it.\<close>

definition refText :: "nat \<Rightarrow> string parse" where
  "refText sid ct = Some (table_ref (p_table ct) sid, ct)"

subsection \<open>Nodes of expressions\<close>

text \<open>
  \<open>op\<close> is \<open>None\<close> where the code has \<open>defaultOp\<close>, a value that is no operator. A null pointer among
  \<open>subNodes\<close> is \<open>None\<close>.
\<close>

datatype expr = Expr
  (x_type: node_type) (x_tokens: "token_ptr list") (x_sid: nat) (x_literal: "literal option")
  (x_op: "operator option") (x_sub: "expr option list")

definition tokenMatches :: "token_ptr \<Rightarrow> token_type \<Rightarrow> bool" where
  "tokenMatches t type \<longleftrightarrow> t_type (tk t) = type"

definition sidMatches :: "token_ptr \<Rightarrow> nat \<Rightarrow> bool" where
  "sidMatches t sid \<longleftrightarrow> t_sid (tk t) = sid"

definition unknown_node :: "token_ptr list \<Rightarrow> expr option list \<Rightarrow> expr" where
  "unknown_node toks sub = Expr Node_Unknown toks StringId_Invalid None None sub"

definition createNullNode :: "token_ptr \<Rightarrow> expr" where
  "createNullNode t = Expr Node_Name [t] (StringId ''Null'') None None []"

definition createNameNode :: "token_ptr \<Rightarrow> expr" where
  "createNameNode t = Expr Node_Name [t] (t_sid (tk t)) None None []"

definition literal_node :: "token_ptr \<Rightarrow> literal \<Rightarrow> expr" where
  "literal_node t v = Expr Node_Literal [t] StringId_Invalid (Some v) None []"

subsection \<open>Operator tables\<close>

datatype pattern_kind =
    Pt_NameChain
  | Pt_Parenthesis
  | Pt_ParenthesisWithValue
  | Pt_Bracket
  | Pt_Brace
  | Pt_Expression

text \<open>
  An element is an operator token, which has no subnode (index \<open>SIZE_MAX\<close> in the code), or a kind
  of node with the index of the subnode it becomes.
\<close>

datatype op_element = OpToken nat | OpExpect pattern_kind nat

datatype op_pattern =
  Pattern (pat_op: operator) (pat_subNodes: nat) (pat_elements: "op_element list")

datatype pattern_group = Group (leftToRight: bool) (patterns: "op_pattern list")

definition patterns_special :: pattern_group where
  "patterns_special = Group True
    [Pattern Op_Container Container_SubNodes [OpExpect Pt_NameChain Container_Class, OpExpect Pt_Parenthesis Container_Args, OpExpect Pt_Brace Container_Values],
     Pattern Op_Container Container_SubNodes [OpExpect Pt_NameChain Container_Class, OpExpect Pt_Brace Container_Values],
     Pattern Op_Container Container_SubNodes [OpExpect Pt_Brace Container_Values],
     Pattern Op_Subscript 2 [OpExpect Pt_Expression 0, OpExpect Pt_Bracket 1],
     Pattern Op_Call 2 [OpExpect Pt_Expression 0, OpExpect Pt_Parenthesis 1],
     Pattern Op_Parenthesis 1 [OpExpect Pt_ParenthesisWithValue 0],
     Pattern Op_ElementSelection 2 [OpExpect Pt_Expression 0, OpToken (StringId ''OpElementSelection''), OpExpect Pt_Expression 1],
     Pattern Op_ElementSelection 2 [OpExpect Pt_Expression 0, OpToken (StringId ''OpElementSelection''), OpExpect Pt_ParenthesisWithValue 1],
     Pattern Op_PostfixIncrement 1 [OpExpect Pt_Expression 0, OpToken (StringId ''OpIncrement'')],
     Pattern Op_PostfixDecrement 1 [OpExpect Pt_Expression 0, OpToken (StringId ''OpDecrement'')],
     Pattern Op_VarArg 1 [OpExpect Pt_Expression 0, OpToken (StringId ''OpVarArg'')]]"

definition patterns_prefix :: pattern_group where
  "patterns_prefix = Group False
    [Pattern Op_PrefixIncrement 1 [OpToken (StringId ''OpIncrement''), OpExpect Pt_Expression 0],
     Pattern Op_PrefixDecrement 1 [OpToken (StringId ''OpDecrement''), OpExpect Pt_Expression 0],
     Pattern Op_BitwiseComplement 1 [OpToken (StringId ''OpBitwiseComplement''), OpExpect Pt_Expression 0],
     Pattern Op_LogicalNot 1 [OpToken (StringId ''OpLogicalNot''), OpExpect Pt_Expression 0],
     Pattern Op_LogicalNot 1 [OpToken (StringId ''OpLogicalNotText''), OpExpect Pt_Expression 0],
     Pattern Op_UnaryPlus 1 [OpToken (StringId ''OpPlus''), OpExpect Pt_Expression 0],
     Pattern Op_UnaryMinus 1 [OpToken (StringId ''OpMinus''), OpExpect Pt_Expression 0],
     Pattern Op_TupleExtraction 1 [OpToken (StringId ''OpMultiplication''), OpExpect Pt_Expression 0],
     Pattern Op_FunctionObject 1 [OpToken (StringId ''OpBitwiseAnd''), OpExpect Pt_Expression 0],
     Pattern Op_Async 1 [OpToken (StringId ''OpAsync''), OpExpect Pt_Expression 0]]"

definition patterns_multiplier :: pattern_group where
  "patterns_multiplier = Group True
    [Pattern Op_Multiplication 2 [OpExpect Pt_Expression 0, OpToken (StringId ''OpMultiplication''), OpExpect Pt_Expression 1],
     Pattern Op_MultiplicationOv 2 [OpExpect Pt_Expression 0, OpToken (StringId ''OpMultiplicationOv''), OpExpect Pt_Expression 1],
     Pattern Op_Division 2 [OpExpect Pt_Expression 0, OpToken (StringId ''OpDivision''), OpExpect Pt_Expression 1],
     Pattern Op_DivisionFloor 2 [OpExpect Pt_Expression 0, OpToken (StringId ''OpDivisionFloor''), OpExpect Pt_Expression 1],
     Pattern Op_DivisionCeiling 2 [OpExpect Pt_Expression 0, OpToken (StringId ''OpDivisionCeiling''), OpExpect Pt_Expression 1],
     Pattern Op_Modulus 2 [OpExpect Pt_Expression 0, OpToken (StringId ''OpModulus''), OpExpect Pt_Expression 1],
     Pattern Op_ModulusFloor 2 [OpExpect Pt_Expression 0, OpToken (StringId ''OpModulusFloor''), OpExpect Pt_Expression 1],
     Pattern Op_ModulusCeiling 2 [OpExpect Pt_Expression 0, OpToken (StringId ''OpModulusCeiling''), OpExpect Pt_Expression 1],
     Pattern Op_Exponent 2 [OpExpect Pt_Expression 0, OpToken (StringId ''OpExponent''), OpExpect Pt_Expression 1]]"

definition patterns_addition :: pattern_group where
  "patterns_addition = Group True
    [Pattern Op_Addition 2 [OpExpect Pt_Expression 0, OpToken (StringId ''OpPlus''), OpExpect Pt_Expression 1],
     Pattern Op_AdditionOv 2 [OpExpect Pt_Expression 0, OpToken (StringId ''OpAdditionOv''), OpExpect Pt_Expression 1],
     Pattern Op_Subtraction 2 [OpExpect Pt_Expression 0, OpToken (StringId ''OpMinus''), OpExpect Pt_Expression 1],
     Pattern Op_SubtractionOv 2 [OpExpect Pt_Expression 0, OpToken (StringId ''OpSubtractionOv''), OpExpect Pt_Expression 1]]"

definition patterns_shift :: pattern_group where
  "patterns_shift = Group True
    [Pattern Op_LeftShift 2 [OpExpect Pt_Expression 0, OpToken (StringId ''OpLeftShift''), OpExpect Pt_Expression 1],
     Pattern Op_RightShift 2 [OpExpect Pt_Expression 0, OpToken (StringId ''OpRightShift''), OpExpect Pt_Expression 1],
     Pattern Op_UnsignedRightShift 2 [OpExpect Pt_Expression 0, OpToken (StringId ''OpUnsignedRightShift''), OpExpect Pt_Expression 1]]"

definition patterns_bitwise_and :: pattern_group where
  "patterns_bitwise_and = Group True
    [Pattern Op_BitwiseAnd 2 [OpExpect Pt_Expression 0, OpToken (StringId ''OpBitwiseAnd''), OpExpect Pt_Expression 1]]"

definition patterns_bitwise_or :: pattern_group where
  "patterns_bitwise_or = Group True
    [Pattern Op_BitwiseOr 2 [OpExpect Pt_Expression 0, OpToken (StringId ''OpBitwiseOr''), OpExpect Pt_Expression 1]]"

definition patterns_bitwise_xor :: pattern_group where
  "patterns_bitwise_xor = Group True
    [Pattern Op_BitwiseXor 2 [OpExpect Pt_Expression 0, OpToken (StringId ''OpBitwiseXor''), OpExpect Pt_Expression 1]]"

definition patterns_relation :: pattern_group where
  "patterns_relation = Group True
    [Pattern Op_LessThan 2 [OpExpect Pt_Expression 0, OpToken (StringId ''OpLessThan''), OpExpect Pt_Expression 1],
     Pattern Op_GreaterThan 2 [OpExpect Pt_Expression 0, OpToken (StringId ''OpGreaterThan''), OpExpect Pt_Expression 1],
     Pattern Op_LessThanOrEqualTo 2 [OpExpect Pt_Expression 0, OpToken (StringId ''OpLessThanOrEqualTo''), OpExpect Pt_Expression 1],
     Pattern Op_GreaterThanOrEqualTo 2 [OpExpect Pt_Expression 0, OpToken (StringId ''OpGreaterThanOrEqualTo''), OpExpect Pt_Expression 1],
     Pattern Op_InstanceOf 2 [OpExpect Pt_Expression 0, OpToken (StringId ''OpInstanceOf''), OpExpect Pt_Expression 1]]"

definition patterns_equality :: pattern_group where
  "patterns_equality = Group True
    [Pattern Op_EqualTo 2 [OpExpect Pt_Expression 0, OpToken (StringId ''OpEqualTo''), OpExpect Pt_Expression 1],
     Pattern Op_NotEqualTo 2 [OpExpect Pt_Expression 0, OpToken (StringId ''OpNotEqualTo''), OpExpect Pt_Expression 1]]"

definition patterns_logical_and :: pattern_group where
  "patterns_logical_and = Group True
    [Pattern Op_LogicalAnd 2 [OpExpect Pt_Expression 0, OpToken (StringId ''OpLogicalAnd''), OpExpect Pt_Expression 1],
     Pattern Op_LogicalAnd 2 [OpExpect Pt_Expression 0, OpToken (StringId ''OpLogicalAndText''), OpExpect Pt_Expression 1]]"

definition patterns_logical_or :: pattern_group where
  "patterns_logical_or = Group True
    [Pattern Op_LogicalOr 2 [OpExpect Pt_Expression 0, OpToken (StringId ''OpLogicalOr''), OpExpect Pt_Expression 1],
     Pattern Op_LogicalOr 2 [OpExpect Pt_Expression 0, OpToken (StringId ''OpLogicalOrText''), OpExpect Pt_Expression 1]]"

definition patterns_logical_xor :: pattern_group where
  "patterns_logical_xor = Group True
    [Pattern Op_LogicalXor 2 [OpExpect Pt_Expression 0, OpToken (StringId ''OpLogicalXor''), OpExpect Pt_Expression 1],
     Pattern Op_LogicalXor 2 [OpExpect Pt_Expression 0, OpToken (StringId ''OpLogicalXorText''), OpExpect Pt_Expression 1]]"

definition patterns_conditional :: pattern_group where
  "patterns_conditional = Group False
    [Pattern Op_Conditional 3 [OpExpect Pt_Expression 0, OpToken (StringId ''OpConditional''), OpExpect Pt_Expression 1,
       OpToken (StringId ''Colon''), OpExpect Pt_Expression 2]]"

definition patterns_pair :: pattern_group where
  "patterns_pair = Group False
    [Pattern Op_Pair 2 [OpExpect Pt_Expression 0, OpToken (StringId ''Colon''), OpExpect Pt_Expression 1]]"

definition patterns_tuple :: pattern_group where
  "patterns_tuple = Group True
    [Pattern Op_Tuple 2 [OpExpect Pt_Expression 0, OpToken (StringId ''Comma''), OpExpect Pt_Expression 1],
     Pattern Op_TupleDelimiter 2 [OpExpect Pt_Expression 0, OpToken (StringId ''OpTupleDelimiter''), OpExpect Pt_Expression 1]]"

definition patterns_leading_delimiter :: pattern_group where
  "patterns_leading_delimiter = Group False
    [Pattern Op_TupleDelimiter 2 [OpToken (StringId ''OpTupleDelimiter''), OpExpect Pt_Expression 1]]"

definition patterns_trailing_delimiter :: pattern_group where
  "patterns_trailing_delimiter = Group True
    [Pattern Op_TupleDelimiter 2 [OpExpect Pt_Expression 0, OpToken (StringId ''OpTupleDelimiter'')]]"

definition patterns_assignment :: pattern_group where
  "patterns_assignment = Group False
    [Pattern Op_Assignment 2 [OpExpect Pt_Expression 0, OpToken (StringId ''OpAssignment''), OpExpect Pt_Expression 1],
     Pattern Op_MultiplicationAssignment 2 [OpExpect Pt_Expression 0, OpToken (StringId ''OpMultiplicationAssignment''), OpExpect Pt_Expression 1],
     Pattern Op_MultiplicationOvAssignment 2 [OpExpect Pt_Expression 0, OpToken (StringId ''OpMultiplicationOvAssignment''), OpExpect Pt_Expression 1],
     Pattern Op_DivisionAssignment 2 [OpExpect Pt_Expression 0, OpToken (StringId ''OpDivisionAssignment''), OpExpect Pt_Expression 1],
     Pattern Op_DivisionFloorAssignment 2 [OpExpect Pt_Expression 0, OpToken (StringId ''OpDivisionFloorAssignment''), OpExpect Pt_Expression 1],
     Pattern Op_DivisionCeilingAssignment 2 [OpExpect Pt_Expression 0, OpToken (StringId ''OpDivisionCeilingAssignment''), OpExpect Pt_Expression 1],
     Pattern Op_ModulusAssignment 2 [OpExpect Pt_Expression 0, OpToken (StringId ''OpModulusAssignment''), OpExpect Pt_Expression 1],
     Pattern Op_ModulusFloorAssignment 2 [OpExpect Pt_Expression 0, OpToken (StringId ''OpModulusFloorAssignment''), OpExpect Pt_Expression 1],
     Pattern Op_ModulusCeilingAssignment 2 [OpExpect Pt_Expression 0, OpToken (StringId ''OpModulusCeilingAssignment''), OpExpect Pt_Expression 1],
     Pattern Op_ExponentAssignment 2 [OpExpect Pt_Expression 0, OpToken (StringId ''OpExponentAssignment''), OpExpect Pt_Expression 1],
     Pattern Op_AdditionAssignment 2 [OpExpect Pt_Expression 0, OpToken (StringId ''OpAdditionAssignment''), OpExpect Pt_Expression 1],
     Pattern Op_AdditionOvAssignment 2 [OpExpect Pt_Expression 0, OpToken (StringId ''OpAdditionOvAssignment''), OpExpect Pt_Expression 1],
     Pattern Op_SubtractionAssignment 2 [OpExpect Pt_Expression 0, OpToken (StringId ''OpSubtractionAssignment''), OpExpect Pt_Expression 1],
     Pattern Op_SubtractionOvAssignment 2 [OpExpect Pt_Expression 0, OpToken (StringId ''OpSubtractionOvAssignment''), OpExpect Pt_Expression 1],
     Pattern Op_LeftShiftAssignment 2 [OpExpect Pt_Expression 0, OpToken (StringId ''OpLeftShiftAssignment''), OpExpect Pt_Expression 1],
     Pattern Op_RightShiftAssignment 2 [OpExpect Pt_Expression 0, OpToken (StringId ''OpRightShiftAssignment''), OpExpect Pt_Expression 1],
     Pattern Op_UnsignedRightShiftAssignment 2 [OpExpect Pt_Expression 0, OpToken (StringId ''OpRightShiftUnsignedAssignment''), OpExpect Pt_Expression 1],
     Pattern Op_BitwiseAndAssignment 2 [OpExpect Pt_Expression 0, OpToken (StringId ''OpBitwiseAndAssignment''), OpExpect Pt_Expression 1],
     Pattern Op_BitwiseOrAssignment 2 [OpExpect Pt_Expression 0, OpToken (StringId ''OpBitwiseOrAssignment''), OpExpect Pt_Expression 1],
     Pattern Op_BitwiseXorAssignment 2 [OpExpect Pt_Expression 0, OpToken (StringId ''OpBitwiseXorAssignment''), OpExpect Pt_Expression 1]]"

definition opPatterns :: "pattern_group list" where
  "opPatterns = [
     patterns_special, patterns_prefix, patterns_multiplier, patterns_addition, patterns_shift,
     patterns_bitwise_and, patterns_bitwise_or, patterns_bitwise_xor, patterns_relation,
     patterns_equality, patterns_logical_and, patterns_logical_or, patterns_logical_xor,
     patterns_conditional, patterns_pair, patterns_tuple, patterns_leading_delimiter,
     patterns_trailing_delimiter, patterns_assignment]"

definition opPairPattern :: op_pattern where
  "opPairPattern =
     Pattern Op_Pair 2 [OpExpect Pt_Expression 0, OpToken (StringId ''Colon''), OpExpect Pt_Expression 1]"

datatype operator_type = Type_Prefix | Type_Postfix | Type_Binary | Type_Ternary | Type_Special

datatype op_attributes =
  Attributes (attr_type: operator_type) (allowOverride: bool) (description: string)

definition sourceForOpAttrs :: "(operator \<times> op_attributes) list" where
  "sourceForOpAttrs =
    [(Op_Container, Attributes Type_Special False ''container initializer''),
     (Op_Subscript, Attributes Type_Special False ''subscripting''),
     (Op_Call, Attributes Type_Special False ''function call''),
     (Op_Parenthesis, Attributes Type_Special False ''parenthesis''),
     (Op_ElementSelection, Attributes Type_Binary False ''element selection (.)''),
     (Op_PostfixIncrement, Attributes Type_Postfix True ''postfix increment (++)''),
     (Op_PostfixDecrement, Attributes Type_Postfix True ''postfix decrement (--)''),
     (Op_VarArg, Attributes Type_Postfix False ''variadic arguments (...)''),
     (Op_PrefixIncrement, Attributes Type_Prefix True ''prefix increment (++)''),
     (Op_PrefixDecrement, Attributes Type_Prefix True ''prefix decrement (--)''),
     (Op_BitwiseComplement, Attributes Type_Prefix True ''bitwise complement (~)''),
     (Op_LogicalNot, Attributes Type_Prefix True ''logical NOT (!, not)''),
     (Op_UnaryPlus, Attributes Type_Prefix True ''unary plus (+)''),
     (Op_UnaryMinus, Attributes Type_Prefix True ''unary minus (-)''),
     (Op_TupleExtraction, Attributes Type_Prefix False ''tuple extraction (*)''),
     (Op_FunctionObject, Attributes Type_Prefix False ''function object (&)''),
     (Op_Async, Attributes Type_Prefix False ''asynchronous evaluation (async)''),
     (Op_Multiplication, Attributes Type_Binary True ''multiplication (*)''),
     (Op_MultiplicationOv, Attributes Type_Binary True ''multiplication with ignoring overflow (&*)''),
     (Op_Division, Attributes Type_Binary True ''division (/)''),
     (Op_DivisionFloor, Attributes Type_Binary True ''division with rounding down (/-)''),
     (Op_DivisionCeiling, Attributes Type_Binary True ''division with rounding up (/+)''),
     (Op_Modulus, Attributes Type_Binary True ''modulus (%)''),
     (Op_ModulusFloor, Attributes Type_Binary True ''modulus with rounding down (%-)''),
     (Op_ModulusCeiling, Attributes Type_Binary True ''modulus with rounding up (%+)''),
     (Op_Exponent, Attributes Type_Binary True ''exponent (**)''),
     (Op_Addition, Attributes Type_Binary True ''addition (+)''),
     (Op_AdditionOv, Attributes Type_Binary True ''addition with ignoring overflow (&+)''),
     (Op_Subtraction, Attributes Type_Binary True ''subtraction (-)''),
     (Op_SubtractionOv, Attributes Type_Binary True ''subtraction with ignoring overflow (&-)''),
     (Op_LeftShift, Attributes Type_Binary True ''left shift (<<)''),
     (Op_RightShift, Attributes Type_Binary True ''right shift (>>)''),
     (Op_UnsignedRightShift, Attributes Type_Binary True ''right shift with zero extension (>>>)''),
     (Op_BitwiseAnd, Attributes Type_Binary True ''bitwise AND (&)''),
     (Op_BitwiseOr, Attributes Type_Binary True ''bitwise OR (|)''),
     (Op_BitwiseXor, Attributes Type_Binary True (''bitwise XOR ('' @ [CHR 0x5E] @ '')'')),
     (Op_LessThan, Attributes Type_Binary True ''less than (<)''),
     (Op_GreaterThan, Attributes Type_Binary True ''greater than (>)''),
     (Op_LessThanOrEqualTo, Attributes Type_Binary True ''less than or equal to (<=)''),
     (Op_GreaterThanOrEqualTo, Attributes Type_Binary True ''greater than or equal to (>=)''),
     (Op_InstanceOf, Attributes Type_Binary False ''instance of (is)''),
     (Op_EqualTo, Attributes Type_Binary True ''equal to (==)''),
     (Op_NotEqualTo, Attributes Type_Binary True ''not equal to (!=)''),
     (Op_LogicalAnd, Attributes Type_Binary False ''logical AND (&&, and)''),
     (Op_LogicalOr, Attributes Type_Binary False ''logical OR (||, or)''),
     (Op_LogicalXor, Attributes Type_Binary False (''logical XOR ('' @ [CHR 0x5E] @ [CHR 0x5E] @ '', xor)'')),
     (Op_Conditional, Attributes Type_Ternary False ''conditional (?:)''),
     (Op_Pair, Attributes Type_Binary False ''pair (:)''),
     (Op_Tuple, Attributes Type_Binary False ''tuple (,)''),
     (Op_TupleDelimiter, Attributes Type_Binary False ''tuple delimiter (;)''),
     (Op_Assignment, Attributes Type_Binary True ''assignment (=)''),
     (Op_MultiplicationAssignment, Attributes Type_Binary True ''multiplication and assignment (*=)''),
     (Op_MultiplicationOvAssignment, Attributes Type_Binary True ''multiplication with ignoring overflow and assignment (&*=)''),
     (Op_DivisionAssignment, Attributes Type_Binary True ''division and assignment (/=)''),
     (Op_DivisionFloorAssignment, Attributes Type_Binary True ''division with rounding down and assignment (/-=)''),
     (Op_DivisionCeilingAssignment, Attributes Type_Binary True ''division with rounding up and assignment (/+=)''),
     (Op_ModulusAssignment, Attributes Type_Binary True ''modulus and assignment (%=)''),
     (Op_ModulusFloorAssignment, Attributes Type_Binary True ''modulus with rounding down and assignment (%-=)''),
     (Op_ModulusCeilingAssignment, Attributes Type_Binary True ''modulus with rounding up and assignment (%+=)''),
     (Op_ExponentAssignment, Attributes Type_Binary True ''exponent and assignment (**=)''),
     (Op_AdditionAssignment, Attributes Type_Binary True ''addition and assignment (+=)''),
     (Op_AdditionOvAssignment, Attributes Type_Binary True ''addition with ignoring overflow and assignment (&+=)''),
     (Op_SubtractionAssignment, Attributes Type_Binary True ''subtraction and assignment (-=)''),
     (Op_SubtractionOvAssignment, Attributes Type_Binary True ''subtraction with ignoring overflow and assignment (&-=)''),
     (Op_LeftShiftAssignment, Attributes Type_Binary True ''left shift and assignment (<<=)''),
     (Op_RightShiftAssignment, Attributes Type_Binary True ''right shift and assignment (>>=)''),
     (Op_UnsignedRightShiftAssignment, Attributes Type_Binary True ''right shift with zero extension and assignment (>>>=)''),
     (Op_BitwiseAndAssignment, Attributes Type_Binary True ''bitwise AND and assignment (&=)''),
     (Op_BitwiseOrAssignment, Attributes Type_Binary True ''bitwise OR and assignment (|=)''),
     (Op_BitwiseXorAssignment, Attributes Type_Binary True (''bitwise XOR and assignment ('' @ [CHR 0x5E] @ ''=)''))]"

text \<open>
  \<open>opAttrs\<close> is the vector of the attributes indexed by the operator. The table lists the operators
  in the order of the enumeration, so the vector is its second column.
\<close>

definition opAttrs :: "op_attributes list" where
  "opAttrs = List.map snd sourceForOpAttrs"

definition getOpAttr :: "operator \<Rightarrow> op_attributes" where
  "getOpAttr oper = opAttrs ! opcode oper"

end
