(* ===== verification/Literal_Parser.thy ===== *)
theory Literal_Parser
  imports Parser_Data
begin

text \<open>
  Literals (\<open>parseNumericLiteral\<close> to \<open>parseAsLiteral\<close> of \<open>chatra_core/Parser.cpp\<close>). \<open>std::stoull\<close> is
  written out for the C locale. \<open>std::stod\<close> is an argument: what it makes of a text is a double
  (its 64 bits) with the number of characters it read, or one of its two exceptions.
\<close>

subsection \<open>Numbers\<close>

datatype 'v conversion = Converted 'v nat | Invalid_argument | Out_of_range

type_synonym stod = "string \<Rightarrow> 64 word conversion"

definition digit_value :: "char \<Rightarrow> nat option" where
  "digit_value c =
     (let n = of_char c
      in if 48 \<le> n \<and> n \<le> 57 then Some (n - 48)
         else if 97 \<le> n \<and> n \<le> 122 then Some (n - 97 + 10)
         else if 65 \<le> n \<and> n \<le> 90 then Some (n - 65 + 10)
         else None)"

definition is_digit :: "nat \<Rightarrow> char \<Rightarrow> bool" where
  "is_digit radix c = (case digit_value c of None \<Rightarrow> False | Some d \<Rightarrow> d < radix)"

definition c_isspace :: "char \<Rightarrow> bool" where
  "c_isspace c \<longleftrightarrow> c \<in> {CHR '' '', CHR 0x09, CHR 0x0A, CHR 0x0B, CHR 0x0C, CHR 0x0D}"

definition digits_value :: "nat \<Rightarrow> string \<Rightarrow> nat" where
  "digits_value radix ds = foldl (\<lambda>v c. radix * v + the (digit_value c)) 0 ds"

definition hex_prefix :: "string \<Rightarrow> nat" where
  "hex_prefix s =
     (case s of
        z # x # d # _ \<Rightarrow>
          if z = CHR ''0'' \<and> (x = CHR ''x'' \<or> x = CHR ''X'') \<and> is_digit 16 d then 2 else 0
      | _ \<Rightarrow> 0)"

definition stoull :: "nat \<Rightarrow> string \<Rightarrow> 64 word conversion" where
  "stoull radix str =
     (let sp = length (takeWhile c_isspace str);
          s1 = drop sp str;
          sg = (if s1 \<noteq> [] \<and> (hd s1 = CHR ''+'' \<or> hd s1 = CHR ''-'') then 1 else 0);
          s2 = drop sg s1;
          px = (if radix = 16 then hex_prefix s2 else 0);
          ds = takeWhile (is_digit radix) (drop px s2);
          v = digits_value radix ds
      in if ds = [] then Invalid_argument
         else if 2 ^ 64 \<le> v then Out_of_range
         else Converted (if sg = 1 \<and> hd s1 = CHR ''-'' then - word_of_nat v else word_of_nat v)
                (sp + sg + px + length ds))"

definition parseNumericLiteral ::
    "token_ptr \<Rightarrow> string \<Rightarrow> nat \<Rightarrow> string \<Rightarrow> (string \<Rightarrow> 64 word conversion) \<Rightarrow> 64 word parse" where
  "parseNumericLiteral token str index literalType converter =
     (let targetStr = filter (\<lambda>c. c \<noteq> CHR ''_'') (drop index str)
      in case converter targetStr of
           Converted v idx \<Rightarrow>
             if idx < length targetStr then
               lbind (errorAtToken Error token
                   (''invalid digit ${0} in '' @ literalType @ '' constant'') [substr targetStr idx 1])
                 (\<lambda>_. lret 0)
             else lret v
         | Invalid_argument \<Rightarrow>
             lbind (errorAtToken Error token (''invalid '' @ literalType @ '' constant'') [])
               (\<lambda>_. lret 0)
         | Out_of_range \<Rightarrow>
             lbind (errorAtToken Error token (literalType @ '' constant is out of range'') [])
               (\<lambda>_. lret 0))"

definition parseIntLiteral ::
    "token_ptr \<Rightarrow> string \<Rightarrow> nat \<Rightarrow> string \<Rightarrow> nat \<Rightarrow> 64 word parse" where
  "parseIntLiteral token str index literalType radix =
     parseNumericLiteral token str index literalType (stoull radix)"

definition parseFloatLiteral :: "stod \<Rightarrow> token_ptr \<Rightarrow> string \<Rightarrow> nat \<Rightarrow> 64 word parse" where
  "parseFloatLiteral stod token str index = parseNumericLiteral token str index ''floating'' stod"

definition parseBooleanLiteral :: "token_ptr \<Rightarrow> nat \<Rightarrow> bool parse" where
  "parseBooleanLiteral token sid =
     (if sid = StringId ''True'' then lret True
      else if sid = StringId ''False'' then lret False
      else lbind (errorAtToken Error token ''invalid boolean constant'' []) (\<lambda>_. lret False))"

subsection \<open>Strings\<close>

definition hex_digit :: "char \<Rightarrow> nat option" where
  "hex_digit c =
     (let n = of_char c
      in if 48 \<le> n \<and> n \<le> 57 then Some (n - 48)
         else if 97 \<le> n \<and> n \<le> 102 then Some (n - 97 + 10)
         else if 65 \<le> n \<and> n \<le> 70 then Some (n - 65 + 10)
         else None)"

text \<open>
  The loop over the four digits; \<open>None\<close> after an error. \<open>k\<close> is the number of digits left.
\<close>

fun universal_loop ::
    "token_ptr \<Rightarrow> string \<Rightarrow> nat \<Rightarrow> nat \<Rightarrow> nat \<Rightarrow> (nat \<times> nat) option parse" where
  "universal_loop token str 0 index code = lret (Some (index, code))"
| "universal_loop token str (Suc k) index code =
     (case hex_digit (char_at str index) of
        Some digit \<Rightarrow> universal_loop token str k (index + 1) (code * 16 + digit)
      | None \<Rightarrow>
          lbind (errorAtInnerToken Error token index (index + byteCount str index)
                   ''invalid digit in universal character'' [])
            (\<lambda>_. lret None))"

text \<open>
  The result is the new index and the new value of \<open>ret\<close>, or \<open>None\<close> where the code returns \<open>false\<close>.
\<close>

definition parseUniversalCharacter ::
    "token_ptr \<Rightarrow> string \<Rightarrow> nat \<Rightarrow> string \<Rightarrow> (nat \<times> string) option parse" where
  "parseUniversalCharacter token str index ret =
     (if index + 4 > length str then
        lbind (errorAtInnerToken Warning token (index - 2) (length str)
                 ''incomplete universal character name'' [])
          (\<lambda>_. lret None)
      else
        lbind (universal_loop token str 4 index 0) (\<lambda>r.
          case r of
            None \<Rightarrow> lret None
          | Some (index1, code) \<Rightarrow>
              let buffer = extractChar (word_of_nat code)
              in if length buffer = 0 then
                   lbind (errorAtInnerToken Error token (index - 2) index1
                            ''universal character out of range'' [])
                     (\<lambda>_. lret None)
                 else lret (Some (index1, ret @ buffer))))"

text \<open>The characters that an escape sequence of one character stands for.\<close>

definition control_escape :: "char \<Rightarrow> char option" where
  "control_escape c =
     (if c = CHR ''0'' then Some (CHR 0x00) else if c = CHR ''a'' then Some (CHR 0x07)
      else if c = CHR ''b'' then Some (CHR 0x08) else if c = CHR ''f'' then Some (CHR 0x0C)
      else if c = CHR ''n'' then Some (CHR 0x0A) else if c = CHR ''r'' then Some (CHR 0x0D)
      else if c = CHR ''t'' then Some (CHR 0x09) else if c = CHR ''v'' then Some (CHR 0x0B)
      else None)"

text \<open>One escape sequence; \<open>index\<close> is the position after the backslash.\<close>

definition string_escape ::
    "token_ptr \<Rightarrow> char \<Rightarrow> string \<Rightarrow> nat \<Rightarrow> string \<Rightarrow> (nat \<times> string) option parse" where
  "string_escape token quot str index ret =
     (let c = char_at str index
      in if c = CHR 0x27 \<or> c = CHR 0x22 then
           lbind (if c \<noteq> quot then errorAtInnerToken Warning token (index - 1) (index + 1)
                                    ''redundant character escape'' []
                  else lret ())
             (\<lambda>_. lret (Some (index + 1, ret @ [c])))
         else if c = CHR 0x5C then lret (Some (index + 1, ret @ [c]))
         else if c = CHR ''u'' then parseUniversalCharacter token str (index + 1) ret
         else case control_escape c of
             Some d \<Rightarrow> lret (Some (index + 1, ret @ [d]))
           | None \<Rightarrow>
               lbind (errorAtInnerToken Warning token index (index + byteCount str index)
                        ''unknown escape sequence'' [])
                 (\<lambda>_. lret None))"

partial_function (option) string_loop ::
    "token_ptr \<Rightarrow> char \<Rightarrow> string \<Rightarrow> nat \<Rightarrow> string \<Rightarrow> parse_context \<Rightarrow>
       (string result \<times> parse_context) option" where
  [code]: "string_loop token quot str index ret ct =
     (if index < length str then
        if str ! index \<noteq> CHR 0x5C then
          string_loop token quot str (index + byteCount str index)
            (ret @ substr str index (byteCount str index)) ct
        else
          case string_escape token quot str (index + 1) ret ct of
            None \<Rightarrow> None
          | Some (Inl e, ct1) \<Rightarrow> Some (Inl e, ct1)
          | Some (Inr None, ct1) \<Rightarrow> Some (Inr [], ct1)
          | Some (Inr (Some (index1, ret1)), ct1) \<Rightarrow> string_loop token quot str index1 ret1 ct1
      else Some (Inr ret, ct))"

definition parseStringLiteral :: "token_ptr \<Rightarrow> string \<Rightarrow> nat \<Rightarrow> string parse" where
  "parseStringLiteral token str index =
     string_loop token (char_at str index) str (index + 1) []"

partial_function (option) regexp_loop ::
    "char \<Rightarrow> string \<Rightarrow> nat \<Rightarrow> string \<Rightarrow> parse_context \<Rightarrow> (string result \<times> parse_context) option" where
  [code]: "regexp_loop quot str index ret ct =
     (if index < length str then
        if str ! index \<noteq> quot then
          regexp_loop quot str (index + byteCount str index)
            (ret @ substr str index (byteCount str index)) ct
        else regexp_loop quot str (index + 2) (ret @ [quot]) ct
      else Some (Inr ret, ct))"

definition parseRegexpStringLiteral :: "string \<Rightarrow> nat \<Rightarrow> string parse" where
  "parseRegexpStringLiteral str index = regexp_loop (char_at str index) str (index + 1) []"

partial_function (option) raw_loop ::
    "token_ptr \<Rightarrow> string \<Rightarrow> string \<Rightarrow> nat \<Rightarrow> string \<Rightarrow> parse_context \<Rightarrow>
       (string result \<times> parse_context) option" where
  [code]: "raw_loop token pre str index ret ct =
     (if index < length str then
        if str ! index \<noteq> CHR 0x0A then
          raw_loop token pre str (index + byteCount str index)
            (ret @ substr str index (byteCount str index)) ct
        else if length str < index + 1 + length pre \<or> substr str (index + 1) (length pre) \<noteq> pre then
          lbind (errorAtInnerToken Error token (index + 1) (index + 1) ''indent mismatch'' [])
            (\<lambda>_. lret []) ct
        else raw_loop token pre str (index + 1 + length pre) (ret @ [CHR 0x0A]) ct
      else Some (Inr ret, ct))"

definition parseRawStringLiteral :: "token_ptr \<Rightarrow> string \<Rightarrow> nat \<Rightarrow> string parse" where
  "parseRawStringLiteral token str index =
     (let pre = takeWhile isSpace (drop index str)
      in raw_loop token pre str (index + length pre) [])"

subsection \<open>parseAsLiteral\<close>

definition isLiteral :: "token_ptr \<Rightarrow> bool" where
  "isLiteral t \<longleftrightarrow>
     t_type (tk t) = TokenNumber \<or> t_type (tk t) = TokenString \<or>
     t_sid (tk t) = StringId ''Null'' \<or> t_sid (tk t) = StringId ''True'' \<or>
     t_sid (tk t) = StringId ''False''"

definition number_literal :: "stod \<Rightarrow> token_ptr \<Rightarrow> literal parse" where
  "number_literal stod token =
     (let t = t_literal (tk token)
      in if startsWith t 0 ''0x'' then
           lbind (parseIntLiteral token t 2 ''hexadecimal'' 16) (\<lambda>v. lret (LitInt v))
         else if startsWith t 0 ''0b'' then
           lbind (parseIntLiteral token t 2 ''binary'' 2) (\<lambda>v. lret (LitInt v))
         else if CHR ''.'' \<in> set t then
           lbind (parseFloatLiteral stod token t 0) (\<lambda>v. lret (LitFloat v))
         else lbind (parseIntLiteral token t 0 ''decimal'' 10) (\<lambda>v. lret (LitInt v)))"

text \<open>
  A string token that starts with none of the four prefixes keeps the empty text of a new \<open>Literal\<close>.
\<close>

definition string_literal :: "token_ptr \<Rightarrow> literal parse" where
  "string_literal token =
     (let t = t_literal (tk token)
      in if startsWith t 0 [CHR 0x27] \<or> startsWith t 0 [CHR 0x22] then
           lbind (parseStringLiteral token t 0) (\<lambda>s. lret (LitString s))
         else if startsWith t 0 [CHR ''L'', CHR 0x27] \<or> startsWith t 0 [CHR ''L'', CHR 0x22] then
           lbind (parseStringLiteral token t 1) (\<lambda>s. lret (LitMultilingualString s))
         else if startsWith t 0 [CHR ''r'', CHR 0x27] \<or> startsWith t 0 [CHR ''r'', CHR 0x22] then
           lbind (parseRegexpStringLiteral t 1) (\<lambda>s. lret (LitString s))
         else if startsWith t 0 (''R<<<'' @ [CHR 0x0A]) then
           lbind (parseRawStringLiteral token t 5) (\<lambda>s. lret (LitString s))
         else lret (LitString []))"

definition parseAsLiteral :: "stod \<Rightarrow> token_ptr \<Rightarrow> expr parse" where
  "parseAsLiteral stod token =
     lbind
       (case t_type (tk token) of
          TokenNumber \<Rightarrow> number_literal stod token
        | TokenName \<Rightarrow>
            if t_sid (tk token) = StringId ''Null'' then lret LitNull
            else lbind (parseBooleanLiteral token (t_sid (tk token))) (\<lambda>b. lret (LitBool b))
        | TokenString \<Rightarrow> string_literal token
        | _ \<Rightarrow>
            lbind (errorAtToken Error token ''internal error'' []) (\<lambda>_. lthrow AbortCompiling))
       (\<lambda>v. lret (literal_node token v))"

end
