(* ===== verification/Literal_Facts.thy ===== *)
theory Literal_Facts
  imports Literal_Parser Utf8
begin

text \<open>
  Facts about literals: decimal constants are read as the number they show, a string literal is
  the concatenation of what its characters and escape sequences stand for, and on UTF-8 text every
  literal is read to its end.
\<close>

subsection \<open>Numbers\<close>

text \<open>Decimal notation.\<close>

fun decimal :: "nat \<Rightarrow> string" where
  "decimal n = (if n < 10 then [char_of (48 + n)] else decimal (n div 10) @ [char_of (48 + n mod 10)])"

declare decimal.simps [simp del]

lemma digit_char:
  assumes "d < 10"
  shows "digit_value (char_of (48 + d)) = Some d" "is_digit 10 (char_of (48 + d))"
    "of_char (char_of (48 + d) :: char) = 48 + d"
  using assms by (simp_all add: digit_value_def is_digit_def Let_def)

lemma decimal_digits: "c \<in> set (decimal n) \<Longrightarrow> \<exists>d < 10. c = char_of (48 + d :: nat)"
proof (induction n rule: decimal.induct)
  case (1 n)
  show ?case
  proof (cases "n < 10")
    case True
    with 1(2) show ?thesis
      by (auto simp: decimal.simps [of n])
  next
    case False
    with 1(2) have "c \<in> set (decimal (n div 10)) \<or> c = char_of (48 + n mod 10)"
      by (auto simp: decimal.simps [of n])
    with 1(1) False show ?thesis
      by (metis mod_less_divisor zero_less_numeral)
  qed
qed

lemma decimal_not_Nil [simp]: "decimal n \<noteq> []"
  by (subst decimal.simps) simp

lemma decimal_value: "digits_value 10 (decimal n) = n"
proof (induction n rule: decimal.induct)
  case (1 n)
  then show ?case
    by (subst decimal.simps) (simp add: digits_value_def digit_char)
qed

lemma decimal_char:
  assumes "c \<in> set (decimal n)"
  shows "is_digit 10 c" "\<not> c_isspace c" "c \<noteq> CHR ''+''" "c \<noteq> CHR ''-''" "c \<noteq> CHR ''x''"
    "c \<noteq> CHR ''b''" "c \<noteq> CHR ''.''" "c \<noteq> CHR ''_''"
proof -
  obtain d :: nat where d: "d < 10" "c = char_of (48 + d)"
    using decimal_digits [OF assms] by blast
  then show "is_digit 10 c" by (simp add: digit_char)
  have "of_char c = 48 + d"
    using d by (simp add: digit_char)
  with d(1) show "\<not> c_isspace c" "c \<noteq> CHR ''+''" "c \<noteq> CHR ''-''" "c \<noteq> CHR ''x''"
    "c \<noteq> CHR ''b''" "c \<noteq> CHR ''.''" "c \<noteq> CHR ''_''"
    by (auto simp: c_isspace_def)
qed

lemma stoull_decimal:
  "stoull 10 (decimal n) =
     (if 2 ^ 64 \<le> n then Out_of_range else Converted (word_of_nat n) (length (decimal n)))"
proof -
  have hd: "hd (decimal n) \<in> set (decimal n)" by simp
  have "takeWhile c_isspace (decimal n) = []"
    using decimal_char(2) [OF hd] by (metis decimal_not_Nil list.exhaust_sel takeWhile.simps(2))
  moreover have "takeWhile (is_digit 10) (decimal n) = decimal n"
    using decimal_char(1) by (metis takeWhile_eq_all_conv)
  ultimately show ?thesis
    using decimal_char(3,4) [OF hd]
    by (simp add: stoull_def Let_def decimal_value del: takeWhile_eq_all_conv)
qed

lemma startsWith_0: "startsWith t 0 p \<longleftrightarrow> take (length p) t = p"
  by (auto simp: startsWith_def Let_def dest: arg_cong [of _ _ length])

lemma decimal_text:
  assumes "filter (\<lambda>c. c \<noteq> CHR ''_'') t = decimal n"
  shows "\<not> startsWith t 0 ''0x''" "\<not> startsWith t 0 ''0b''" "CHR ''.'' \<notin> set t"
proof -
  have *: "c \<in> set (decimal n)" if "c \<in> set t" "c \<noteq> CHR ''_''" for c
  proof -
    have "c \<in> set (filter (\<lambda>c. c \<noteq> CHR ''_'') t)"
      using that by simp
    then show ?thesis by (simp only: assms)
  qed
  have "CHR ''x'' \<notin> set t" "CHR ''b'' \<notin> set t"
    using * [of "CHR ''x''"] decimal_char(5) [of "CHR ''x''" n]
      * [of "CHR ''b''"] decimal_char(6) [of "CHR ''b''" n] by auto
  moreover have "c \<in> set t" if "startsWith t 0 [z, c]" for z c
  proof -
    from that have "take 2 t = [z, c]"
      by (simp add: startsWith_0 numeral_2_eq_2)
    then have "c \<in> set (take 2 t)" by simp
    then show ?thesis by (rule in_set_takeD)
  qed
  ultimately show "\<not> startsWith t 0 ''0x''" "\<not> startsWith t 0 ''0b''"
    by blast+
  show "CHR ''.'' \<notin> set t"
    using * [of "CHR ''.''"] decimal_char(7) [of "CHR ''.''" n] by auto
qed

subsection \<open>Strings\<close>

lemmas string_loop_induct = string_loop.raw_induct [rotated, consumes 1, case_names step]

lemma string_loop_end: "length str \<le> index \<Longrightarrow> string_loop token quot str index ret ct = Some (Inr ret, ct)"
  by (subst string_loop.simps) simp

lemma string_loop_char:
  "index < length str \<Longrightarrow> str ! index \<noteq> CHR 0x5C \<Longrightarrow>
     string_loop token quot str index ret ct =
       string_loop token quot str (index + byteCount str index)
         (ret @ substr str index (byteCount str index)) ct"
  by (subst string_loop.simps) simp

lemma string_loop_escape:
  "index < length str \<Longrightarrow> str ! index = CHR 0x5C \<Longrightarrow>
     string_escape token quot str (index + 1) ret ct = Some (Inr (Some (index1, ret1)), ct1) \<Longrightarrow>
     string_loop token quot str index ret ct = string_loop token quot str index1 ret1 ct1"
  by (subst string_loop.simps) simp

text \<open>
  A string literal is written as a sequence of pieces: a character as it is, an escape sequence of
  one character, or \<open>\u\<close> with four hexadecimal digits.
\<close>

datatype piece = Plain string | Escape char | Universal string

definition hex_value :: "string \<Rightarrow> nat" where
  "hex_value ds = foldl (\<lambda>v c. v * 16 + the (hex_digit c)) 0 ds"

fun piece_ok :: "char \<Rightarrow> piece \<Rightarrow> bool" where
  "piece_ok quot (Plain bs) \<longleftrightarrow> bs \<noteq> [] \<and> byteCount bs 0 = length bs \<and> hd bs \<noteq> CHR 0x5C"
| "piece_ok quot (Escape c) \<longleftrightarrow> c = quot \<or> c = CHR 0x5C \<or> control_escape c \<noteq> None"
| "piece_ok quot (Universal ds) \<longleftrightarrow> length ds = 4 \<and> list_all (\<lambda>c. hex_digit c \<noteq> None) ds"

fun render :: "piece \<Rightarrow> string" where
  "render (Plain bs) = bs"
| "render (Escape c) = [CHR 0x5C, c]"
| "render (Universal ds) = [CHR 0x5C, CHR ''u''] @ ds"

fun denote :: "piece \<Rightarrow> string" where
  "denote (Plain bs) = bs"
| "denote (Escape c) = [case control_escape c of Some d \<Rightarrow> d | None \<Rightarrow> c]"
| "denote (Universal ds) = extractChar (word_of_nat (hex_value ds))"

lemma hex_digit_less: "hex_digit c = Some d \<Longrightarrow> d < 16"
  by (auto simp: hex_digit_def Let_def split: if_splits)

lemma universal_loop_digits:
  "list_all (\<lambda>c. hex_digit c \<noteq> None) ds \<Longrightarrow>
     universal_loop token (pre @ ds @ post) (length ds) (length pre) v =
       lret (Some (length pre + length ds, foldl (\<lambda>v c. v * 16 + the (hex_digit c)) v ds))"
proof (induction ds arbitrary: pre v)
  case (Cons d ds)
  from Cons.prems obtain x where x: "hex_digit d = Some x" by auto
  have "char_at (pre @ (d # ds) @ post) (length pre) = d"
    by (simp add: char_at_def)
  moreover have "universal_loop token ((pre @ [d]) @ ds @ post) (length ds) (length (pre @ [d])) (v * 16 + x) =
      lret (Some (length (pre @ [d]) + length ds,
        foldl (\<lambda>v c. v * 16 + the (hex_digit c)) (v * 16 + x) ds))"
    using Cons.prems by (intro Cons.IH) simp
  ultimately show ?case
    using x by simp
qed simp

lemma hex_value_less: "list_all (\<lambda>c. hex_digit c \<noteq> None) ds \<Longrightarrow> hex_value ds < 16 ^ length ds"
proof (induction ds rule: rev_induct)
  case (snoc d ds)
  then obtain x where "hex_digit d = Some x" "x < 16"
    using hex_digit_less by auto
  with snoc show ?case
    by (simp add: hex_value_def)
qed (simp add: hex_value_def)


lemma decimal_literal_value:
  assumes "filter (\<lambda>c. c \<noteq> CHR ''_'') (t_literal (tk token)) = decimal n"
  shows "number_literal stod token =
    (if n < 2 ^ 64 then lret (LitInt (word_of_nat n))
     else lbind (errorAtToken Error token ''decimal constant is out of range'' [])
       (\<lambda>_. lret (LitInt 0)))"
proof -
  have "parseNumericLiteral token (t_literal (tk token)) 0 ''decimal'' (stoull 10) =
      (if n < 2 ^ 64 then lret (word_of_nat n)
       else lbind (errorAtToken Error token ''decimal constant is out of range'' []) (\<lambda>_. lret 0))"
    using assms by (auto simp: parseNumericLiteral_def Let_def stoull_decimal)
  then show ?thesis
    using decimal_text [OF assms]
    by (auto simp: number_literal_def parseIntLiteral_def Let_def lbind_assoc)
qed

text \<open>
  Texts the scanner makes one number of: an exponent without a point stops the decimal conversion,
  and a minus sign after a radix prefix is the sign \<open>stoull\<close> accepts.
\<close>

lemma stoull_stops:
  assumes "ds = decimal n @ c # rest" "n < 2 ^ 64" "\<not> is_digit 10 c"
  shows "stoull 10 ds = Converted (word_of_nat n) (length (decimal n))"
proof -
  have hd: "hd (decimal n) \<in> set (decimal n)" by simp
  have 1: "takeWhile c_isspace ds = []"
    using decimal_char(2) [OF hd] assms(1) by (cases "decimal n") auto
  have 2: "takeWhile (is_digit 10) ds = decimal n"
    using assms(1,3) decimal_char(1) by (simp add: takeWhile_tail)
  have 3: "hd ds = hd (decimal n)" "ds \<noteq> []"
    using assms(1) by (simp_all add: hd_append)
  show ?thesis
    using decimal_char(3,4) [OF hd] 1 2 3 assms(2)
    by (simp add: stoull_def Let_def decimal_value del: takeWhile_eq_all_conv)
qed

subsection \<open>Strings, continued\<close>

lemma control_escape_None:
  "control_escape (CHR 0x27) = None" "control_escape (CHR 0x22) = None"
  "control_escape (CHR 0x5C) = None" "control_escape (CHR ''u'') = None"
  by (simp_all add: control_escape_def)

lemma string_escape_plain:
  assumes "char_at str i = c" "c = quot \<and> (quot = CHR 0x27 \<or> quot = CHR 0x22) \<or> c = CHR 0x5C"
  shows "string_escape token quot str i ret = lret (Some (i + 1, ret @ [c]))"
  using assms(2) unfolding string_escape_def assms(1) Let_def by auto

lemma piece_step:
  assumes "piece_ok quot p" "quot = CHR 0x27 \<or> quot = CHR 0x22"
  shows "string_loop token quot (pre @ render p @ post) (length pre) ret ct =
    string_loop token quot (pre @ render p @ post) (length pre + length (render p)) (ret @ denote p) ct"
proof (cases p)
  case (Plain bs)
  let ?str = "pre @ bs @ post"
  from assms(1) Plain have bs: "bs \<noteq> []" "byteCount bs 0 = length bs" "hd bs \<noteq> CHR 0x5C"
    by simp_all
  have "byteCount ?str (length pre) = byteCount (bs @ post) 0"
    using byteCount_drop [of "length pre" ?str 0] by simp
  also have "\<dots> = length bs"
    using byteCount_append [of bs 0 post] bs by simp
  finally have n: "byteCount ?str (length pre) = length bs" .
  have "?str ! length pre = hd bs"
    using bs(1) by (simp add: nth_append hd_conv_nth)
  with bs n show ?thesis
    by (simp add: Plain string_loop_char substr_def)
next
  case (Escape c)
  let ?str = "pre @ CHR 0x5C # c # post"
  have c: "char_at ?str (Suc (length pre)) = c"
    by (simp add: char_at_def nth_append)
  have "string_escape token quot ?str (Suc (length pre)) ret ct =
      Some (Inr (Some (length pre + 2, ret @ denote p)), ct)"
  proof (cases "control_escape c")
    case None
    with assms(1) Escape have "c = quot \<or> c = CHR 0x5C" by simp
    with assms(2) have "string_escape token quot ?str (Suc (length pre)) ret =
        lret (Some (Suc (length pre) + 1, ret @ [c]))"
      by (intro string_escape_plain [OF c]) auto
    with Escape None show ?thesis
      by (simp add: lret_def)
  next
    case (Some d)
    then have "c \<notin> {CHR 0x27, CHR 0x22, CHR 0x5C, CHR ''u''}"
      using control_escape_None by auto
    with Escape Some show ?thesis
      by (simp add: string_escape_def c lret_def Let_def)
  qed
  then show ?thesis
    by (simp add: Escape string_loop_escape nth_append)
next
  case (Universal ds)
  let ?str = "pre @ CHR 0x5C # CHR ''u'' # ds @ post"
  from assms(1) Universal have ds: "length ds = 4" "list_all (\<lambda>c. hex_digit c \<noteq> None) ds"
    by simp_all
  have u: "char_at ?str (Suc (length pre)) = CHR ''u''"
    by (simp add: char_at_def nth_append)
  have "universal_loop token ((pre @ [CHR 0x5C, CHR ''u'']) @ ds @ post) (length ds)
      (length (pre @ [CHR 0x5C, CHR ''u''])) 0 =
      lret (Some (length (pre @ [CHR 0x5C, CHR ''u'']) + length ds, hex_value ds))"
    unfolding hex_value_def using ds(2) by (rule universal_loop_digits)
  then have loop: "universal_loop token ?str 4 (Suc (Suc (length pre))) 0 =
      lret (Some (length pre + 6, hex_value ds))"
    by (simp add: ds(1) add.commute)
  have "hex_value ds < 65536"
    using hex_value_less [OF ds(2)] by (simp add: ds(1))
  then have "(word_of_nat (hex_value ds) :: 32 word) < 0x110000"
    by (simp add: word_less_nat_alt unat_of_nat)
  then have buffer: "extractChar (word_of_nat (hex_value ds)) \<noteq> []"
    using extractChar_empty by blast
  have "parseUniversalCharacter token ?str (Suc (Suc (length pre))) ret =
      lret (Some (length pre + 6, ret @ denote p))"
    using loop buffer ds(1) by (simp add: parseUniversalCharacter_def Universal Let_def)
  then have "string_escape token quot ?str (Suc (length pre)) ret ct =
      Some (Inr (Some (length pre + 6, ret @ denote p)), ct)"
    by (simp add: string_escape_def u lret_def Let_def)
  then show ?thesis
    using ds(1) by (simp add: Universal string_loop_escape nth_append)
qed

lemma pieces_decode:
  "list_all (piece_ok quot) ps \<Longrightarrow> quot = CHR 0x27 \<or> quot = CHR 0x22 \<Longrightarrow>
     string_loop token quot (pre @ concat (List.map render ps)) (length pre) ret ct =
       Some (Inr (ret @ concat (List.map denote ps)), ct)"
proof (induction ps arbitrary: pre ret)
  case Nil
  then show ?case by (simp add: string_loop_end)
next
  case (Cons p ps)
  then have "string_loop token quot ((pre @ render p) @ concat (List.map render ps))
      (length (pre @ render p)) (ret @ denote p) ct =
      Some (Inr ((ret @ denote p) @ concat (List.map denote ps)), ct)"
    by (intro Cons.IH) simp_all
  with Cons.prems piece_step [of quot p token pre "concat (List.map render ps)" ret ct]
  show ?case by simp
qed


subsection \<open>Every literal is read to its end\<close>

lemma returns_errors [simp]:
  "returns (errorAtWholeLine lv ln msg args)" "returns (errorAtToken lv t msg args)"
  "returns (errorAtNextToken lv t msg args)" "returns (errorAtInnerToken lv t a b msg args)"
proof -
  have r: "returns (receive lv ln a b msg args)" for a b ln
    by (simp add: returns_def receive_def)
  have g: "returns (getLine t)"
    by (simp add: getLine_def split: option.splits)
  show "returns (errorAtWholeLine lv ln msg args)" "returns (errorAtToken lv t msg args)"
    "returns (errorAtNextToken lv t msg args)" "returns (errorAtInnerToken lv t a b msg args)"
    by (auto simp: errorAtWholeLine_def errorAtToken_def errorAtNextToken_def
        errorAtInnerToken_def intro!: returns_lbind r g)
qed

lemma utf8_skip_ascii:
  "utf8 (drop i str) \<Longrightarrow> i < length str \<Longrightarrow> ascii (str ! i) \<Longrightarrow> utf8 (drop (Suc i) str)"
  by (simp add: drop_nth_Cons utf8_ascii_Cons)

lemma hex_digit_ascii: "hex_digit c = Some d \<Longrightarrow> ascii c"
  by (rule ascii_small) (auto simp: hex_digit_def Let_def split: if_splits)

lemma control_escape_ascii: "control_escape c = Some d \<Longrightarrow> ascii c"
  by (rule ascii_small) (auto simp: control_escape_def split: if_splits)

lemma quote_ascii: "c = CHR 0x27 \<or> c = CHR 0x22 \<or> c = CHR 0x5C \<Longrightarrow> ascii c"
  by (rule ascii_small) auto

lemma char_at_inside: "char_at str i \<noteq> CHR 0x00 \<Longrightarrow> i < length str \<and> char_at str i = str ! i"
  by (simp add: char_at_def split: if_splits)

lemma returns_universal_loop [simp]: "returns (universal_loop token str k i v)"
  by (induction token str k i v rule: universal_loop.induct)
     (auto intro!: returns_lbind split: option.splits)

lemma universal_loop_result:
  "universal_loop token str k i v ct = Some (Inr (Some (j, w)), ct1) \<Longrightarrow> utf8 (drop i str) \<Longrightarrow>
     i \<le> j \<and> utf8 (drop j str)"
proof (induction token str k i v rule: universal_loop.induct)
  case (2 token str k i v)
  from 2(2) obtain d where d: "hex_digit (char_at str i) = Some d"
    by (auto simp: lret_def elim: lbind_InrE split: option.splits)
  then have "char_at str i \<noteq> CHR 0x00"
    by (auto simp: hex_digit_def)
  from char_at_inside [OF this] d have "utf8 (drop (i + 1) str)"
    using 2(3) hex_digit_ascii utf8_skip_ascii by simp
  with 2(1) [OF d] 2(2) d show ?case by fastforce
qed (simp add: lret_def)

lemma returns_parseUniversalCharacter [simp]: "returns (parseUniversalCharacter token str i ret)"
  by (auto simp: parseUniversalCharacter_def Let_def intro!: returns_lbind split: option.splits)

lemma returns_string_escape [simp]: "returns (string_escape token quot str i ret)"
  by (auto simp: string_escape_def Let_def intro!: returns_lbind split: option.splits)

lemma parseUniversalCharacter_result:
  "parseUniversalCharacter token str i ret ct = Some (Inr (Some (j, x)), ct1) \<Longrightarrow>
     utf8 (drop i str) \<Longrightarrow> i \<le> j \<and> utf8 (drop j str)"
  unfolding parseUniversalCharacter_def Let_def
  by (auto simp: lret_def elim!: lbind_InrE split: if_splits option.splits)
     (use universal_loop_result in blast)+

lemma string_escape_result:
  assumes "string_escape token quot str i ret ct = Some (Inr (Some (j, x)), ct1)"
    and "utf8 (drop i str)"
  shows "i < j \<and> utf8 (drop j str)"
proof -
  let ?c = "char_at str i"
  have one: "utf8 (drop (Suc i) str)" if "ascii ?c" "?c \<noteq> CHR 0x00"
    using char_at_inside [OF that(2)] that(1) assms(2) utf8_skip_ascii by metis
  consider "?c = CHR 0x27 \<or> ?c = CHR 0x22 \<or> ?c = CHR 0x5C"
    | "?c \<noteq> CHR 0x27" "?c \<noteq> CHR 0x22" "?c \<noteq> CHR 0x5C" "?c = CHR ''u''"
    | "?c \<noteq> CHR 0x27" "?c \<noteq> CHR 0x22" "?c \<noteq> CHR 0x5C" "?c \<noteq> CHR ''u''" by blast
  then show ?thesis
  proof cases
    case 1
    then have "j = Suc i"
      using assms(1) unfolding string_escape_def Let_def
      by (auto simp: lret_def elim!: lbind_InrE split: if_splits)
    moreover have "utf8 (drop (Suc i) str)"
      using 1 by (intro one quote_ascii) auto
    ultimately show ?thesis by simp
  next
    case 2
    then have "ascii ?c" "?c \<noteq> CHR 0x00"
      by (auto intro: ascii_small)
    with 2 show ?thesis
      using assms(1) one parseUniversalCharacter_result [of token str "Suc i" ret ct j x ct1]
      by (fastforce simp: string_escape_def)
  next
    case 3
    then obtain d where "control_escape ?c = Some d" "j = Suc i"
      using assms(1) by (auto simp: string_escape_def lret_def elim!: lbind_InrE split: option.splits)
    moreover have "?c \<noteq> CHR 0x00"
      using calculation(1) by (auto simp: control_escape_def)
    ultimately show ?thesis
      using one control_escape_ascii by simp
  qed
qed

lemma string_loop_returns:
  "utf8 (drop index str) \<Longrightarrow> \<exists>r. string_loop token quot str index ret ct = Some r"
proof (induction "length str - index" arbitrary: index ret ct rule: less_induct)
  case less
  show ?case
  proof (cases "index < length str")
    case True
    note here = utf8_step [OF less.prems True]
    show ?thesis
    proof (cases "str ! index = CHR 0x5C")
      case False
      have "\<exists>r. string_loop token quot str (index + byteCount str index)
          (ret @ substr str index (byteCount str index)) ct = Some r"
        using True here by (intro less.hyps) auto
      with True False show ?thesis
        by (simp add: string_loop_char)
    next
      case slash: True
      have next_ok: "utf8 (drop (Suc index) str)"
        using less.prems True slash by (intro utf8_skip_ascii quote_ascii) simp_all
      obtain r ct1 where e: "string_escape token quot str (Suc index) ret ct = Some (r, ct1)"
        using returns_string_escape [of token quot str "Suc index" ret]
        by (fastforce simp: returns_def)
      show ?thesis
      proof (cases "\<exists>j x. r = Inr (Some (j, x))")
        case True
        then obtain j x where r: "r = Inr (Some (j, x))" by blast
        from string_escape_result [OF e [unfolded r] next_ok]
        have "\<exists>r. string_loop token quot str j x ct1 = Some r"
          using \<open>index < length str\<close> by (intro less.hyps) auto
        with \<open>index < length str\<close> slash e r show ?thesis
          by (simp add: string_loop_escape)
      next
        case False
        with \<open>index < length str\<close> slash e show ?thesis
          by (subst string_loop.simps) (auto split: sum.splits option.splits)
      qed
    qed
  qed (simp add: string_loop_end)
qed

text \<open>
  In a regular-expression literal the scanner has doubled every quotation mark; in a raw string
  white space is all the code skips.
\<close>

fun doubled :: "char \<Rightarrow> string \<Rightarrow> bool" where
  "doubled quot [] \<longleftrightarrow> True"
| "doubled quot (c # cs) \<longleftrightarrow>
     (if c \<noteq> quot then doubled quot cs
      else case cs of [] \<Rightarrow> False | d # ds \<Rightarrow> d = quot \<and> doubled quot ds)"

lemma doubled_drop:
  assumes "doubled quot (drop i str)" "i < length str" "str ! i = quot"
  shows "Suc i < length str" "str ! Suc i = quot" "doubled quot (drop (i + 2) str)"
proof -
  from assms obtain d ds where ds: "drop (Suc i) str = d # ds" "d = quot" "doubled quot ds"
    by (auto simp: drop_nth_Cons split: list.splits)
  then show "Suc i < length str"
    by (metis drop_all linorder_not_less list.distinct(1))
  then have "drop (Suc i) str = str ! Suc i # drop (i + 2) str"
    by (simp add: drop_nth_Cons)
  with ds show "str ! Suc i = quot" "doubled quot (drop (i + 2) str)" by simp_all
qed

lemma doubled_skip:
  "doubled quot s \<Longrightarrow> n \<le> length s \<Longrightarrow> (\<forall>c \<in> set (take n s). c \<noteq> quot) \<Longrightarrow> doubled quot (drop n s)"
proof (induction n arbitrary: s)
  case (Suc n)
  then show ?case by (cases s) auto
qed simp

lemma regexp_loop_returns:
  assumes "quot = CHR 0x27 \<or> quot = CHR 0x22"
  shows "utf8 (drop index str) \<Longrightarrow> doubled quot (drop index str) \<Longrightarrow>
    \<exists>r. regexp_loop quot str index ret ct = Some r"
proof (induction "length str - index" arbitrary: index ret ct rule: less_induct)
  case less
  show ?case
  proof (cases "index < length str")
    case True
    show ?thesis
    proof (cases "str ! index = quot")
      case False
      let ?n = "byteCount str index"
      note here = utf8_step [OF less.prems(1) True]
      have "c \<noteq> quot" if c: "c \<in> set (take ?n (drop index str))" for c
      proof -
        obtain k where k: "k < ?n" "c = str ! (index + k)"
          using c here by (auto simp: in_set_conv_nth)
        show ?thesis
        proof (cases k)
          case (Suc j)
          then have "is_continuation (byte_of c)"
            using byteCount_posD(3) [of str index k] k here by auto
          then show ?thesis
            using assms quote_ascii ascii_not_continuation by blast
        qed (use k False in auto)
      qed
      then have "doubled quot (drop ?n (drop index str))"
        using here by (intro doubled_skip [OF less.prems(2)]) auto
      then have "\<exists>r. regexp_loop quot str (index + ?n) (ret @ substr str index ?n) ct = Some r"
        using here True by (intro less.hyps) (auto simp: add.commute)
      with True False show ?thesis by (subst regexp_loop.simps) simp
    next
      case quote: True
      note d = doubled_drop [OF less.prems(2) True quote]
      have "utf8 (drop (Suc index) str)"
        using less.prems(1) True quote assms by (intro utf8_skip_ascii quote_ascii) auto
      then have "utf8 (drop (index + 2) str)"
        using utf8_skip_ascii [OF _ d(1)] d(2) assms quote_ascii by auto
      then have "\<exists>r. regexp_loop quot str (index + 2) (ret @ [quot]) ct = Some r"
        using d True by (intro less.hyps) auto
      with True quote show ?thesis by (subst regexp_loop.simps) simp
    qed
  qed (subst regexp_loop.simps, simp)
qed

lemma utf8_skip_asciis:
  "utf8 (drop i str) \<Longrightarrow> i + n \<le> length str \<Longrightarrow> list_all ascii (substr str i n) \<Longrightarrow>
     utf8 (drop (i + n) str)"
proof (induction n arbitrary: i)
  case (Suc n)
  then have "ascii (str ! i)" "list_all ascii (substr str (Suc i) n)"
    by (simp_all add: substr_def drop_nth_Cons)
  with Suc utf8_skip_ascii [of i str] have "utf8 (drop (Suc i + n) str)"
    by (intro Suc.IH) auto
  then show ?case by simp
qed simp

lemma raw_loop_returns:
  assumes "list_all ascii pre"
  shows "utf8 (drop index str) \<Longrightarrow> \<exists>r. raw_loop token pre str index ret ct = Some r"
proof (induction "length str - index" arbitrary: index ret ct rule: less_induct)
  case less
  show ?case
  proof (cases "index < length str")
    case True
    note here = utf8_step [OF less.prems True]
    consider (char) "str ! index \<noteq> CHR 0x0A"
      | (stop) "str ! index = CHR 0x0A"
        "length str < index + 1 + length pre \<or> substr str (index + 1) (length pre) \<noteq> pre"
      | (line) "str ! index = CHR 0x0A" "index + 1 + length pre \<le> length str"
        "substr str (index + 1) (length pre) = pre" by fastforce
    then show ?thesis
    proof cases
      case char
      have "\<exists>r. raw_loop token pre str (index + byteCount str index)
          (ret @ substr str index (byteCount str index)) ct = Some r"
        using here True by (intro less.hyps) auto
      with True char show ?thesis by (subst raw_loop.simps) simp
    next
      case stop
      have "returns (lbind (errorAtInnerToken Error token (index + 1) (index + 1) ''indent mismatch'' [])
          (\<lambda>_. lret ([] :: string)))"
        by (intro returns_lbind) simp_all
      with True stop show ?thesis by (subst raw_loop.simps) (simp add: returns_def)
    next
      case line
      have "utf8 (drop (Suc index) str)"
        using less.prems True line(1) by (intro utf8_skip_ascii ascii_small) simp_all
      then have "utf8 (drop (Suc index + length pre) str)"
        using line(2,3) assms by (intro utf8_skip_asciis) simp_all
      then have "\<exists>r. raw_loop token pre str (index + 1 + length pre) (ret @ [CHR 0x0A]) ct = Some r"
        using True by (intro less.hyps) auto
      with True line show ?thesis by (subst raw_loop.simps) simp
    qed
  qed (subst raw_loop.simps, simp)
qed

text \<open>The literal text of a token, as the scanner cuts it out of a UTF-8 line.\<close>

definition literal_ok :: "token_ptr \<Rightarrow> bool" where
  "literal_ok token \<longleftrightarrow>
     (let t = t_literal (tk token)
      in t_type (tk token) = TokenString \<longrightarrow>
           utf8 t \<and> (startsWith t 0 ''r'' \<longrightarrow> 2 \<le> length t \<longrightarrow> doubled (t ! 1) (drop 2 t)))"

lemma returns_parseNumericLiteral [simp]: "returns (parseNumericLiteral t s i ty f)"
  unfolding parseNumericLiteral_def Let_def
  by (cases "f (filter (\<lambda>c. c \<noteq> CHR ''_'') (drop i s))") (auto intro!: returns_lbind)

lemma returns_number_literal [simp]: "returns (number_literal stod token)"
  by (auto simp: number_literal_def parseIntLiteral_def parseFloatLiteral_def Let_def intro!: returns_lbind)

lemma returns_string_literal:
  assumes "literal_ok token" "t_type (tk token) = TokenString"
  shows "returns (string_literal token)"
proof -
  let ?t = "t_literal (tk token)"
  from assms have u: "utf8 ?t" by (simp add: literal_ok_def Let_def)
  have plain: "returns (parseStringLiteral token ?t 0)" if "startsWith ?t 0 [q]" "ascii q" for q
  proof -
    from that have "?t \<noteq> []" "?t ! 0 = q"
      by (cases ?t; simp add: startsWith_0)+
    with u that(2) have "utf8 (drop 1 ?t)"
      using utf8_skip_ascii [of 0 ?t] by simp
    then show ?thesis
      using string_loop_returns by (simp add: parseStringLiteral_def returns_def)
  qed
  have two: "utf8 (drop 2 ?t) \<and> ?t ! 1 = q \<and> 2 \<le> length ?t \<and> startsWith ?t 0 [p] \<and> char_at ?t 1 = q"
    if s: "startsWith ?t 0 [p, q]" "ascii p" "ascii q" for p q
  proof -
    obtain r where r: "?t = p # q # r"
    proof (cases ?t)
      case (Cons a w)
      with s(1) that show ?thesis by (cases w) (auto simp: startsWith_0)
    qed (use s(1) in \<open>simp add: startsWith_0\<close>)
    with u s(2,3) show ?thesis
      by (simp add: utf8_ascii_Cons startsWith_0 char_at_def)
  qed
  have multi: "returns (parseStringLiteral token ?t 1)" if "startsWith ?t 0 [CHR ''L'', q]" "ascii q" for q
    using two [OF that(1) _ that(2)] string_loop_returns
    by (simp add: parseStringLiteral_def returns_def ascii_small eval_nat_numeral)
  have regexp: "returns (parseRegexpStringLiteral ?t 1)"
    if q: "startsWith ?t 0 [CHR ''r'', q]" "q = CHR 0x27 \<or> q = CHR 0x22" for q
  proof -
    have t: "utf8 (drop 2 ?t) \<and> ?t ! 1 = q \<and> 2 \<le> length ?t \<and> startsWith ?t 0 ''r'' \<and> char_at ?t 1 = q"
      using q quote_ascii [of q] by (intro two) (auto intro: ascii_small)
    with assms have "doubled q (drop 2 ?t)"
      by (auto simp: literal_ok_def Let_def)
    with t show ?thesis
      using regexp_loop_returns [OF q(2)]
      by (simp add: parseRegexpStringLiteral_def returns_def numeral_2_eq_2)
  qed
  have raw: "returns (parseRawStringLiteral token ?t 5)" if s: "startsWith ?t 0 (''R<<<'' @ [CHR 0x0A])"
  proof -
    let ?pre = "takeWhile isSpace (drop 5 ?t)"
    obtain r where r: "?t = ''R<<<'' @ [CHR 0x0A] @ r"
      using s startsWith_range [of 0 ?t "''R<<<'' @ [CHR 0x0A]"]
      by (auto simp: startsWithRange_conv)
    have "list_all ascii (''R<<<'' @ [CHR 0x0A])"
      by (auto intro: ascii_small)
    then have "utf8 (drop 5 ?t)"
      using utf8_skip_asciis [of 0 ?t 5] u r by (simp add: substr_def)
    moreover have "list_all ascii ?pre"
      using class_ascii(1) by (auto simp: list_all_iff dest: set_takeWhileD)
    moreover have "substr ?t 5 (length ?pre) = ?pre"
      by (metis substr_def takeWhile_eq_take)
    moreover have "5 + length ?pre \<le> length ?t"
      using r by (simp add: length_takeWhile_drop)
    ultimately have "utf8 (drop (5 + length ?pre) ?t)"
      by (intro utf8_skip_asciis) simp_all
    then show ?thesis
      using raw_loop_returns [OF \<open>list_all ascii ?pre\<close>]
      by (simp add: parseRawStringLiteral_def returns_def Let_def)
  qed
  have q: "ascii (CHR 0x27)" "ascii (CHR 0x22)"
    by (auto intro: quote_ascii)
  show ?thesis
    unfolding string_literal_def Let_def
    using plain [OF _ q(1)] plain [OF _ q(2)] multi [OF _ q(1)] multi [OF _ q(2)] regexp raw
    by (intro returns_ifI returns_lbind returns_simps) blast+
qed

lemma returns_parseBooleanLiteral [simp]: "returns (parseBooleanLiteral t sid)"
  by (auto simp: parseBooleanLiteral_def intro!: returns_lbind)

lemma parseAsLiteral_returns: "literal_ok token \<Longrightarrow> returns (parseAsLiteral stod token)"
  unfolding parseAsLiteral_def
  by (auto intro!: returns_lbind returns_string_literal split: token_type.splits)

end
