(* ===== verification/Expression_Parser.thy ===== *)
theory Expression_Parser
  imports Literal_Parser
begin

text \<open>
  Expressions (\<open>findExpressionBoundary\<close> to \<open>parseOperatorParameter\<close> of \<open>chatra_core/Parser.cpp\<close>).
  A range of tokens or nodes given by iterators is a list, an iterator into it a position. The
  parser is bottom-up: the tokens become a list of nodes, and for every group of operator patterns,
  from the tightest to the loosest, the list is searched for matches, each of which is replaced by
  one operator node.
\<close>

subsection \<open>The end of an expression\<close>

definition quoted :: "string \<Rightarrow> string \<Rightarrow> string" where
  "quoted pre s = pre @ CHR 0x27 # s @ [CHR 0x27]"

text \<open>
  The stack has its top first. The result is whether the bracket fits, and the stack.
\<close>

definition checkBracketPair ::
    "token_ptr \<Rightarrow> (nat \<times> token_ptr) list \<Rightarrow> nat \<Rightarrow> (bool \<times> (nat \<times> token_ptr) list) parse" where
  "checkBracketPair token stack expected =
     (case stack of
        [] \<Rightarrow>
          lbind (refText (t_sid (tk token))) (\<lambda>s.
          lbind (errorAtToken Error token (quoted ''extra '' s) []) (\<lambda>_.
          lret (False, stack)))
      | (sid, opening) # rest \<Rightarrow>
          if sid \<noteq> expected then
            lbind (refText expected) (\<lambda>s.
            lbind (errorAtToken Error token (quoted ''expected '' s) []) (\<lambda>_.
            lbind (errorAtToken Error opening ''started from here'' []) (\<lambda>_.
            lret (False, stack))))
          else lret (True, rest))"

definition closed_by :: "nat \<Rightarrow> nat option" where
  "closed_by sid =
     (if sid = StringId ''CloseParenthesis'' then Some (StringId ''OpenParenthesis'')
      else if sid = StringId ''CloseBracket'' then Some (StringId ''OpenBracket'')
      else if sid = StringId ''CloseBrace'' then Some (StringId ''OpenBrace'')
      else None)"

text \<open>
  The loop from the position \<open>i\<close> on, \<open>rest\<close> being the tokens there; \<open>None\<close> where the code returns
  \<open>first\<close> after an error.
\<close>

fun boundary_loop ::
    "(token_ptr \<Rightarrow> bool) \<Rightarrow> token_ptr list \<Rightarrow> nat \<Rightarrow> (nat \<times> token_ptr) list \<Rightarrow>
       (nat \<times> (nat \<times> token_ptr) list) option parse" where
  "boundary_loop delimiter [] i stack = lret (Some (i, stack))"
| "boundary_loop delimiter (t # rest) i stack =
     (if stack = [] \<and> delimiter t then lret (Some (i, stack))
      else if tokenMatches t TokenOpenBracket then
        boundary_loop delimiter rest (i + 1) ((t_sid (tk t), t) # stack)
      else if tokenMatches t TokenCloseBracket then
        (case closed_by (t_sid (tk t)) of
           Some expected \<Rightarrow>
             lbind (checkBracketPair t stack expected) (\<lambda>(fits, stack1).
               if fits then boundary_loop delimiter rest (i + 1) stack1 else lret None)
         | None \<Rightarrow> lbind (errorAtToken Error t ''internal error'' []) (\<lambda>_. lthrow AbortCompiling))
      else boundary_loop delimiter rest (i + 1) stack)"

definition findExpressionBoundary ::
    "token_ptr list \<Rightarrow> (token_ptr \<Rightarrow> bool) \<Rightarrow> nat parse" where
  "findExpressionBoundary toks delimiter =
     (if toks = [] then lret 0
      else lbind (boundary_loop delimiter toks 0 []) (\<lambda>r.
        case r of
          None \<Rightarrow> lret 0
        | Some (i, []) \<Rightarrow> lret i
        | Some (i, (sid, _) # _) \<Rightarrow>
            lbind (refText sid) (\<lambda>s.
            lbind (errorAtNextToken Error (toks ! (if i = 0 then 0 else i - 1)) (quoted ''unmatched '' s) [])
              (\<lambda>_. lret 0))))"

subsection \<open>Matching patterns\<close>

definition isOperator :: "expr \<Rightarrow> operator \<Rightarrow> bool" where
  "isOperator node oper \<longleftrightarrow> x_op node = Some oper"

text \<open>
  \<open>depth\<close> is \<open>count\<close>. A node of \<open>ElementSelection\<close> always has two subnodes that are not null.
\<close>

fun name_chain :: "nat \<Rightarrow> expr \<Rightarrow> bool" where
  "name_chain depth (Expr type toks sid lit oper sub) =
     (if oper = Some Op_ElementSelection then
        (case sub of
           Some a # Some b # _ \<Rightarrow> x_type b = Node_Name \<and> name_chain (depth + 1) a
         | _ \<Rightarrow> False)
      else depth \<le> 2 \<and> type = Node_Name)"

definition matchesAsNameChain :: "expr \<Rightarrow> bool" where
  "matchesAsNameChain node = name_chain 0 node"

text \<open>
  A node that is still \<open>Unknown\<close> is an operator token or a bracket; it has at least one token, and a
  bracket has one subnode, null for an empty pair.
\<close>

definition node_sid :: "expr \<Rightarrow> nat \<Rightarrow> bool" where
  "node_sid node sid \<longleftrightarrow> x_type node = Node_Unknown \<and> sidMatches (x_tokens node ! 0) sid"

fun matchesElement :: "expr \<Rightarrow> op_element \<Rightarrow> bool" where
  "matchesElement node (OpToken sid) \<longleftrightarrow> node_sid node sid"
| "matchesElement node (OpExpect Pt_NameChain _) \<longleftrightarrow> matchesAsNameChain node"
| "matchesElement node (OpExpect Pt_Parenthesis _) \<longleftrightarrow> node_sid node (StringId ''OpenParenthesis'')"
| "matchesElement node (OpExpect Pt_ParenthesisWithValue _) \<longleftrightarrow>
     node_sid node (StringId ''OpenParenthesis'') \<and> x_sub node ! 0 \<noteq> None"
| "matchesElement node (OpExpect Pt_Bracket _) \<longleftrightarrow> node_sid node (StringId ''OpenBracket'')"
| "matchesElement node (OpExpect Pt_Brace _) \<longleftrightarrow> node_sid node (StringId ''OpenBrace'')"
| "matchesElement node (OpExpect Pt_Expression _) \<longleftrightarrow> x_type node \<noteq> Node_Unknown"

definition wrapByTuple :: "expr option \<Rightarrow> token_ptr option \<Rightarrow> expr" where
  "wrapByTuple node hintToken =
     (case node of
        Some n \<Rightarrow>
          if isOperator n Op_Tuple then n
          else Expr Node_Operator
                 (if x_tokens n = [] then (case hintToken of Some t \<Rightarrow> [t] | None \<Rightarrow> []) else x_tokens n)
                 StringId_Invalid None (Some Op_Tuple) [Some n]
      | None \<Rightarrow>
          Expr Node_Operator (case hintToken of Some t \<Rightarrow> [t] | None \<Rightarrow> [])
            StringId_Invalid None (Some Op_Tuple) [])"

subsection \<open>extractOperator\<close>

text \<open>The subnode an element becomes: the contents of a bracket, as a tuple, or the node itself.\<close>

definition operand :: "expr \<Rightarrow> expr" where
  "operand node =
     (if x_type node = Node_Unknown \<and> tokenMatches (x_tokens node ! 0) TokenOpenBracket then
        wrapByTuple (x_sub node ! 0) (Some (x_tokens node ! 0))
      else node)"

fun place_operands :: "expr list \<Rightarrow> op_element list \<Rightarrow> expr option list \<Rightarrow> expr option list" where
  "place_operands (n # ns) (OpExpect _ k # es) sub = place_operands ns es (sub[k := Some (operand n)])"
| "place_operands (n # ns) (OpToken _ # es) sub = place_operands ns es sub"
| "place_operands _ _ sub = sub"

text \<open>
  The last part: a delimiter node is put between the operands of \<open>;\<close>, a missing operand is dropped,
  and a tuple in the first place (the second, after a leading delimiter) is merged. The delimiter's
  token is the first token of the last node but one.
\<close>

definition insert_delimiter :: "token_ptr \<Rightarrow> expr option list \<Rightarrow> nat \<times> expr option list" where
  "insert_delimiter token sub =
     (let delim = Expr Node_Operator [token] StringId_Invalid None (Some Op_TupleDelimiter) [];
          sub1 = take 1 sub @ Some delim # drop 1 sub
      in if sub1 ! 0 = None then (1, drop 1 sub1)
         else if sub1 ! 2 = None then (0, take 2 sub1 @ drop 3 sub1)
         else (0, sub1))"

definition flatten_tuple :: "nat \<Rightarrow> expr option list \<Rightarrow> expr option list" where
  "flatten_tuple k sub =
     (case sub ! k of
        Some n \<Rightarrow>
          if isOperator n Op_Tuple then take k sub @ x_sub n @ drop (k + 1) sub else sub
      | None \<Rightarrow> sub)"

definition pattern_fits :: "expr list \<Rightarrow> nat \<Rightarrow> op_pattern \<Rightarrow> bool" where
  "pattern_fits nodes it pattern \<longleftrightarrow>
     list_all2 matchesElement (take (length (pat_elements pattern)) (drop it nodes)) (pat_elements pattern)"

text \<open>A prefix operator must follow nothing or an operator token.\<close>

definition prefix_allowed :: "expr list \<Rightarrow> nat \<Rightarrow> bool" where
  "prefix_allowed nodes it \<longleftrightarrow>
     it = 0 \<or> (x_type (nodes ! (it - 1)) = Node_Unknown \<and>
       tokenMatches (x_tokens (nodes ! (it - 1)) ! 0) TokenOperator)"

definition build_operator :: "expr list \<Rightarrow> op_pattern \<Rightarrow> expr" where
  "build_operator part pattern =
     (let toks = concat (List.map x_tokens part);
          sub = place_operands part (pat_elements pattern) (replicate (pat_subNodes pattern) None)
      in if pat_op pattern = Op_TupleDelimiter then
           let (k, sub1) = insert_delimiter (x_tokens (part ! (length part - 2)) ! 0) sub
           in Expr Node_Operator toks StringId_Invalid None (Some Op_Tuple) (flatten_tuple k sub1)
         else if pat_op pattern = Op_Tuple then
           Expr Node_Operator toks StringId_Invalid None (Some Op_Tuple) (flatten_tuple 0 sub)
         else Expr Node_Operator toks StringId_Invalid None (Some (pat_op pattern)) sub)"

definition extractOperator :: "expr list \<Rightarrow> nat \<Rightarrow> op_pattern \<Rightarrow> expr option" where
  "extractOperator nodes it pattern =
     (if \<not> pattern_fits nodes it pattern then None
      else if attr_type (getOpAttr (pat_op pattern)) = Type_Prefix \<and> \<not> prefix_allowed nodes it then None
      else Some (build_operator (take (length (pat_elements pattern)) (drop it nodes)) pattern))"

subsection \<open>One group of patterns\<close>

text \<open>
  The patterns of a group are tried one after the other at the same place; after a match the list
  is changed and the remaining patterns are tried on the new node. \<open>it\<close> is the first node of the
  place in a group that goes from left to right, and the end of the place in one that goes from
  right to left, where a match moves it behind the new node.
\<close>

fun try_left :: "op_pattern list \<Rightarrow> expr list \<Rightarrow> nat \<Rightarrow> bool \<Rightarrow> expr list \<times> bool" where
  "try_left [] nodes it matched = (nodes, matched)"
| "try_left (p # ps) nodes it matched =
     (let n = length (pat_elements p)
      in if length nodes - it < n then try_left ps nodes it matched
         else case extractOperator nodes it p of
             None \<Rightarrow> try_left ps nodes it matched
           | Some e \<Rightarrow> try_left ps (take it nodes @ e # drop (it + n) nodes) it True)"

partial_function (option) left_loop :: "op_pattern list \<Rightarrow> expr list \<Rightarrow> nat \<Rightarrow> expr list option" where
  [code]: "left_loop ps nodes it =
     (if it \<ge> length nodes then Some nodes
      else let (nodes1, matched) = try_left ps nodes it False
           in left_loop ps nodes1 (if matched then it else it + 1))"

fun try_right :: "op_pattern list \<Rightarrow> expr list \<Rightarrow> nat \<Rightarrow> bool \<Rightarrow> expr list \<times> nat \<times> bool" where
  "try_right [] nodes it matched = (nodes, it, matched)"
| "try_right (p # ps) nodes it matched =
     (let n = length (pat_elements p)
      in if it < n then try_right ps nodes it matched
         else case extractOperator nodes (it - n) p of
             None \<Rightarrow> try_right ps nodes it matched
           | Some e \<Rightarrow>
               try_right ps (take (it - n) nodes @ e # drop it nodes) (it - n + 1) True)"

partial_function (option) right_loop :: "op_pattern list \<Rightarrow> expr list \<Rightarrow> nat \<Rightarrow> expr list option" where
  [code]: "right_loop ps nodes it =
     (if it = 0 then Some nodes
      else let (nodes1, it1, matched) = try_right ps nodes it False
           in right_loop ps nodes1 (if matched then it1 else it1 - 1))"

definition apply_group :: "pattern_group \<Rightarrow> expr list \<Rightarrow> expr list option" where
  "apply_group g nodes =
     (if leftToRight g then left_loop (patterns g) nodes 0
      else right_loop (patterns g) nodes (length nodes))"

fun apply_groups :: "pattern_group list \<Rightarrow> expr list \<Rightarrow> expr list option" where
  "apply_groups [] nodes = Some nodes"
| "apply_groups (g # gs) nodes =
     (case apply_group g nodes of None \<Rightarrow> None | Some nodes1 \<Rightarrow> apply_groups gs nodes1)"

subsection \<open>parseNodes and parseExpression\<close>

text \<open>
  The search for the closing bracket in \<open>parseNodes\<close>: the number of tokens before it. Where there is
  none the code copies tokens up to one behind the end, which is a read out of range.
\<close>

fun pair_loop :: "token_ptr list \<Rightarrow> nat \<Rightarrow> nat option" where
  "pair_loop [] level = None"
| "pair_loop (t # ts) level =
     (if tokenMatches t TokenOpenBracket then map_option Suc (pair_loop ts (level + 1))
      else if tokenMatches t TokenCloseBracket then
        (if level = 0 then Some 0 else map_option Suc (pair_loop ts (level - 1)))
      else map_option Suc (pair_loop ts level))"

lemma pair_loop_less: "pair_loop ts level = Some n \<Longrightarrow> n < length ts"
  by (induction ts level arbitrary: n rule: pair_loop.induct) (auto split: if_splits)

definition reduce_groups :: "expr list \<Rightarrow> expr list parse" where
  "reduce_groups nodes ct =
     (case apply_groups opPatterns nodes of None \<Rightarrow> None | Some r \<Rightarrow> Some (Inr r, ct))"

text \<open>The end of \<open>parseExpression\<close>.\<close>

definition finish_expression :: "token_ptr \<Rightarrow> expr list \<Rightarrow> expr parse" where
  "finish_expression first_token nodes =
     (if nodes = [] \<or> x_type (nodes ! 0) = Node_Unknown then
        lbind (errorAtToken Error first_token ''expected expression'' [])
          (\<lambda>_. lret (createNullNode first_token))
      else if length nodes \<noteq> 1 then
        lbind (if x_tokens (nodes ! 1) \<noteq> [] then
                 errorAtToken Error (x_tokens (nodes ! 1) ! 0) ''extra token in expression'' []
               else errorAtToken Error first_token ''extra token in expression starts from this token'' [])
          (\<lambda>_. lret (createNullNode first_token))
      else lret (nodes ! 0))"

function parseNodes :: "stod \<Rightarrow> token_ptr list \<Rightarrow> expr list \<Rightarrow> expr list parse"
  and parseExpression :: "stod \<Rightarrow> token_ptr list \<Rightarrow> expr parse" where
  "parseNodes stod [] nodes = lret nodes"
| "parseNodes stod (t # ts) nodes =
     (if tokenMatches t TokenOpenBracket then
        (case pair_loop ts 0 of
           None \<Rightarrow> lthrow OutOfRange
         | Some n \<Rightarrow>
             lbind (if n = 0 then lret None
                    else lbind (parseExpression stod (take n ts)) (\<lambda>e. lret (Some e))) (\<lambda>contents.
               parseNodes stod (drop (Suc n) ts)
                 (nodes @ [unknown_node (t # take (Suc n) ts) [contents]])))
      else if isLiteral t then
        lbind (parseAsLiteral stod t) (\<lambda>e. parseNodes stod ts (nodes @ [e]))
      else if tokenMatches t TokenName then parseNodes stod ts (nodes @ [createNameNode t])
      else if tokenMatches t TokenOperator then parseNodes stod ts (nodes @ [unknown_node [t] []])
      else lbind (errorAtToken Error t ''expected expression'' []) (\<lambda>_. lret []))"
| "parseExpression stod toks =
     lbind (parseNodes stod toks []) (\<lambda>nodes.
       if nodes = [] then
         (if toks = [] then lthrow OutOfRange else lret (createNullNode (toks ! 0)))
       else lbind (reduce_groups nodes) (finish_expression (toks ! 0)))"
  by pat_completeness auto
termination
  by (relation "measure (case_sum (\<lambda>(_, ts, _). 2 * length ts) (\<lambda>(_, ts). 2 * length ts + 1))")
     (auto dest: pair_loop_less)

declare parseNodes.simps(2) [simp del] parseExpression.simps [simp del]

subsection \<open>parseOperatorParameter\<close>

text \<open>
  The first loop groups \<open>name : class\<close>. After a match \<open>it\<close> is the new node, and the loop's
  increment moves on from there.
\<close>

function pair_names :: "expr list \<Rightarrow> nat \<Rightarrow> expr list" where
  "pair_names nodes it =
     (if length nodes < it + length (pat_elements opPairPattern) then nodes
      else case extractOperator nodes it opPairPattern of
          None \<Rightarrow> pair_names nodes (it + 1)
        | Some n \<Rightarrow>
            if map_option x_type (x_sub n ! 0) = Some Node_Name \<and>
               map_option x_type (x_sub n ! 1) = Some Node_Name then
              pair_names (take it nodes @ n # drop (it + length (pat_elements opPairPattern)) nodes) (it + 1)
            else pair_names nodes (it + 1))"
  by pat_completeness auto
termination
  by (relation "measure (\<lambda>(nodes, it). length nodes - it)") (auto simp: opPairPattern_def)

definition overridable_match :: "expr list \<Rightarrow> op_pattern \<Rightarrow> expr option" where
  "overridable_match nodes pattern =
     (if \<not> allowOverride (getOpAttr (pat_op pattern)) then None
      else if length nodes < length (pat_elements pattern) then None
      else extractOperator nodes 0 pattern)"

definition parseOperatorParameter :: "stod \<Rightarrow> token_ptr list \<Rightarrow> expr option parse" where
  "parseOperatorParameter stod toks =
     lbind (parseNodes stod toks []) (\<lambda>nodes0.
       if nodes0 = [] then lret None
       else
         let nodes = pair_names nodes0 0
         in case List.map_filter (overridable_match nodes) (concat (List.map patterns opPatterns)) of
              n # _ \<Rightarrow> lret (Some n)
            | [] \<Rightarrow>
                lbind (errorAtToken Error (toks ! 0) ''expected operator parameter'' [])
                  (\<lambda>_. lret (Some (createNullNode (toks ! 0)))))"

end
