(* ===== verification/Expression_Facts.thy ===== *)
theory Expression_Facts
  imports Expression_Parser
begin

text \<open>
  Facts about the reduction of a list of nodes: every match makes the list smaller, so the loops over
  the operator groups end, and whatever a match keeps holds at the end.
\<close>

subsection \<open>Replacing a match\<close>

definition replaced :: "expr list \<Rightarrow> nat \<Rightarrow> nat \<Rightarrow> expr \<Rightarrow> expr list" where
  "replaced nodes it n e = take it nodes @ e # drop (it + n) nodes"

definition unknowns :: "expr list \<Rightarrow> nat" where
  "unknowns nodes = length (filter (\<lambda>n. x_type n = Node_Unknown) nodes)"

definition work :: "expr list \<Rightarrow> nat" where
  "work nodes = 2 * length nodes + unknowns nodes"

text \<open>A pattern makes progress if it joins two nodes or changes a node that is still unknown.\<close>

fun bracket_kind :: "op_element \<Rightarrow> bool" where
  "bracket_kind (OpExpect k _) \<longleftrightarrow> k \<in> {Pt_Parenthesis, Pt_ParenthesisWithValue, Pt_Bracket, Pt_Brace}"
| "bracket_kind (OpToken _) \<longleftrightarrow> False"

definition progressive :: "op_pattern \<Rightarrow> bool" where
  "progressive p \<longleftrightarrow>
     2 \<le> length (pat_elements p) \<or> (\<exists>e. pat_elements p = [e] \<and> bracket_kind e)"

lemma bracket_kind_unknown: "matchesElement n e \<Longrightarrow> bracket_kind e \<Longrightarrow> x_type n = Node_Unknown"
  by (induction n e rule: matchesElement.induct) (simp_all add: node_sid_def)

lemma build_operator_simps [simp]:
  "x_type (build_operator part p) = Node_Operator"
  "x_tokens (build_operator part p) = concat (List.map x_tokens part)"
  by (simp_all add: build_operator_def Let_def split: prod.split)

lemma extractOperatorD:
  assumes "extractOperator nodes it p = Some e" "progressive p"
  defines "n \<equiv> length (pat_elements p)"
  defines "part \<equiv> take n (drop it nodes)"
  shows "it + n \<le> length nodes" "0 < n" "length part = n" "list_all2 matchesElement part (pat_elements p)"
    "e = build_operator part p" "nodes = take it nodes @ part @ drop (it + n) nodes"
proof -
  show n: "0 < n"
    using assms(2) by (auto simp: progressive_def n_def)
  show fits: "list_all2 matchesElement part (pat_elements p)" and "e = build_operator part p"
    using assms(1) by (auto simp: extractOperator_def pattern_fits_def part_def n_def split: if_splits)
  show len: "length part = n"
    using fits by (simp add: list_all2_lengthD n_def)
  with n show "it + n \<le> length nodes"
    by (simp add: part_def)
  show "nodes = take it nodes @ part @ drop (it + n) nodes"
    by (metis add.commute append_take_drop_id drop_drop part_def)
qed

lemma unknowns_append [simp]: "unknowns (xs @ ys) = unknowns xs + unknowns ys"
  by (simp add: unknowns_def)

lemma unknowns_Cons [simp]:
  "unknowns (x # xs) = (if x_type x = Node_Unknown then 1 else 0) + unknowns xs"
  by (simp add: unknowns_def)

lemma replaced_work:
  assumes ex: "extractOperator nodes it p = Some e" and p: "progressive p"
  defines "nodes1 \<equiv> replaced nodes it (length (pat_elements p)) e"
  shows "work nodes1 < work nodes" "length nodes1 \<le> length nodes" "nodes1 \<noteq> []"
    "it < length nodes1" "length nodes1 + length (pat_elements p) = Suc (length nodes)"
proof -
  let ?n = "length (pat_elements p)" and ?part = "take (length (pat_elements p)) (drop it nodes)"
  note d = extractOperatorD [OF ex p]
  have e: "x_type e = Node_Operator"
    by (simp add: d(5))
  show "nodes1 \<noteq> []" "it < length nodes1"
    using d(1) by (simp_all add: nodes1_def replaced_def)
  show len: "length nodes1 + ?n = Suc (length nodes)"
    using d(1,2) by (simp add: nodes1_def replaced_def)
  with d(2) show "length nodes1 \<le> length nodes" by linarith
  have "unknowns nodes = unknowns (take it nodes) + unknowns ?part + unknowns (drop (it + ?n) nodes)"
    by (subst d(6)) simp
  moreover have "unknowns nodes1 = unknowns (take it nodes) + unknowns (drop (it + ?n) nodes)"
    by (simp add: nodes1_def replaced_def e)
  ultimately have unk: "unknowns nodes = unknowns nodes1 + unknowns ?part" by simp
  show "work nodes1 < work nodes"
  proof (cases "2 \<le> ?n")
    case True
    with len unk show ?thesis by (simp add: work_def)
  next
    case False
    with p obtain el where el: "pat_elements p = [el]" "bracket_kind el"
      by (auto simp: progressive_def)
    from d(4) [unfolded el(1)] obtain x where x: "?part = [x]" "matchesElement x el"
      by (auto simp: list_all2_Cons2 el(1))
    then have "unknowns ?part = 1"
      using bracket_kind_unknown [OF x(2) el(2)] by (simp add: x(1) unknowns_def)
    with len unk el(1) show ?thesis by (simp add: work_def)
  qed
qed

subsection \<open>The loops over a group\<close>

text \<open>
  An invariant of the list and the position that every match at the position keeps holds when the
  loop ends, and the loop ends.
\<close>

definition left_step :: "op_pattern list \<Rightarrow> (expr list \<Rightarrow> nat \<Rightarrow> bool) \<Rightarrow> bool" where
  "left_step qs I \<longleftrightarrow>
     (\<forall>nodes it p e. I nodes it \<longrightarrow> p \<in> set qs \<longrightarrow> extractOperator nodes it p = Some e \<longrightarrow>
        I (replaced nodes it (length (pat_elements p)) e) it)"

definition right_step :: "op_pattern list \<Rightarrow> (expr list \<Rightarrow> nat \<Rightarrow> bool) \<Rightarrow> bool" where
  "right_step qs I \<longleftrightarrow>
     (\<forall>nodes it p e. I nodes (it + length (pat_elements p)) \<longrightarrow> p \<in> set qs \<longrightarrow>
        extractOperator nodes it p = Some e \<longrightarrow>
        I (replaced nodes it (length (pat_elements p)) e) (it + 1))"

lemma try_left_inv:
  assumes step: "left_step qs I" and prog: "list_all progressive qs"
  shows "set ps \<subseteq> set qs \<Longrightarrow> I nodes it \<Longrightarrow> try_left ps nodes it m = (nodes1, m1) \<Longrightarrow>
    I nodes1 it \<and>
    (nodes1 = nodes \<and> m1 = m \<or> m1 \<and> work nodes1 < work nodes \<and> length nodes1 \<le> length nodes)"
proof (induction ps nodes it m arbitrary: nodes1 m1 rule: try_left.induct)
  case (2 p ps nodes it m)
  let ?n = "length (pat_elements p)"
  from 2(4) prog have p: "p \<in> set qs" "progressive p" "set ps \<subseteq> set qs"
    by (auto simp: list_all_iff)
  show ?case
  proof (cases "length nodes - it < ?n \<or> extractOperator nodes it p = None")
    case True
    then have "try_left ps nodes it m = (nodes1, m1)"
      using 2(6) by (auto simp: Let_def split: option.splits)
    then show ?thesis
      using 2(1) [OF refl _ p(3) 2(5)] 2(2) [OF refl _ _ p(3) 2(5)] True by blast
  next
    case False
    then obtain e where e: "extractOperator nodes it p = Some e" "\<not> length nodes - it < ?n" by auto
    let ?nodes = "replaced nodes it ?n e"
    have try1: "try_left ps ?nodes it True = (nodes1, m1)"
      using 2(6) e by (simp add: Let_def replaced_def)
    have "I ?nodes it"
      using step 2(5) p(1) e(1) by (auto simp: left_step_def)
    then have "I nodes1 it \<and> (nodes1 = ?nodes \<and> m1 = True \<or>
        m1 \<and> work nodes1 < work ?nodes \<and> length nodes1 \<le> length ?nodes)"
      using 2(3) [OF refl e(2,1) p(3)] try1 by (simp add: replaced_def)
    with replaced_work(1,2) [OF e(1) p(2)] show ?thesis by auto
  qed
qed simp

lemma left_loop_total:
  assumes step: "left_step qs I" and prog: "list_all progressive qs"
    and move: "\<And>nodes it. I nodes it \<Longrightarrow> I nodes (it + 1)"
  shows "I nodes it \<Longrightarrow>
    \<exists>nodes1 it1. left_loop qs nodes it = Some nodes1 \<and> length nodes1 \<le> it1 \<and> I nodes1 it1"
proof (induction "work nodes + (length nodes - it)" arbitrary: nodes it rule: less_induct)
  case less
  show ?case
  proof (cases "length nodes \<le> it")
    case True
    with less.prems show ?thesis by (subst left_loop.simps) auto
  next
    case False
    obtain nodes1 m1 where try1: "try_left qs nodes it False = (nodes1, m1)" by fastforce
    note inv = try_left_inv [of qs I qs, OF step prog order.refl less.prems try1]
    let ?it = "if m1 then it else it + 1"
    have I: "I nodes1 ?it"
      using inv move by auto
    have "work nodes1 + (length nodes1 - ?it) < work nodes + (length nodes - it)"
      using inv False by auto
    from less.hyps [OF this I] False try1 show ?thesis
      by (subst left_loop.simps) simp
  qed
qed

lemma try_right_inv:
  assumes step: "right_step qs I" and prog: "list_all progressive qs"
  shows "set ps \<subseteq> set qs \<Longrightarrow> I nodes it \<Longrightarrow> try_right ps nodes it m = (nodes1, it1, m1) \<Longrightarrow>
    I nodes1 it1 \<and> (nodes1 = nodes \<and> it1 = it \<and> m1 = m \<or> m1 \<and> work nodes1 < work nodes \<and> it1 \<le> it)"
proof (induction ps nodes it m arbitrary: nodes1 it1 m1 rule: try_right.induct)
  case (2 p ps nodes it m)
  let ?n = "length (pat_elements p)"
  from 2(4) prog have p: "p \<in> set qs" "progressive p" "set ps \<subseteq> set qs"
    by (auto simp: list_all_iff)
  show ?case
  proof (cases "it < ?n \<or> extractOperator nodes (it - ?n) p = None")
    case True
    then have "try_right ps nodes it m = (nodes1, it1, m1)"
      using 2(6) by (auto simp: Let_def split: option.splits)
    then show ?thesis
      using 2(1) [OF refl _ p(3) 2(5)] 2(2) [OF refl _ _ p(3) 2(5)] True by blast
  next
    case False
    then obtain e where e: "extractOperator nodes (it - ?n) p = Some e" "\<not> it < ?n" by auto
    let ?nodes = "replaced nodes (it - ?n) ?n e"
    have it: "it - ?n + ?n = it" "0 < ?n" "it - ?n + 1 \<le> it"
      using e(2) extractOperatorD(2) [OF e(1) p(2)] by linarith+
    have try1: "try_right ps ?nodes (it - ?n + 1) True = (nodes1, it1, m1)"
      using 2(6) e by (simp add: Let_def replaced_def it(1))
    have "I ?nodes (it - ?n + 1)"
      using step 2(5) p(1) e(1) it(1) unfolding right_step_def by metis
    then have "I nodes1 it1 \<and> (nodes1 = ?nodes \<and> it1 = it - ?n + 1 \<and> m1 = True \<or>
        m1 \<and> work nodes1 < work ?nodes \<and> it1 \<le> it - ?n + 1)"
      using 2(3) [OF refl e(2,1) p(3)] try1 by (simp add: replaced_def it(1))
    with replaced_work(1) [OF e(1) p(2)] it(3) show ?thesis by auto
  qed
qed simp

lemma right_loop_total:
  assumes step: "right_step qs I" and prog: "list_all progressive qs"
    and move: "\<And>nodes it. I nodes it \<Longrightarrow> I nodes (it - 1)"
  shows "I nodes it \<Longrightarrow> \<exists>nodes1. right_loop qs nodes it = Some nodes1 \<and> I nodes1 0"
proof (induction "work nodes + it" arbitrary: nodes it rule: less_induct)
  case less
  show ?case
  proof (cases "it = 0")
    case True
    with less.prems show ?thesis by (subst right_loop.simps) auto
  next
    case False
    obtain nodes1 it1 m1 where try1: "try_right qs nodes it False = (nodes1, it1, m1)"
      by (metis prod_cases3)
    note inv = try_right_inv [of qs I qs, OF step prog order.refl less.prems try1]
    let ?it = "if m1 then it1 else it1 - 1"
    have I: "I nodes1 ?it"
      using inv move by auto
    have "work nodes1 + ?it < work nodes + it"
      using inv False by auto
    from less.hyps [OF this I] False try1 show ?thesis
      by (subst right_loop.simps) simp
  qed
qed

end
