(* ===== verification/Expression_Trees.thy ===== *)
theory Expression_Trees
  imports Expression_Facts "HOL-Library.Sublist"
begin

text \<open>
  What the trees built by the reduction look like: every operator stands above operands that bind
  tighter, in the direction of its group, and the tokens of a subtree are a range of the tokens of
  the tree.
\<close>

subsection \<open>Levels\<close>

definition operator_groups :: "operator list list" where
  "operator_groups = List.map (\<lambda>g. List.map pat_op (patterns g)) opPatterns"

definition group_index :: "operator \<Rightarrow> nat" where
  "group_index oper = length (takeWhile (\<lambda>ops. oper \<notin> set ops) operator_groups)"

text \<open>
  Names, literals, brackets, operator tokens and the delimiter nodes inside of tuples have the level
  0, an operator node has the level of its group.
\<close>

definition level :: "expr \<Rightarrow> nat" where
  "level e =
     (case x_op e of
        None \<Rightarrow> 0
      | Some oper \<Rightarrow> if oper = Op_TupleDelimiter then 0 else Suc (group_index oper))"

lemmas pattern_defs = patterns_special_def patterns_prefix_def patterns_multiplier_def
  patterns_addition_def patterns_shift_def patterns_bitwise_and_def patterns_bitwise_or_def
  patterns_bitwise_xor_def patterns_relation_def patterns_equality_def patterns_logical_and_def
  patterns_logical_or_def patterns_logical_xor_def patterns_conditional_def patterns_pair_def
  patterns_tuple_def patterns_leading_delimiter_def patterns_trailing_delimiter_def
  patterns_assignment_def

lemma operator_groups_eq:
  "operator_groups = [
     [Op_Container, Op_Container, Op_Container, Op_Subscript, Op_Call, Op_Parenthesis,
      Op_ElementSelection, Op_ElementSelection, Op_PostfixIncrement, Op_PostfixDecrement,
      Op_VarArg],
     [Op_PrefixIncrement, Op_PrefixDecrement, Op_BitwiseComplement, Op_LogicalNot,
      Op_LogicalNot, Op_UnaryPlus, Op_UnaryMinus, Op_TupleExtraction, Op_FunctionObject,
      Op_Async],
     [Op_Multiplication, Op_MultiplicationOv, Op_Division, Op_DivisionFloor,
      Op_DivisionCeiling, Op_Modulus, Op_ModulusFloor, Op_ModulusCeiling, Op_Exponent],
     [Op_Addition, Op_AdditionOv, Op_Subtraction, Op_SubtractionOv],
     [Op_LeftShift, Op_RightShift, Op_UnsignedRightShift],
     [Op_BitwiseAnd],
     [Op_BitwiseOr],
     [Op_BitwiseXor],
     [Op_LessThan, Op_GreaterThan, Op_LessThanOrEqualTo, Op_GreaterThanOrEqualTo, Op_InstanceOf],
     [Op_EqualTo, Op_NotEqualTo],
     [Op_LogicalAnd, Op_LogicalAnd],
     [Op_LogicalOr, Op_LogicalOr],
     [Op_LogicalXor, Op_LogicalXor],
     [Op_Conditional],
     [Op_Pair],
     [Op_Tuple, Op_TupleDelimiter],
     [Op_TupleDelimiter],
     [Op_TupleDelimiter],
     [Op_Assignment, Op_MultiplicationAssignment, Op_MultiplicationOvAssignment,
      Op_DivisionAssignment, Op_DivisionFloorAssignment, Op_DivisionCeilingAssignment,
      Op_ModulusAssignment, Op_ModulusFloorAssignment, Op_ModulusCeilingAssignment,
      Op_ExponentAssignment, Op_AdditionAssignment, Op_AdditionOvAssignment,
      Op_SubtractionAssignment, Op_SubtractionOvAssignment, Op_LeftShiftAssignment,
      Op_RightShiftAssignment, Op_UnsignedRightShiftAssignment, Op_BitwiseAndAssignment,
      Op_BitwiseOrAssignment, Op_BitwiseXorAssignment]]"
  by (simp add: operator_groups_def opPatterns_def pattern_defs)

lemma group_index_cases: "group_index oper \<le> 15 \<or> group_index oper = 18"
  by (cases oper) (simp_all add: group_index_def operator_groups_eq)

lemma group_index_15: "group_index oper = 15 \<longleftrightarrow> oper = Op_Tuple \<or> oper = Op_TupleDelimiter"
  by (cases oper) (simp_all add: group_index_def operator_groups_eq)


subsection \<open>Trees\<close>

definition tight :: "expr option list \<Rightarrow> bool" where
  "tight sub \<longleftrightarrow> list_all (\<lambda>x. case x of None \<Rightarrow> False | Some c \<Rightarrow> level c \<le> 15) sub"

text \<open>
  The operand in the direction of the group may be of the same level, the others bind tighter. What
  stands in brackets is a tuple, also as an operand of the operators of the first group.
\<close>

definition operand_ok :: "operator \<Rightarrow> nat \<Rightarrow> nat \<Rightarrow> expr \<Rightarrow> bool" where
  "operand_ok oper len i c \<longleftrightarrow>
     (let k = group_index oper
      in (k = 0 \<and> isOperator c Op_Tuple) \<or>
         level c \<le> (if i = (if leftToRight (opPatterns ! k) then 0 else len - 1) then Suc k else k))"

text \<open>
  The elements of a tuple bind tighter than the comma, unless it is the tuple of one that stands for
  the contents of a pair of brackets.
\<close>

definition operands_ok :: "operator \<Rightarrow> expr option list \<Rightarrow> bool" where
  "operands_ok oper sub \<longleftrightarrow>
     (if oper = Op_Tuple then length sub = 1 \<or> tight sub
      else list_all (\<lambda>i. case sub ! i of None \<Rightarrow> True | Some c \<Rightarrow> operand_ok oper (length sub) i c)
             [0..<length sub])"

fun precedence_ok :: "expr \<Rightarrow> bool" where
  "precedence_ok (Expr type toks sid lit oper sub) \<longleftrightarrow>
     list_all (\<lambda>x. case x of None \<Rightarrow> True | Some c \<Rightarrow> precedence_ok c) sub \<and>
     (case oper of None \<Rightarrow> True | Some p \<Rightarrow> operands_ok p sub)"

fun spans_ok :: "expr \<Rightarrow> bool" where
  "spans_ok (Expr type toks sid lit oper sub) \<longleftrightarrow>
     list_all (\<lambda>x. case x of None \<Rightarrow> True | Some c \<Rightarrow> sublist (x_tokens c) toks \<and> spans_ok c) sub"

text \<open>The opening brackets are tokens of the type for them.\<close>

definition opening_ok :: "token_ptr \<Rightarrow> bool" where
  "opening_ok t \<longleftrightarrow>
     (t_sid (tk t) \<in> {StringId ''OpenParenthesis'', StringId ''OpenBracket'', StringId ''OpenBrace''} \<longrightarrow>
        tokenMatches t TokenOpenBracket)"

text \<open>What holds of every node of the list.\<close>

definition node_inv :: "expr \<Rightarrow> bool" where
  "node_inv n \<longleftrightarrow>
     precedence_ok n \<and> spans_ok n \<and> x_tokens n \<noteq> [] \<and>
     (isOperator n Op_Tuple \<longrightarrow> tight (x_sub n)) \<and> \<not> isOperator n Op_TupleDelimiter \<and>
     (x_type n = Node_Unknown \<longrightarrow>
        x_op n = None \<and> (tokenMatches (x_tokens n ! 0) TokenOpenBracket \<longrightarrow> length (x_sub n) = 1) \<and>
        opening_ok (x_tokens n ! 0))"

subsection \<open>The patterns\<close>

fun element_ok :: "nat \<Rightarrow> op_pattern \<Rightarrow> op_element \<Rightarrow> bool" where
  "element_ok k p (OpToken _) \<longleftrightarrow> True"
| "element_ok k p (OpExpect kind i) \<longleftrightarrow>
     i < pat_subNodes p \<and> (bracket_kind (OpExpect kind i) \<longrightarrow> k = 0)"

text \<open>The element in the direction of the group fills the subnode in that direction.\<close>

fun edge_ok :: "nat \<Rightarrow> op_element \<Rightarrow> bool" where
  "edge_ok i (OpToken _) \<longleftrightarrow> True"
| "edge_ok i (OpExpect kind j) \<longleftrightarrow> i = j \<or> bracket_kind (OpExpect kind j)"

definition tuple_pattern_ok :: "nat \<Rightarrow> pattern_group \<Rightarrow> op_pattern \<Rightarrow> bool" where
  "tuple_pattern_ok k g p \<longleftrightarrow>
     pat_subNodes p = 2 \<and>
     (\<exists>sid.
       k = 15 \<and> leftToRight g \<and>
         pat_elements p = [OpExpect Pt_Expression 0, OpToken sid, OpExpect Pt_Expression 1] \<or>
       k = 16 \<and> \<not> leftToRight g \<and> pat_op p = Op_TupleDelimiter \<and>
         pat_elements p = [OpToken sid, OpExpect Pt_Expression 1] \<or>
       k = 17 \<and> leftToRight g \<and> pat_op p = Op_TupleDelimiter \<and>
         pat_elements p = [OpExpect Pt_Expression 0, OpToken sid])"

definition pattern_ok :: "nat \<Rightarrow> pattern_group \<Rightarrow> op_pattern \<Rightarrow> bool" where
  "pattern_ok k g p \<longleftrightarrow>
     progressive p \<and> list_all (element_ok k p) (pat_elements p) \<and>
     (if pat_op p = Op_Tuple \<or> pat_op p = Op_TupleDelimiter then tuple_pattern_ok k g p
      else group_index (pat_op p) = k \<and> leftToRight (opPatterns ! k) = leftToRight g \<and>
        (if leftToRight g then edge_ok 0 (hd (pat_elements p))
         else edge_ok (pat_subNodes p - 1) (last (pat_elements p))))"

lemmas container_defs = Container_Class_def Container_Args_def Container_Values_def Container_SubNodes_def

lemma patterns_ok: "list_all (\<lambda>(k, g). list_all (pattern_ok k g) (patterns g)) (enumerate 0 opPatterns)"
  by (simp add: opPatterns_def pattern_defs pattern_ok_def tuple_pattern_ok_def progressive_def
      group_index_def operator_groups_eq enumerate_simps container_defs)

subsection \<open>Building a node\<close>

definition subs_ok :: "token_ptr list \<Rightarrow> expr option list \<Rightarrow> bool" where
  "subs_ok toks sub \<longleftrightarrow>
     list_all (\<lambda>x. case x of None \<Rightarrow> True
       | Some c \<Rightarrow> precedence_ok c \<and> spans_ok c \<and> sublist (x_tokens c) toks) sub"

lemma subs_ok_simps [simp]:
  "subs_ok toks []"
  "subs_ok toks (x # xs) \<longleftrightarrow>
     (case x of None \<Rightarrow> True
       | Some c \<Rightarrow> precedence_ok c \<and> spans_ok c \<and> sublist (x_tokens c) toks) \<and> subs_ok toks xs"
  "subs_ok toks (xs @ ys) \<longleftrightarrow> subs_ok toks xs \<and> subs_ok toks ys"
  by (simp_all add: subs_ok_def)

lemma subs_okD: "precedence_ok n \<Longrightarrow> spans_ok n \<Longrightarrow> subs_ok (x_tokens n) (x_sub n)"
  by (cases n) (auto simp: subs_ok_def list_all_iff split: option.splits)

lemma subs_ok_mono: "subs_ok toks sub \<Longrightarrow> sublist toks toks1 \<Longrightarrow> subs_ok toks1 sub"
  by (auto simp: subs_ok_def list_all_iff split: option.splits intro: sublist_order.order_trans)

lemma subs_ok_node:
  "subs_ok toks sub \<Longrightarrow> (\<And>p. oper = Some p \<Longrightarrow> operands_ok p sub) \<Longrightarrow>
     precedence_ok (Expr ty toks sid lit oper sub) \<and> spans_ok (Expr ty toks sid lit oper sub)"
  by (auto simp: subs_ok_def list_all_iff split: option.splits)

lemma subs_ok_take_drop: "subs_ok toks sub \<Longrightarrow> subs_ok toks (take k sub) \<and> subs_ok toks (drop k sub)"
  by (metis append_take_drop_id subs_ok_simps(3))

lemma tight_simps [simp]:
  "tight []" "tight (x # xs) \<longleftrightarrow> (case x of None \<Rightarrow> False | Some c \<Rightarrow> level c \<le> 15) \<and> tight xs"
  "tight (xs @ ys) \<longleftrightarrow> tight xs \<and> tight ys"
  by (simp_all add: tight_def)

lemma level_tuple: "isOperator n Op_Tuple \<Longrightarrow> level n = 16"
  using group_index_15 [of Op_Tuple] by (simp add: isOperator_def level_def)

lemma level_loose:
  assumes "level n \<le> 18" "\<not> isOperator n Op_Tuple"
  shows "level n \<le> 15"
proof (cases "x_op n")
  case (Some oper)
  with assms group_index_cases [of oper] group_index_15 [of oper] show ?thesis
    by (auto simp: level_def isOperator_def split: if_splits)
qed (simp add: level_def)

text \<open>The subnode made of a node.\<close>

lemma operand_node: "x_type n \<noteq> Node_Unknown \<Longrightarrow> operand n = n"
  by (simp add: operand_def)

lemma operand_inv:
  assumes "node_inv n"
  shows "precedence_ok (operand n)" "spans_ok (operand n)" "sublist (x_tokens (operand n)) (x_tokens n)"
proof -
  let ?t = "x_tokens n ! 0"
  have n: "precedence_ok n" "spans_ok n" "x_tokens n \<noteq> []"
    using assms by (simp_all add: node_inv_def)
  have t: "sublist [?t] (x_tokens n)"
    using n(3) by (cases "x_tokens n") auto
  have "precedence_ok (operand n) \<and> spans_ok (operand n) \<and> sublist (x_tokens (operand n)) (x_tokens n)"
  proof (cases "x_type n = Node_Unknown \<and> tokenMatches ?t TokenOpenBracket")
    case True
    with assms have "length (x_sub n) = 1"
      by (simp add: node_inv_def)
    then obtain c where c: "x_sub n = [c]"
      by (auto simp: length_Suc_conv)
    have op: "operand n = wrapByTuple c (Some ?t)"
      using True c by (simp add: operand_def)
    show ?thesis
    proof (cases c)
      case None
      with t show ?thesis
        by (simp add: op wrapByTuple_def operands_ok_def)
    next
      case (Some e)
      with subs_okD [OF n(1,2)] c have e: "precedence_ok e" "spans_ok e" "sublist (x_tokens e) (x_tokens n)"
        by simp_all
      with t Some show ?thesis
        by (simp add: op wrapByTuple_def operands_ok_def)
    qed
  qed (use n in \<open>auto simp: operand_def\<close>)
  then show "precedence_ok (operand n)" "spans_ok (operand n)" "sublist (x_tokens (operand n)) (x_tokens n)"
    by simp_all
qed

lemma operand_bracket:
  assumes "node_inv n" "matchesElement n el" "bracket_kind el"
  shows "isOperator (operand n) Op_Tuple"
proof -
  let ?t = "x_tokens n ! 0"
  from assms(2,3) have u: "x_type n = Node_Unknown"
    and sid: "t_sid (tk ?t) \<in> {StringId ''OpenParenthesis'', StringId ''OpenBracket'', StringId ''OpenBrace''}"
    by (induction n el rule: matchesElement.induct) (simp_all add: node_sid_def sidMatches_def)
  with assms(1) have "tokenMatches ?t TokenOpenBracket"
    by (auto simp: node_inv_def opening_ok_def)
  with u show ?thesis
    by (auto simp: operand_def wrapByTuple_def isOperator_def split: option.splits)
qed

lemma name_chain_known: "name_chain d n \<Longrightarrow> x_op n = None \<Longrightarrow> x_type n = Node_Name"
  by (cases n) (simp split: if_splits)

lemma operand_expression:
  assumes "node_inv n" "matchesElement n el" "el = OpExpect kind i" "\<not> bracket_kind el"
  shows "operand n = n"
proof -
  have "x_type n \<noteq> Node_Unknown"
    using assms by (cases kind) (auto simp: node_inv_def matchesAsNameChain_def dest: name_chain_known)
  then show ?thesis by (rule operand_node)
qed


lemma length_place_operands [simp]: "length (place_operands ns es sub) = length sub"
  by (induction ns es sub rule: place_operands.induct) auto

lemma place_operands_nth:
  "place_operands ns es sub ! i = Some c \<Longrightarrow> i < length sub \<Longrightarrow>
     sub ! i = Some c \<or>
     (\<exists>j kind. j < length ns \<and> j < length es \<and> es ! j = OpExpect kind i \<and> c = operand (ns ! j))"
proof (induction ns es sub rule: place_operands.induct)
  case (1 n ns kind k es sub)
  from 1(3) have "i < length (sub[k := Some (operand n)])" by simp
  from 1(1) [OF 1(2) [simplified] this] show ?case
  proof (elim disjE exE conjE)
    assume "sub[k := Some (operand n)] ! i = Some c"
    with 1(3) show ?thesis
      by (cases "k = i") (auto intro!: exI [of _ 0])
  next
    fix j kd assume "j < length ns" "j < length es" "es ! j = OpExpect kd i" "c = operand (ns ! j)"
    then show ?thesis by (intro disjI2 exI [of _ "Suc j"]) auto
  qed
next
  case (2 n ns sid es sub)
  from 2(1) [OF 2(2) [simplified] 2(3)] show ?case
  proof (elim disjE exE conjE)
    fix j kd assume "j < length ns" "j < length es" "es ! j = OpExpect kd i" "c = operand (ns ! j)"
    then show ?thesis by (intro disjI2 exI [of _ "Suc j"]) auto
  qed simp
qed auto

lemma sublist_concat: "x \<in> set xs \<Longrightarrow> sublist (f x) (concat (List.map f xs))"
  by (metis concat_append concat.simps(2) list.simps(9) map_append split_list sublist_appendI)

text \<open>
  The bound on the levels in a part of the list that a pattern of the group number \<open>k\<close> matches:
  the node in the direction of the group may be of the group's own level.
\<close>

definition part_inv :: "nat \<Rightarrow> bool \<Rightarrow> expr list \<Rightarrow> bool" where
  "part_inv k ltr part \<longleftrightarrow>
     (\<forall>j < length part. node_inv (part ! j) \<and>
        level (part ! j) \<le> (if j = (if ltr then 0 else length part - 1) then Suc k else k))"

lemma placed_operand:
  assumes p: "list_all (element_ok k p) (pat_elements p)" and part: "part_inv k ltr part"
    and fits: "list_all2 matchesElement part (pat_elements p)"
    and c: "place_operands part (pat_elements p) (replicate m None) ! i = Some c" "i < m"
  obtains j kind where "j < length part" "pat_elements p ! j = OpExpect kind i" "c = operand (part ! j)"
    "node_inv (part ! j)" "matchesElement (part ! j) (OpExpect kind i)"
proof -
  from place_operands_nth [OF c(1)] c(2) obtain j kind where j: "j < length part"
      "j < length (pat_elements p)" "pat_elements p ! j = OpExpect kind i" "c = operand (part ! j)"
    by auto
  show thesis
  proof (rule that)
    show "node_inv (part ! j)" using part j(1) by (simp add: part_inv_def)
    show "matchesElement (part ! j) (OpExpect kind i)"
      using fits j(1,3) by (metis list_all2_nthD)
  qed (use j in auto)
qed

lemma placed_subs_ok:
  assumes "list_all (element_ok k p) (pat_elements p)" "part_inv k ltr part"
    "list_all2 matchesElement part (pat_elements p)"
  shows "subs_ok (concat (List.map x_tokens part)) (place_operands part (pat_elements p) (replicate m None))"
proof -
  have "precedence_ok c \<and> spans_ok c \<and> sublist (x_tokens c) (concat (List.map x_tokens part))"
    if c: "place_operands part (pat_elements p) (replicate m None) ! i = Some c" "i < m" for i c
  proof -
    obtain j kind where j: "j < length part" "c = operand (part ! j)" "node_inv (part ! j)"
      using placed_operand [OF assms c] by blast
    have "sublist (x_tokens (part ! j)) (concat (List.map x_tokens part))"
      using j(1) by (intro sublist_concat) simp
    with operand_inv [OF j(3)] j(2) show ?thesis
      using sublist_order.order_trans by auto
  qed
  then show ?thesis
    by (auto simp: subs_ok_def list_all_length split: option.splits)
qed

text \<open>An operator other than the comma and the semicolon.\<close>

lemma placed_operands_ok:
  assumes p: "pattern_ok k g p" "pat_op p \<noteq> Op_Tuple" "pat_op p \<noteq> Op_TupleDelimiter"
    and part: "part_inv k (leftToRight g) part" and fits: "list_all2 matchesElement part (pat_elements p)"
  shows "operands_ok (pat_op p) (place_operands part (pat_elements p) (replicate (pat_subNodes p) None))"
proof -
  let ?sub = "place_operands part (pat_elements p) (replicate (pat_subNodes p) None)"
  have len: "length part = length (pat_elements p)"
    using fits by (rule list_all2_lengthD)
  from p have el: "list_all (element_ok k p) (pat_elements p)"
    and k: "group_index (pat_op p) = k" "leftToRight (opPatterns ! k) = leftToRight g"
    and edge: "if leftToRight g then edge_ok 0 (hd (pat_elements p))
      else edge_ok (pat_subNodes p - 1) (last (pat_elements p))"
    by (simp_all add: pattern_ok_def split: if_splits)
  have "operand_ok (pat_op p) (pat_subNodes p) i c" if c: "?sub ! i = Some c" "i < pat_subNodes p" for i c
  proof -
    obtain j kind where j: "j < length part" "pat_elements p ! j = OpExpect kind i"
        "c = operand (part ! j)" "node_inv (part ! j)" "matchesElement (part ! j) (OpExpect kind i)"
      using placed_operand [OF el part fits c] by blast
    show ?thesis
    proof (cases "bracket_kind (OpExpect kind i)")
      case True
      moreover have "element_ok k p (OpExpect kind i)"
        using el j(1,2) len by (metis list_all_length)
      ultimately have "k = 0" by simp
      with operand_bracket [OF j(4,5) True] show ?thesis
        by (simp add: operand_ok_def k(1) j(3))
    next
      case False
      have "c = part ! j"
        using operand_expression [OF j(4,5) refl False] j(3) by simp
      then have lev: "level c \<le> (if j = (if leftToRight g then 0 else length part - 1) then Suc k else k)"
        using part j(1) by (simp add: part_inv_def)
      have "i = (if leftToRight g then 0 else pat_subNodes p - 1)"
        if "j = (if leftToRight g then 0 else length part - 1)"
      proof -
        from that len j(1) have "pat_elements p ! j =
            (if leftToRight g then hd (pat_elements p) else last (pat_elements p))"
          by (cases "pat_elements p = []") (auto simp: hd_conv_nth last_conv_nth)
        with edge j(2) False show ?thesis
          by (auto split: if_splits)
      qed
      with lev show ?thesis
        by (auto simp: operand_ok_def Let_def k split: if_splits)
    qed
  qed
  then show ?thesis
    using p(2) by (auto simp: operands_ok_def list_all_iff split: option.splits)
qed


text \<open>The comma and the semicolon.\<close>

lemma flatten_ok:
  assumes n: "node_inv n" "level n \<le> 18" and pre: "tight pre" and post: "tight post"
    and toks: "subs_ok toks (pre @ Some n # post)"
  shows "tight (flatten_tuple (length pre) (pre @ Some n # post))"
    "subs_ok toks (flatten_tuple (length pre) (pre @ Some n # post))"
proof -
  have "tight (flatten_tuple (length pre) (pre @ Some n # post)) \<and>
      subs_ok toks (flatten_tuple (length pre) (pre @ Some n # post))"
  proof (cases "isOperator n Op_Tuple")
    case True
    then have "flatten_tuple (length pre) (pre @ Some n # post) = pre @ x_sub n @ post"
      by (simp add: flatten_tuple_def)
    moreover have "tight (x_sub n)"
      using n(1) True by (simp add: node_inv_def)
    moreover have "subs_ok toks (x_sub n)"
      using subs_okD [of n] n(1) toks subs_ok_mono by (auto simp: node_inv_def)
    ultimately show ?thesis
      using pre post toks by simp
  next
    case False
    then have "flatten_tuple (length pre) (pre @ Some n # post) = pre @ Some n # post"
      by (simp add: flatten_tuple_def)
    with pre post toks level_loose [OF n(2) False] show ?thesis by simp
  qed
  then show "tight (flatten_tuple (length pre) (pre @ Some n # post))"
    "subs_ok toks (flatten_tuple (length pre) (pre @ Some n # post))" by simp_all
qed

definition delimiter_node :: "token_ptr \<Rightarrow> expr" where
  "delimiter_node t = Expr Node_Operator [t] StringId_Invalid None (Some Op_TupleDelimiter) []"

lemma delimiter_node_ok:
  "t \<in> set toks \<Longrightarrow> subs_ok toks [Some (delimiter_node t)]" "tight [Some (delimiter_node t)]"
proof -
  show "tight [Some (delimiter_node t)]"
    by (simp add: delimiter_node_def level_def)
  assume "t \<in> set toks"
  then have "sublist [t] toks"
    by (metis append_Cons append_Nil split_list sublist_appendI)
  then show "subs_ok toks [Some (delimiter_node t)]"
    by (simp add: delimiter_node_def operands_ok_def)
qed

text \<open>What \<open>build_operator\<close> makes of the operands of a tuple, in the four cases.\<close>

lemma tuple_operands:
  assumes p: "pattern_ok k g p" "pat_op p = Op_Tuple \<or> pat_op p = Op_TupleDelimiter"
    and part: "part_inv k (leftToRight g) part" and fits: "list_all2 matchesElement part (pat_elements p)"
  obtains n pre post where "x_sub (build_operator part p) =
      flatten_tuple (length pre) (pre @ Some n # post)"
    "x_op (build_operator part p) = Some Op_Tuple"
    "node_inv n" "level n \<le> 18" "tight pre" "tight post"
    "subs_ok (concat (List.map x_tokens part)) (pre @ Some n # post)"
proof -
  let ?toks = "concat (List.map x_tokens part)"
  have at: "node_inv (part ! j)" "level (part ! j) \<le> Suc k" if "j < length part" for j
    using part that by (auto simp: part_inv_def split: if_splits)
  have known: "operand (part ! j) = part ! j"
    if "j < length part" "pat_elements p ! j = OpExpect Pt_Expression i" for j i
    using operand_expression [OF at(1) [OF that(1)] _ refl, of Pt_Expression i] fits that
    by (metis list_all2_nthD bracket_kind.simps(1) insertE empty_iff pattern_kind.distinct)
  have toks: "part ! j \<in> set part" "x_tokens (part ! j) \<noteq> []" "subs_ok ?toks [Some (part ! j)]"
    "x_tokens (part ! j) ! 0 \<in> set ?toks" if "j < length part" for j
  proof -
    show in_part: "part ! j \<in> set part" using that by simp
    show ne: "x_tokens (part ! j) \<noteq> []" using at(1) [OF that] by (simp add: node_inv_def)
    show "subs_ok ?toks [Some (part ! j)]"
      using at(1) [OF that] sublist_concat [OF in_part, of x_tokens] by (simp add: node_inv_def)
    show "x_tokens (part ! j) ! 0 \<in> set ?toks"
      using in_part ne by (auto intro!: bexI [of _ "part ! j"])
  qed
  have len: "length part = length (pat_elements p)"
    using fits by (rule list_all2_lengthD)
  obtain sid where sub: "pat_subNodes p = 2" and cases:
    "k = 15 \<and> leftToRight g \<and>
         pat_elements p = [OpExpect Pt_Expression 0, OpToken sid, OpExpect Pt_Expression 1] \<or>
       k = 16 \<and> \<not> leftToRight g \<and> pat_op p = Op_TupleDelimiter \<and>
         pat_elements p = [OpToken sid, OpExpect Pt_Expression 1] \<or>
       k = 17 \<and> leftToRight g \<and> pat_op p = Op_TupleDelimiter \<and>
         pat_elements p = [OpExpect Pt_Expression 0, OpToken sid]"
    using p by (auto simp: pattern_ok_def tuple_pattern_ok_def split: if_splits)
  note build = build_operator_def place_operands.simps flatten_tuple_def insert_delimiter_def
    delimiter_node_def [symmetric]
  from cases show thesis
  proof (elim disjE conjE)
    assume k: "k = 15" "leftToRight g"
      and el: "pat_elements p = [OpExpect Pt_Expression 0, OpToken sid, OpExpect Pt_Expression 1]"
    obtain a t b where abc: "part = [a, t, b]"
      using len by (auto simp: el length_Suc_conv numeral_3_eq_3)
    let ?d = "delimiter_node (x_tokens t ! 0)"
    let ?post = "if pat_op p = Op_Tuple then [Some b] else [Some ?d, Some b]"
    have ops: "operand a = a" "operand b = b"
      using known [of 0 0] known [of 2 1] by (simp_all add: abc el)
    have "level b \<le> 15"
      using part [unfolded part_inv_def, rule_format, of 2] by (simp add: abc k)
    moreover have "subs_ok ?toks [Some ?d]"
      using toks(4) [of 1] by (intro delimiter_node_ok) (simp add: abc)
    ultimately show thesis
      using at [of 0] toks(3) [of 0] toks(3) [of 2] p(2) k delimiter_node_ok(2) [of "x_tokens t ! 0"]
      by (intro that [of "[]" a ?post]) (auto simp: build abc el ops sub numeral_2_eq_2 Let_def)
  next
    assume k: "k = 16" "\<not> leftToRight g" "pat_op p = Op_TupleDelimiter"
      and el: "pat_elements p = [OpToken sid, OpExpect Pt_Expression 1]"
    obtain t b where abc: "part = [t, b]"
      using len by (auto simp: el length_Suc_conv numeral_2_eq_2)
    let ?d = "delimiter_node (x_tokens t ! 0)"
    have ops: "operand b = b"
      using known [of 1 1] by (simp add: abc el)
    have "subs_ok ?toks [Some ?d]"
      using toks(4) [of 0] by (intro delimiter_node_ok) (simp add: abc)
    then show thesis
      using at [of 1] toks(3) [of 1] k delimiter_node_ok(2) [of "x_tokens t ! 0"]
      by (intro that [of "[Some ?d]" b "[]"]) (auto simp: build abc el ops sub numeral_2_eq_2 Let_def)
  next
    assume k: "k = 17" "leftToRight g" "pat_op p = Op_TupleDelimiter"
      and el: "pat_elements p = [OpExpect Pt_Expression 0, OpToken sid]"
    obtain a t where abc: "part = [a, t]"
      using len by (auto simp: el length_Suc_conv numeral_2_eq_2)
    let ?d = "delimiter_node (x_tokens a ! 0)"
    have ops: "operand a = a"
      using known [of 0 0] by (simp add: abc el)
    have "subs_ok ?toks [Some ?d]"
      using toks(4) [of 0] by (intro delimiter_node_ok) (simp add: abc)
    then show thesis
      using at [of 0] toks(3) [of 0] k delimiter_node_ok(2) [of "x_tokens a ! 0"]
      by (intro that [of "[]" a "[Some ?d]"]) (auto simp: build abc el ops sub numeral_2_eq_2 Let_def)
  qed
qed

end
