(* ===== verification/Expression_Inv.thy ===== *)
theory Expression_Inv
  imports Expression_Trees
begin

text \<open>
  The reduction ends and keeps the invariant of the nodes and the sequence of the tokens; with it
  \<open>parseNodes\<close> and \<open>parseExpression\<close> return on bracketed tokens, and their trees are in order.
\<close>

subsection \<open>One match\<close>

lemma tree_okI:
  "subs_ok (x_tokens n) (x_sub n) \<Longrightarrow> (\<And>p. x_op n = Some p \<Longrightarrow> operands_ok p (x_sub n)) \<Longrightarrow>
     precedence_ok n \<and> spans_ok n"
  by (cases n) (use subs_ok_node in force)

lemma built_inv:
  assumes p: "pattern_ok k g p" and part: "part_inv k (leftToRight g) part"
    and fits: "list_all2 matchesElement part (pat_elements p)"
  shows "node_inv (build_operator part p) \<and> level (build_operator part p) \<le> Suc k"
proof -
  let ?e = "build_operator part p" and ?toks = "concat (List.map x_tokens part)"
  have el: "list_all (element_ok k p) (pat_elements p)" and prog: "progressive p"
    using p by (simp_all add: pattern_ok_def)
  have "part \<noteq> []"
    using fits prog by (auto simp: progressive_def)
  then have ne: "x_tokens ?e \<noteq> []"
    using part by (cases part) (auto simp: part_inv_def node_inv_def)
  show ?thesis
  proof (cases "pat_op p = Op_Tuple \<or> pat_op p = Op_TupleDelimiter")
    case True
    obtain n pre post where e: "x_sub ?e = flatten_tuple (length pre) (pre @ Some n # post)"
        "x_op ?e = Some Op_Tuple" and n: "node_inv n" "level n \<le> 18" "tight pre" "tight post"
        "subs_ok ?toks (pre @ Some n # post)"
      using tuple_operands [OF p True part fits] by blast
    have "15 \<le> k"
      using p True by (auto simp: pattern_ok_def tuple_pattern_ok_def split: if_splits)
    moreover have "level ?e = 16"
      using e(2) by (intro level_tuple) (simp add: isOperator_def)
    moreover have sub: "tight (x_sub ?e)" "subs_ok ?toks (x_sub ?e)"
      unfolding e(1) using flatten_ok [OF n] by blast+
    moreover have "precedence_ok ?e \<and> spans_ok ?e"
      using sub e(2) by (intro tree_okI) (auto simp: operands_ok_def)
    ultimately show ?thesis
      using e(2) ne by (simp add: node_inv_def isOperator_def)
  next
    case False
    let ?sub = "place_operands part (pat_elements p) (replicate (pat_subNodes p) None)"
    have e: "x_sub ?e = ?sub" "x_op ?e = Some (pat_op p)"
      using False by (simp_all add: build_operator_def Let_def)
    have "level ?e = Suc k"
      using p False e(2) by (simp add: level_def pattern_ok_def)
    moreover have "precedence_ok ?e \<and> spans_ok ?e"
      using placed_subs_ok [OF el part fits, of "pat_subNodes p"]
        placed_operands_ok [OF p _ _ part fits] False
      by (intro tree_okI) (auto simp: e)
    ultimately show ?thesis
      using e(2) ne False by (simp add: node_inv_def isOperator_def)
  qed
qed

lemma replaced_nth:
  assumes "it + n \<le> length nodes" "j < length (replaced nodes it n e)"
  shows "replaced nodes it n e ! j =
    (if j < it then nodes ! j else if j = it then e else nodes ! (j + n - 1))"
proof -
  have "(e # drop (it + n) nodes) ! (j - it) = nodes ! (j + n - 1)" if "it < j"
  proof -
    from that obtain d where "j = it + Suc d"
      using less_iff_Suc_add by auto
    with assms show ?thesis by (simp add: replaced_def add.commute add.left_commute)
  qed
  with assms show ?thesis
    by (auto simp: replaced_def nth_append min_def)
qed

lemma replaced_tokens:
  assumes "extractOperator nodes it p = Some e" "progressive p"
  shows "concat (List.map x_tokens (replaced nodes it (length (pat_elements p)) e)) =
    concat (List.map x_tokens nodes)"
proof -
  note d = extractOperatorD [OF assms]
  have "concat (List.map x_tokens nodes) = concat (List.map x_tokens (take it nodes @
      take (length (pat_elements p)) (drop it nodes) @ drop (it + length (pat_elements p)) nodes))"
    by (subst d(6) [symmetric]) (rule refl)
  then show ?thesis
    by (simp add: replaced_def d(5))
qed

subsection \<open>The loops\<close>

definition nodes_inv :: "token_ptr list \<Rightarrow> (nat \<Rightarrow> nat) \<Rightarrow> expr list \<Rightarrow> bool" where
  "nodes_inv toks bound nodes \<longleftrightarrow>
     concat (List.map x_tokens nodes) = toks \<and> nodes \<noteq> [] \<and>
     (\<forall>j < length nodes. node_inv (nodes ! j) \<and> level (nodes ! j) \<le> bound j)"

lemma nodes_inv_mono:
  "nodes_inv toks b nodes \<Longrightarrow> (\<And>j. j < length nodes \<Longrightarrow> b j \<le> c j) \<Longrightarrow> nodes_inv toks c nodes"
  unfolding nodes_inv_def by (meson order_trans)

lemma replaced_inv:
  assumes inv: "nodes_inv toks b nodes" and p: "pattern_ok k g p"
    and ex: "extractOperator nodes it p = Some e"
    and part: "\<And>j. j < length (pat_elements p) \<Longrightarrow>
      b (it + j) \<le> (if j = (if leftToRight g then 0 else length (pat_elements p) - 1) then Suc k else k)"
    and c: "\<And>j. j < it \<Longrightarrow> b j \<le> c j" "Suc k \<le> c it"
      "\<And>j. it < j \<Longrightarrow> b (j + length (pat_elements p) - 1) \<le> c j"
  shows "nodes_inv toks c (replaced nodes it (length (pat_elements p)) e)"
proof -
  let ?n = "length (pat_elements p)" and ?part = "take (length (pat_elements p)) (drop it nodes)"
  have prog: "progressive p" using p by (simp add: pattern_ok_def)
  note d = extractOperatorD [OF ex prog]
  have at: "node_inv (nodes ! j)" "level (nodes ! j) \<le> b j" if "j < length nodes" for j
    using inv that by (simp_all add: nodes_inv_def)
  have "part_inv k (leftToRight g) ?part"
    unfolding part_inv_def
  proof (intro allI impI)
    fix j assume "j < length ?part"
    then have j: "j < ?n" "it + j < length nodes" using d(1,3) by auto
    have "level (nodes ! (it + j)) \<le>
        (if j = (if leftToRight g then 0 else ?n - 1) then Suc k else k)"
      using at(2) [OF j(2)] part [OF j(1)] by (rule order_trans)
    with at(1) [OF j(2)] j d(1,3) show "node_inv (?part ! j) \<and>
        level (?part ! j) \<le> (if j = (if leftToRight g then 0 else length ?part - 1) then Suc k else k)"
      by (simp only: d(3)) simp
  qed
  from built_inv [OF p this d(4)] have e: "node_inv e" "level e \<le> Suc k"
    by (simp_all add: d(5))
  show ?thesis
    unfolding nodes_inv_def
  proof (intro conjI allI impI)
    show "concat (List.map x_tokens (replaced nodes it ?n e)) = toks"
      using replaced_tokens [OF ex prog] inv by (simp add: nodes_inv_def)
    show "replaced nodes it ?n e \<noteq> []" by (simp add: replaced_def)
    fix j assume j: "j < length (replaced nodes it ?n e)"
    consider "j < it" | "j = it" | "it < j" by linarith
    then have "node_inv (replaced nodes it ?n e ! j) \<and> level (replaced nodes it ?n e ! j) \<le> c j"
    proof cases
      case 1
      then have "j < length nodes" using d(1) by simp
      from at [OF this] c(1) [OF 1] 1 show ?thesis
        by (simp add: replaced_nth [OF d(1) j])
    next
      case 2
      with replaced_nth [OF d(1) j] have "replaced nodes it ?n e ! j = e" by simp
      with e c(2) 2 show ?thesis by simp
    next
      case 3
      then have "j + ?n - 1 < length nodes"
        using j replaced_work(5) [OF ex prog] by linarith
      from at [OF this] c(3) [OF 3] 3 show ?thesis
        by (simp add: replaced_nth [OF d(1) j])
    qed
    then show "node_inv (replaced nodes it ?n e ! j)" "level (replaced nodes it ?n e ! j) \<le> c j"
      by simp_all
  qed
qed

lemma left_step_inv:
  assumes "list_all (pattern_ok k g) (patterns g)" "leftToRight g"
  shows "left_step (patterns g) (\<lambda>nodes it. nodes_inv toks (\<lambda>j. if j \<le> it then Suc k else k) nodes)"
  unfolding left_step_def
proof (intro allI impI)
  fix nodes it p e
  assume inv: "nodes_inv toks (\<lambda>j. if j \<le> it then Suc k else k) nodes"
    and p: "p \<in> set (patterns g)" and ex: "extractOperator nodes it p = Some e"
  have ok: "pattern_ok k g p" using assms p by (simp add: list_all_iff)
  then obtain m where "length (pat_elements p) = Suc m"
    by (cases "pat_elements p") (auto simp: pattern_ok_def progressive_def)
  then show "nodes_inv toks (\<lambda>j. if j \<le> it then Suc k else k)
      (replaced nodes it (length (pat_elements p)) e)"
    using assms(2) by (intro replaced_inv [OF inv ok ex]) auto
qed

lemma right_step_inv:
  assumes "list_all (pattern_ok k g) (patterns g)" "\<not> leftToRight g"
  shows "right_step (patterns g) (\<lambda>nodes it. nodes_inv toks (\<lambda>j. if it \<le> Suc j then Suc k else k) nodes)"
  unfolding right_step_def
proof (intro allI impI)
  fix nodes it p e
  assume inv: "nodes_inv toks (\<lambda>j. if it + length (pat_elements p) \<le> Suc j then Suc k else k) nodes"
    and p: "p \<in> set (patterns g)" and ex: "extractOperator nodes it p = Some e"
  have ok: "pattern_ok k g p" using assms p by (simp add: list_all_iff)
  then obtain m where "length (pat_elements p) = Suc m"
    by (cases "pat_elements p") (auto simp: pattern_ok_def progressive_def)
  then show "nodes_inv toks (\<lambda>j. if it + 1 \<le> Suc j then Suc k else k)
      (replaced nodes it (length (pat_elements p)) e)"
    using assms(2) by (intro replaced_inv [OF inv ok ex]) auto
qed

lemma apply_group_total:
  assumes ok: "list_all (pattern_ok k g) (patterns g)" and inv: "nodes_inv toks (\<lambda>_. k) nodes"
  shows "\<exists>nodes1. apply_group g nodes = Some nodes1 \<and> nodes_inv toks (\<lambda>_. Suc k) nodes1"
proof -
  have prog: "list_all progressive (patterns g)"
    using ok by (simp add: list_all_iff pattern_ok_def)
  show ?thesis
  proof (cases "leftToRight g")
    case True
    let ?I = "\<lambda>nodes it. nodes_inv toks (\<lambda>j. if j \<le> it then Suc k else k) nodes"
    have "?I nodes 0"
      using inv by (rule nodes_inv_mono) simp
    moreover have "?I nodes (it + 1)" if "?I nodes it" for nodes it
      using that by (rule nodes_inv_mono) simp
    ultimately obtain nodes1 it1 where "left_loop (patterns g) nodes 0 = Some nodes1"
        "length nodes1 \<le> it1" "?I nodes1 it1"
      using left_loop_total [where I = ?I and nodes = nodes and it = 0, OF left_step_inv [OF ok True] prog]
      by blast
    then show ?thesis
      using True nodes_inv_mono by (fastforce simp: apply_group_def)
  next
    case False
    let ?I = "\<lambda>nodes it. nodes_inv toks (\<lambda>j. if it \<le> Suc j then Suc k else k) nodes"
    have "?I nodes (length nodes)"
      using inv by (rule nodes_inv_mono) simp
    moreover have "?I nodes (it - 1)" if "?I nodes it" for nodes it
      using that by (rule nodes_inv_mono) auto
    ultimately obtain nodes1 where "right_loop (patterns g) nodes (length nodes) = Some nodes1" "?I nodes1 0"
      using right_loop_total [where I = ?I and nodes = nodes and it = "length nodes",
          OF right_step_inv [OF ok False] prog] by blast
    then show ?thesis
      using False by (auto simp: apply_group_def)
  qed
qed

lemma apply_groups_total:
  "list_all (\<lambda>(k, g). list_all (pattern_ok k g) (patterns g)) (enumerate k gs) \<Longrightarrow>
     nodes_inv toks (\<lambda>_. k) nodes \<Longrightarrow>
     \<exists>nodes1. apply_groups gs nodes = Some nodes1 \<and> nodes_inv toks (\<lambda>_. k + length gs) nodes1"
proof (induction gs arbitrary: k nodes)
  case (Cons g gs)
  then obtain nodes1 where 1: "apply_group g nodes = Some nodes1" "nodes_inv toks (\<lambda>_. Suc k) nodes1"
    using apply_group_total [of k g toks nodes] by auto
  with Cons.IH [of "Suc k" nodes1] Cons.prems(1) show ?case by simp
qed simp

lemma reduce_groups_total:
  assumes "nodes_inv toks (\<lambda>_. 0) nodes"
  obtains nodes1 where "reduce_groups nodes ct = Some (Inr nodes1, ct)" "nodes_inv toks (\<lambda>_. 19) nodes1"
proof -
  have "length opPatterns = 19" by (simp add: opPatterns_def)
  then show ?thesis
    using apply_groups_total [OF patterns_ok assms] that by (auto simp: reduce_groups_def)
qed

end
