(* ===== verification/Expression_Total.thy ===== *)
theory Expression_Total
  imports Expression_Inv Literal_Facts
begin

text \<open>
  \<open>parseNodes\<close> and \<open>parseExpression\<close> as a whole: reports are only added, the trees are in order, and
  where nothing is reported the tree spans the tokens it was given; on properly bracketed tokens the
  functions return.
\<close>

subsection \<open>Reports are only added\<close>

text \<open>
  A tame computation only adds reports; if \<open>live\<close> is set it also throws nothing, which needs tokens
  whose line still exists.
\<close>

definition tame :: "bool \<Rightarrow> 'a parse \<Rightarrow> bool" where
  "tame live m \<longleftrightarrow>
     (\<forall>ct r ct1. m ct = Some (r, ct1) \<longrightarrow> prefix (p_errors ct) (p_errors ct1) \<and> (live \<longrightarrow> \<not> isl r))"

definition alive :: "token_ptr \<Rightarrow> bool" where
  "alive t \<longleftrightarrow> tk_line t \<noteq> None"

lemma tameD:
  "tame live m \<Longrightarrow> m ct = Some (r, ct1) \<Longrightarrow> prefix (p_errors ct) (p_errors ct1)"
  "tame True m \<Longrightarrow> m ct = Some (r, ct1) \<Longrightarrow> \<exists>x. r = Inr x"
  unfolding tame_def by (blast, metis isl_def old.sum.exhaust)

lemma tame_simps [simp]: "tame live (lret x)" "tame False (lthrow e)" "tame False (refText sid)"
  "live \<longrightarrow> alive t \<Longrightarrow> tame live (getLine t)"
  "tame live (receive lv ln a b msg args)" "tame live (reduce_groups nodes)"
  by (auto simp: tame_def lret_def lthrow_def refText_def getLine_def receive_def reduce_groups_def
      alive_def split: option.splits)

lemma tame_lbind:
  assumes "tame live m" "\<And>x. tame live (f x)"
  shows "tame live (lbind m f)"
  unfolding tame_def
proof (intro allI impI)
  fix ct r ct2
  assume "lbind m f ct = Some (r, ct2)"
  then show "prefix (p_errors ct) (p_errors ct2) \<and> (live \<longrightarrow> \<not> isl r)"
  proof (cases rule: lbind_SomeE)
    case (1 e)
    with assms(1) [unfolded tame_def, rule_format, OF 1(1)] show ?thesis by auto
  next
    case (2 x ct1)
    with assms(1) assms(2) [of x] show ?thesis
      unfolding tame_def using prefix_order.order_trans by blast
  qed
qed

lemma tame_errors [simp]:
  "tame live (errorAtWholeLine lv ln msg args)"
  "live \<longrightarrow> alive t \<Longrightarrow> tame live (errorAtToken lv t msg args)"
  "live \<longrightarrow> alive t \<Longrightarrow> tame live (errorAtNextToken lv t msg args)"
  "live \<longrightarrow> alive t \<Longrightarrow> tame live (errorAtInnerToken lv t a b msg args)"
  by (auto simp: errorAtWholeLine_def errorAtToken_def errorAtNextToken_def errorAtInnerToken_def
      intro!: tame_lbind)

lemma tame_ifI: "(b \<Longrightarrow> tame live m) \<Longrightarrow> (\<not> b \<Longrightarrow> tame live m') \<Longrightarrow> tame live (if b then m else m')"
  by simp

lemma tame_optionI:
  "(z = None \<Longrightarrow> tame live m) \<Longrightarrow> (\<And>x. z = Some x \<Longrightarrow> tame live (f x)) \<Longrightarrow>
     tame live (case z of None \<Rightarrow> m | Some x \<Rightarrow> f x)"
  by (simp split: option.split)

lemma tame_prodI: "(\<And>a b. tame live (f a b)) \<Longrightarrow> tame live (case z of (a, b) \<Rightarrow> f a b)"
  by (simp split: prod.split)

lemmas tame_intros = tame_ifI tame_optionI tame_prodI tame_lbind tame_simps tame_errors

lemma tame_universal_loop: "live \<longrightarrow> alive token \<Longrightarrow> tame live (universal_loop token str k i v)"
  by (induction token str k i v rule: universal_loop.induct)
     (auto intro!: tame_lbind split: option.splits)

lemma tame_parseUniversalCharacter:
  "live \<longrightarrow> alive token \<Longrightarrow> tame live (parseUniversalCharacter token str i ret)"
  unfolding parseUniversalCharacter_def Let_def by (intro tame_intros tame_universal_loop)

lemma tame_string_escape: "live \<longrightarrow> alive token \<Longrightarrow> tame live (string_escape token quot str i ret)"
  unfolding string_escape_def Let_def by (intro tame_intros tame_parseUniversalCharacter)

text \<open>The loops: by induction on their runs.\<close>

definition tame_run :: "bool \<Rightarrow> parse_context \<Rightarrow> 'a result \<times> parse_context \<Rightarrow> bool" where
  "tame_run live ct z \<longleftrightarrow> prefix (p_errors ct) (p_errors (snd z)) \<and> (live \<longrightarrow> \<not> isl (fst z))"

lemma tame_runI: "(\<And>ct z. m ct = Some z \<Longrightarrow> tame_run live ct z) \<Longrightarrow> tame live m"
  by (force simp: tame_def tame_run_def)

lemma tame_runD: "tame live m \<Longrightarrow> m ct = Some z \<Longrightarrow> tame_run live ct z"
  by (cases z) (simp add: tame_def tame_run_def)

lemma tame_run_trans: "tame_run live ct (r, ct1) \<Longrightarrow> tame_run live ct1 z \<Longrightarrow> tame_run live ct z"
  by (auto simp: tame_run_def intro: prefix_order.order_trans)

lemma tame_run_simps [simp]: "tame_run live ct (Inr x, ct)"
  by (simp add: tame_run_def)

lemma tame_string_loop:
  assumes "live \<longrightarrow> alive token"
  shows "tame live (string_loop token quot str i ret)"
proof (rule tame_runI)
  fix ct z assume "string_loop token quot str i ret ct = Some z"
  then show "tame_run live ct z"
    using assms
  proof (induction token quot str i ret ct z rule: string_loop_induct)
    case (step f token quot str i ret ct z)
    show ?case
    proof (cases "i < length str \<and> str ! i = CHR 0x5C")
      case True
      then obtain r ct1 where e: "string_escape token quot str (i + 1) ret ct = Some (r, ct1)"
        using step(2) by (auto split: option.splits)
      note p = tame_runD [OF tame_string_escape [OF step(3)] e]
      show ?thesis
      proof (cases "\<exists>j x. r = Inr (Some (j, x))")
        case True
        then obtain j x where r: "r = Inr (Some (j, x))" by blast
        have "f token quot str j x ct1 = Some z"
          using step(2) \<open>i < length str \<and> str ! i = CHR 0x5C\<close> e r by simp
        from tame_run_trans [OF p step(1) [OF this step(3)]] show ?thesis .
      next
        case False
        then have "z = (case r of Inl e \<Rightarrow> Inl e | Inr _ \<Rightarrow> Inr [], ct1)"
          using step(2) \<open>i < length str \<and> str ! i = CHR 0x5C\<close> e
          by (auto split: sum.splits option.splits)
        with p show ?thesis by (auto simp: tame_run_def split: sum.splits)
      qed
    next
      case False
      with step show ?thesis by (auto split: if_splits)
    qed
  qed
qed

lemmas regexp_loop_induct = regexp_loop.raw_induct [rotated, consumes 1, case_names step]
lemmas raw_loop_induct = raw_loop.raw_induct [rotated, consumes 1, case_names step]

lemma tame_regexp_loop: "tame live (regexp_loop quot str i ret)"
proof (rule tame_runI)
  fix ct z assume "regexp_loop quot str i ret ct = Some z"
  then show "tame_run live ct z"
  proof (induction quot str i ret ct z rule: regexp_loop_induct)
    case (step f quot str i ret ct z)
    then show ?case by (auto split: if_splits)
  qed
qed

lemma tame_raw_loop:
  assumes "live \<longrightarrow> alive token"
  shows "tame live (raw_loop token pre str i ret)"
proof (rule tame_runI)
  have err: "tame live (lbind (errorAtInnerToken lv token a b msg args) (\<lambda>_. lret x))"
    for lv a b msg args and x :: string
    using assms by (intro tame_intros)
  fix ct z assume "raw_loop token pre str i ret ct = Some z"
  then show "tame_run live ct z"
    using err
  proof (induction token pre str i ret ct z rule: raw_loop_induct)
    case (step f token pre str i ret ct z)
    then show ?case
      using tame_runD [OF step(3)] by (auto split: if_splits)
  qed
qed

lemma tame_parseNumericLiteral: "live \<longrightarrow> alive t \<Longrightarrow> tame live (parseNumericLiteral t s i ty f)"
  unfolding parseNumericLiteral_def Let_def
  by (cases "f (filter (\<lambda>c. c \<noteq> CHR ''_'') (drop i s))") (auto intro!: tame_intros)

text \<open>\<open>parseAsLiteral\<close> throws for a token that is no literal.\<close>

definition literal_type :: "token_ptr \<Rightarrow> bool" where
  "literal_type t \<longleftrightarrow> t_type (tk t) \<in> {TokenNumber, TokenName, TokenString}"

lemma tame_parseAsLiteral:
  assumes "live \<longrightarrow> alive t \<and> literal_type t"
  shows "tame live (parseAsLiteral stod t)"
proof -
  from assms have a: "live \<longrightarrow> alive t" by simp
  have "tame live (string_literal t)"
    unfolding string_literal_def parseStringLiteral_def parseRegexpStringLiteral_def
      parseRawStringLiteral_def Let_def
    by (intro tame_intros tame_string_loop tame_regexp_loop tame_raw_loop a)
  moreover have "tame live (number_literal stod t)"
    unfolding number_literal_def parseIntLiteral_def parseFloatLiteral_def Let_def
    by (intro tame_intros tame_parseNumericLiteral a)
  moreover have "tame live (parseBooleanLiteral t sid)" for sid
    unfolding parseBooleanLiteral_def by (intro tame_intros a)
  moreover have "tame live (lbind (errorAtToken Error t ''internal error'' [])
      (\<lambda>_. lthrow AbortCompiling :: literal parse))" if "\<not> literal_type t"
    using that assms by (cases live) (auto intro!: tame_intros)
  ultimately show ?thesis
    unfolding parseAsLiteral_def
    by (cases "t_type (tk t)") (auto simp: literal_type_def intro!: tame_lbind)
qed

text \<open>A computation that reports nothing is one whose parts report nothing.\<close>

lemma quiet_bind:
  assumes "lbind m f ct = Some (Inr y, ct2)" "tame False m" "\<And>x. tame False (f x)"
  obtains x ct1 where "m ct = Some (Inr x, ct1)" "f x ct1 = Some (Inr y, ct2)"
    "p_errors ct2 = p_errors ct \<longrightarrow> p_errors ct1 = p_errors ct \<and> p_errors ct2 = p_errors ct1"
proof -
  obtain x ct1 where x: "m ct = Some (Inr x, ct1)" "f x ct1 = Some (Inr y, ct2)"
    using assms(1) by (rule lbind_InrE)
  note p = tameD(1) [OF assms(2) x(1)] tameD(1) [OF assms(3) x(2)]
  show thesis
    by (rule that [OF x]) (use p prefix_order.antisym in fastforce)
qed

lemma errorAtToken_reports:
  "errorAtToken lv t msg args ct = Some (Inr u, ct1) \<Longrightarrow> p_errors ct1 \<noteq> p_errors ct"
  by (auto simp: errorAtToken_def getLine_def receive_def lret_def lthrow_def elim!: lbind_InrE
      split: option.splits)


subsection \<open>parseNodes and parseExpression\<close>

lemma tame_literal: "tame False (parseAsLiteral stod t)"
  by (rule tame_parseAsLiteral) simp

lemma tame_finish_expression:
  assumes "live \<longrightarrow> alive t \<and> list_all (\<lambda>n. list_all alive (x_tokens n)) nodes"
  shows "tame live (finish_expression t nodes)"
proof -
  have "live \<longrightarrow> alive (x_tokens (nodes ! 1) ! 0)"
    if "nodes \<noteq> []" "length nodes \<noteq> 1" "x_tokens (nodes ! 1) \<noteq> []"
    using that assms by (cases nodes; cases "tl nodes") (auto simp: list_all_length)
  with assms show ?thesis
    unfolding finish_expression_def by (intro tame_intros) auto
qed

lemma tame_parse: "tame False (parseNodes stod ts nodes)" "tame False (parseExpression stod ts)"
proof (induction stod ts nodes and stod ts rule: parseNodes_parseExpression.induct)
  case (2 stod t ts nodes)
  show ?case
    unfolding parseNodes.simps(2) by (intro tame_intros tame_literal) (simp_all add: 2)
next
  case (3 stod ts)
  then show ?case
    unfolding parseExpression.simps by (intro tame_intros tame_finish_expression) simp_all
qed simp

lemma fresh_nodes:
  assumes "opening_ok t"
  shows "node_inv (createNameNode t)" "node_inv (literal_node t v)"
    "\<not> tokenMatches t TokenOpenBracket \<Longrightarrow> node_inv (unknown_node [t] [])"
    "node_inv (createNullNode t)"
  using assms
  by (simp_all add: node_inv_def createNameNode_def literal_node_def unknown_node_def
      createNullNode_def isOperator_def)

lemma fresh_level:
  "level (createNameNode t) = 0" "level (literal_node t v) = 0" "level (unknown_node toks sub) = 0"
  by (simp_all add: level_def createNameNode_def literal_node_def unknown_node_def)

lemma fresh_tokens:
  "x_tokens (createNameNode t) = [t]" "x_tokens (literal_node t v) = [t]"
  "x_tokens (unknown_node toks sub) = toks" "x_tokens (createNullNode t) = [t]"
  by (simp_all add: createNameNode_def literal_node_def unknown_node_def createNullNode_def)

lemma bracket_node_inv:
  assumes "opening_ok t"
    "\<And>e. contents = Some e \<Longrightarrow> precedence_ok e \<and> spans_ok e \<and> sublist (x_tokens e) (t # ts)"
  shows "node_inv (unknown_node (t # ts) [contents])"
  using assms by (auto simp: node_inv_def unknown_node_def isOperator_def split: option.splits)

definition fresh_inv :: "expr list \<Rightarrow> bool" where
  "fresh_inv nodes \<longleftrightarrow> list_all (\<lambda>n. node_inv n \<and> level n = 0) nodes"

lemma fresh_inv_simps [simp]:
  "fresh_inv []" "fresh_inv (x # xs) \<longleftrightarrow> node_inv x \<and> level x = 0 \<and> fresh_inv xs"
  "fresh_inv (xs @ ys) \<longleftrightarrow> fresh_inv xs \<and> fresh_inv ys"
  by (auto simp: fresh_inv_def)

lemma fresh_nodes_inv:
  "fresh_inv nodes \<Longrightarrow> nodes \<noteq> [] \<Longrightarrow> nodes_inv (concat (List.map x_tokens nodes)) (\<lambda>_. 0) nodes"
  by (auto simp: nodes_inv_def fresh_inv_def list_all_length)

lemma parseAsLiteral_node:
  assumes "parseAsLiteral stod t ct = Some (Inr e, ct1)"
  obtains v where "e = literal_node t v"
  using assms by (auto simp: parseAsLiteral_def lret_def elim!: lbind_InrE)

text \<open>
  A tree that does not come from an error spans its tokens; a tree in place of an erroneous
  expression is the null node of one of them.
\<close>

lemma parse_trees:
  "parseNodes stod ts nodes ct = Some (Inr nodes1, ct1) \<Longrightarrow> list_all opening_ok ts \<Longrightarrow> fresh_inv nodes \<Longrightarrow>
     fresh_inv nodes1 \<and>
     (nodes1 \<noteq> [] \<longrightarrow> concat (List.map x_tokens nodes1) = concat (List.map x_tokens nodes) @ ts) \<and>
     (nodes1 = [] \<longrightarrow> nodes = [] \<and> ts = [] \<or> p_errors ct1 \<noteq> p_errors ct)"
  "parseExpression stod ts ct = Some (Inr e, ct1) \<Longrightarrow> list_all opening_ok ts \<Longrightarrow>
     precedence_ok e \<and> spans_ok e \<and> sublist (x_tokens e) ts \<and>
     (p_errors ct1 = p_errors ct \<longrightarrow> x_tokens e = ts)"
proof (induction stod ts nodes and stod ts arbitrary: ct nodes1 ct1 and ct e ct1
    rule: parseNodes_parseExpression.induct)
  case (1 stod nodes)
  then show ?case by (simp add: lret_def)
next
  case (2 stod t ts nodes)
  from "2.prems"(2) have t: "opening_ok t" and ts: "list_all opening_ok ts" by simp_all
  note run = "2.prems"(1) [unfolded parseNodes.simps(2)]
  consider (bracket) "tokenMatches t TokenOpenBracket"
    | (literal) "\<not> tokenMatches t TokenOpenBracket" "isLiteral t"
    | (name) "\<not> tokenMatches t TokenOpenBracket" "\<not> isLiteral t" "tokenMatches t TokenName"
    | (op) "\<not> tokenMatches t TokenOpenBracket" "\<not> isLiteral t" "\<not> tokenMatches t TokenName"
        "tokenMatches t TokenOperator"
    | (error) "\<not> tokenMatches t TokenOpenBracket" "\<not> isLiteral t" "\<not> tokenMatches t TokenName"
        "\<not> tokenMatches t TokenOperator" by blast
  then show ?case
  proof cases
    case bracket
    then obtain n where n: "pair_loop ts 0 = Some n"
      using run by (auto simp: lthrow_def split: option.splits)
    let ?m = "if n = 0 then lret None else lbind (parseExpression stod (take n ts)) (\<lambda>e. lret (Some e))"
    have gm: "tame False ?m" and gk: "tame False (parseNodes stod ts' ns)" for ts' ns
      by (intro tame_intros tame_parse)+
    have "lbind ?m (\<lambda>contents. parseNodes stod (drop (Suc n) ts)
        (nodes @ [unknown_node (t # take (Suc n) ts) [contents]])) ct = Some (Inr nodes1, ct1)"
      using run bracket n by simp
    then obtain contents ct2 where c: "?m ct = Some (Inr contents, ct2)"
        "parseNodes stod (drop (Suc n) ts) (nodes @ [unknown_node (t # take (Suc n) ts) [contents]]) ct2 =
           Some (Inr nodes1, ct1)"
        "p_errors ct1 = p_errors ct \<longrightarrow> p_errors ct2 = p_errors ct \<and> p_errors ct1 = p_errors ct2"
      by (rule quiet_bind [OF _ gm gk])
    have part: "list_all opening_ok (take n ts)" "list_all opening_ok (drop (Suc n) ts)"
      using ts by (auto simp: list_all_iff dest: in_set_takeD in_set_dropD)
    have "precedence_ok e \<and> spans_ok e \<and> sublist (x_tokens e) (t # take (Suc n) ts)"
      if "contents = Some e" for e
    proof -
      from that c(1) have "parseExpression stod (take n ts) ct = Some (Inr e, ct2)"
        by (auto simp: lret_def elim!: lbind_InrE split: if_splits)
      from 2(1) [OF bracket n _ this part(1)] that c(1)
      have e: "precedence_ok e" "spans_ok e" "sublist (x_tokens e) (take n ts)"
        by (auto simp: lret_def split: if_splits)
      have "sublist (take n ts) (t # take (Suc n) ts)"
        using sublist_appendI [of "take n ts" "[t]" "take 1 (drop n ts)"] take_add [of n 1 ts] by simp
      with e show ?thesis using sublist_order.order_trans by blast
    qed
    then have "node_inv (unknown_node (t # take (Suc n) ts) [contents])"
      using t by (intro bracket_node_inv) auto
    then have "fresh_inv (nodes @ [unknown_node (t # take (Suc n) ts) [contents]])"
      using "2.prems"(3) by (simp add: fresh_level)
    from "2.IH"(2) [OF bracket n c(2) part(2) this]
    have "fresh_inv nodes1" "nodes1 = [] \<longrightarrow> p_errors ct1 \<noteq> p_errors ct2"
      "nodes1 \<noteq> [] \<longrightarrow> concat (List.map x_tokens nodes1) = concat (List.map x_tokens nodes) @ t # ts"
      by (simp_all add: fresh_tokens)
    then show ?thesis
      using c(3) by blast
  next
    case literal
    then have "lbind (parseAsLiteral stod t) (\<lambda>e. parseNodes stod ts (nodes @ [e])) ct =
        Some (Inr nodes1, ct1)"
      using run by simp
    then obtain e ct2 where c: "parseAsLiteral stod t ct = Some (Inr e, ct2)"
        "parseNodes stod ts (nodes @ [e]) ct2 = Some (Inr nodes1, ct1)"
        "p_errors ct1 = p_errors ct \<longrightarrow> p_errors ct2 = p_errors ct \<and> p_errors ct1 = p_errors ct2"
      by (rule quiet_bind [OF _ tame_literal tame_parse(1)])
    obtain v where v: "e = literal_node t v"
      using c(1) by (rule parseAsLiteral_node)
    have "fresh_inv (nodes @ [e])"
      using "2.prems"(3) t by (simp add: v fresh_level fresh_nodes)
    from "2.IH"(3) [OF literal c(2) ts this]
    have "fresh_inv nodes1" "nodes1 = [] \<longrightarrow> p_errors ct1 \<noteq> p_errors ct2"
      "nodes1 \<noteq> [] \<longrightarrow> concat (List.map x_tokens nodes1) = concat (List.map x_tokens nodes) @ t # ts"
      by (simp_all add: v fresh_tokens)
    then show ?thesis
      using c(3) by blast
  next
    case name
    then have "parseNodes stod ts (nodes @ [createNameNode t]) ct = Some (Inr nodes1, ct1)"
      using run by simp
    moreover have "fresh_inv (nodes @ [createNameNode t])"
      using "2.prems"(3) t by (simp add: fresh_level fresh_nodes)
    ultimately show ?thesis
      using 2(4) [OF name _ ts] by (simp add: fresh_tokens)
  next
    case op
    then have "parseNodes stod ts (nodes @ [unknown_node [t] []]) ct = Some (Inr nodes1, ct1)"
      using run by simp
    moreover have "fresh_inv (nodes @ [unknown_node [t] []])"
      using "2.prems"(3) t op(1) by (simp add: fresh_level fresh_nodes)
    ultimately show ?thesis
      using "2.IH"(5) [OF op _ ts] by (simp add: fresh_tokens)
  next
    case error
    then have "lbind (errorAtToken Error t ''expected expression'' []) (\<lambda>_. lret []) ct =
        Some (Inr nodes1, ct1)"
      using run by simp
    then obtain u where "errorAtToken Error t ''expected expression'' [] ct = Some (Inr u, ct1)" "nodes1 = []"
      by (auto simp: lret_def elim!: lbind_InrE)
    with errorAtToken_reports show ?thesis by auto
  qed
next
  case (3 stod ts)
  note run = "3.prems"(1) [unfolded parseExpression.simps]
  let ?rest = "\<lambda>nodes. if nodes = [] then
         (if ts = [] then lthrow OutOfRange else lret (createNullNode (ts ! 0)))
       else lbind (reduce_groups nodes) (finish_expression (ts ! 0))"
  have grest: "tame False (?rest nodes)" for nodes
    by (intro tame_intros tame_finish_expression) simp
  obtain nodes ct2 where c: "parseNodes stod ts [] ct = Some (Inr nodes, ct2)"
      "?rest nodes ct2 = Some (Inr e, ct1)"
      "p_errors ct1 = p_errors ct \<longrightarrow> p_errors ct2 = p_errors ct \<and> p_errors ct1 = p_errors ct2"
    using run by (rule quiet_bind [OF _ tame_parse(1) grest])
  note nodes = "3.IH" [OF c(1) "3.prems"(2) fresh_inv_simps(1)]
  have null: "precedence_ok (createNullNode t) \<and> spans_ok (createNullNode t) \<and>
      sublist (x_tokens (createNullNode t)) ts" if "t = ts ! 0" "ts \<noteq> []" for t
    using that by (cases ts) (simp_all add: createNullNode_def)
  show ?case
  proof (cases "nodes = []")
    case True
    then have ts: "ts \<noteq> []" and e: "e = createNullNode (ts ! 0)" "ct1 = ct2"
      using c(2) by (auto simp: lthrow_def lret_def split: if_splits)
    have "p_errors ct2 \<noteq> p_errors ct"
      using nodes True ts by blast
    with null [OF refl ts] e show ?thesis by simp
  next
    case False
    then have ts: "concat (List.map x_tokens nodes) = ts" and inv: "fresh_inv nodes"
      using nodes by auto
    have "ts \<noteq> []"
      using False inv unfolding ts [symmetric] by (cases nodes) (simp_all add: node_inv_def)
    have ni: "nodes_inv ts (\<lambda>_. 0) nodes"
      using fresh_nodes_inv [OF inv False] unfolding ts .
    obtain nodes1 where r: "reduce_groups nodes ct2 = Some (Inr nodes1, ct2)"
        "nodes_inv ts (\<lambda>_. 19) nodes1"
      by (rule reduce_groups_total [OF ni])
    then have fin: "finish_expression (ts ! 0) nodes1 ct2 = Some (Inr e, ct1)"
      using c(2) False by (simp add: lbind_def)
    show ?thesis
    proof (cases "x_type (nodes1 ! 0) \<noteq> Node_Unknown \<and> length nodes1 = 1")
      case True
      then obtain n where n: "nodes1 = [n]"
        by (auto simp: length_Suc_conv)
      then have "e = n"
        using fin True by (simp add: finish_expression_def lret_def)
      with r(2) n show ?thesis
        by (simp add: nodes_inv_def node_inv_def)
    next
      case bad: False
      have "nodes1 \<noteq> []" using r(2) by (simp add: nodes_inv_def)
      obtain t msg u where "errorAtToken Error t msg [] ct2 = Some (Inr u, ct1)"
          "e = createNullNode (ts ! 0)"
        using fin bad \<open>nodes1 \<noteq> []\<close>
        by (auto simp: finish_expression_def lret_def elim!: lbind_InrE split: if_splits)
      then have "p_errors ct1 \<noteq> p_errors ct2" "e = createNullNode (ts ! 0)"
        using errorAtToken_reports by blast+
      with c(3) null [OF refl \<open>ts \<noteq> []\<close>] show ?thesis by blast
    qed
  qed
qed

end
