(* ===== verification/Expression_Boundary.thy ===== *)
theory Expression_Boundary
  imports Expression_Total
begin

text \<open>
  Brackets: what \<open>findExpressionBoundary\<close> accepts is a properly bracketed sequence of tokens that ends
  at the first delimiter outside of brackets, and on such a sequence \<open>parseExpression\<close> always returns
  a node.
\<close>

subsection \<open>Properly bracketed sequences\<close>

abbreviation opens :: "token_ptr \<Rightarrow> bool" where
  "opens t \<equiv> tokenMatches t TokenOpenBracket"

abbreviation closes :: "token_ptr \<Rightarrow> bool" where
  "closes t \<equiv> tokenMatches t TokenCloseBracket"

inductive bracketed :: "token_ptr list \<Rightarrow> bool" where
  empty: "bracketed []"
| plain: "\<not> opens t \<Longrightarrow> \<not> closes t \<Longrightarrow> bracketed ts \<Longrightarrow> bracketed (t # ts)"
| pair: "opens a \<Longrightarrow> closes b \<Longrightarrow> closed_by (t_sid (tk b)) = Some (t_sid (tk a)) \<Longrightarrow>
    bracketed xs \<Longrightarrow> bracketed ys \<Longrightarrow> bracketed (a # xs @ b # ys)"

text \<open>The rest of a sequence in which the brackets of the stack are still open.\<close>

fun finishes :: "nat list \<Rightarrow> token_ptr list \<Rightarrow> bool" where
  "finishes [] ts \<longleftrightarrow> bracketed ts"
| "finishes (sid # sids) ts \<longleftrightarrow>
     (\<exists>xs b ys. ts = xs @ b # ys \<and> bracketed xs \<and> closes b \<and>
        closed_by (t_sid (tk b)) = Some sid \<and> finishes sids ys)"

lemma not_both: "opens t \<Longrightarrow> \<not> closes t"
  by (simp add: tokenMatches_def)

lemma finishes_plain: "\<not> opens t \<Longrightarrow> \<not> closes t \<Longrightarrow> finishes sids ts \<Longrightarrow> finishes sids (t # ts)"
  by (cases sids) (auto intro: plain, metis append_Cons plain)

lemma finishes_pair:
  assumes "opens a" "closes b" "closed_by (t_sid (tk b)) = Some (t_sid (tk a))" "bracketed xs"
    "finishes sids ys"
  shows "finishes sids (a # xs @ b # ys)"
proof (cases sids)
  case Nil
  with assms pair show ?thesis by simp
next
  case (Cons sid rest)
  with assms(5) obtain us c vs where "ys = us @ c # vs" "bracketed us" "closes c"
      "closed_by (t_sid (tk c)) = Some sid" "finishes rest vs" by auto
  moreover from this have "bracketed (a # xs @ b # us)"
    using assms pair by blast
  ultimately show ?thesis
    using Cons by (auto intro!: exI [of _ "a # xs @ b # us"])
qed

lemma finishes_open: "opens a \<Longrightarrow> finishes (t_sid (tk a) # sids) ts \<Longrightarrow> finishes sids (a # ts)"
  using finishes_pair by auto

lemma finishes_close:
  "closes b \<Longrightarrow> closed_by (t_sid (tk b)) = Some sid \<Longrightarrow> finishes sids ts \<Longrightarrow> finishes (sid # sids) (b # ts)"
  by (auto intro!: exI [of _ "[]"] intro: empty)

subsection \<open>findExpressionBoundary\<close>

lemma checkBracketPair_fits:
  assumes "checkBracketPair t stack expected ct = Some (Inr (True, stack1), ct1)"
  obtains a where "stack = (expected, a) # stack1" "ct1 = ct"
  using assms by (auto simp: checkBracketPair_def lret_def elim!: lbind_InrE split: list.splits if_splits)

lemma boundary_loop_result:
  "boundary_loop delimiter ts i stack ct = Some (Inr (Some (j, [])), ct1) \<Longrightarrow>
     i \<le> j \<and> j - i \<le> length ts \<and> finishes (List.map fst stack) (take (j - i) ts) \<and>
     (j - i < length ts \<longrightarrow> delimiter (ts ! (j - i))) \<and> ct1 = ct"
proof (induction delimiter ts i stack arbitrary: ct rule: boundary_loop.induct)
  case (1 delimiter i stack)
  then show ?case by (auto simp: lret_def intro: empty)
next
  case (2 delimiter t rest i stack)
  have shift: "take (j - i) (t # rest) = t # take (j - (i + 1)) rest"
    "j - i < length (t # rest) \<longleftrightarrow> j - (i + 1) < length rest"
    "(t # rest) ! (j - i) = rest ! (j - (i + 1))" "j - i \<le> length (t # rest) \<longleftrightarrow> j - (i + 1) \<le> length rest"
    if "i + 1 \<le> j"
  proof -
    from that have "j - i = Suc (j - (i + 1))" by simp
    then show "take (j - i) (t # rest) = t # take (j - (i + 1)) rest"
      "j - i < length (t # rest) \<longleftrightarrow> j - (i + 1) < length rest"
      "(t # rest) ! (j - i) = rest ! (j - (i + 1))"
      "j - i \<le> length (t # rest) \<longleftrightarrow> j - (i + 1) \<le> length rest" by simp_all
  qed
  consider (stop) "stack = [] \<and> delimiter t" | (push) "\<not> (stack = [] \<and> delimiter t)" "opens t"
    | (pop) "\<not> (stack = [] \<and> delimiter t)" "\<not> opens t" "closes t"
    | (plain) "\<not> (stack = [] \<and> delimiter t)" "\<not> opens t" "\<not> closes t" by blast
  then show ?case
  proof cases
    case stop
    then have "j = i" "ct1 = ct" using 2(4) by (auto simp: lret_def)
    with stop show ?thesis by (auto intro: empty)
  next
    case push
    then have "boundary_loop delimiter rest (i + 1) ((t_sid (tk t), t) # stack) ct =
        Some (Inr (Some (j, [])), ct1)"
      using 2(4) by auto
    from 2(1) [OF push this] have ih: "i + 1 \<le> j" "j - (i + 1) \<le> length rest" "ct1 = ct"
      "finishes (t_sid (tk t) # List.map fst stack) (take (j - (i + 1)) rest)"
      "j - (i + 1) < length rest \<longrightarrow> delimiter (rest ! (j - (i + 1)))" by simp_all
    from finishes_open [OF push(2) ih(4)] ih shift [OF ih(1)] show ?thesis by simp
  next
    case pop
    then obtain expected where e: "closed_by (t_sid (tk t)) = Some expected"
      using 2(4) by (cases "closed_by (t_sid (tk t))") (auto simp: lthrow_def elim!: lbind_InrE)
    then have run: "lbind (checkBracketPair t stack expected) (\<lambda>(fits, stack1).
        if fits then boundary_loop delimiter rest (i + 1) stack1 else lret None) ct =
        Some (Inr (Some (j, [])), ct1)"
      using 2(4) pop by auto
    then obtain fits stack1 ct2 where c: "checkBracketPair t stack expected ct = Some (Inr (fits, stack1), ct2)"
        "(if fits then boundary_loop delimiter rest (i + 1) stack1 else lret None) ct2 =
           Some (Inr (Some (j, [])), ct1)"
      by (auto elim!: lbind_InrE)
    then have fits by (auto simp: lret_def split: if_splits)
    with c obtain a where a: "stack = (expected, a) # stack1" "ct2 = ct"
      by (auto elim: checkBracketPair_fits)
    have "boundary_loop delimiter rest (i + 1) stack1 ct = Some (Inr (Some (j, [])), ct1)"
      using c(2) a(2) \<open>fits\<close> by simp
    from 2(2) [OF pop e \<open>fits\<close> this]
    have ih: "i + 1 \<le> j" "j - (i + 1) \<le> length rest" "ct1 = ct"
      "finishes (List.map fst stack1) (take (j - (i + 1)) rest)"
      "j - (i + 1) < length rest \<longrightarrow> delimiter (rest ! (j - (i + 1)))" by simp_all
    from finishes_close [OF pop(3) e ih(4)] ih shift [OF ih(1)] a(1) show ?thesis by simp
  next
    case plain
    then have "boundary_loop delimiter rest (i + 1) stack ct = Some (Inr (Some (j, [])), ct1)"
      using 2(4) by auto
    from 2(3) [OF plain this] have ih: "i + 1 \<le> j" "j - (i + 1) \<le> length rest" "ct1 = ct"
      "finishes (List.map fst stack) (take (j - (i + 1)) rest)"
      "j - (i + 1) < length rest \<longrightarrow> delimiter (rest ! (j - (i + 1)))" by simp_all
    from finishes_plain [OF plain(2,3) ih(4)] ih shift [OF ih(1)] show ?thesis by simp
  qed
qed

text \<open>The loop goes through a bracketed part, or stops at a delimiter in it.\<close>

lemma boundary_loop_through:
  "bracketed xs \<Longrightarrow> boundary_loop delimiter (xs @ rest) i stack ct = Some (Inr (Some (j, [])), ct1) \<Longrightarrow>
     j < i + length xs \<or>
     boundary_loop delimiter rest (i + length xs) stack ct = Some (Inr (Some (j, [])), ct1)"
proof (induction xs arbitrary: rest i stack ct rule: bracketed.induct)
  case (plain t ts)
  show ?case
  proof (cases "stack = [] \<and> delimiter t")
    case False
    then have "boundary_loop delimiter (ts @ rest) (i + 1) stack ct = Some (Inr (Some (j, [])), ct1)"
      using plain by auto
    from plain.IH [OF this] show ?thesis by auto
  qed (use plain in \<open>auto simp: lret_def\<close>)
next
  case (pair a b xs ys)
  have "\<not> opens b" using pair(2) not_both by blast
  show ?case
  proof (cases "stack = [] \<and> delimiter a")
    case False
    then have "boundary_loop delimiter (xs @ b # ys @ rest) (i + 1) ((t_sid (tk a), a) # stack) ct =
        Some (Inr (Some (j, [])), ct1)"
      using pair by auto
    from pair.IH(1) [OF this] show ?thesis
    proof
      assume "boundary_loop delimiter (b # ys @ rest) (i + 1 + length xs) ((t_sid (tk a), a) # stack) ct =
        Some (Inr (Some (j, [])), ct1)"
      then have "boundary_loop delimiter (ys @ rest) (i + 1 + length xs + 1) stack ct =
          Some (Inr (Some (j, [])), ct1)"
        using pair(3) \<open>closes b\<close> \<open>\<not> opens b\<close>
        by (simp add: checkBracketPair_def lbind_def lret_def split: option.splits)
      from pair.IH(2) [OF this] show ?thesis by (auto simp: add.commute add.left_commute)
    qed auto
  qed (use pair in \<open>auto simp: lret_def\<close>)
qed simp

lemma report_appends:
  "errorAtToken lv t msg args ct = Some (Inr u, ct1) \<Longrightarrow> \<exists>x. p_errors ct1 = p_errors ct @ [x]"
  "errorAtNextToken lv t msg args ct = Some (Inr u, ct1) \<Longrightarrow> \<exists>x. p_errors ct1 = p_errors ct @ [x]"
  "refText sid ct = Some (Inr s, ct1) \<Longrightarrow> ct1 = ct"
  by (auto simp: errorAtToken_def errorAtNextToken_def refText_def getLine_def receive_def lret_def
      lthrow_def elim!: lbind_InrE split: option.splits)

lemma checkBracketPair_refuses:
  "checkBracketPair t stack expected ct = Some (Inr (False, stack1), ct1) \<Longrightarrow> p_errors ct1 \<noteq> p_errors ct"
  unfolding checkBracketPair_def
  by (cases stack) (auto simp: lret_def elim!: lbind_InrE split: if_splits
      dest!: report_appends)

lemma tame_boundary_loop: "tame False (boundary_loop delimiter ts i stack)"
proof (induction delimiter ts i stack rule: boundary_loop.induct)
  case (2 delimiter t rest i stack)
  have "tame False (checkBracketPair t stack expected)" for expected
    unfolding checkBracketPair_def
    by (cases stack) (auto intro!: tame_intros)
  with 2 show ?case
    by (auto intro!: tame_intros)
qed simp

lemma boundary_loop_refuses:
  "boundary_loop delimiter ts i stack ct = Some (Inr None, ct1) \<Longrightarrow> p_errors ct1 \<noteq> p_errors ct"
proof (induction delimiter ts i stack arbitrary: ct rule: boundary_loop.induct)
  case (2 delimiter t rest i stack)
  show ?case
  proof (cases "\<not> (stack = [] \<and> delimiter t) \<and> \<not> opens t \<and> closes t")
    case True
    then obtain expected where e: "closed_by (t_sid (tk t)) = Some expected"
      using 2(4) by (cases "closed_by (t_sid (tk t))") (auto simp: lthrow_def elim!: lbind_InrE)
    with 2(4) True obtain fits stack1 ct2
      where c: "checkBracketPair t stack expected ct = Some (Inr (fits, stack1), ct2)"
        "(if fits then boundary_loop delimiter rest (i + 1) stack1 else lret None) ct2 = Some (Inr None, ct1)"
      by (auto elim!: lbind_InrE)
    show ?thesis
    proof (cases fits)
      case True
      with c obtain a where "ct2 = ct" by (auto elim: checkBracketPair_fits)
      with 2(2) [OF _ _ _ e \<open>fits\<close>, of stack1 ct] c(2) \<open>fits\<close>
        \<open>\<not> (stack = [] \<and> delimiter t) \<and> \<not> opens t \<and> closes t\<close> show ?thesis by simp
    next
      case False
      with c show ?thesis using checkBracketPair_refuses by (auto simp: lret_def)
    qed
  next
    case False
    with 2(1) [of ct] 2(3) [of ct] 2(4) show ?thesis
      by (auto simp: lret_def split: if_splits)
  qed
qed (simp add: lret_def)

lemma findExpressionBoundary_result:
  assumes run: "findExpressionBoundary toks delimiter ct = Some (Inr i, ct1)" and quiet: "p_errors ct1 = p_errors ct"
  shows "i \<le> length toks" "bracketed (take i toks)" "i < length toks \<Longrightarrow> delimiter (toks ! i)"
    "m < i \<Longrightarrow> bracketed (take m toks) \<Longrightarrow> \<not> delimiter (toks ! m)"
proof -
  have "i \<le> length toks \<and> bracketed (take i toks) \<and> (i < length toks \<longrightarrow> delimiter (toks ! i)) \<and>
    (m < i \<longrightarrow> bracketed (take m toks) \<longrightarrow> \<not> delimiter (toks ! m))"
  proof (cases "toks = []")
    case True
    with run show ?thesis
      by (simp add: findExpressionBoundary_def lret_def empty)
  next
    case False
    then obtain r ct2 where r: "boundary_loop delimiter toks 0 [] ct = Some (Inr r, ct2)"
        "(case r of None \<Rightarrow> lret 0 | Some (i, []) \<Rightarrow> lret i
          | Some (i, (sid, _) # _) \<Rightarrow> lbind (refText sid) (\<lambda>s.
              lbind (errorAtNextToken Error (toks ! (if i = 0 then 0 else i - 1)) (quoted ''unmatched '' s) [])
                (\<lambda>_. lret 0))) ct2 = Some (Inr i, ct1)"
      using run by (auto simp: findExpressionBoundary_def elim!: lbind_InrE)
    have "tame False (boundary_loop delimiter toks 0 [])"
      by (rule tame_boundary_loop)
    from tameD(1) [OF this r(1)] have pre: "prefix (p_errors ct) (p_errors ct2)" .
    have "\<exists>j. r = Some (j, [])"
    proof (rule ccontr)
      assume bad: "\<nexists>j. r = Some (j, [])"
      show False
      proof (cases r)
        case None
        with r quiet boundary_loop_refuses show False by (auto simp: lret_def)
      next
        case (Some z)
        with bad obtain j sid a rest where "r = Some (j, (sid, a) # rest)"
          by (cases z; cases "snd z") auto
        with r(2) obtain x where "p_errors ct1 = p_errors ct2 @ [x]"
          by (auto simp: lret_def elim!: lbind_InrE dest!: report_appends)
        with pre quiet show False by (auto simp: prefix_def)
      qed
    qed
    then obtain j where j: "r = Some (j, [])" by blast
    with r(2) have i: "j = i" by (simp add: lret_def)
    note run = r(1) [unfolded j i]
    have "\<not> delimiter (toks ! m)" if m: "m < i" "bracketed (take m toks)"
    proof
      assume d: "delimiter (toks ! m)"
      have len: "m < length toks"
        using m(1) boundary_loop_result [OF run] by auto
      then have "toks = take m toks @ toks ! m # drop (Suc m) toks"
        by (simp add: id_take_nth_drop)
      then have "boundary_loop delimiter (take m toks @ toks ! m # drop (Suc m) toks) 0 [] ct =
          Some (Inr (Some (i, [])), ct2)"
        using run by simp
      from boundary_loop_through [OF m(2) this] m(1) len d show False
        by (auto simp: lret_def)
    qed
    with boundary_loop_result [OF run] show ?thesis by simp
  qed
  then show "i \<le> length toks" "bracketed (take i toks)" "i < length toks \<Longrightarrow> delimiter (toks ! i)"
    "m < i \<Longrightarrow> bracketed (take m toks) \<Longrightarrow> \<not> delimiter (toks ! m)" by simp_all
qed


subsection \<open>parseExpression returns\<close>

fun balanced :: "token_ptr list \<Rightarrow> nat \<Rightarrow> bool" where
  "balanced [] depth \<longleftrightarrow> depth = 0"
| "balanced (t # ts) depth \<longleftrightarrow>
     (if opens t then balanced ts (Suc depth)
      else if closes t then 0 < depth \<and> balanced ts (depth - 1)
      else balanced ts depth)"

lemma bracketed_balanced: "bracketed xs \<Longrightarrow> balanced (xs @ ys) depth \<longleftrightarrow> balanced ys depth"
proof (induction xs arbitrary: ys depth rule: bracketed.induct)
  case (pair a b xs zs)
  have "\<not> opens b" using pair(2) not_both by blast
  with pair show ?case by simp
qed simp_all

lemma pair_loop_balanced:
  "balanced ts (Suc (lv + depth)) \<Longrightarrow>
     \<exists>n. pair_loop ts lv = Some n \<and> balanced (take n ts) lv \<and> balanced (drop (Suc n) ts) depth"
proof (induction ts lv rule: pair_loop.induct)
  case (2 t ts lv)
  consider "opens t" | "\<not> opens t" "closes t" "lv = 0" | l where "\<not> opens t" "closes t" "lv = Suc l"
    | "\<not> opens t" "\<not> closes t" by (cases lv) blast+
  then show ?case
  proof cases
    case 1
    with "2.IH"(1) "2.prems" obtain n where "pair_loop ts (lv + 1) = Some n" "balanced (take n ts) (lv + 1)"
        "balanced (drop (Suc n) ts) depth" by auto
    with 1 show ?thesis by auto
  next
    case 3
    with "2.IH"(2) "2.prems" obtain n where "pair_loop ts l = Some n" "balanced (take n ts) l"
        "balanced (drop (Suc n) ts) depth" by auto
    with 3 show ?thesis by auto
  next
    case 4
    with "2.IH"(3) "2.prems" obtain n where "pair_loop ts lv = Some n" "balanced (take n ts) lv"
        "balanced (drop (Suc n) ts) depth" by auto
    with 4 show ?thesis by auto
  qed (use "2.prems" in auto)
qed simp

text \<open>The tokens the scanner makes.\<close>

definition scanned :: "token_ptr \<Rightarrow> bool" where
  "scanned t \<longleftrightarrow> alive t \<and> literal_ok t \<and> opening_ok t \<and> (isLiteral t \<longrightarrow> literal_type t)"

definition completes :: "'a parse \<Rightarrow> bool" where
  "completes m \<longleftrightarrow> (\<forall>ct. \<exists>x ct1. m ct = Some (Inr x, ct1))"

lemma completesI: "returns m \<Longrightarrow> tame True m \<Longrightarrow> completes m"
  unfolding completes_def
proof
  fix ct assume "returns m" "tame True m"
  then obtain r ct1 where "m ct = Some (r, ct1)"
    by (fastforce simp: returns_def)
  with tameD(2) [OF \<open>tame True m\<close> this] show "\<exists>x ct1. m ct = Some (Inr x, ct1)" by auto
qed

lemma completes_lbind: "completes m \<Longrightarrow> (\<And>x. completes (f x)) \<Longrightarrow> completes (lbind m f)"
  unfolding completes_def lbind_def by (metis (mono_tags, lifting) old.sum.simps(6) option.simps(5) case_prod_conv)

lemma completes_lret [simp]: "completes (lret x)"
  by (simp add: completes_def lret_def)

lemma completes_literal: "scanned t \<Longrightarrow> isLiteral t \<Longrightarrow> completes (parseAsLiteral stod t)"
  by (intro completesI parseAsLiteral_returns tame_parseAsLiteral) (simp_all add: scanned_def)

lemma completes_report: "scanned t \<Longrightarrow> completes (errorAtToken lv t msg args)"
  by (intro completesI tame_errors) (simp_all add: scanned_def)

lemma returns_finish: "returns (finish_expression t nodes)"
  unfolding finish_expression_def by (intro returns_ifI returns_lbind returns_simps returns_errors)

lemma parse_total:
  "balanced ts 0 \<Longrightarrow> list_all scanned ts \<Longrightarrow> completes (parseNodes stod ts nodes)"
  "ts \<noteq> [] \<Longrightarrow> balanced ts 0 \<Longrightarrow> list_all scanned ts \<Longrightarrow> completes (parseExpression stod ts)"
proof (induction stod ts nodes and stod ts rule: parseNodes_parseExpression.induct)
  case (2 stod t ts nodes)
  from "2.prems"(2) have t: "scanned t" and ts: "list_all scanned ts" by simp_all
  show ?case
  proof (cases "opens t")
    case True
    then obtain n where n: "pair_loop ts 0 = Some n" "balanced (take n ts) 0" "balanced (drop (Suc n) ts) 0"
      using pair_loop_balanced [of ts 0 0] "2.prems"(1) by auto
    have part: "list_all scanned (take n ts)" "list_all scanned (drop (Suc n) ts)"
      using ts by (auto simp: list_all_iff dest: in_set_takeD in_set_dropD)
    have "completes (parseExpression stod (take n ts))" if "n \<noteq> 0"
    proof -
      have "take n ts \<noteq> []"
        using that pair_loop_less [OF n(1)] by auto
      then show ?thesis
        by (rule "2.IH"(1) [OF True n(1) that _ n(2) part(1)])
    qed
    moreover have "completes (parseNodes stod (drop (Suc n) ts)
        (nodes @ [unknown_node (t # take (Suc n) ts) [contents]]))" for contents
      by (rule "2.IH"(2) [OF True n(1,3) part(2)])
    ultimately have "completes (lbind (if n = 0 then lret None
        else lbind (parseExpression stod (take n ts)) (\<lambda>e. lret (Some e))) (\<lambda>contents.
          parseNodes stod (drop (Suc n) ts) (nodes @ [unknown_node (t # take (Suc n) ts) [contents]])))"
      by (intro completes_lbind) (auto intro: completes_lbind)
    with True n(1) show ?thesis by (simp add: parseNodes.simps(2))
  next
    case False
    then have "\<not> closes t" "balanced ts 0"
      using "2.prems"(1) by (auto split: if_splits)
    with "2.IH"(3-5) False ts t show ?thesis
      unfolding parseNodes.simps(2)
      by (auto intro!: completes_lbind completes_literal completes_report)
  qed
next
  case (3 stod ts)
  show ?case
    unfolding completes_def
  proof
    fix ct
    from "3.IH" [OF "3.prems"(2,3)] obtain nodes ct2
      where n: "parseNodes stod ts [] ct = Some (Inr nodes, ct2)"
      unfolding completes_def by blast
    have open_ok: "list_all opening_ok ts"
      using "3.prems"(3) by (auto simp: list_all_iff scanned_def)
    note trees = parse_trees(1) [OF n open_ok fresh_inv_simps(1)]
    show "\<exists>x ct1. parseExpression stod ts ct = Some (Inr x, ct1)"
    proof (cases "nodes = []")
      case True
      with n "3.prems"(1) show ?thesis
        by (simp add: parseExpression.simps lbind_def lret_def)
    next
      case False
      then have toks: "concat (List.map x_tokens nodes) = ts" and inv: "fresh_inv nodes"
        using trees by auto
      have ni: "nodes_inv ts (\<lambda>_. 0) nodes"
        using fresh_nodes_inv [OF inv False] unfolding toks .
      obtain nodes1 where r: "reduce_groups nodes ct2 = Some (Inr nodes1, ct2)"
          "nodes_inv ts (\<lambda>_. 19) nodes1"
        by (rule reduce_groups_total [OF ni])
      have "list_all alive (concat (List.map x_tokens nodes1))" "alive (ts ! 0)"
        using r(2) "3.prems"(1,3) by (auto simp: nodes_inv_def list_all_iff scanned_def)
      then have "tame True (finish_expression (ts ! 0) nodes1)"
        by (intro tame_finish_expression) (auto simp: list_all_iff)
      with returns_finish have "completes (finish_expression (ts ! 0) nodes1)"
        by (rule completesI)
      with n False r(1) show ?thesis
        by (simp add: parseExpression.simps lbind_def completes_def)
    qed
  qed
qed simp

end
