(* ===== verification/Parser_Properties.thy ===== *)
theory Parser_Properties
  imports Expression_Boundary
begin

text \<open>
  The properties of the parser of literals and expressions, with the inputs of their witnesses.
\<close>

definition sample_line :: line where
  "sample_line = \<lparr>l_containsError = False, l_fileName = ''a.cha'', l_lineNo = 1, l_line = ''(a+b)*c'',
     l_indents = 0, l_tokens = []\<rparr>"

definition sample_token :: "token_type \<Rightarrow> nat \<Rightarrow> string \<Rightarrow> token_ptr" where
  "sample_token type sid text = TokenPtr (Some sample_line)
     \<lparr>t_index = 0, t_first = 0, t_last = 1, t_type = type, t_sid = sid, t_literal = text\<rparr>"

definition sample_parse_context :: parse_context where
  "sample_parse_context = \<lparr>p_errors = [],
     p_table = \<lparr>baseVersion = 0, version = 0, strToId = [], idToStr = []\<rparr>\<rparr>"

definition no_stod :: stod where
  "no_stod s = Invalid_argument"

text \<open>\<open>( a + b ) * c , d\<close>\<close>

definition sample_tokens :: "token_ptr list" where
  "sample_tokens =
    [sample_token TokenOpenBracket 0 [], sample_token TokenName 300 [], sample_token TokenOperator 44 [],
     sample_token TokenName 301 [], sample_token TokenCloseBracket 1 [],
     sample_token TokenOperator 46 [], sample_token TokenName 302 []]"

lemma id_at: "enumerators ! k = s \<Longrightarrow> k < 229 \<Longrightarrow> StringId s = k"
  using index_of_distinct [OF distinct_enumerators, of k] PredefinedStringIds_value
  by (simp add: StringId_def PredefinedStringIds_def)

lemma sample_ids: "StringId ''OpenParenthesis'' = 0" "StringId ''CloseParenthesis'' = 1"
  "StringId ''OpenBracket'' = 2" "StringId ''OpenBrace'' = 4" "StringId ''Null'' = 104"
  "StringId ''True'' = 105" "StringId ''False'' = 106"
  by (rule id_at; simp add: enumerators_def enum_defs)+

lemma sample_scanned: "list_all scanned sample_tokens"
  by (simp add: sample_tokens_def scanned_def sample_token_def alive_def literal_ok_def opening_ok_def
      isLiteral_def literal_type_def tokenMatches_def sample_ids)

lemma sample_boundary:
  "findExpressionBoundary sample_tokens (\<lambda>t. t_sid (tk t) = 35) sample_parse_context =
     Some (Inr 7, sample_parse_context)"
  by (simp add: findExpressionBoundary_def sample_tokens_def sample_token_def tokenMatches_def
      closed_by_def sample_ids checkBracketPair_def lbind_def lret_def)

lemma sample_opening: "list_all opening_ok sample_tokens"
  using sample_scanned by (auto simp: list_all_iff scanned_def)

subsection \<open>Properties\<close>

text \<open>
  C12: where \<open>findExpressionBoundary\<close> reports nothing, the tokens before the position it returns are
  properly bracketed, and the position is the first one outside of brackets where the delimiter
  stands, or the end.
\<close>
theorem boundary_exact:
  assumes "findExpressionBoundary toks delimiter ct = Some (Inr i, ct1)" "p_errors ct1 = p_errors ct"
  shows "i \<le> length toks \<and> bracketed (take i toks) \<and> (i < length toks \<longrightarrow> delimiter (toks ! i)) \<and>
    (\<forall>m < i. bracketed (take m toks) \<longrightarrow> \<not> delimiter (toks ! m))"
  using findExpressionBoundary_result [OF assms] by blast

lemma boundary_exact_witness:
  "(7::nat) \<le> length sample_tokens \<and> bracketed (take 7 sample_tokens)"
  using boundary_exact [OF sample_boundary] by simp



text \<open>
  C10: in the tree of an expression every operator stands above operands that bind tighter: an
  operand is of an earlier group of the operator table, except that the first operand of an operator
  that associates to the left, and the last operand of one that associates to the right, may be of
  the same group; the elements of a tuple bind tighter than the comma.
\<close>
theorem tree_precedence:
  assumes "parseExpression stod toks ct = Some (Inr e, ct1)" "list_all opening_ok toks"
  shows "precedence_ok e"
  using parse_trees(2) [OF assms] by blast

lemma sample_run:
  obtains e ct2 where "parseExpression no_stod sample_tokens sample_parse_context = Some (Inr e, ct2)"
proof -
  have "balanced sample_tokens 0" "sample_tokens \<noteq> []"
    by (simp_all add: sample_tokens_def sample_token_def tokenMatches_def)
  with parse_total(2) sample_scanned show ?thesis
    using that unfolding completes_def by blast
qed

lemma tree_precedence_witness:
  "\<exists>e ct2. parseExpression no_stod sample_tokens sample_parse_context = Some (Inr e, ct2) \<and>
     precedence_ok e"
  using sample_run tree_precedence [OF _ sample_opening] by metis

text \<open>
  C11: the tokens of every subtree are a range of the tokens of the tree above it, and where nothing
  is reported the tree of an expression has exactly the tokens of the expression, in their order.
\<close>
theorem tree_spans:
  assumes "parseExpression stod toks ct = Some (Inr e, ct1)" "list_all opening_ok toks"
  shows "spans_ok e \<and> sublist (x_tokens e) toks \<and> (p_errors ct1 = p_errors ct \<longrightarrow> x_tokens e = toks)"
  using parse_trees(2) [OF assms] by blast

lemma tree_spans_witness:
  "\<exists>e ct2. parseExpression no_stod sample_tokens sample_parse_context = Some (Inr e, ct2) \<and> spans_ok e"
  using sample_run tree_spans [OF _ sample_opening] by metis

text \<open>
  C26: a string literal written with characters, escape sequences of one character and \<open>\u\<close> sequences
  is read as the concatenation of what they stand for, and nothing is reported.
\<close>
theorem string_literal_decodes:
  assumes "list_all (piece_ok quot) ps" "quot = CHR 0x27 \<or> quot = CHR 0x22"
  shows "parseStringLiteral token (quot # concat (List.map render ps)) 0 ct =
    Some (Inr (concat (List.map denote ps)), ct)"
  using pieces_decode [OF assms, of token "[quot]" "[]" ct]
  by (simp add: parseStringLiteral_def char_at_def)

lemma string_literal_decodes_witness:
  "parseStringLiteral (sample_token TokenString 0 [])
     (''\"'' @ ''a'' @ [CHR 0x5C, CHR ''n'', CHR 0x5C, CHR ''u''] @ ''0041'') 0 sample_parse_context =
     Some (Inr (''a'' @ [CHR 0x0A] @ extractChar 0x41), sample_parse_context)"
proof -
  have "byteCount ''a'' 0 = 1"
    by (intro byteCount_ascii ascii_small) simp_all
  then have "list_all (piece_ok (CHR 0x22)) [Plain ''a'', Escape (CHR ''n''), Universal ''0041'']"
    by (simp add: control_escape_def hex_digit_def)
  from string_literal_decodes [OF this, of "sample_token TokenString 0 []" sample_parse_context] show ?thesis
    by (simp add: control_escape_def hex_digit_def hex_value_def)
qed

text \<open>
  C27: a decimal constant, with underscores anywhere, is read as the number it shows; from \<open>2 ^ 64\<close>
  on the constant is reported as out of range and 0 is taken.
\<close>
theorem decimal_literal:
  assumes "filter (\<lambda>c. c \<noteq> CHR ''_'') (t_literal (tk token)) = decimal n"
  shows "number_literal stod token =
    (if n < 2 ^ 64 then lret (LitInt (word_of_nat n))
     else lbind (errorAtToken Error token ''decimal constant is out of range'' [])
       (\<lambda>_. lret (LitInt 0)))"
  using assms by (rule decimal_literal_value)

lemma decimal_literal_witness:
  "number_literal no_stod (sample_token TokenNumber 0 ''1_0'') = lret (LitInt 10)"
proof -
  have "char_of (49 :: nat) = CHR ''1''" "char_of (48 :: nat) = CHR ''0''"
    by code_simp+
  then have "decimal 10 = ''10''"
    by (simp add: decimal.simps)
  then show ?thesis
    using decimal_literal [of "sample_token TokenNumber 0 ''1_0''" 10 no_stod]
    by (simp add: sample_token_def)
qed

text \<open>
  C28: what the scanner joins to one number: a constant with an exponent but no point, such as
  \<open>1e-5\<close>, is reported as a decimal constant with an invalid digit and read as 0, and a radix prefix may
  be followed by a minus sign, which makes the constant wrap around without a report.
\<close>
theorem number_quirks:
  "(n < 2 ^ 64 \<longrightarrow> t_literal (tk token) = decimal n @ ''e-5'' \<longrightarrow>
      number_literal stod token =
        lbind (errorAtToken Error token ''invalid digit ${0} in decimal constant'' [''e''])
          (\<lambda>_. lret (LitInt 0))) \<and>
   (t_literal (tk token) = ''0x-1'' \<longrightarrow> number_literal stod token = lret (LitInt (- 1)))"
proof (intro conjI impI)
  assume n: "n < 2 ^ 64" and t: "t_literal (tk token) = decimal n @ ''e-5''"
  have no_e: "\<not> is_digit 10 (CHR ''e'')"
    by (simp add: is_digit_def digit_value_def)
  have digits: "c \<in> set (decimal n) \<Longrightarrow> c \<noteq> CHR ''_'' \<and> c \<noteq> CHR ''x'' \<and> c \<noteq> CHR ''b'' \<and> c \<noteq> CHR ''.''" for c
    using decimal_char [of c n] by blast
  then have "filter (\<lambda>c. c \<noteq> CHR ''_'') (decimal n) = decimal n"
    by (simp add: filter_id_conv)
  then have f: "filter (\<lambda>c. c \<noteq> CHR ''_'') (t_literal (tk token)) = decimal n @ CHR ''e'' # ''-5''"
    by (simp add: t)
  have "\<not> startsWith (t_literal (tk token)) 0 ''0x'' \<and> \<not> startsWith (t_literal (tk token)) 0 ''0b''"
  proof -
    have "c \<in> set (t_literal (tk token))" if "startsWith (t_literal (tk token)) 0 [z, c]" for z c
    proof -
      from that have "take 2 (t_literal (tk token)) = [z, c]"
        by (simp add: startsWith_0 numeral_2_eq_2)
      then have "c \<in> set (take 2 (t_literal (tk token)))" by simp
      then show ?thesis by (rule in_set_takeD)
    qed
    moreover have "CHR ''x'' \<notin> set (t_literal (tk token))" "CHR ''b'' \<notin> set (t_literal (tk token))"
      using digits by (auto simp: t)
    ultimately show ?thesis by blast
  qed
  moreover have "CHR ''.'' \<notin> set (t_literal (tk token))"
    using digits by (auto simp: t)
  moreover have "parseIntLiteral token (t_literal (tk token)) 0 ''decimal'' 10 =
      lbind (errorAtToken Error token ''invalid digit ${0} in decimal constant'' [''e'']) (\<lambda>_. lret 0)"
    using stoull_stops [OF refl n no_e, of "''-5''"]
    by (simp add: parseIntLiteral_def parseNumericLiteral_def Let_def f substr_def)
  ultimately show "number_literal stod token =
      lbind (errorAtToken Error token ''invalid digit ${0} in decimal constant'' [''e''])
        (\<lambda>_. lret (LitInt 0))"
    by (simp add: number_literal_def Let_def lbind_assoc)
next
  assume t: "t_literal (tk token) = ''0x-1''"
  show "number_literal stod token = lret (LitInt (- 1))"
    by (simp add: number_literal_def t startsWith_0 parseIntLiteral_def parseNumericLiteral_def
        stoull_def c_isspace_def hex_prefix_def is_digit_def digit_value_def digits_value_def Let_def)
qed

lemma number_quirks_witness:
  "number_literal no_stod (sample_token TokenNumber 0 ''0x-1'') = lret (LitInt (- 1))"
  using number_quirks [of 0 "sample_token TokenNumber 0 ''0x-1''" no_stod]
  by (simp add: sample_token_def)

end
