(* ===== verification/Block_Structure.thy ===== *)
theory Block_Structure
  imports Expression_Parser Literal_Facts
begin

text \<open>
  From lines to blocks (\<open>groupScript\<close> and \<open>structureInnerNode\<close> of \<open>chatra_core/Parser.cpp\<close>). The
  nodes of statements are shared (a node is in the block of its parent and in its \<open>symbols\<close>) and
  changed in place, so they live in a store: a list of nodes whose indices are the addresses. The
  first argument of the two recursive functions bounds the depth of the recursion; it is used up
  nowhere else, and \<open>None\<close> is the result when it is too small.
\<close>

subsection \<open>Nodes of statements\<close>

datatype (plugins only: code) node_state = Grouped | Structured | Parsed

record stnode =
  n_type :: node_type
  n_line :: "line option"
  n_tokens :: "token_ptr list"
  n_sid :: nat
  n_state :: node_state
  n_block :: "nat list"
  n_symbols :: "nat list"

record script =
  sc_context :: parse_context
  sc_nodes :: "stnode list"

type_synonym 'a build = "(script, 'a) comp"

definition new_node :: "line option \<Rightarrow> node_type \<Rightarrow> stnode" where
  "new_node ln type = \<lparr>n_type = type, n_line = ln, n_tokens = [], n_sid = StringId_Invalid,
     n_state = Grouped, n_block = [], n_symbols = []\<rparr>"

text \<open>Reports go to the context of the parser.\<close>

definition lift_parse :: "'a parse \<Rightarrow> 'a build" where
  "lift_parse m s =
     (case m (sc_context s) of
        None \<Rightarrow> None
      | Some (r, ct) \<Rightarrow> Some (r, s\<lparr>sc_context := ct\<rparr>))"

definition alloc :: "stnode \<Rightarrow> nat build" where
  "alloc n s = Some (Inr (length (sc_nodes s)), s\<lparr>sc_nodes := sc_nodes s @ [n]\<rparr>)"

definition node_at :: "nat \<Rightarrow> stnode build" where
  "node_at a s = (if a < length (sc_nodes s) then Some (Inr (sc_nodes s ! a), s) else Some (Inl OutOfRange, s))"

definition update_node :: "nat \<Rightarrow> (stnode \<Rightarrow> stnode) \<Rightarrow> unit build" where
  "update_node a f s = Some (Inr (), s\<lparr>sc_nodes := (sc_nodes s)[a := f (sc_nodes s ! a)]\<rparr>)"

text \<open>The line of a node, where the code reads through the pointer.\<close>

definition line_of :: "nat \<Rightarrow> line build" where
  "line_of a = lbind (node_at a) (\<lambda>n.
     case n_line n of None \<Rightarrow> lthrow NullPointerRead | Some ln \<Rightarrow> lret ln)"

fun lines_of :: "nat list \<Rightarrow> line list build" where
  "lines_of [] = lret []"
| "lines_of (a # as) = lbind (line_of a) (\<lambda>ln. lbind (lines_of as) (\<lambda>lns. lret (ln # lns)))"

definition token_at :: "line list \<Rightarrow> nat \<times> nat \<Rightarrow> token_ptr build" where
  "token_at lns = (\<lambda>(i, k).
     if i < length lns \<and> k < length (l_tokens (lns ! i))
     then lret (TokenPtr (Some (lns ! i)) (l_tokens (lns ! i) ! k)) else lthrow OutOfRange)"

definition line_tokens :: "line \<Rightarrow> token_ptr list" where
  "line_tokens ln = List.map (TokenPtr (Some ln)) (l_tokens ln)"

fun for_each :: "('a \<Rightarrow> unit build) \<Rightarrow> 'a list \<Rightarrow> unit build" where
  "for_each f [] = lret ()"
| "for_each f (x # xs) = lbind (f x) (\<lambda>_. for_each f xs)"

subsection \<open>Looking ahead\<close>

text \<open>
  \<open>nextToken\<close> on the lines from \<open>first\<close> on. A pointer to a token is the number of its line among
  them with its index in the line; the iterator is a line number with a token index, and the number
  of the lines is \<open>last\<close>.
\<close>

definition nextToken :: "line list \<Rightarrow> nat \<times> nat \<Rightarrow> (nat \<times> nat) option \<times> (nat \<times> nat)" where
  "nextToken lns = (\<lambda>(i, k).
     if i = length lns then (None, (i, k))
     else
       (Some (i, k),
        if k + 1 = length (l_tokens (lns ! i)) then
          (if i + 1 \<noteq> length lns \<and> l_indents (lns ! (i + 1)) \<le> l_indents (lns ! 0)
           then length lns else i + 1, 0)
        else (i, k + 1)))"

subsection \<open>groupScript\<close>

text \<open>The stack has its top first and the root last.\<close>

definition pop_stack :: "nat \<Rightarrow> nat list \<Rightarrow> nat list" where
  "pop_stack indents stack = drop (length stack - (indents + 1)) stack"

definition is_name :: "token_ptr \<Rightarrow> nat \<Rightarrow> bool" where
  "is_name t sid \<longleftrightarrow> tokenMatches t TokenName \<and> sidMatches t sid"

text \<open>The name token of a definition, the token after an optional \<open>static\<close>.\<close>

definition name_token :: "line list \<Rightarrow> token_ptr option build" where
  "name_token lns =
     (let it1 = snd (nextToken lns (0, 0));
          (p, it2) = nextToken lns it1
      in case p of
           None \<Rightarrow> lthrow NullPointerRead
         | Some q \<Rightarrow>
             lbind (token_at lns q) (\<lambda>t.
               if is_name t (StringId ''Static'') then
                 (case fst (nextToken lns it2) of
                    None \<Rightarrow> lret None
                  | Some r \<Rightarrow> lbind (token_at lns r) (\<lambda>u. lret (Some u)))
               else lret (Some t)))"

definition names_definition :: "node_type \<Rightarrow> token_ptr \<Rightarrow> bool" where
  "names_definition type t \<longleftrightarrow>
     tokenMatches t TokenName \<or> type = Node_Def \<and> sidMatches t (StringId ''OpenParenthesis'')"

definition add_block :: "nat \<Rightarrow> nat \<Rightarrow> unit build" where
  "add_block a b = update_node a (\<lambda>n. n\<lparr>n_block := n_block n @ [b]\<rparr>)"

definition add_symbol :: "nat \<Rightarrow> nat \<Rightarrow> unit build" where
  "add_symbol a b = update_node a (\<lambda>n. n\<lparr>n_symbols := n_symbols n @ [b]\<rparr>)"

text \<open>One line; the result is the stack after it.\<close>

definition group_line :: "line list \<Rightarrow> nat list \<Rightarrow> nat list build" where
  "group_line lns stack0 =
     (let stack = pop_stack (l_indents (lns ! 0)) stack0;
          top = hd stack
      in lbind (token_at lns (0, 0)) (\<lambda>t0.
        let type = (if sidMatches t0 (StringId ''Def'') then Node_Def
                    else if sidMatches t0 (StringId ''Class'') then Node_Class else Node_Unknown)
        in if type = Node_Unknown then
             lbind (alloc (new_node (Some (lns ! 0)) Node_Unknown)) (\<lambda>a.
             lbind (add_block top a) (\<lambda>_.
             lbind (if sidMatches t0 (StringId ''Var'') then add_symbol top a else lret ()) (\<lambda>_.
             lret stack)))
           else
             lbind (name_token lns) (\<lambda>name.
               case name of
                 Some t \<Rightarrow>
                   if names_definition type t then
                     lbind (alloc ((new_node (Some (lns ! 0)) type)
                       \<lparr>n_sid := (if tokenMatches t TokenName then t_sid (tk t) else StringId ''Empty'')\<rparr>)) (\<lambda>a.
                     lbind (add_block top a) (\<lambda>_.
                     lbind (add_symbol top a) (\<lambda>_.
                     lret (a # stack))))
                   else lbind (lift_parse (errorAtNextToken Error t0
                       (if type = Node_Def then ''expected function name'' else ''expected class name'') []))
                     (\<lambda>_. lret stack)
               | None \<Rightarrow> lbind (lift_parse (errorAtNextToken Error t0
                       (if type = Node_Def then ''expected function name'' else ''expected class name'') []))
                     (\<lambda>_. lret stack))))"

fun group_loop :: "line list \<Rightarrow> nat list \<Rightarrow> unit build" where
  "group_loop [] stack = lret ()"
| "group_loop (ln # lns) stack = lbind (group_line (ln # lns) stack) (group_loop lns)"

definition groupScript :: "line list \<Rightarrow> nat build" where
  "groupScript lns =
     lbind (alloc (new_node None Node_ScriptRoot)) (\<lambda>root.
     lbind (group_loop lns [root]) (\<lambda>_. lret root))"

subsection \<open>Line types\<close>

record line_attributes =
  la_type :: node_type
  hasBlock :: bool
  parentType :: "node_type list"

definition line_attr :: "node_type \<Rightarrow> bool \<Rightarrow> node_type list \<Rightarrow> line_attributes" where
  "line_attr type block parents = \<lparr>la_type = type, hasBlock = block, parentType = parents\<rparr>"

definition parentType_normalSentence :: "node_type list" where
  "parentType_normalSentence = [
     Node_ScriptRoot, Node_Def, Node_DefOperator, Node_Class,
     Node_If, Node_ElseIf, Node_Else, Node_For, Node_While,
     Node_Case, Node_Default, Node_Do,
     Node_Catch, Node_Finally]"

definition parentType_normalSentenceAndSwitch :: "node_type list" where
  "parentType_normalSentenceAndSwitch = [
     Node_ScriptRoot, Node_Def, Node_DefOperator, Node_Class,
     Node_If, Node_ElseIf, Node_Else, Node_For, Node_While,
     Node_Case, Node_Default, Node_Do,
     Node_Catch, Node_Finally,
     Node_Switch]"

definition lineTypes :: "(nat \<times> line_attributes) list" where
  "lineTypes = [
     (StringId ''Import'', line_attr Node_Import False [Node_ScriptRoot]),
     (StringId ''Def'', line_attr Node_Def True parentType_normalSentence),
     (StringId ''Class'', line_attr Node_Class True [Node_ScriptRoot]),
     (StringId ''Sync'', line_attr Node_Sync True [Node_ScriptRoot, Node_Class]),
     (StringId ''Touch'', line_attr Node_Touch False parentType_normalSentence),
     (StringId ''Var'', line_attr Node_Var False [Node_ScriptRoot, Node_Class, Node_Sync]),
     (StringId ''If'', line_attr Node_If True parentType_normalSentence),
     (StringId ''Else'', line_attr Node_Else True parentType_normalSentence),
     (StringId ''For'', line_attr Node_For True parentType_normalSentence),
     (StringId ''While'', line_attr Node_While True parentType_normalSentence),
     (StringId ''Switch'', line_attr Node_Switch True parentType_normalSentence),
     (StringId ''Case'', line_attr Node_Case True [Node_Switch]),
     (StringId ''Default'', line_attr Node_Default True [Node_Switch]),
     (StringId ''Do'', line_attr Node_Do True parentType_normalSentence),
     (StringId ''Catch'', line_attr Node_Catch True parentType_normalSentenceAndSwitch),
     (StringId ''Finally'', line_attr Node_Finally True parentType_normalSentenceAndSwitch),
     (StringId ''Break'', line_attr Node_Break False parentType_normalSentence),
     (StringId ''Continue'', line_attr Node_Continue False parentType_normalSentence),
     (StringId ''Return'', line_attr Node_Return False parentType_normalSentence),
     (StringId ''Throw'', line_attr Node_Throw False parentType_normalSentence)]"

definition expressionParentType :: "node_type list" where
  "expressionParentType = parentType_normalSentence"

definition runnableContainerNodeTypes :: "node_type list" where
  "runnableContainerNodeTypes = [
     Node_If, Node_ElseIf, Node_Else, Node_For, Node_While,
     Node_Switch, Node_Default, Node_Do, Node_Catch, Node_Finally]"

definition runnableNodeTypes :: "node_type list" where
  "runnableNodeTypes = [
     Node_Expression, Node_Touch,
     Node_If, Node_ElseIf, Node_Else, Node_For, Node_While,
     Node_Switch, Node_Case, Node_Do,
     Node_Break, Node_Continue, Node_Return, Node_Throw]"

subsection \<open>The statements of a block\<close>

text \<open>
  How many lines a statement takes with the lines it is wrapped to; \<open>lns\<close> are the lines of the block
  from the statement on. The code appends their tokens to those of the node, which are still empty.
\<close>

definition wrapped_lines :: "bool \<Rightarrow> line list \<Rightarrow> nat" where
  "wrapped_lines block lns =
     1 + length (takeWhile (\<lambda>ln. l_indents (lns ! 0) + (if block then 2 else 1) \<le> l_indents ln) (tl lns))"

definition combineWrappedLines :: "nat \<Rightarrow> line list \<Rightarrow> bool \<Rightarrow> nat build" where
  "combineWrappedLines a lns block =
     (let k = wrapped_lines block lns
      in lbind (update_node a (\<lambda>n. n\<lparr>n_tokens := n_tokens n @ concat (List.map line_tokens (take k lns))\<rparr>))
           (\<lambda>_. lret k))"

text \<open>
  The tokens that decide about the type of a statement: the pointers to the first three and the
  iterator behind them.
\<close>

definition look_ahead :: "line list \<Rightarrow> (nat \<times> nat) option \<times> (nat \<times> nat) option \<times> (nat \<times> nat) option \<times> (nat \<times> nat)" where
  "look_ahead lns =
     (let (p0, it0) = nextToken lns (0, 0);
          (p1, it1) = nextToken lns it0;
          (p2, it2) = nextToken lns it1
      in (p0, p1, p2, it2))"

definition deref :: "line list \<Rightarrow> (nat \<times> nat) option \<Rightarrow> token_ptr option build" where
  "deref lns p = (case p of None \<Rightarrow> lret None | Some q \<Rightarrow> lbind (token_at lns q) (\<lambda>t. lret (Some t)))"

text \<open>Whether the line begins with a label.\<close>

definition labelled :: "token_ptr \<Rightarrow> token_ptr option \<Rightarrow> token_ptr option \<Rightarrow> bool" where
  "labelled t0 t1 t2 =
     (case (t1, t2) of
        (Some u1, Some u2) \<Rightarrow>
          map_of lineTypes (t_sid (tk t0)) = None \<and> sidMatches u1 (StringId ''Colon'') \<and>
          tokenMatches u2 TokenName
      | _ \<Rightarrow> False)"

text \<open>The pointers to the tokens of the first \<open>k\<close> lines, in the order of \<open>n->tokens\<close>.\<close>

definition combined_pointers :: "line list \<Rightarrow> nat \<Rightarrow> (nat \<times> nat) list" where
  "combined_pointers lns k =
     concat (List.map (\<lambda>i. List.map (Pair i) [0..<length (l_tokens (lns ! i))]) [0..<k])"

text \<open>
  One turn of the loop over the lines of a block: the statement is added to the output (\<open>Emit\<close>) or
  not (\<open>Skip\<close>), with the number of lines it takes, or the block is given up (\<open>Mismatch\<close>).
\<close>

datatype structured = Mismatch | Skip nat | Emit nat

definition mismatch_message :: string where
  "mismatch_message = ''indent mismatch. Expected ${0} indents but ${1} indents found''"

definition not_allowed :: "string \<Rightarrow> string" where
  "not_allowed s = ''statement '' @ [CHR 0x22] @ s @ [CHR 0x22] @ '' is not allowed here''"

definition loop_label_message :: string where
  "loop_label_message =
     ''only '' @ [CHR 0x22] @ ''for'' @ [CHR 0x22] @ '' or '' @ [CHR 0x22] @ ''while'' @ [CHR 0x22] @
     '' can take label''"

definition statement_type :: "line_attributes \<Rightarrow> token_ptr option \<Rightarrow> node_type" where
  "statement_type attr t1 =
     (let second = (\<lambda>sid. case t1 of None \<Rightarrow> False | Some t \<Rightarrow> sidMatches t sid)
      in if la_type attr = Node_Def \<and> second (StringId ''Operator'') then Node_DefOperator
         else if la_type attr = Node_Else \<and> second (StringId ''If'') then Node_ElseIf
         else la_type attr)"

text \<open>A statement that begins with a keyword. \<open>label_name\<close> is the token of its label.\<close>

definition keyword_statement ::
    "node_type \<Rightarrow> nat \<Rightarrow> nat list \<Rightarrow> line list \<Rightarrow> line_attributes \<Rightarrow> token_ptr \<Rightarrow> token_ptr option \<Rightarrow>
       token_ptr option \<Rightarrow> structured build" where
  "keyword_statement parent expectedIndents block lns attr key t1 label_name =
     (let a = hd block; (_, _, p2, it2) = look_ahead lns
      in lbind (combineWrappedLines a lns (hasBlock attr)) (\<lambda>k.
        if label_name \<noteq> None \<and>
            (length (combined_pointers lns k) < 3 \<or> p2 \<noteq> Some (combined_pointers lns k ! 2)) then
          lbind (lift_parse (errorAtToken Error key
              ''this line seems to be part of wrapping line, but indents may be incorrect'' []))
            (\<lambda>_. lret (Skip (if fst it2 = length lns \<or> snd it2 = 0 then fst it2 else fst it2 + 1)))
        else if label_name \<noteq> None \<and> la_type attr \<noteq> Node_For \<and> la_type attr \<noteq> Node_While then
          lbind (lift_parse (errorAtToken Error key loop_label_message [])) (\<lambda>_. lret (Skip k))
        else
          lbind (case label_name of
                   None \<Rightarrow> lret ()
                 | Some t \<Rightarrow> update_node a (\<lambda>n. n\<lparr>n_sid := t_sid (tk t)\<rparr>)) (\<lambda>_.
          if parent \<notin> set (parentType attr) then
            lbind (lift_parse (refText (t_sid (tk key)))) (\<lambda>s.
            lbind (lift_parse (errorAtToken Error key (not_allowed s) [])) (\<lambda>_. lret (Skip k)))
          else
            let inner = (if hasBlock attr
                         then length (takeWhile (\<lambda>ln. expectedIndents < l_indents ln) (drop k lns)) else 0)
            in lbind (update_node a (\<lambda>n. n\<lparr>n_type := statement_type attr t1,
                   n_block := n_block n @ take inner (drop k block)\<rparr>))
                 (\<lambda>_. lret (Emit (k + inner))))))"

definition expression_statement :: "node_type \<Rightarrow> nat list \<Rightarrow> line list \<Rightarrow> structured build" where
  "expression_statement parent block lns =
     (let a = hd block
      in lbind (combineWrappedLines a lns False) (\<lambda>k.
        if parent \<notin> set expressionParentType then
          lbind (lift_parse (errorAtWholeLine Error (lns ! 0) ''expression is not allowed here'' []))
            (\<lambda>_. lret (Skip k))
        else lbind (update_node a (\<lambda>n. n\<lparr>n_type := Node_Expression\<rparr>)) (\<lambda>_. lret (Emit k))))"

definition structure_step :: "node_type \<Rightarrow> nat \<Rightarrow> nat list \<Rightarrow> structured build" where
  "structure_step parent expectedIndents block =
     lbind (lines_of block) (\<lambda>lns.
     lbind (token_at lns (0, 0)) (\<lambda>t0.
       if l_indents (lns ! 0) \<noteq> expectedIndents then
         lbind (lift_parse (errorAtToken Error t0 mismatch_message
             [decimal expectedIndents, decimal (l_indents (lns ! 0))])) (\<lambda>_. lret Mismatch)
       else if tokenMatches t0 TokenName then
         (let (_, p1, p2, _) = look_ahead lns
          in lbind (deref lns p1) (\<lambda>t1. lbind (deref lns p2) (\<lambda>t2.
            let label = labelled t0 t1 t2;
                key = (if label then the t2 else t0)
            in case map_of lineTypes (t_sid (tk key)) of
                 Some attr \<Rightarrow>
                   keyword_statement parent expectedIndents block lns attr key t1 (if label then Some t0 else None)
               | None \<Rightarrow> expression_statement parent block lns)))
       else expression_statement parent block lns))"

text \<open>The loop; \<open>block\<close> is what is left of the lines and \<open>out\<close> the statements so far.\<close>

partial_function (option) structure_loop ::
    "node_type \<Rightarrow> nat \<Rightarrow> nat list \<Rightarrow> nat list \<Rightarrow> script \<Rightarrow> (nat list result \<times> script) option" where
  [code]: "structure_loop parent expectedIndents block out s =
     (if block = [] then Some (Inr out, s)
      else case structure_step parent expectedIndents block s of
          None \<Rightarrow> None
        | Some (Inl e, s1) \<Rightarrow> Some (Inl e, s1)
        | Some (Inr Mismatch, s1) \<Rightarrow> Some (Inr [], s1)
        | Some (Inr (Skip k), s1) \<Rightarrow> structure_loop parent expectedIndents (drop k block) out s1
        | Some (Inr (Emit k), s1) \<Rightarrow>
            structure_loop parent expectedIndents (drop k block) (out @ [hd block]) s1)"

subsection \<open>Checks of a block\<close>

definition type_of :: "nat \<Rightarrow> node_type build" where
  "type_of a = lbind (node_at a) (\<lambda>n. lret (n_type n))"

fun types_of :: "nat list \<Rightarrow> node_type list build" where
  "types_of [] = lret []"
| "types_of (a # as) = lbind (type_of a) (\<lambda>t. lbind (types_of as) (\<lambda>ts. lret (t # ts)))"

definition report_line :: "error_level \<Rightarrow> nat \<Rightarrow> string \<Rightarrow> unit build" where
  "report_line level a message =
     lbind (line_of a) (\<lambda>ln. lift_parse (errorAtWholeLine level ln message []))"

definition check_empty :: "nat \<Rightarrow> nat list \<Rightarrow> unit build" where
  "check_empty a out =
     lbind (type_of a) (\<lambda>type.
       if type \<notin> set runnableContainerNodeTypes then lret ()
       else lbind (types_of out) (\<lambda>types.
         if list_ex (\<lambda>t. t \<in> set runnableNodeTypes) types then lret ()
         else report_line Warning a ''empty block statement''))"

definition is_catch :: "node_type \<Rightarrow> bool" where
  "is_catch type \<longleftrightarrow> type = Node_Catch \<or> type = Node_Finally"

definition leaves :: "node_type \<Rightarrow> bool" where
  "leaves type \<longleftrightarrow> type \<in> {Node_Break, Node_Continue, Node_Return, Node_Throw}"

definition expected_catch :: string where
  "expected_catch = ''expected '' @ [CHR 0x22] @ ''catch'' @ [CHR 0x22] @ '' or '' @ [CHR 0x22] @
     ''finally'' @ [CHR 0x22]"

definition after_finally :: string where
  "after_finally = ''nothing can be placed after '' @ [CHR 0x22] @ ''finally'' @ [CHR 0x22] @ '' block''"

text \<open>
  The order of \<open>catch\<close> and \<open>finally\<close>, and unreachable code. The statements come with their types; the
  result is what is left of the output from here on.
\<close>

function order_loop :: "bool \<Rightarrow> bool \<Rightarrow> bool \<Rightarrow> (nat \<times> node_type) list \<Rightarrow> (nat \<times> node_type) list build" where
  "order_loop catchFinallyFound finallyFound left [] = lret []"
| "order_loop catchFinallyFound finallyFound left ((a, type) # rest) =
     (if finallyFound then lbind (report_line Error a after_finally) (\<lambda>_. lret [])
      else if type = Node_Catch then
        lbind (order_loop True False left rest) (\<lambda>out. lret ((a, type) # out))
      else if type = Node_Finally then
        lbind (order_loop True True left rest) (\<lambda>out. lret ((a, type) # out))
      else if left then
        lbind (report_line Warning a ''unreachable code'') (\<lambda>_.
          order_loop catchFinallyFound False left (dropWhile (\<lambda>(_, t). \<not> is_catch t) rest))
      else if catchFinallyFound then lbind (report_line Error a expected_catch) (\<lambda>_. lret [])
      else lbind (order_loop False False (leaves type) rest) (\<lambda>out. lret ((a, type) # out)))"
  by pat_completeness auto
termination
  by (relation "measure (\<lambda>(_, _, _, xs). length xs)") (auto simp: length_dropWhile_le less_Suc_eq_le)

definition case_after_default :: string where
  "case_after_default = [CHR 0x22] @ ''case'' @ [CHR 0x22] @ '' cannot be placed after '' @ [CHR 0x22] @
     ''default'' @ [CHR 0x22]"

fun case_loop :: "bool \<Rightarrow> (nat \<times> node_type) list \<Rightarrow> (nat \<times> node_type) list build" where
  "case_loop defaultFound [] = lret []"
| "case_loop defaultFound ((a, type) # rest) =
     (if type = Node_Case \<and> defaultFound then
        lbind (report_line Error a case_after_default) (\<lambda>_. lret [])
      else lbind (case_loop (defaultFound \<or> type = Node_Default) rest) (\<lambda>out. lret ((a, type) # out)))"

text \<open>The statements of a block: everything up to the grouping of \<open>if\<close> and \<open>else\<close>.\<close>

definition checked_statements :: "nat \<Rightarrow> (nat \<times> node_type) list build" where
  "checked_statements a =
     lbind (node_at a) (\<lambda>n.
     lbind (structure_loop (n_type n) (case n_line n of None \<Rightarrow> 0 | Some ln \<Rightarrow> l_indents ln + 1) (n_block n) [])
       (\<lambda>out.
     lbind (check_empty a out) (\<lambda>_.
     lbind (types_of out) (\<lambda>types.
     lbind (order_loop False False False (zip out types)) (\<lambda>ordered.
       if n_type n = Node_Switch then case_loop False ordered else lret ordered)))))"

subsection \<open>structureInnerNode\<close>

definition else_message :: "string \<Rightarrow> string" where
  "else_message s = s @ '' '' @ [CHR 0x22] @ ''else'' @ [CHR 0x22] @ '' statement''"

text \<open>
  One statement is put into the block of \<open>a\<close>; an \<open>if\<close> opens a group that takes its \<open>else\<close> branches.
\<close>

definition place_statement :: "(nat \<Rightarrow> unit build) \<Rightarrow> bool \<Rightarrow> nat \<Rightarrow> nat \<times> node_type \<Rightarrow> unit build" where
  "place_statement structure recursive a = (\<lambda>(b, type).
     if type = Node_Sync then
       lbind (if \<not> recursive then structure b else lret ()) (\<lambda>_. add_block a b)
     else if type = Node_If then
       lbind (alloc ((new_node None Node_IfGroup)\<lparr>n_block := [b], n_state := Structured\<rparr>)) (add_block a)
     else if type = Node_ElseIf \<or> type = Node_Else then
       lbind (node_at a) (\<lambda>n.
         if n_block n = [] then report_line Error b (else_message ''unexpected'')
         else lbind (node_at (last (n_block n))) (\<lambda>g.
           if n_type g \<noteq> Node_IfGroup then report_line Error b (else_message ''unexpected'')
           else lbind (type_of (last (n_block g))) (\<lambda>branch.
             if branch = Node_Else then report_line Error b (else_message ''extra'')
             else add_block (last (n_block n)) b)))
     else add_block a b)"

fun structureInnerNode :: "nat \<Rightarrow> bool \<Rightarrow> nat \<Rightarrow> unit build"
  and recursiveStructureNodes :: "nat \<Rightarrow> nat \<Rightarrow> unit build" where
  "structureInnerNode 0 recursive a = (\<lambda>s. None)"
| "structureInnerNode (Suc depth) recursive a =
     lbind (checked_statements a) (\<lambda>out.
     lbind (update_node a (\<lambda>n. n\<lparr>n_block := []\<rparr>)) (\<lambda>_.
     lbind (for_each (place_statement (structureInnerNode depth False) recursive a) out) (\<lambda>_.
     lbind (if recursive
            then lbind (node_at a) (\<lambda>n. for_each (recursiveStructureNodes depth) (n_block n))
            else lret ()) (\<lambda>_.
     update_node a (\<lambda>n. n\<lparr>n_state := Structured\<rparr>)))))"
| "recursiveStructureNodes 0 a = (\<lambda>s. None)"
| "recursiveStructureNodes (Suc depth) a =
     lbind (node_at a) (\<lambda>n.
     lbind (if n_state n = Grouped then structureInnerNode depth False a else lret ()) (\<lambda>_.
     lbind (node_at a) (\<lambda>n. for_each (recursiveStructureNodes depth) (n_block n))))"

end
