(* ===== verification/Block_Facts.thy ===== *)
theory Block_Facts
  imports Block_Structure "HOL-Library.Sublist"
begin

text \<open>
  Facts about blocks. \<open>wp m Q s\<close> says that a computation ends with a value and establishes \<open>Q\<close>; its
  rules walk through the definitions. The first part shows that \<open>groupScript\<close> keeps the lines in their
  order.
\<close>

subsection \<open>Walking through computations\<close>

definition wp :: "('c, 'a) comp \<Rightarrow> ('a \<Rightarrow> 'c \<Rightarrow> bool) \<Rightarrow> 'c \<Rightarrow> bool" where
  "wp m Q s \<longleftrightarrow> (\<exists>x s1. m s = Some (Inr x, s1) \<and> Q x s1)"

named_theorems wps

lemma wp_lret [wps]: "wp (lret x) Q = Q x"
  by (simp add: wp_def lret_def fun_eq_iff)

lemma wp_lbind [wps]: "wp (lbind m f) Q = wp m (\<lambda>x. wp (f x) Q)"
  by (auto simp: wp_def lbind_def fun_eq_iff split: option.splits sum.splits)

lemma wp_lthrow [wps]: "wp (lthrow e) Q s \<longleftrightarrow> False"
  by (simp add: wp_def lthrow_def)

lemma wp_mono: "wp m Q s \<Longrightarrow> (\<And>x s1. Q x s1 \<Longrightarrow> R x s1) \<Longrightarrow> wp m R s"
  by (auto simp: wp_def)

lemma wp_ifI: "(b \<Longrightarrow> wp m Q s) \<Longrightarrow> (\<not> b \<Longrightarrow> wp m' Q s) \<Longrightarrow> wp (if b then m else m') Q s"
  by simp

lemma wp_value: "wp m Q s \<Longrightarrow> m s = Some (Inr x, s1) \<Longrightarrow> Q x s1"
  by (simp add: wp_def)

lemma wp_returns: "wp m Q s \<Longrightarrow> \<exists>x s1. m s = Some (Inr x, s1) \<and> Q x s1"
  by (simp add: wp_def)

abbreviation errors :: "script \<Rightarrow> parse_error list" where
  "errors s \<equiv> p_errors (sc_context s)"

definition reported :: "script \<Rightarrow> parse_error \<Rightarrow> script" where
  "reported s e = s\<lparr>sc_context := (sc_context s)\<lparr>p_errors := p_errors (sc_context s) @ [e]\<rparr>\<rparr>"

lemma reported_simps [simp]:
  "sc_nodes (reported s e) = sc_nodes s" "errors (reported s e) = errors s @ [e]"
  "p_table (sc_context (reported s e)) = p_table (sc_context s)"
  by (simp_all add: reported_def)

lemma wp_receive: "(\<And>e. Q () (reported s e)) \<Longrightarrow> wp (lift_parse (receive l ln i j msg args)) Q s"
  by (simp add: wp_def lift_parse_def receive_def reported_def)

lemma wp_report:
  assumes "tk_line t \<noteq> None" "\<And>e. Q () (reported s e)"
  shows "wp (lift_parse (errorAtToken l t msg args)) Q s"
    "wp (lift_parse (errorAtNextToken l t msg args)) Q s"
    "wp (lift_parse (errorAtWholeLine l ln msg args)) Q s"
  using assms
  by (auto simp: errorAtToken_def errorAtNextToken_def errorAtWholeLine_def getLine_def intro!: wp_receive
      split: option.splits)

lemma wp_refText [wps]:
  "wp (lift_parse (refText sid)) Q s \<longleftrightarrow> (\<exists>x. table_ref (p_table (sc_context s)) sid = Inr x \<and> Q x s)"
  by (auto simp: wp_def lift_parse_def refText_def)

lemma wp_alloc [wps]: "wp (alloc n) Q s \<longleftrightarrow> Q (length (sc_nodes s)) (s\<lparr>sc_nodes := sc_nodes s @ [n]\<rparr>)"
  by (simp add: wp_def alloc_def)

lemma wp_node_at [wps]: "wp (node_at a) Q s \<longleftrightarrow> a < length (sc_nodes s) \<and> Q (sc_nodes s ! a) s"
  by (simp add: wp_def node_at_def)

lemma wp_update_node [wps]:
  "wp (update_node a f) Q s \<longleftrightarrow> Q () (s\<lparr>sc_nodes := (sc_nodes s)[a := f (sc_nodes s ! a)]\<rparr>)"
  by (simp add: wp_def update_node_def)

lemma wp_line_of [wps]:
  "wp (line_of a) Q s \<longleftrightarrow> a < length (sc_nodes s) \<and> (\<exists>ln. n_line (sc_nodes s ! a) = Some ln \<and> Q ln s)"
  by (simp add: line_of_def wps split: option.split)

lemma wp_token_at [wps]:
  "wp (token_at lns (i, k)) Q s \<longleftrightarrow>
     i < length lns \<and> k < length (l_tokens (lns ! i)) \<and> Q (TokenPtr (Some (lns ! i)) (l_tokens (lns ! i) ! k)) s"
  by (auto simp: token_at_def wps)

subsection \<open>groupScript\<close>

function below :: "stnode list \<Rightarrow> nat \<Rightarrow> nat list" where
  "below h a = concat (List.map (\<lambda>b. if a < b \<and> b < length h then b # below h b else []) (n_block (h ! a)))"
  by pat_completeness auto
termination
  by (relation "measure (\<lambda>(h, a). length h - a)") auto

declare below.simps [simp del]

definition forward :: "stnode list \<Rightarrow> bool" where
  "forward h \<longleftrightarrow> (\<forall>a < length h. \<forall>b \<in> set (n_block (h ! a)). a < b \<and> b < length h)"

lemma forwardD: "forward h \<Longrightarrow> a < length h \<Longrightarrow> b \<in> set (n_block (h ! a)) \<Longrightarrow> a < b \<and> b < length h"
  unfolding forward_def by blast

lemma below_forward:
  assumes "forward h" "a < length h"
  shows "below h a = concat (List.map (\<lambda>b. b # below h b) (n_block (h ! a)))"
proof -
  have "\<forall>b \<in> set (n_block (h ! a)). a < b \<and> b < length h"
    using forwardD [OF assms] by blast
  then show ?thesis
    by (subst below.simps) (simp cong: map_cong)
qed

lemma below_cong:
  assumes "forward h" "forward h'" "a < length h" "length h \<le> length h'"
    and "\<forall>b \<in> insert a (set (below h a)). n_block (h' ! b) = n_block (h ! b)"
  shows "below h' a = below h a"
  using assms
proof (induction h a rule: below.induct)
  case (1 h a)
  have "b # below h' b = b # below h b" if b: "b \<in> set (n_block (h ! a))" for b
  proof -
    from forwardD [OF 1(2,4) b] have ab: "a < b" "b < length h" by auto
    have "set (b # below h b) \<subseteq> set (below h a)"
      using b below_forward [OF 1(2,4)] by auto
    then have "\<forall>c \<in> insert b (set (below h b)). n_block (h' ! c) = n_block (h ! c)"
      using 1(6) by auto
    with 1(1) [OF b _ 1(2,3) ab(2) 1(5)] ab show ?thesis by simp
  qed
  then have "List.map (\<lambda>b. b # below h' b) (n_block (h ! a)) = List.map (\<lambda>b. b # below h b) (n_block (h ! a))"
    by (simp only: map_eq_conv) blast
  moreover have "n_block (h' ! a) = n_block (h ! a)" using 1(6) by blast
  moreover have "a < length h'" using 1(4,5) by simp
  ultimately show ?case
    by (simp only: below_forward [OF 1(2,4)] below_forward [OF 1(3)])
qed

lemma below_bounds: "b \<in> set (below h a) \<Longrightarrow> a < b \<and> b < length h"
proof (induction h a rule: below.induct)
  case (1 h a)
  from 1(2) obtain c where "c \<in> set (n_block (h ! a))" "a < c" "c < length h" "b = c \<or> b \<in> set (below h c)"
    by (subst (asm) below.simps) (auto split: if_splits)
  with 1(1) [of c] show ?case by auto
qed

text \<open>A node is put at the end of the block of the last open node.\<close>

definition open_path :: "stnode list \<Rightarrow> nat list \<Rightarrow> bool" where
  "open_path h stack \<longleftrightarrow>
     (\<forall>i. Suc i < length stack \<longrightarrow> n_block (h ! (stack ! Suc i)) \<noteq> [] \<and> last (n_block (h ! (stack ! Suc i))) = stack ! i)"

definition push_child :: "stnode list \<Rightarrow> nat \<Rightarrow> stnode \<Rightarrow> (stnode \<Rightarrow> stnode) \<Rightarrow> stnode list" where
  "push_child h t n f = (h @ [n])[t := f (h ! t)]"

lemma open_path_descending:
  assumes "forward h" "open_path h stack" "\<forall>a \<in> set stack. a < length h" "i \<le> j" "j < length stack"
  shows "stack ! j \<le> stack ! i"
  using assms(4,5)
proof (induction j)
  case (Suc j)
  then show ?case
  proof (cases "i = Suc j")
    case False
    then have "stack ! j \<le> stack ! i" using Suc by simp
    moreover have "stack ! j \<in> set (n_block (h ! (stack ! Suc j)))"
      using assms(2) Suc(3) unfolding open_path_def by (metis last_in_set)
    then have "stack ! Suc j < stack ! j"
      using forwardD [OF assms(1)] assms(3) Suc(3) nth_mem by blast
    ultimately show ?thesis by simp
  qed simp
qed simp

lemma push_child_below:
  assumes h: "forward h" and path: "open_path h stack" "\<forall>a \<in> set stack. a < length h" "stack \<noteq> []"
    and b: "\<forall>a \<in> set stack. below h a = [Suc a..<length h]"
    and n: "n_block n = []" "n_block (f (h ! hd stack)) = n_block (h ! hd stack) @ [length h]"
  defines "h' \<equiv> push_child h (hd stack) n f"
  shows "forward h'" "below h' (length h) = []" "a \<in> set stack \<Longrightarrow> below h' a = [Suc a..<Suc (length h)]"
proof -
  let ?t = "hd stack" and ?N = "length h"
  have t: "?t < ?N" using path by (simp add: hd_conv_nth)
  have len: "length h' = Suc ?N" by (simp add: h'_def push_child_def)
  have blocks: "n_block (h' ! x) = (if x = ?t then n_block (h ! x) @ [?N] else if x = ?N then [] else n_block (h ! x))"
    if "x \<le> ?N" for x
    using that t n by (auto simp: h'_def push_child_def nth_append nth_list_update)
  show fw: "forward h'"
    unfolding forward_def
  proof (intro allI impI ballI)
    fix a b assume a: "a < length h'" and b: "b \<in> set (n_block (h' ! a))"
    then have "a \<le> ?N" by (simp add: len)
    from b [unfolded blocks [OF this]] have "a = ?t \<and> b = ?N \<or> a \<noteq> ?N \<and> b \<in> set (n_block (h ! a))"
      using t by (auto split: if_splits)
    with forwardD [OF h, of a b] \<open>a \<le> ?N\<close> t show "a < b \<and> b < length h'"
      by (auto simp: len)
  qed
  show last: "below h' ?N = []"
    using below_forward [OF fw, of ?N] t by (simp add: len blocks)
  have same: "below h' x = below h x" if "x < ?N" "?t \<notin> insert x (set (below h x))" for x
  proof (rule below_cong [OF h fw])
    show "\<forall>b\<in>insert x (set (below h x)). n_block (h' ! b) = n_block (h ! b)"
    proof
      fix y assume y: "y \<in> insert x (set (below h x))"
      moreover have "y < ?N"
        using y that(1) below_bounds by blast
      ultimately show "n_block (h' ! y) = n_block (h ! y)"
        using blocks [of y] that(2) by auto
    qed
  qed (use that len in auto)
  have "below h' (stack ! i) = [Suc (stack ! i)..<Suc ?N]" if "i < length stack" for i
    using that
  proof (induction i)
    case 0
    have "b # below h' b = b # below h b" if "b \<in> set (n_block (h ! ?t))" for b
    proof -
      have "?t < b" "b < ?N" using forwardD [OF h t that] by auto
      then have "?t \<notin> insert b (set (below h b))" using below_bounds [of ?t h b] by auto
      with same [OF \<open>b < ?N\<close>] show ?thesis by simp
    qed
    then have "List.map (\<lambda>b. b # below h' b) (n_block (h ! ?t)) = List.map (\<lambda>b. b # below h b) (n_block (h ! ?t))"
      by (simp only: map_eq_conv) blast
    then have "below h' ?t = below h ?t @ [?N]"
      using below_forward [OF fw, of ?t] below_forward [OF h t] t
      by (simp add: blocks last len del: map_eq_conv)
    also have "\<dots> = [Suc ?t..<Suc ?N]"
    proof -
      have "below h ?t = [Suc ?t..<?N]" using b path(3) by simp
      then show ?thesis using t by simp
    qed
    finally show ?case using path by (simp add: hd_conv_nth)
  next
    case (Suc i)
    let ?a = "stack ! Suc i" and ?y = "stack ! i"
    have a: "?a \<in> set stack" "?a < ?N" and y: "?y \<in> set stack" "?y < ?N"
      using Suc(2) path(2) by simp_all
    obtain cs where cs: "n_block (h ! ?a) = cs @ [?y]"
      using path(1) Suc(2) append_butlast_last_id unfolding open_path_def by metis
    have ay: "?a < ?y" using forwardD [OF h a(2)] cs by simp
    have ty: "?y \<le> ?t"
      using open_path_descending [OF h path(1,2), of 0 i] Suc(2) path(3) by (simp add: hd_conv_nth)
    let ?X = "concat (List.map (\<lambda>b. b # below h b) cs)"
    have "?X @ ?y # below h ?y = below h ?a"
      by (simp add: below_forward [OF h a(2)] cs)
    also have "\<dots> = [Suc ?a..<?y] @ [?y..<?N]"
      using b a ay y(2) upt_add_eq_append [of "Suc ?a" ?y "?N - ?y"] by simp
    finally have "?X @ ?y # [Suc ?y..<?N] = [Suc ?a..<?y] @ ?y # [Suc ?y..<?N]"
      using b y by (simp add: upt_conv_Cons)
    then have X: "?X = [Suc ?a..<?y]" by simp
    have "c # below h' c = c # below h c" if c: "c \<in> set cs" for c
    proof -
      have "set (c # below h c) \<subseteq> set ?X" using c by auto
      also have "\<dots> = {Suc ?a..<?y}" by (simp only: X set_upt)
      finally have "c < ?y" "?t \<notin> insert c (set (below h c))" using ty by auto
      with same [of c] y(2) show ?thesis by simp
    qed
    then have "List.map (\<lambda>b. b # below h' b) cs = List.map (\<lambda>b. b # below h b) cs"
      by (simp only: map_eq_conv) blast
    then have "below h' ?a = ?X @ ?y # below h' ?y"
      using below_forward [OF fw, of ?a] a ay ty by (simp add: blocks cs len del: map_eq_conv)
    also have "\<dots> = [Suc ?a..<?y] @ ?y # [Suc ?y..<Suc ?N]"
      using X Suc by simp
    also have "\<dots> = [Suc ?a..<Suc ?N]"
      using ay y(2) upt_add_eq_append [of "Suc ?a" ?y "Suc ?N - ?y"] by (simp add: upt_conv_Cons)
    finally show ?case .
  qed
  then show "a \<in> set stack \<Longrightarrow> below h' a = [Suc a..<Suc ?N]"
    by (auto simp: in_set_conv_nth)
qed

text \<open>What the grouping keeps; \<open>seen\<close> are the lines so far and \<open>reports\<close> those at the beginning.\<close>

definition grouped :: "line list \<Rightarrow> parse_error list \<Rightarrow> nat list \<Rightarrow> script \<Rightarrow> bool" where
  "grouped seen reports stack s \<longleftrightarrow>
     stack \<noteq> [] \<and> last stack = 0 \<and> forward (sc_nodes s) \<and> open_path (sc_nodes s) stack \<and>
     (\<forall>a \<in> set stack. a < length (sc_nodes s) \<and> below (sc_nodes s) a = [Suc a..<length (sc_nodes s)]) \<and>
     prefix reports (errors s) \<and>
     (\<exists>kept. List.map n_line (sc_nodes s) = None # List.map Some kept \<and> subseq kept seen \<and>
        (errors s = reports \<longrightarrow> kept = seen)) \<and>
     n_type (sc_nodes s ! 0) = Node_ScriptRoot \<and>
     list_all (\<lambda>n. n_state n = Grouped \<and> n_tokens n = []) (sc_nodes s)"

lemma pop_stack_facts:
  assumes "stack \<noteq> []"
  shows "pop_stack i stack \<noteq> []" "last (pop_stack i stack) = last stack"
    "set (pop_stack i stack) \<subseteq> set stack" "hd (pop_stack i stack) \<in> set stack"
proof -
  show "pop_stack i stack \<noteq> []" "last (pop_stack i stack) = last stack" "set (pop_stack i stack) \<subseteq> set stack"
    using assms by (cases stack; auto simp: pop_stack_def dest: in_set_dropD)+
  then show "hd (pop_stack i stack) \<in> set stack" by (meson hd_in_set subsetD)
qed

lemma open_path_pop: "open_path h stack \<Longrightarrow> open_path h (pop_stack i stack)"
  by (simp add: open_path_def pop_stack_def)

lemma grouped_pop: "grouped seen reports stack s \<Longrightarrow> grouped seen reports (pop_stack i stack) s"
  using pop_stack_facts [of stack i] open_path_pop [of "sc_nodes s" stack i]
  unfolding grouped_def by auto

lemma grouped_report:
  assumes "grouped seen reports stack s"
  shows "grouped (seen @ [ln]) reports stack (reported s e)"
proof -
  have "errors s @ [e] \<noteq> reports"
    using assms prefix_length_le unfolding grouped_def by fastforce
  moreover from assms have "\<exists>kept. List.map n_line (sc_nodes s) = None # List.map Some kept \<and> subseq kept seen"
    unfolding grouped_def by (elim conjE exE) (intro exI conjI)
  then have "\<exists>kept. List.map n_line (sc_nodes s) = None # List.map Some kept \<and> subseq kept (seen @ [ln])"
    by (elim exE conjE) (intro exI conjI, assumption, rule subseq_rev_drop_many)
  ultimately show ?thesis
    using assms unfolding grouped_def by simp
qed

lemma push_child_map:
  "t < length h \<Longrightarrow> g (f (h ! t)) = g (h ! t) \<Longrightarrow> List.map g (push_child h t n f) = List.map g h @ [g n]"
  by (simp add: push_child_def map_update nth_append list_update_append)
    (metis list_update_id nth_map)

lemma open_path_push:
  assumes "forward h" "open_path h stack" "\<forall>a \<in> set stack. a < length h" "stack \<noteq> []"
    and "n_block (f (h ! hd stack)) = n_block (h ! hd stack) @ [length h]"
  shows "open_path (push_child h (hd stack) n f) stack"
    "open_path (push_child h (hd stack) n f) (length h # stack)"
proof -
  let ?t = "hd stack"
  have t: "?t < length h" using assms(3,4) by simp
  show path: "open_path (push_child h ?t n f) stack"
    unfolding open_path_def
  proof (intro allI impI)
    fix i assume i: "Suc i < length stack"
    have p: "n_block (h ! (stack ! Suc i)) \<noteq> []" "last (n_block (h ! (stack ! Suc i))) = stack ! i"
      using assms(2) i unfolding open_path_def by blast+
    have "stack ! Suc i < length h" using assms(3) i by simp
    moreover have "stack ! Suc i < stack ! i"
      using forwardD [OF assms(1) calculation, of "stack ! i"] p last_in_set by fastforce
    moreover have "stack ! i \<le> ?t"
      using open_path_descending [OF assms(1-3), of 0 i] i assms(4) by (simp add: hd_conv_nth)
    ultimately show "n_block (push_child h ?t n f ! (stack ! Suc i)) \<noteq> [] \<and>
        last (n_block (push_child h ?t n f ! (stack ! Suc i))) = stack ! i"
      using p by (simp add: push_child_def nth_append)
  qed
  have "n_block (push_child h ?t n f ! ?t) = n_block (h ! ?t) @ [length h]"
    using t assms(5) by (simp add: push_child_def)
  then show "open_path (push_child h ?t n f) (length h # stack)"
    using path assms(4) unfolding open_path_def
    by (auto simp: nth_Cons hd_conv_nth split: nat.split)
qed

lemma grouped_add:
  assumes g: "grouped seen reports stack s"
    and n: "n_block n = []" "n_line n = Some ln" "n_state n = Grouped" "n_tokens n = []"
    and f: "n_block (f (sc_nodes s ! hd stack)) = n_block (sc_nodes s ! hd stack) @ [length (sc_nodes s)]"
      "\<And>m. n_line (f m) = n_line m" "\<And>m. n_state (f m) = n_state m" "\<And>m. n_tokens (f m) = n_tokens m"
      "\<And>m. n_type (f m) = n_type m"
    and s1: "sc_nodes s1 = push_child (sc_nodes s) (hd stack) n f" "sc_context s1 = sc_context s"
  shows "grouped (seen @ [ln]) reports stack s1" "grouped (seen @ [ln]) reports (length (sc_nodes s) # stack) s1"
proof -
  let ?h = "sc_nodes s" and ?N = "length (sc_nodes s)" and ?t = "hd stack"
  note g' = g [unfolded grouped_def]
  have t: "?t < ?N" using g' by simp
  have tree: "forward ?h" "open_path ?h stack" "\<forall>a \<in> set stack. a < ?N" "stack \<noteq> []"
    "\<forall>a \<in> set stack. below ?h a = [Suc a..<?N]"
    using g' by auto
  note p = push_child_below [where f = f, OF tree n(1) f(1), folded s1(1)] open_path_push [where f = f and n = n, OF tree(1-4) f(1), folded s1(1)]
  have len: "length (sc_nodes s1) = Suc ?N" by (simp add: s1 push_child_def)
  from g' have "\<exists>kept. List.map n_line ?h = None # List.map Some kept \<and> subseq kept seen \<and>
      (errors s = reports \<longrightarrow> kept = seen)"
    by (elim conjE)
  then obtain kept where k: "List.map n_line ?h = None # List.map Some kept" "subseq kept seen"
      "errors s = reports \<longrightarrow> kept = seen"
    by (elim exE conjE) (rule that)
  have lines: "List.map n_line (sc_nodes s1) = None # List.map Some (kept @ [ln])"
    using push_child_map [of ?t ?h n_line f n] t k(1) by (simp add: s1 f n)
  have root: "n_type (sc_nodes s1 ! 0) = Node_ScriptRoot"
  proof -
    have "?h \<noteq> []" using t by auto
    then have "n_type ((?h @ [n])[?t := f (?h ! ?t)] ! 0) = n_type (?h ! 0)"
      using f(5) t by (cases "?t = 0") (simp_all add: nth_append nth_list_update)
    then show ?thesis using g' by (simp only: s1 push_child_def)
  qed
  have states: "list_all (\<lambda>n. n_state n = Grouped \<and> n_tokens n = []) (sc_nodes s1)"
  proof -
    have "List.map (\<lambda>n. (n_state n, n_tokens n)) (sc_nodes s1) = List.map (\<lambda>n. (n_state n, n_tokens n)) ?h @ [(Grouped, [])]"
      using push_child_map [of ?t ?h "\<lambda>n. (n_state n, n_tokens n)" f n] t by (simp add: s1 f n)
    moreover have "set (List.map (\<lambda>n. (n_state n, n_tokens n)) ?h) \<subseteq> {(Grouped, [])}"
      using g' by (auto simp: list_all_iff)
    ultimately have "set (List.map (\<lambda>n. (n_state n, n_tokens n)) (sc_nodes s1)) \<subseteq> {(Grouped, [])}"
      by simp
    then show ?thesis by (auto simp: list_all_iff)
  qed
  have "List.map n_line (sc_nodes s1) = None # List.map Some (kept @ [ln]) \<and>
      subseq (kept @ [ln]) (seen @ [ln]) \<and> (errors s1 = reports \<longrightarrow> kept @ [ln] = seen @ [ln])"
    using lines k by (simp add: s1)
  then have common: "\<exists>kept. List.map n_line (sc_nodes s1) = None # List.map Some kept \<and>
      subseq kept (seen @ [ln]) \<and> (errors s1 = reports \<longrightarrow> kept = seen @ [ln])"
    by (rule exI)
  moreover have "prefix reports (errors s1)"
    using g' by (simp add: s1)
  note common = calculation this
  show "grouped (seen @ [ln]) reports stack s1"
    unfolding grouped_def using g' p common root states by (simp add: len less_Suc_eq)
  show "grouped (seen @ [ln]) reports (?N # stack) s1"
    unfolding grouped_def using g' p common root states by (simp add: len less_Suc_eq)
qed

text \<open>Positions that \<open>nextToken\<close> reaches.\<close>

definition position_ok :: "line list \<Rightarrow> nat \<times> nat \<Rightarrow> bool" where
  "position_ok lns = (\<lambda>(i, k). i \<le> length lns \<and> (i < length lns \<longrightarrow> k < length (l_tokens (lns ! i))))"

lemma nextToken_ok:
  assumes "position_ok lns it" "list_all (\<lambda>l. l_tokens l \<noteq> []) lns" "nextToken lns it = (p, it1)"
  shows "position_ok lns it1" "fst it = length lns \<longleftrightarrow> p = None" "p = Some q \<Longrightarrow> q = it \<and> fst it < length lns"
  using assms by (auto simp: nextToken_def position_ok_def list_all_length split: if_splits)

lemma wp_token_ok: "position_ok lns it \<Longrightarrow> fst it < length lns \<Longrightarrow> (\<And>t. tk_line t \<noteq> None \<Longrightarrow> Q t s) \<Longrightarrow> wp (token_at lns it) Q s"
  by (cases it) (simp add: wps position_ok_def)

text \<open>
  The line of a definition has a second token, or a wrapped line below it: otherwise \<open>groupScript\<close>
  reads through a null pointer.
\<close>

definition is_definition :: "line \<Rightarrow> bool" where
  "is_definition ln \<longleftrightarrow>
     t_sid (l_tokens ln ! 0) = StringId ''Def'' \<or> t_sid (l_tokens ln ! 0) = StringId ''Class''"

fun headers_ok :: "line list \<Rightarrow> bool" where
  "headers_ok [] \<longleftrightarrow> True"
| "headers_ok (ln # lns) \<longleftrightarrow>
     l_tokens ln \<noteq> [] \<and> headers_ok lns \<and>
     (is_definition ln \<and> length (l_tokens ln) = 1 \<longrightarrow> lns \<noteq> [] \<and> l_indents ln < l_indents (hd lns))"

lemma headers_ok_tokens: "headers_ok lns \<Longrightarrow> list_all (\<lambda>l. l_tokens l \<noteq> []) lns"
  by (induction lns) auto

lemma wp_name_token:
  assumes "headers_ok (ln # lns)" "is_definition ln" "\<And>t. Q t s"
  shows "wp (name_token (ln # lns)) Q s"
proof -
  let ?ls = "ln # lns"
  note toks = headers_ok_tokens [OF assms(1)]
  obtain p0 it1 where n0: "nextToken ?ls (0, 0) = (p0, it1)" by (cases "nextToken ?ls (0, 0)") 
  have start: "position_ok ?ls (0, 0)" using assms(1) by (simp add: position_ok_def)
  have it1: "position_ok ?ls it1" "fst it1 < length ?ls"
    using nextToken_ok(1) [OF start toks n0] n0 assms(1,2)
    by (cases lns; auto simp: nextToken_def split: if_splits)+
  obtain p it2 where n1: "nextToken ?ls it1 = (p, it2)" by (cases "nextToken ?ls it1")
  note k1 = nextToken_ok [OF it1(1) toks n1]
  obtain r it3 where n2: "nextToken ?ls it2 = (r, it3)" by (cases "nextToken ?ls it2")
  note k2 = nextToken_ok [OF k1(1) toks n2]
  have p: "p = Some it1" using k1(2,3) it1(2) by (cases p) auto
  have "wp (case r of None \<Rightarrow> lret None | Some r \<Rightarrow> lbind (token_at ?ls r) (\<lambda>u. lret (Some u))) Q s"
    using k2(3) assms(3) k1(1) by (cases r) (auto simp: wps intro!: wp_token_ok)
  then show ?thesis
    unfolding name_token_def Let_def n0 n1 p using n2 it1 assms(3)
    by (auto simp: wps n1 p intro!: wp_token_ok)
qed

text \<open>What one line does to the nodes: nothing, or one new node in the block of the last open node.\<close>

definition added :: "line \<Rightarrow> nat list \<Rightarrow> script \<Rightarrow> nat list \<Rightarrow> script \<Rightarrow> bool" where
  "added ln stack s stack1 s1 \<longleftrightarrow>
     (\<exists>n f. s1 = s\<lparr>sc_nodes := push_child (sc_nodes s) (hd stack) n f\<rparr> \<and>
       n_block n = [] \<and> n_line n = Some ln \<and> n_state n = Grouped \<and> n_tokens n = [] \<and>
       (\<forall>m. n_block (f m) = n_block m @ [length (sc_nodes s)] \<and> n_line (f m) = n_line m \<and>
          n_state (f m) = n_state m \<and> n_tokens (f m) = n_tokens m \<and> n_type (f m) = n_type m) \<and>
       (n_type n = Node_Unknown \<and> stack1 = stack \<or>
        n_type n \<in> {Node_Def, Node_Class} \<and> stack1 = length (sc_nodes s) # stack))"

lemma group_line_shape:
  assumes "headers_ok (ln # lns)" "stack = pop_stack (l_indents ln) stack0" "hd stack < length (sc_nodes s)"
  shows "wp (group_line (ln # lns) stack0)
    (\<lambda>stack1 s1. stack1 = stack \<and> (\<exists>e. s1 = reported s e) \<or> added ln stack s stack1 s1) s"
proof -
  let ?N = "length (sc_nodes s)"
  have t0: "l_tokens ln \<noteq> []" using assms(1) by simp
  have add: "added ln stack s stack1 (s\<lparr>sc_nodes := (sc_nodes s @ [n])[hd stack := f (sc_nodes s ! hd stack)]\<rparr>)"
    if "n_block n = []" "n_line n = Some ln" "n_state n = Grouped" "n_tokens n = []"
      "f = (\<lambda>n. n\<lparr>n_block := n_block n @ [?N]\<rparr>) \<or>
       f = (\<lambda>n. n\<lparr>n_block := n_block n @ [?N], n_symbols := n_symbols n @ [?N]\<rparr>)"
      "n_type n = Node_Unknown \<and> stack1 = stack \<or> n_type n \<in> {Node_Def, Node_Class} \<and> stack1 = ?N # stack"
    for n f stack1
    unfolding added_def push_child_def using that by (intro exI [of _ n] exI [of _ f]) auto
  show ?thesis
  proof (cases "is_definition ln")
    case False
    have "added ln stack s stack (s\<lparr>sc_nodes := (sc_nodes s @ [new_node (Some ln) Node_Unknown])
          [hd stack := (\<lambda>n. n\<lparr>n_block := n_block n @ [?N]\<rparr>) (sc_nodes s ! hd stack)]\<rparr>)"
      "added ln stack s stack (s\<lparr>sc_nodes := (sc_nodes s @ [new_node (Some ln) Node_Unknown])
          [hd stack := (\<lambda>n. n\<lparr>n_block := n_block n @ [?N], n_symbols := n_symbols n @ [?N]\<rparr>) (sc_nodes s ! hd stack)]\<rparr>)"
      by (rule add; simp add: new_node_def)+
    with False t0 assms(3) show ?thesis
      by (simp add: group_line_def Let_def wps is_definition_def sidMatches_def add_block_def add_symbol_def
          nth_append assms(2) [symmetric])
  next
    case True
    have def_add: "added ln stack s (?N # stack)
        (s\<lparr>sc_nodes := (sc_nodes s @ [(new_node (Some ln) type)\<lparr>n_sid := sid\<rparr>])
          [hd stack := (\<lambda>n. n\<lparr>n_block := n_block n @ [?N], n_symbols := n_symbols n @ [?N]\<rparr>) (sc_nodes s ! hd stack)]\<rparr>)"
      if "type \<in> {Node_Def, Node_Class}" for type sid
      using that by (intro add) (simp_all add: new_node_def)
    have "stack1 = stack \<and> (\<exists>e'. reported s e = reported s e') \<or> added ln stack s stack1 (reported s e)"
      if "stack1 = stack" for e stack1
      using that by blast
    with t0 assms(3) True def_add show ?thesis
      by (auto simp: group_line_def Let_def wps is_definition_def sidMatches_def add_block_def add_symbol_def
          nth_append assms(2) [symmetric] intro!: wp_name_token [OF assms(1) True] wp_report split: option.split)
  qed
qed

lemma added_grouped:
  assumes "grouped seen reports stack s" "added ln stack s stack1 s1"
  shows "grouped (seen @ [ln]) reports stack1 s1"
proof -
  from assms(2) obtain n f where "s1 = s\<lparr>sc_nodes := push_child (sc_nodes s) (hd stack) n f\<rparr>"
      "n_block n = []" "n_line n = Some ln" "n_state n = Grouped" "n_tokens n = []"
      "\<And>m. n_block (f m) = n_block m @ [length (sc_nodes s)]" "\<And>m. n_line (f m) = n_line m"
      "\<And>m. n_state (f m) = n_state m" "\<And>m. n_tokens (f m) = n_tokens m" "\<And>m. n_type (f m) = n_type m"
      "stack1 = stack \<or> stack1 = length (sc_nodes s) # stack"
    unfolding added_def by blast
  with grouped_add [OF assms(1), of n ln f s1] show ?thesis by auto
qed

lemma group_line_grouped:
  assumes "grouped seen reports stack s" "headers_ok (ln # lns)"
  shows "wp (group_line (ln # lns) stack) (grouped (seen @ [ln]) reports) s"
proof -
  let ?s = "pop_stack (l_indents ln) stack"
  have g: "grouped seen reports ?s s" using assms(1) by (rule grouped_pop)
  then have "hd ?s < length (sc_nodes s)" by (simp add: grouped_def)
  from wp_mono [OF group_line_shape [OF assms(2) refl this]]
  show ?thesis using added_grouped [OF g] grouped_report [OF g] by blast
qed

lemma group_loop_grouped:
  assumes "grouped seen reports stack s" "headers_ok lns"
  shows "wp (group_loop lns stack) (\<lambda>_ s1. \<exists>stack1. grouped (seen @ lns) reports stack1 s1) s"
  using assms
proof (induction lns arbitrary: seen stack s)
  case (Cons ln lns)
  show ?case
    unfolding group_loop.simps wps
    by (rule wp_mono [OF group_line_grouped [OF Cons(2,3)]]) (use Cons.IH Cons.prems(2) in fastforce)
qed (auto simp: wps)

lemma groupScript_grouped:
  assumes "headers_ok lns" "sc_nodes s = []"
  shows "wp (groupScript lns) (\<lambda>root s1. root = 0 \<and> (\<exists>stack. grouped lns (errors s) stack s1)) s"
proof -
  let ?s = "s\<lparr>sc_nodes := [new_node None Node_ScriptRoot]\<rparr>"
  have "below (sc_nodes ?s) 0 = []"
    by (simp add: below.simps new_node_def)
  then have "grouped [] (errors s) [0] ?s"
    by (simp add: grouped_def forward_def open_path_def new_node_def)
  from wp_mono [OF group_loop_grouped [OF this assms(1)]]
  show ?thesis
    using assms(2) by (simp add: groupScript_def wps)
qed

text \<open>
  A definition is closed by a line that is not indented deeper than it, so no line that follows it in
  the block of its parent can be a wrapped line of its header. \<open>reach stack i\<close> is the number of open
  nodes above the \<open>i\<close>th.
\<close>

definition n_indents :: "stnode \<Rightarrow> nat" where
  "n_indents n = (case n_line n of None \<Rightarrow> 0 | Some ln \<Rightarrow> l_indents ln)"

definition is_header :: "stnode \<Rightarrow> bool" where
  "is_header n \<longleftrightarrow> n_type n \<in> {Node_Def, Node_Class}"

definition closes :: "stnode list \<Rightarrow> nat list \<Rightarrow> bool" where
  "closes h block \<longleftrightarrow>
     (\<forall>i. Suc i < length block \<longrightarrow> is_header (h ! (block ! i)) \<longrightarrow>
        n_indents (h ! (block ! Suc i)) \<le> n_indents (h ! (block ! i)))"

definition headers_closed :: "nat list \<Rightarrow> stnode list \<Rightarrow> bool" where
  "headers_closed stack h \<longleftrightarrow>
     (\<forall>a < length h. closes h (n_block (h ! a))) \<and>
     (\<forall>i. Suc i < length stack \<longrightarrow> length stack \<le> n_indents (h ! (stack ! i)) + i + 2) \<and>
     (n_block (h ! hd stack) \<noteq> [] \<longrightarrow> \<not> is_header (h ! last (n_block (h ! hd stack))))"

lemma headers_closed_pop:
  assumes "headers_closed stack h" "open_path h stack" "stack \<noteq> []" "n_block (h ! hd (pop_stack d stack)) \<noteq> []"
  shows "is_header (h ! last (n_block (h ! hd (pop_stack d stack)))) \<Longrightarrow>
    d \<le> n_indents (h ! last (n_block (h ! hd (pop_stack d stack))))"
proof (cases "length stack \<le> d + 1")
  case True
  then show "is_header (h ! last (n_block (h ! hd (pop_stack d stack)))) \<Longrightarrow> ?thesis"
    using assms(1,4) by (simp add: headers_closed_def pop_stack_def)
next
  case False
  then obtain k where k: "length stack = d + 1 + Suc k"
    by (metis add_Suc_right less_natE not_le_imp_less)
  then have "hd (pop_stack d stack) = stack ! Suc k"
    by (simp add: pop_stack_def hd_drop_conv_nth)
  then have "last (n_block (h ! hd (pop_stack d stack))) = stack ! k"
    using assms(2) k by (simp add: open_path_def)
  moreover have "length stack \<le> n_indents (h ! (stack ! k)) + k + 2"
  proof -
    have "Suc k < length stack" using k by simp
    with assms(1) show ?thesis unfolding headers_closed_def by blast
  qed
  ultimately show ?thesis using k by simp
qed

lemma headers_closed_push:
  assumes g: "grouped seen reports stack s" and hc: "headers_closed stack (sc_nodes s)"
    and a: "added ln (pop_stack (l_indents ln) stack) s stack1 s1"
  shows "headers_closed stack1 (sc_nodes s1)"
proof -
  let ?h = "sc_nodes s" and ?N = "length (sc_nodes s)" and ?s = "pop_stack (l_indents ln) stack"
  let ?t = "hd ?s"
  have tree: "forward ?h" "open_path ?h stack" "\<forall>a \<in> set ?s. a < ?N" "stack \<noteq> []" "?t < ?N"
    using g grouped_pop [OF g, of "l_indents ln"] by (simp_all add: grouped_def)
  obtain n f where s1: "sc_nodes s1 = push_child ?h ?t n f"
    and n: "n_block n = []" "n_line n = Some ln"
    and f: "\<And>m. n_block (f m) = n_block m @ [?N]" "\<And>m. n_line (f m) = n_line m" "\<And>m. n_type (f m) = n_type m"
    and st: "n_type n = Node_Unknown \<and> stack1 = ?s \<or> n_type n \<in> {Node_Def, Node_Class} \<and> stack1 = ?N # ?s"
    using a unfolding added_def by auto
  have old: "n_line (sc_nodes s1 ! x) = n_line (?h ! x)" "n_type (sc_nodes s1 ! x) = n_type (?h ! x)"
    "n_block (sc_nodes s1 ! x) = (if x = ?t then n_block (?h ! x) @ [?N] else n_block (?h ! x))"
    if "x < ?N" for x
    using that tree(5) by (auto simp: s1 push_child_def nth_append nth_list_update f)
  then have keep: "n_indents (sc_nodes s1 ! x) = n_indents (?h ! x)" "is_header (sc_nodes s1 ! x) \<longleftrightarrow> is_header (?h ! x)"
    if "x < ?N" for x
    using that by (simp_all add: n_indents_def is_header_def)
  have new: "sc_nodes s1 ! ?N = n" using tree(5) by (simp add: s1 push_child_def nth_append)
  have len: "length (sc_nodes s1) = Suc ?N" by (simp add: s1 push_child_def)
  have members: "x < ?N" if "a < ?N" "x \<in> set (n_block (?h ! a))" for a x
    using forwardD [OF tree(1) that] by simp
  have "closes (sc_nodes s1) (n_block (sc_nodes s1 ! a))" if "a < Suc ?N" for a
  proof (cases "a = ?N")
    case False
    with that have aN: "a < ?N" by simp
    have c: "closes ?h (n_block (?h ! a))" using hc aN by (simp add: headers_closed_def)
    let ?b = "n_block (?h ! a)"
    have nth: "?b ! i < ?N" if "i < length ?b" for i
      using members [OF aN] nth_mem [OF that] by blast
    have "closes (sc_nodes s1) ?b"
      using c nth by (simp add: closes_def keep)
    moreover have "closes (sc_nodes s1) (?b @ [?N])" if "a = ?t"
      unfolding closes_def
    proof (intro allI impI)
      fix i assume i: "Suc i < length (?b @ [?N])" and h: "is_header (sc_nodes s1 ! ((?b @ [?N]) ! i))"
      show "n_indents (sc_nodes s1 ! ((?b @ [?N]) ! Suc i)) \<le> n_indents (sc_nodes s1 ! ((?b @ [?N]) ! i))"
      proof (cases "Suc i < length ?b")
        case True
        then show ?thesis using calculation h by (simp add: closes_def nth_append)
      next
        case False
        with i have last: "i = length ?b - 1" "?b \<noteq> []" "i < length ?b" by auto
        then have "(?b @ [?N]) ! i = last ?b" by (simp add: nth_append last_conv_nth)
        moreover have "last ?b < ?N" using members [OF aN] last(2) by simp
        moreover have "l_indents ln \<le> n_indents (?h ! last ?b)"
          using headers_closed_pop [OF hc tree(2,4), of "l_indents ln"] last(2) h calculation keep \<open>a = ?t\<close> by simp
        moreover have "(?b @ [?N]) ! Suc i = ?N" using last by (simp add: nth_append)
        ultimately show ?thesis using keep n(2) by (simp add: new n_indents_def)
      qed
    qed
    ultimately show ?thesis using old(3) [OF aN] by simp
  qed (simp add: new n closes_def)
  moreover have top: "\<not> is_header (sc_nodes s1 ! last (n_block (sc_nodes s1 ! hd stack1)))"
    if "n_block (sc_nodes s1 ! hd stack1) \<noteq> []"
    using st that old(3) [OF tree(5)] by (auto simp: new n is_header_def)
  moreover have "length stack1 \<le> n_indents (sc_nodes s1 ! (stack1 ! i)) + i + 2" if i: "Suc i < length stack1" for i
  proof -
    have levels: "length ?s \<le> n_indents (?h ! (?s ! i)) + i + 2" if "Suc i < length ?s" for i
    proof -
      let ?k = "length stack - (l_indents ln + 1)"
      have "length stack \<le> n_indents (?h ! (stack ! (?k + i))) + (?k + i) + 2"
        using hc that unfolding headers_closed_def pop_stack_def by simp
      then show ?thesis using that by (simp add: pop_stack_def)
    qed
    have old_level: "length ?s \<le> n_indents (sc_nodes s1 ! (?s ! i)) + i + 2" if "Suc i < length ?s" for i
      using levels [OF that] keep [of "?s ! i"] tree(3) that by simp
    have "length ?s \<le> l_indents ln + 1" using tree(4) by (simp add: pop_stack_def)
    show ?thesis
    proof (cases "stack1 = ?s")
      case False
      then have c: "stack1 = ?N # ?s" using st by blast
      show ?thesis
      proof (cases i)
        case 0
        then show ?thesis
          using \<open>length ?s \<le> l_indents ln + 1\<close> by (simp add: c new n n_indents_def)
      next
        case (Suc j)
        then show ?thesis using old_level [of j] i by (simp add: c)
      qed
    qed (use i old_level in simp)
  qed
  ultimately show ?thesis by (simp add: headers_closed_def len)
qed

lemma group_loop_headers:
  assumes "grouped seen reports stack s" "errors s = reports \<longrightarrow> headers_closed stack (sc_nodes s)" "headers_ok lns"
  shows "wp (group_loop lns stack) (\<lambda>_ s1. errors s1 = reports \<longrightarrow> (\<exists>stack1. headers_closed stack1 (sc_nodes s1))) s"
  using assms
proof (induction lns arbitrary: seen stack s)
  case (Cons ln lns)
  let ?s = "pop_stack (l_indents ln) stack"
  note g = grouped_pop [OF Cons.prems(1), of "l_indents ln"]
  then have hd: "hd ?s < length (sc_nodes s)" by (simp add: grouped_def)
  have p: "prefix reports (errors s)" using g by (simp add: grouped_def)
  show ?case
    unfolding group_loop.simps wp_lbind
  proof (rule wp_mono [OF group_line_shape [OF Cons.prems(3) refl hd]])
    fix stack1 s1 assume "stack1 = ?s \<and> (\<exists>e. s1 = reported s e) \<or> added ln ?s s stack1 s1"
    then show "wp (group_loop lns stack1) (\<lambda>_ s1. errors s1 = reports \<longrightarrow> (\<exists>stack1. headers_closed stack1 (sc_nodes s1))) s1"
    proof
      assume "stack1 = ?s \<and> (\<exists>e. s1 = reported s e)"
      then obtain e where "stack1 = ?s" "s1 = reported s e" by blast
      moreover have "errors s @ [e] \<noteq> reports" using p prefix_length_le by fastforce
      ultimately show ?thesis
        using Cons.IH [OF grouped_report [OF g]] Cons.prems(3) by simp
    next
      assume a: "added ln ?s s stack1 s1"
      then have "errors s1 = errors s" by (auto simp: added_def)
      then show ?thesis
        using Cons.IH [OF added_grouped [OF g a]] headers_closed_push [OF Cons.prems(1) _ a] Cons.prems(2,3) by simp
    qed
  qed
qed (auto simp: wps)

lemma groupScript_headers:
  assumes "headers_ok lns" "sc_nodes s = []"
  shows "wp (groupScript lns)
    (\<lambda>root s1. errors s1 = errors s \<longrightarrow> (\<forall>a < length (sc_nodes s1). closes (sc_nodes s1) (n_block (sc_nodes s1 ! a)))) s"
proof -
  let ?s = "s\<lparr>sc_nodes := [new_node None Node_ScriptRoot]\<rparr>"
  have "below (sc_nodes ?s) 0 = []"
    by (simp add: below.simps new_node_def)
  then have "grouped [] (errors s) [0] ?s"
    by (simp add: grouped_def forward_def open_path_def new_node_def)
  moreover have "headers_closed [0] (sc_nodes ?s)"
    by (simp add: headers_closed_def closes_def new_node_def)
  ultimately show ?thesis
    using wp_mono [OF group_loop_headers [OF _ _ assms(1)]] assms(2)
    by (simp add: groupScript_def wps headers_closed_def)
qed

end
