(* ===== verification/Block_Order.thy ===== *)
theory Block_Order
  imports Block_Facts
begin

text \<open>
  The statements of one block: every turn of the loop takes at least one line, the statements that are
  left are allowed where they stand, and their order is that of the language.
\<close>

subsection \<open>Reports only\<close>

definition only_reports :: "script \<Rightarrow> script \<Rightarrow> bool" where
  "only_reports s s1 \<longleftrightarrow>
     sc_nodes s1 = sc_nodes s \<and> prefix (errors s) (errors s1) \<and>
     p_table (sc_context s1) = p_table (sc_context s)"

lemma only_reports_refl [simp]: "only_reports s s"
  by (simp add: only_reports_def)

lemma only_reports_reported: "only_reports s (reported s e)"
  by (simp add: only_reports_def)

lemma only_reports_trans: "only_reports s s1 \<Longrightarrow> only_reports s1 s2 \<Longrightarrow> only_reports s s2"
  by (auto simp: only_reports_def)

lemma only_reports_changed: "only_reports (reported s e) s1 \<Longrightarrow> only_reports s s1 \<and> errors s1 \<noteq> errors s"
  using prefix_length_le by (fastforce simp: only_reports_def dest: append_prefixD)

definition has_line :: "script \<Rightarrow> nat \<Rightarrow> bool" where
  "has_line s a \<longleftrightarrow> a < length (sc_nodes s) \<and> n_line (sc_nodes s ! a) \<noteq> None"

lemma wp_report_line: "has_line s a \<Longrightarrow> (\<And>e. Q () (reported s e)) \<Longrightarrow> wp (report_line level a message) Q s"
  by (auto simp: report_line_def wps has_line_def errorAtWholeLine_def intro!: wp_receive)

lemma has_line_reports: "only_reports s s1 \<Longrightarrow> has_line s1 a \<longleftrightarrow> has_line s a"
  by (simp add: has_line_def only_reports_def)

subsection \<open>The order of statements\<close>

definition catches_ok :: "node_type list \<Rightarrow> bool" where
  "catches_ok ts \<longleftrightarrow> (\<exists>cs fs. ts = cs @ fs \<and> list_all ((=) Node_Catch) cs \<and> (fs = [] \<or> fs = [Node_Finally]))"

text \<open>
  Ordinary statements, of which only the last one may leave the block, then \<open>catch\<close> blocks, then at
  most one \<open>finally\<close>.
\<close>

definition order_ok :: "node_type list \<Rightarrow> bool" where
  "order_ok ts \<longleftrightarrow>
     (\<exists>ns cs. ts = ns @ cs \<and> list_all (\<lambda>t. \<not> is_catch t) ns \<and> list_all (\<lambda>t. \<not> leaves t) (butlast ns) \<and> catches_ok cs)"

lemma catches_ok_simps [simp]:
  "catches_ok []" "catches_ok (Node_Catch # ts) \<longleftrightarrow> catches_ok ts" "catches_ok [Node_Finally]"
proof -
  show "catches_ok (Node_Catch # ts) \<longleftrightarrow> catches_ok ts"
  proof
    assume "catches_ok (Node_Catch # ts)"
    then obtain cs fs where c: "Node_Catch # ts = cs @ fs" "list_all ((=) Node_Catch) cs" "fs = [] \<or> fs = [Node_Finally]"
      unfolding catches_ok_def by blast
    then have "ts = tl cs @ fs" "list_all ((=) Node_Catch) (tl cs)" by (cases cs; auto)+
    with c(3) show "catches_ok ts" unfolding catches_ok_def by blast
  next
    assume "catches_ok ts"
    then obtain cs fs where "ts = cs @ fs" "list_all ((=) Node_Catch) cs" "fs = [] \<or> fs = [Node_Finally]"
      unfolding catches_ok_def by blast
    then show "catches_ok (Node_Catch # ts)"
      unfolding catches_ok_def by (intro exI [of _ "Node_Catch # cs"] exI [of _ fs]) simp
  qed
qed (auto simp: catches_ok_def intro: exI [of _ "[]"])

lemma catches_order: "catches_ok ts \<Longrightarrow> order_ok ts"
  unfolding order_ok_def by (intro exI [of _ "[]"] exI [of _ ts]) simp

lemma order_ok_Nil [simp]: "order_ok []"
  by (simp add: catches_order)

lemma order_ok_Cons:
  "\<not> is_catch t \<Longrightarrow> (leaves t \<Longrightarrow> catches_ok ts) \<Longrightarrow> order_ok ts \<Longrightarrow> order_ok (t # ts)"
proof -
  assume t: "\<not> is_catch t" and l: "leaves t \<Longrightarrow> catches_ok ts" and o: "order_ok ts"
  show "order_ok (t # ts)"
  proof (cases "leaves t")
    case True
    with t l show ?thesis
      unfolding order_ok_def by (intro exI [of _ "[t]"] exI [of _ ts]) simp
  next
    case False
    from o obtain ns cs where "ts = ns @ cs" "list_all (\<lambda>t. \<not> is_catch t) ns" "list_all (\<lambda>t. \<not> leaves t) (butlast ns)" "catches_ok cs"
      unfolding order_ok_def by blast
    with t False show ?thesis
      unfolding order_ok_def by (intro exI [of _ "t # ns"] exI [of _ cs]) simp
  qed
qed

lemma order_loop_ok:
  assumes "\<forall>(a, t) \<in> set xs. has_line s a"
  shows "wp (order_loop cf ff left xs)
    (\<lambda>out s1. only_reports s s1 \<and> subseq out xs \<and> (ff \<longrightarrow> out = []) \<and>
       (cf \<or> left \<longrightarrow> catches_ok (List.map snd out)) \<and> order_ok (List.map snd out) \<and>
       (errors s1 = errors s \<longrightarrow> out = xs)) s"
  using assms
proof (induction cf ff left xs arbitrary: s rule: order_loop.induct)
  case (2 cf ff left a type rest)
  have a: "has_line s a" and rest: "\<forall>(a, t) \<in> set rest. has_line s a"
    using 2(5) by auto
  have drop: "\<forall>(a, t) \<in> set (dropWhile (\<lambda>(_, t). \<not> is_catch t) rest). has_line (reported s e) a" for e
    using rest has_line_reports [OF only_reports_reported] by (auto dest: set_dropWhileD)
  consider (ended) ff | (catch) "\<not> ff" "type = Node_Catch" | (finally') "\<not> ff" "type = Node_Finally"
    | (left) "\<not> ff" "\<not> is_catch type" left | (bad) "\<not> ff" "\<not> is_catch type" "\<not> left" cf
    | (plain) "\<not> ff" "\<not> is_catch type" "\<not> left" "\<not> cf"
    unfolding is_catch_def by blast
  then show ?case
  proof cases
    case ended
    then show ?thesis
      using a by (auto simp: wps intro!: wp_report_line only_reports_reported)
  next
    case catch
    show ?thesis
      using catch wp_mono [OF 2(1) [OF catch rest]] by (simp add: wps catches_order)
  next
    case finally'
    show ?thesis
      using finally' wp_mono [OF 2(2) [OF finally'(1) _ finally'(2) rest]] by (simp add: wps catches_order)
  next
    case left
    then have t: "type \<noteq> Node_Catch" "type \<noteq> Node_Finally" by (simp_all add: is_catch_def)
    let ?rest = "dropWhile (\<lambda>(_, t). \<not> is_catch t) rest"
    have sub: "subseq out ((a, type) # rest)" if "subseq out ?rest" for out
      using that subseq_order.trans [of out _ rest] suffix_imp_subseq [OF suffix_dropWhile] by blast
    have "wp (order_loop cf False left ?rest)
      (\<lambda>out s1. only_reports s s1 \<and> subseq out ((a, type) # rest) \<and> (ff \<longrightarrow> out = []) \<and>
         (cf \<or> left \<longrightarrow> catches_ok (List.map snd out)) \<and> order_ok (List.map snd out) \<and>
         (errors s1 = errors s \<longrightarrow> out = (a, type) # rest)) (reported s e)" for e
      by (rule wp_mono [OF 2(3) [OF left(1) t left(3) drop]])
        (use left sub only_reports_changed in fastforce)
    then show ?thesis
      using left t a by (auto simp: wps intro!: wp_report_line)
  next
    case bad
    then show ?thesis
      using a by (auto simp: wps is_catch_def intro!: wp_report_line only_reports_reported)
  next
    case plain
    then have t: "type \<noteq> Node_Catch" "type \<noteq> Node_Finally" by (simp_all add: is_catch_def)
    show ?thesis
      using plain t wp_mono [OF 2(4) [OF plain(1) t plain(3,4) rest]] by (simp add: wps order_ok_Cons)
  qed
qed (simp add: wps)

definition cases_ok :: "node_type list \<Rightarrow> bool" where
  "cases_ok ts \<longleftrightarrow> (\<forall>i j. i < j \<longrightarrow> j < length ts \<longrightarrow> ts ! i = Node_Default \<longrightarrow> ts ! j \<noteq> Node_Case)"

lemma cases_ok_Cons: "cases_ok (t # ts) \<longleftrightarrow> cases_ok ts \<and> (t = Node_Default \<longrightarrow> Node_Case \<notin> set ts)"
proof -
  have "cases_ok (t # ts)" if c: "cases_ok ts" "t = Node_Default \<longrightarrow> Node_Case \<notin> set ts"
    unfolding cases_ok_def
  proof (intro allI impI)
    fix i j assume "i < j" "j < length (t # ts)" "(t # ts) ! i = Node_Default"
    with c show "(t # ts) ! j \<noteq> Node_Case"
      by (cases i; cases j) (auto simp: cases_ok_def in_set_conv_nth)
  qed
  moreover have "cases_ok ts \<and> (t = Node_Default \<longrightarrow> Node_Case \<notin> set ts)" if c: "cases_ok (t # ts)"
  proof -
    have "ts ! j \<noteq> Node_Case" if "i < j" "j < length ts" "ts ! i = Node_Default" for i j
      using c that unfolding cases_ok_def by (metis Suc_less_eq length_Cons nth_Cons_Suc)
    moreover have "ts ! j \<noteq> Node_Case" if "t = Node_Default" "j < length ts" for j
      using c that unfolding cases_ok_def by (metis Suc_less_eq length_Cons nth_Cons_0 nth_Cons_Suc zero_less_Suc)
    ultimately show ?thesis unfolding cases_ok_def in_set_conv_nth by blast
  qed
  ultimately show ?thesis by blast
qed

lemma case_loop_ok:
  assumes "\<forall>(a, t) \<in> set xs. has_line s a"
  shows "wp (case_loop df xs)
    (\<lambda>out s1. only_reports s s1 \<and> subseq out xs \<and> (df \<longrightarrow> Node_Case \<notin> set (List.map snd out)) \<and>
       cases_ok (List.map snd out) \<and> (errors s1 = errors s \<longrightarrow> out = xs) \<and>
       (\<exists>n. out = take n xs)) s"
  using assms
proof (induction df xs rule: case_loop.induct)
  case (2 df a type rest)
  then have rest: "\<forall>(a, t) \<in> set rest. has_line s a" and a: "has_line s a" by auto
  show ?case
  proof (cases "type = Node_Case \<and> df")
    case True
    then show ?thesis
      using a by (auto simp: wps cases_ok_def intro!: wp_report_line only_reports_reported exI [of _ 0])
  next
    case False
    have t: "\<exists>n. (a, type) # out = take n ((a, type) # rest)" if "\<exists>n. out = take n rest" for out
      using that by (metis take_Suc_Cons)
    have "wp (case_loop (df \<or> type = Node_Default) rest)
        (\<lambda>out s1. only_reports s s1 \<and> subseq ((a, type) # out) ((a, type) # rest) \<and>
           (df \<longrightarrow> Node_Case \<notin> set (List.map snd ((a, type) # out))) \<and>
           cases_ok (List.map snd ((a, type) # out)) \<and> (errors s1 = errors s \<longrightarrow> (a, type) # out = (a, type) # rest) \<and>
           (\<exists>n. (a, type) # out = take n ((a, type) # rest))) s"
      by (rule wp_mono [OF 2(1) [OF False rest]]) (use False t in \<open>auto simp: cases_ok_Cons\<close>)
    then show ?thesis using False by (auto simp: wps)
  qed
qed (auto simp: wps cases_ok_def)

lemma wp_types_of:
  "(\<forall>a \<in> set as. a < length (sc_nodes s)) \<Longrightarrow> Q (List.map (\<lambda>a. n_type (sc_nodes s ! a)) as) s \<Longrightarrow>
     wp (types_of as) Q s"
  by (induction as arbitrary: Q) (simp_all add: wps type_of_def)

lemma wp_check_empty:
  assumes "a < length (sc_nodes s)" "\<forall>b \<in> set out. b < length (sc_nodes s)"
    and "n_type (sc_nodes s ! a) \<in> set runnableContainerNodeTypes \<longrightarrow> has_line s a"
    and "\<And>s1. only_reports s s1 \<Longrightarrow> Q () s1"
  shows "wp (check_empty a out) Q s"
  using assms
  by (auto simp: check_empty_def type_of_def wps only_reports_reported intro!: wp_types_of wp_report_line)

lemma wp_lines_of:
  "(\<forall>a \<in> set as. has_line s a) \<Longrightarrow> Q (List.map (\<lambda>a. the (n_line (sc_nodes s ! a))) as) s \<Longrightarrow> wp (lines_of as) Q s"
  by (induction as arbitrary: Q) (auto simp: wps has_line_def)

subsection \<open>One turn of the loop\<close>

definition base_type :: "node_type \<Rightarrow> node_type" where
  "base_type type = (if type = Node_DefOperator then Node_Def else if type = Node_ElseIf then Node_Else else type)"

text \<open>Where a statement may stand: the table of the line types, or that of expressions.\<close>

definition allowed_in :: "node_type \<Rightarrow> node_type \<Rightarrow> bool" where
  "allowed_in parent type \<longleftrightarrow>
     type = Node_Expression \<and> parent \<in> set expressionParentType \<or>
     (\<exists>attr \<in> snd ` set lineTypes. la_type attr = base_type type \<and> parent \<in> set (parentType attr))"

lemma statement_type_base:
  assumes "attr \<in> snd ` set lineTypes"
  shows "base_type (statement_type attr t1) = la_type attr"
  using assms
  by (auto simp: statement_type_def base_type_def lineTypes_def line_attr_def Let_def split: option.split)

definition keyword_table :: "script \<Rightarrow> bool" where
  "keyword_table s \<longleftrightarrow> (\<forall>(sid, attr) \<in> set lineTypes. \<exists>x. table_ref (p_table (sc_context s)) sid = Inr x)"

definition block_lines :: "script \<Rightarrow> nat list \<Rightarrow> line list" where
  "block_lines s block = List.map (\<lambda>a. the (n_line (sc_nodes s ! a))) block"

text \<open>The nodes of a block that is not structured yet.\<close>

definition raw_node :: "script \<Rightarrow> nat \<Rightarrow> bool" where
  "raw_node s a \<longleftrightarrow> a < length (sc_nodes s) \<and> n_tokens (sc_nodes s ! a) = [] \<and>
     (\<exists>ln. n_line (sc_nodes s ! a) = Some ln \<and> l_tokens ln \<noteq> [])"

definition stepped :: "node_type \<Rightarrow> nat list \<Rightarrow> script \<Rightarrow> structured \<Rightarrow> script \<Rightarrow> bool" where
  "stepped parent block s r s1 \<longleftrightarrow>
     p_table (sc_context s1) = p_table (sc_context s) \<and> prefix (errors s) (errors s1) \<and>
     (\<exists>n. sc_nodes s1 = (sc_nodes s)[hd block := n] \<and> n_line n = n_line (sc_nodes s ! hd block) \<and>
        n_state n = n_state (sc_nodes s ! hd block) \<and>
        (case r of
           Mismatch \<Rightarrow> errors s1 \<noteq> errors s
         | Skip k \<Rightarrow> errors s1 \<noteq> errors s \<and> 0 < k
         | Emit k \<Rightarrow> errors s1 = errors s \<and> k \<le> length block \<and> allowed_in parent (n_type n) \<and>
             (\<exists>w. 0 < w \<and> w \<le> k \<and> n_tokens n = concat (List.map line_tokens (take w (block_lines s block))) \<and>
                n_block n = n_block (sc_nodes s ! hd block) @ take (k - w) (drop w block))))"

lemma wrapped_lines_bounds: "lns \<noteq> [] \<Longrightarrow> 0 < wrapped_lines b lns \<and> wrapped_lines b lns \<le> length lns"
  using takeWhile_length_le [of _ "tl lns"] by (cases lns) (auto simp: wrapped_lines_def less_Suc_eq_le)

lemma look_ahead_ok:
  assumes "lns \<noteq> []" "list_all (\<lambda>l. l_tokens l \<noteq> []) lns" "look_ahead lns = (p0, p1, p2, it)"
  shows "p0 = Some (0, 0)" "fst it \<noteq> 0 \<or> snd it \<noteq> 0"
    "p1 = Some q \<Longrightarrow> position_ok lns q \<and> fst q < length lns" "p2 = Some q \<Longrightarrow> position_ok lns q \<and> fst q < length lns"
    "p2 \<noteq> None \<Longrightarrow> p1 \<noteq> None"
proof -
  obtain it0 where n0: "nextToken lns (0, 0) = (p0, it0)" 
    using assms(3) by (auto simp: look_ahead_def split: prod.splits)
  obtain it1 where n1: "nextToken lns it0 = (p1, it1)" and n2: "nextToken lns it1 = (p2, it)"
    using assms(3) n0 by (auto simp: look_ahead_def split: prod.splits)
  have start: "position_ok lns (0, 0)" using assms(1,2) by (cases lns) (auto simp: position_ok_def)
  note k0 = nextToken_ok [OF start assms(2) n0]
  note k1 = nextToken_ok [OF k0(1) assms(2) n1]
  note k2 = nextToken_ok [OF k1(1) assms(2) n2]
  show "p0 = Some (0, 0)" using k0(2,3) assms(1) by (cases p0) auto
  show "p1 = Some q \<Longrightarrow> position_ok lns q \<and> fst q < length lns" using k1(3) k0(1) by blast
  show "p2 = Some q \<Longrightarrow> position_ok lns q \<and> fst q < length lns" using k2(3) k1(1) by blast
  have moves: "fst it' \<noteq> 0 \<or> snd it' \<noteq> 0" if "nextToken lns it = (p, it')" "it = (0, 0) \<or> fst it \<noteq> 0 \<or> snd it \<noteq> 0" for it p it'
    using that assms(1) by (cases it) (auto simp: nextToken_def split: if_splits)
  show "fst it \<noteq> 0 \<or> snd it \<noteq> 0"
    using moves [OF n2] moves [OF n1] moves [OF n0] by simp
  show "p2 \<noteq> None \<Longrightarrow> p1 \<noteq> None"
    using k1(2) k2(2) n1 n2 assms(1) by (auto simp: nextToken_def split: if_splits prod.splits)
qed

lemma wp_deref:
  assumes "\<And>q. p = Some q \<Longrightarrow> position_ok lns q \<and> fst q < length lns"
    and "\<And>t. (t = None \<longleftrightarrow> p = None) \<Longrightarrow> (\<forall>u. t = Some u \<longrightarrow> tk_line u \<noteq> None) \<Longrightarrow> Q t s"
  shows "wp (deref lns p) Q s"
  using assms by (cases p) (auto simp: deref_def wps intro!: wp_token_ok)

lemma stepped_report:
  assumes "block \<noteq> []" "n_line n = n_line (sc_nodes s ! hd block)" "n_state n = n_state (sc_nodes s ! hd block)"
    and "s1 = s\<lparr>sc_nodes := (sc_nodes s)[hd block := n]\<rparr>" "r = Mismatch \<or> (\<exists>k. r = Skip k \<and> 0 < k)"
  shows "stepped parent block s r (reported s1 e)"
  using assms unfolding stepped_def by auto

lemma wp_combine:
  "wp (combineWrappedLines a lns b) Q s \<longleftrightarrow>
     Q (wrapped_lines b lns) (s\<lparr>sc_nodes := (sc_nodes s)[a := (sc_nodes s ! a)\<lparr>n_tokens :=
       n_tokens (sc_nodes s ! a) @ concat (List.map line_tokens (take (wrapped_lines b lns) lns))\<rparr>]\<rparr>)"
  by (simp add: combineWrappedLines_def Let_def wps)

lemma expression_statement_ok:
  assumes "block \<noteq> []" "\<forall>a \<in> set block. raw_node s a" "lns = block_lines s block"
  shows "wp (expression_statement parent block lns) (stepped parent block s) s"
proof -
  let ?a = "hd block" and ?w = "wrapped_lines False lns"
  have a: "?a < length (sc_nodes s)" "n_tokens (sc_nodes s ! ?a) = []"
    using assms(1,2) by (auto simp: raw_node_def)
  have w: "0 < ?w" "?w \<le> length block"
    using wrapped_lines_bounds [of lns False] assms(1,3) by (auto simp: block_lines_def)
  let ?n = "(sc_nodes s ! ?a)\<lparr>n_tokens := concat (List.map line_tokens (take ?w lns))\<rparr>"
  have report: "stepped parent block s (Skip ?w) (reported (s\<lparr>sc_nodes := (sc_nodes s)[?a := ?n]\<rparr>) e)" for e
    using w by (intro stepped_report [OF assms(1), of ?n]) simp_all
  have emit: "stepped parent block s (Emit ?w) (s\<lparr>sc_nodes := (sc_nodes s)[?a := ?n\<lparr>n_type := Node_Expression\<rparr>]\<rparr>)"
    if "parent \<in> set expressionParentType"
    unfolding stepped_def using that w assms(3)
    by (auto simp: allowed_in_def intro!: exI [of _ "?n\<lparr>n_type := Node_Expression\<rparr>"])
  show ?thesis
    using a report emit
    by (auto simp: expression_statement_def Let_def wps wp_combine errorAtWholeLine_def intro!: wp_receive)
qed

lemma keyword_statement_ok:
  assumes "block \<noteq> []" "\<forall>a \<in> set block. raw_node s a" "lns = block_lines s block"
    and attr: "(t_sid (tk key), attr) \<in> set lineTypes" and "keyword_table s" "tk_line key \<noteq> None"
  shows "wp (keyword_statement parent (e :: nat) block lns attr key t1 label_name) (stepped parent block s) s"
proof -
  let ?a = "hd block" and ?w = "wrapped_lines (hasBlock attr) lns"
  obtain p0 p1 p2 it2 where la: "look_ahead lns = (p0, p1, p2, it2)" by (cases "look_ahead lns") 
  have lns: "lns \<noteq> []" "list_all (\<lambda>l. l_tokens l \<noteq> []) lns"
    using assms(1,2,3) by (auto simp: block_lines_def list_all_iff raw_node_def)
  have it2: "fst it2 \<noteq> 0 \<or> snd it2 \<noteq> 0" using look_ahead_ok(2) [OF lns la] .
  have a: "?a < length (sc_nodes s)" "n_tokens (sc_nodes s ! ?a) = []"
    using assms(1,2) by (auto simp: raw_node_def)
  have w: "0 < ?w" "?w \<le> length block"
    using wrapped_lines_bounds [of lns "hasBlock attr"] lns(1) assms(3) by (auto simp: block_lines_def)
  obtain name where name: "table_ref (p_table (sc_context s)) (t_sid (tk key)) = Inr name"
    using attr assms(5) unfolding keyword_table_def by blast
  let ?n = "(sc_nodes s ! ?a)\<lparr>n_tokens := concat (List.map line_tokens (take ?w lns))\<rparr>"
  have report: "stepped parent block s (Skip k) (reported (s\<lparr>sc_nodes := (sc_nodes s)[?a := ?n\<lparr>n_sid := sid\<rparr>]\<rparr>) e)"
    if "0 < k" for k sid e
    using that by (intro stepped_report [OF assms(1), of "?n\<lparr>n_sid := sid\<rparr>"]) simp_all
  have report0: "stepped parent block s (Skip k) (reported (s\<lparr>sc_nodes := (sc_nodes s)[?a := ?n]\<rparr>) e)" if "0 < k" for k e
    using that by (intro stepped_report [OF assms(1), of ?n]) simp_all
  define inner where "inner = (if hasBlock attr then length (takeWhile (\<lambda>ln. e < l_indents ln) (drop ?w lns)) else 0)"
  have inner: "?w + inner \<le> length block"
  proof -
    have len: "length lns = length block" using assms(3) by (simp add: block_lines_def)
    show ?thesis
      using length_takeWhile_drop [of ?w lns "\<lambda>ln. e < l_indents ln"] w
      by (cases "hasBlock attr") (simp_all add: inner_def len)
  qed
  have emit: "stepped parent block s (Emit (?w + inner))
      (s\<lparr>sc_nodes := (sc_nodes s)[?a := ?n\<lparr>n_type := statement_type attr t1,
         n_block := n_block (sc_nodes s ! ?a) @ take inner (drop ?w block)\<rparr>]\<rparr>)"
    "stepped parent block s (Emit (?w + inner))
      (s\<lparr>sc_nodes := (sc_nodes s)[?a := ?n\<lparr>n_sid := sid, n_type := statement_type attr t1,
         n_block := n_block (sc_nodes s ! ?a) @ take inner (drop ?w block)\<rparr>]\<rparr>)"
    if "parent \<in> set (parentType attr)" for sid
  proof -
    have at: "attr \<in> snd ` set lineTypes" using attr by force
    then have al: "allowed_in parent (statement_type attr t1)"
      unfolding allowed_in_def using that statement_type_base [OF at] by auto
    show "stepped parent block s (Emit (?w + inner))
      (s\<lparr>sc_nodes := (sc_nodes s)[?a := ?n\<lparr>n_type := statement_type attr t1,
         n_block := n_block (sc_nodes s ! ?a) @ take inner (drop ?w block)\<rparr>]\<rparr>)"
      unfolding stepped_def using al w inner assms(3)
      by (auto intro!: exI [of _ "?n\<lparr>n_type := statement_type attr t1,
         n_block := n_block (sc_nodes s ! ?a) @ take inner (drop ?w block)\<rparr>"] exI [of _ ?w])
    show "stepped parent block s (Emit (?w + inner))
      (s\<lparr>sc_nodes := (sc_nodes s)[?a := ?n\<lparr>n_sid := sid, n_type := statement_type attr t1,
         n_block := n_block (sc_nodes s ! ?a) @ take inner (drop ?w block)\<rparr>]\<rparr>)"
      unfolding stepped_def using al w inner assms(3)
      by (auto intro!: exI [of _ "?n\<lparr>n_sid := sid, n_type := statement_type attr t1,
         n_block := n_block (sc_nodes s ! ?a) @ take inner (drop ?w block)\<rparr>"] exI [of _ ?w])
  qed
  let ?s1 = "s\<lparr>sc_nodes := (sc_nodes s)[?a := ?n]\<rparr>"
  have wrapped: "wp (combineWrappedLines ?a lns (hasBlock attr)) Q s \<longleftrightarrow> Q ?w ?s1" for Q
    using a by (simp add: wp_combine)
  have node: "sc_nodes ?s1 ! ?a = ?n" using a by simp
  have label: "wp (case label_name of None \<Rightarrow> lret () | Some t \<Rightarrow> update_node ?a (\<lambda>n. n\<lparr>n_sid := t_sid (tk t)\<rparr>)) Q ?s1"
    if "Q () ?s1" "\<And>sid. Q () (s\<lparr>sc_nodes := (sc_nodes s)[?a := ?n\<lparr>n_sid := sid\<rparr>]\<rparr>)" for Q
    using that a by (simp add: wps split: option.split)
  have skip: "0 < (if fst it2 = length lns \<or> snd it2 = 0 then fst it2 else fst it2 + 1)"
    using it2 lns(1) by auto
  show ?thesis
    unfolding keyword_statement_def Let_def la prod.case wp_lbind wrapped
  proof (intro wp_ifI; unfold wp_lbind)
    show "wp (lift_parse (errorAtToken Error key
          ''this line seems to be part of wrapping line, but indents may be incorrect'' []))
        (\<lambda>x. wp (lret (Skip (if fst it2 = length lns \<or> snd it2 = 0 then fst it2 else fst it2 + 1)))
          (stepped parent block s)) ?s1"
      unfolding wp_lret by (rule wp_report(1) [OF assms(6)], rule report0 [OF skip])
    show "wp (lift_parse (errorAtToken Error key loop_label_message []))
        (\<lambda>x. wp (lret (Skip ?w)) (stepped parent block s)) ?s1"
      unfolding wp_lret by (rule wp_report(1) [OF assms(6)], rule report0 [OF w(1)])
    have errors: "wp (lift_parse (refText (t_sid (tk key))))
          (\<lambda>x. wp (lift_parse (errorAtToken Error key (not_allowed x) []))
             (\<lambda>x. wp (lret (Skip ?w)) (stepped parent block s))) s2"
      if "s2 = ?s1 \<or> (\<exists>sid. s2 = s\<lparr>sc_nodes := (sc_nodes s)[?a := ?n\<lparr>n_sid := sid\<rparr>]\<rparr>)" for s2
      using that name report [OF w(1)] report0 [OF w(1)] wp_report(1) [OF assms(6)]
      by (auto simp: wp_refText wp_lret)
    have errors1: "wp (lift_parse (refText (t_sid (tk key))))
          (\<lambda>x. wp (lift_parse (errorAtToken Error key (not_allowed x) []))
             (\<lambda>x. wp (lret (Skip ?w)) (stepped parent block s))) ?s1"
      by (rule errors) simp
    have errors2: "wp (lift_parse (refText (t_sid (tk key))))
          (\<lambda>x. wp (lift_parse (errorAtToken Error key (not_allowed x) []))
             (\<lambda>x. wp (lret (Skip ?w)) (stepped parent block s)))
          (s\<lparr>sc_nodes := (sc_nodes s)[?a := ?n\<lparr>n_sid := sid\<rparr>]\<rparr>)" for sid
      by (rule errors) blast
    show "wp (case label_name of None \<Rightarrow> lret () | Some t \<Rightarrow> update_node ?a (\<lambda>n. n\<lparr>n_sid := t_sid (tk t)\<rparr>))
       (\<lambda>x. wp (if parent \<notin> set (parentType attr)
                 then lbind (lift_parse (refText (t_sid (tk key)))) (\<lambda>x. lbind (lift_parse (errorAtToken Error key (not_allowed x) [])) (\<lambda>x. lret (Skip ?w)))
                 else lbind (update_node ?a (\<lambda>n. n\<lparr>n_type := statement_type attr t1,
                       n_block := n_block n @ take (if hasBlock attr then length (takeWhile (\<lambda>ln. e < l_indents ln) (drop ?w lns)) else 0) (drop ?w block)\<rparr>))
                       (\<lambda>x. lret (Emit (?w + (if hasBlock attr then length (takeWhile (\<lambda>ln. e < l_indents ln) (drop ?w lns)) else 0)))))
           (stepped parent block s)) ?s1"
      unfolding inner_def [symmetric]
      by (rule label; rule wp_ifI; unfold wp_lbind)
        (use errors1 errors2 emit a in \<open>auto simp: wps\<close>)
  qed
qed

lemma structure_step_ok:
  assumes "block \<noteq> []" "\<forall>a \<in> set block. raw_node s a" "keyword_table s"
  shows "wp (structure_step parent e block) (stepped parent block s) s"
proof -
  define lns where "lns = block_lines s block"
  have lns: "lns \<noteq> []" "list_all (\<lambda>l. l_tokens l \<noteq> []) lns"
    using assms(1,2) by (auto simp: lns_def block_lines_def list_all_iff raw_node_def)
  have lines: "\<forall>a \<in> set block. has_line s a"
    using assms(2) by (auto simp: has_line_def raw_node_def)
  obtain p0 p1 p2 it2 where la: "look_ahead lns = (p0, p1, p2, it2)" by (cases "look_ahead lns")
  note ahead = look_ahead_ok [OF lns la]
  have start: "position_ok lns (0, 0)" using lns by (cases lns) (auto simp: position_ok_def)
  have expression: "wp (expression_statement parent block lns) (stepped parent block s) s"
    using assms(1,2) lns_def by (rule expression_statement_ok)
  have keyword: "wp (keyword_statement parent e block lns attr key t1 label_name) (stepped parent block s) s"
    if "map_of lineTypes (t_sid (tk key)) = Some attr" "tk_line key \<noteq> None" for attr key t1 label_name
    using assms(1,2) lns_def map_of_SomeD [OF that(1)] assms(3) that(2) by (rule keyword_statement_ok)
  have mismatch: "stepped parent block s Mismatch (reported s x)" for x
    by (rule stepped_report [OF assms(1), of "sc_nodes s ! hd block"]) simp_all
  have body: "wp (let label = labelled t0 t1 t2; key = if label then the t2 else t0
       in case map_of lineTypes (t_sid (tk key)) of None \<Rightarrow> expression_statement parent block lns
          | Some attr \<Rightarrow> keyword_statement parent e block lns attr key t1 (if label then Some t0 else None))
       (stepped parent block s) s"
    if "tk_line t0 \<noteq> None" "\<forall>u. t2 = Some u \<longrightarrow> tk_line u \<noteq> None" for t0 t1 t2
  proof -
    have "tk_line (if labelled t0 t1 t2 then the t2 else t0) \<noteq> None"
      using that by (auto simp: labelled_def split: option.splits)
    then show ?thesis
      using expression keyword by (auto simp: Let_def split: option.split)
  qed
  have lines: "wp (lines_of block) Q s" if "Q lns s" for Q
    using lines that by (intro wp_lines_of) (simp_all add: lns_def block_lines_def)
  show ?thesis
    unfolding structure_step_def wp_lbind
    by (rule lines, rule wp_token_ok [OF start]; (intro wp_ifI)?)
      (use lns(1) mismatch expression body ahead(3,4) in
        \<open>auto simp: la wps intro!: wp_report wp_deref\<close>)
qed

end
