(* ===== verification/Block_Loop.thy ===== *)
theory Block_Loop
  imports Block_Order
begin

text \<open>
  The loop over the lines of a block, and the block that \<open>structureInnerNode\<close> leaves behind.
\<close>

subsection \<open>The loop over the lines\<close>

definition kept :: "nat list \<Rightarrow> script \<Rightarrow> script \<Rightarrow> bool" where
  "kept block s s1 \<longleftrightarrow>
     p_table (sc_context s1) = p_table (sc_context s) \<and> prefix (errors s) (errors s1) \<and>
     length (sc_nodes s1) = length (sc_nodes s) \<and>
     (\<forall>x < length (sc_nodes s). n_line (sc_nodes s1 ! x) = n_line (sc_nodes s ! x) \<and>
        n_state (sc_nodes s1 ! x) = n_state (sc_nodes s ! x) \<and>
        (x \<notin> set block \<longrightarrow> sc_nodes s1 ! x = sc_nodes s ! x))"

text \<open>The nodes that a statement took from the block of its parent.\<close>

definition taken :: "script \<Rightarrow> script \<Rightarrow> nat \<Rightarrow> nat list" where
  "taken s s1 a = drop (length (n_block (sc_nodes s ! a))) (n_block (sc_nodes s1 ! a))"

definition looped :: "node_type \<Rightarrow> nat list \<Rightarrow> script \<Rightarrow> nat list \<Rightarrow> script \<Rightarrow> bool" where
  "looped parent block s new s1 \<longleftrightarrow>
     subseq (concat (List.map (\<lambda>a. a # taken s s1 a) new)) block \<and>
     (\<forall>a \<in> set new. allowed_in parent (n_type (sc_nodes s1 ! a)) \<and>
        n_block (sc_nodes s1 ! a) = n_block (sc_nodes s ! a) @ taken s s1 a \<and>
        (\<forall>c \<in> set (taken s s1 a). sc_nodes s1 ! c = sc_nodes s ! c)) \<and>
     (errors s1 = errors s \<longrightarrow>
        concat (List.map (\<lambda>a. n_tokens (sc_nodes s1 ! a) @
          concat (List.map line_tokens (block_lines s (taken s s1 a)))) new) =
        concat (List.map line_tokens (block_lines s block)))"

lemma kept_refl [simp]: "kept block s s"
  by (simp add: kept_def)

lemma kept_trans: "kept b1 s s1 \<Longrightarrow> kept b2 s1 s2 \<Longrightarrow> set b1 \<subseteq> set b \<Longrightarrow> set b2 \<subseteq> set b \<Longrightarrow> kept b s s2"
  unfolding kept_def using prefix_order.trans by (metis subsetD)

lemma wp_structure_loop:
  "wp (structure_loop parent e block out) Q s \<longleftrightarrow>
     (if block = [] then Q out s
      else wp (structure_step parent e block) (\<lambda>r s1.
        case r of
          Mismatch \<Rightarrow> Q [] s1
        | Skip k \<Rightarrow> wp (structure_loop parent e (drop k block) out) Q s1
        | Emit k \<Rightarrow> wp (structure_loop parent e (drop k block) (out @ [hd block])) Q s1) s)"
  unfolding wp_def
  by (subst structure_loop.simps) (auto split: option.splits prod.splits sum.splits structured.splits)

lemma stepped_kept:
  assumes "stepped parent block s r s1" "block \<noteq> []"
  shows "kept [hd block] s s1"
proof -
  obtain n where "sc_nodes s1 = (sc_nodes s)[hd block := n]" "n_line n = n_line (sc_nodes s ! hd block)"
      "n_state n = n_state (sc_nodes s ! hd block)"
    using assms(1) unfolding stepped_def by blast
  then have "n_line (sc_nodes s1 ! x) = n_line (sc_nodes s ! x) \<and> n_state (sc_nodes s1 ! x) = n_state (sc_nodes s ! x) \<and>
      (x \<notin> set [hd block] \<longrightarrow> sc_nodes s1 ! x = sc_nodes s ! x)" "length (sc_nodes s1) = length (sc_nodes s)"
    if "x < length (sc_nodes s)" for x
    using that by (cases "x = hd block"; simp)+
  moreover have "length (sc_nodes s1) = length (sc_nodes s)"
    using \<open>sc_nodes s1 = _\<close> by simp
  ultimately show ?thesis
    using assms(1) unfolding kept_def stepped_def by blast
qed

lemma subseq_set: "subseq xs ys \<Longrightarrow> set xs \<subseteq> set ys"
  by (auto dest: list_emb_set)

lemma kept_facts:
  assumes "kept b s s1"
  shows "raw_node s a \<Longrightarrow> a \<notin> set b \<Longrightarrow> raw_node s1 a" "keyword_table s \<Longrightarrow> keyword_table s1"
    "\<forall>a \<in> set as. a < length (sc_nodes s) \<Longrightarrow> block_lines s1 as = block_lines s as"
    "a < length (sc_nodes s) \<Longrightarrow> a \<notin> set b \<Longrightarrow> sc_nodes s1 ! a = sc_nodes s ! a"
    "has_line s1 a \<longleftrightarrow> has_line s a"
  using assms by (auto simp: kept_def raw_node_def keyword_table_def block_lines_def has_line_def)

text \<open>What a later part of the block takes is not changed by an earlier turn.\<close>

lemma looped_later:
  assumes block: "block \<noteq> []" "distinct block" "kept [hd block] s s1" "0 < k"
    and rest: "looped parent (drop k block) s1 new s2"
  shows "hd block \<notin> set (drop k block)"
    "set (concat (List.map (\<lambda>a. a # taken s1 s2 a) new)) \<subseteq> set (drop k block)"
    "b \<in> set new \<Longrightarrow> b < length (sc_nodes s) \<Longrightarrow> sc_nodes s1 ! b = sc_nodes s ! b \<and> taken s s2 b = taken s1 s2 b"
proof -
  have "set (drop k block) \<subseteq> set (tl block)"
    using block(4) set_drop_subset_set_drop [of 1 k block] by (simp add: drop_Suc)
  then show fresh: "hd block \<notin> set (drop k block)" using block(1,2) by (cases block) auto
  show sub: "set (concat (List.map (\<lambda>a. a # taken s1 s2 a) new)) \<subseteq> set (drop k block)"
    using rest unfolding looped_def by (blast dest: subseq_set)
  assume b: "b \<in> set new" "b < length (sc_nodes s)"
  then have "b \<in> set (drop k block)" using sub by auto
  then have "b \<notin> set [hd block]" using fresh by auto
  with kept_facts(4) [OF block(3) b(2)] show "sc_nodes s1 ! b = sc_nodes s ! b \<and> taken s s2 b = taken s1 s2 b"
    by (simp add: taken_def)
qed

lemma looped_skip:
  assumes block: "block \<noteq> []" "distinct block" "\<forall>a \<in> set block. raw_node s a" "kept [hd block] s s1" "0 < k"
    and rest: "looped parent (drop k block) s1 new s2" "errors s2 \<noteq> errors s"
  shows "looped parent block s new s2"
proof -
  note later = looped_later [OF block(1,2,4,5) rest(1)]
  have less: "c < length (sc_nodes s)" if "c \<in> set (drop k block)" for c
    using block(3) that by (auto simp: raw_node_def dest: in_set_dropD)
  have b: "b < length (sc_nodes s)" if "b \<in> set new" for b
    using later(2) that less by auto
  have same: "sc_nodes s1 ! c = sc_nodes s ! c" if "b \<in> set new" "c \<in> set (taken s1 s2 b)" for b c
  proof -
    have c: "c \<in> set (drop k block)" using later(2) that by auto
    then have "c \<notin> set [hd block]" using later(1) by auto
    with kept_facts(4) [OF block(4) less [OF c]] show ?thesis by blast
  qed
  have m: "List.map (\<lambda>a. a # taken s s2 a) new = List.map (\<lambda>a. a # taken s1 s2 a) new"
    using later(3) b by simp
  have "subseq (concat (List.map (\<lambda>a. a # taken s1 s2 a) new)) block"
    using rest(1) subseq_order.trans suffix_imp_subseq [OF suffix_drop] unfolding looped_def by blast
  then have "subseq (concat (List.map (\<lambda>a. a # taken s s2 a) new)) block"
    by (simp only: m)
  then show ?thesis
    using rest later(3) b same unfolding looped_def by auto
qed

lemma looped_emit:
  assumes block: "block \<noteq> []" "distinct block" "\<forall>a \<in> set block. raw_node s a"
    and step: "stepped parent block s (Emit k) s1"
    and rest: "kept (drop k block) s1 s2" "looped parent (drop k block) s1 new s2"
  shows "looped parent block s (hd block # new) s2"
proof -
  let ?a = "hd block"
  obtain n w where n: "sc_nodes s1 = (sc_nodes s)[?a := n]" "errors s1 = errors s" "k \<le> length block" "allowed_in parent (n_type n)"
      "0 < w" "w \<le> k" "n_tokens n = concat (List.map line_tokens (take w (block_lines s block)))"
      "n_block n = n_block (sc_nodes s ! ?a) @ take (k - w) (drop w block)"
    using step unfolding stepped_def by auto
  note k1 = stepped_kept [OF step block(1)]
  have a: "?a < length (sc_nodes s)" using block by (auto simp: raw_node_def)
  note later = looped_later [OF block(1,2) k1 _ rest(2)]
  have fresh: "?a \<notin> set (drop k block)" using later(1) n(5,6) by simp
  have len: "length (sc_nodes s1) = length (sc_nodes s)" using k1 by (simp add: kept_def)
  have s2a: "sc_nodes s2 ! ?a = n"
    using kept_facts(4) [OF rest(1) _ fresh] a n(1) len by simp
  have ta: "taken s s2 ?a = take (k - w) (drop w block)" by (simp add: taken_def s2a n(8))
  have sub: "set (concat (List.map (\<lambda>a. a # taken s1 s2 a) new)) \<subseteq> set (drop k block)"
    using later(2) n(5,6) by simp
  have same: "sc_nodes s1 ! b = sc_nodes s ! b" "taken s s2 b = taken s1 s2 b" if "b \<in> set new" for b
  proof -
    have "b \<in> set (drop k block)" using sub that by auto
    then have "b < length (sc_nodes s)" using block(3) by (auto simp: raw_node_def dest: in_set_dropD)
    then show "sc_nodes s1 ! b = sc_nodes s ! b" "taken s s2 b = taken s1 s2 b"
      using later(3) [OF _ that] n(5,6) by simp_all
  qed
  have map: "List.map (\<lambda>b. b # taken s s2 b) new = List.map (\<lambda>b. b # taken s1 s2 b) new"
    using same(2) by simp
  have parts: "take (k - w) (drop w block) @ drop k block = drop w block"
    using n(6) append_take_drop_id [of "k - w" "drop w block"] by simp
  have "subseq (?a # take (k - w) (drop w block) @ concat (List.map (\<lambda>b. b # taken s1 s2 b) new)) block"
  proof -
    have "subseq (take (k - w) (drop w block) @ concat (List.map (\<lambda>b. b # taken s1 s2 b) new)) (drop w block)"
      using rest(2) parts unfolding looped_def by (metis subseq_append')
    moreover have "subseq (drop w block) (tl block)"
      using n(5) suffix_imp_subseq [OF suffix_drop, of "w - 1" "tl block"] by (simp add: drop_Suc [symmetric])
    ultimately have "subseq (take (k - w) (drop w block) @ concat (List.map (\<lambda>b. b # taken s1 s2 b) new)) (tl block)"
      by (rule subseq_order.trans)
    then show ?thesis using block(1) by (cases block) auto
  qed
  moreover have "allowed_in parent (n_type (sc_nodes s2 ! b)) \<and> n_block (sc_nodes s2 ! b) = n_block (sc_nodes s ! b) @ taken s s2 b"
    if "b \<in> set (?a # new)" for b
    using that rest(2) same n(4,8) ta s2a unfolding looped_def by auto
  moreover have "sc_nodes s2 ! c = sc_nodes s ! c" if "b \<in> set (?a # new)" "c \<in> set (taken s s2 b)" for b c
  proof -
    have c: "c \<in> set (drop w block)"
    proof (cases "b = ?a")
      case True
      then show ?thesis using that(2) by (auto simp: ta dest: in_set_takeD)
    next
      case False
      then have b: "b \<in> set new" using that(1) by simp
      with that(2) same(2) have "c \<in> set (taken s1 s2 b)" by simp
      with b sub have "c \<in> set (drop k block)" by auto
      then have "c \<in> set (take (k - w) (drop w block) @ drop k block)" by simp
      then show ?thesis by (simp only: parts)
    qed
    have cs: "c < length (sc_nodes s)" using block(3) in_set_dropD [OF c] by (auto simp: raw_node_def)
    have "set (drop w block) \<subseteq> set (tl block)"
      using n(5) set_drop_subset_set_drop [of 1 w block] by (simp add: drop_Suc)
    then have "c \<notin> set [?a]" using c block(1,2) by (cases block) auto
    then have c1: "sc_nodes s1 ! c = sc_nodes s ! c" using kept_facts(4) [OF k1 cs] by blast
    show ?thesis
    proof (cases "b = ?a")
      case True
      have "distinct (take (k - w) (drop w block) @ drop k block)" using block(2) parts by simp
      then have "c \<notin> set (drop k block)" using that(2) True by (auto simp: ta)
      with kept_facts(4) [OF rest(1)] cs len c1 show ?thesis by simp
    next
      case False
      then have "b \<in> set new" "c \<in> set (taken s1 s2 b)" using that same(2) by auto
      then have "sc_nodes s2 ! c = sc_nodes s1 ! c" using rest(2) unfolding looped_def by blast
      with c1 show ?thesis by simp
    qed
  qed
  moreover have "concat (List.map (\<lambda>a. n_tokens (sc_nodes s2 ! a) @ concat (List.map line_tokens (block_lines s (taken s s2 a)))) (?a # new)) =
        concat (List.map line_tokens (block_lines s block))" if "errors s2 = errors s"
  proof -
    have bl: "block_lines s1 as = block_lines s as" if "set as \<subseteq> set block" for as
      using kept_facts(3) [OF k1, of as] block(3) that by (auto simp: raw_node_def)
    have "List.map (\<lambda>a. n_tokens (sc_nodes s2 ! a) @ concat (List.map line_tokens (block_lines s (taken s s2 a)))) new =
        List.map (\<lambda>a. n_tokens (sc_nodes s2 ! a) @ concat (List.map line_tokens (block_lines s1 (taken s1 s2 a)))) new"
    proof (rule map_cong [OF refl])
      fix b assume b: "b \<in> set new"
      have "set (taken s1 s2 b) \<subseteq> set (drop k block)" using sub b by auto
      then have "set (taken s1 s2 b) \<subseteq> set block" by (meson in_set_dropD subset_iff)
      then show "n_tokens (sc_nodes s2 ! b) @ concat (List.map line_tokens (block_lines s (taken s s2 b))) =
          n_tokens (sc_nodes s2 ! b) @ concat (List.map line_tokens (block_lines s1 (taken s1 s2 b)))"
        using bl same(2) [OF b] by simp
    qed
    then have "concat (List.map (\<lambda>a. n_tokens (sc_nodes s2 ! a) @ concat (List.map line_tokens (block_lines s (taken s s2 a)))) new) =
        concat (List.map line_tokens (block_lines s (drop k block)))"
      using rest(2) that n(2) bl [of "drop k block"] unfolding looped_def by (simp add: set_drop_subset del: map_eq_conv)
    moreover have "n_tokens n @ concat (List.map line_tokens (block_lines s (take (k - w) (drop w block)))) @
        concat (List.map line_tokens (block_lines s (drop k block))) = concat (List.map line_tokens (block_lines s block))"
    proof -
      have "take w block @ take (k - w) (drop w block) @ drop k block = block"
        using parts by simp
      then have "block_lines s (take w block) @ block_lines s (take (k - w) (drop w block)) @ block_lines s (drop k block) = block_lines s block"
        unfolding block_lines_def by (metis map_append)
      moreover have "take w (block_lines s block) = block_lines s (take w block)"
        by (simp add: block_lines_def take_map)
      ultimately show ?thesis by (metis n(7) concat_append map_append)
    qed
    ultimately show ?thesis by (simp add: s2a ta)
  qed
  ultimately show ?thesis
    unfolding looped_def by (simp add: map ta ball_Un)
qed

lemma structure_loop_ok:
  assumes "distinct block" "\<forall>a \<in> set block. raw_node s a" "keyword_table s"
  shows "wp (structure_loop parent e block out)
    (\<lambda>res s1. kept block s s1 \<and>
       (res = [] \<and> errors s1 \<noteq> errors s \<or> (\<exists>new. res = out @ new \<and> looped parent block s new s1))) s"
  using assms
proof (induction "length block" arbitrary: block s out rule: less_induct)
  case less
  show ?case
  proof (cases "block = []")
    case True
    then show ?thesis by (simp add: wp_structure_loop looped_def block_lines_def)
  next
    case False
    have rest: "kept block s s1 \<and> (k > 0 \<longrightarrow> wp (structure_loop parent e (drop k block) out')
        (\<lambda>res s2. kept (drop k block) s1 s2 \<and> (res = [] \<and> errors s2 \<noteq> errors s1 \<or>
           (\<exists>new. res = out' @ new \<and> looped parent (drop k block) s1 new s2))) s1)"
      if "stepped parent block s r s1" for r s1 k out'
    proof (intro conjI impI)
      note k1 = stepped_kept [OF that False]
      show "kept block s s1" by (rule kept_trans [OF k1 kept_refl]) (use False in auto)
      assume "0 < k"
      have "raw_node s1 a" if "a \<in> set (drop k block)" for a
      proof -
        have "a \<in> set (tl block)"
          using that \<open>0 < k\<close> set_drop_subset_set_drop [of 1 k block] by (auto simp: drop_Suc)
        then have "a \<noteq> hd block" "a \<in> set block" using less(2) False by (cases block; auto)+
        then show ?thesis using kept_facts(1) [OF k1] less(3) by simp
      qed
      then show "wp (structure_loop parent e (drop k block) out')
        (\<lambda>res s2. kept (drop k block) s1 s2 \<and> (res = [] \<and> errors s2 \<noteq> errors s1 \<or>
           (\<exists>new. res = out' @ new \<and> looped parent (drop k block) s1 new s2))) s1"
        using less(1) [of "drop k block" s1 out'] \<open>0 < k\<close> False less(2) kept_facts(2) [OF k1 less(4)] by simp
    qed
    have grows: "errors s2 \<noteq> errors s" if "prefix (errors s) (errors s1)" "prefix (errors s1) (errors s2)"
        "errors s1 \<noteq> errors s \<or> errors s2 \<noteq> errors s1" for s1 s2
      using that prefix_order.antisym by metis
    show ?thesis
      apply (subst wp_structure_loop)
      unfolding if_not_P [OF False]
    proof (rule wp_mono [OF structure_step_ok [OF False less(3,4)]])
      fix r s1 assume st: "stepped parent block s r s1"
      note k1 = rest [OF st]
      show "case r of
          Mismatch \<Rightarrow> kept block s s1 \<and> ([] = [] \<and> errors s1 \<noteq> errors s \<or> (\<exists>new. [] = out @ new \<and> looped parent block s new s1))
        | Skip k \<Rightarrow> wp (structure_loop parent e (drop k block) out)
            (\<lambda>res s1. kept block s s1 \<and> (res = [] \<and> errors s1 \<noteq> errors s \<or> (\<exists>new. res = out @ new \<and> looped parent block s new s1))) s1
        | Emit k \<Rightarrow> wp (structure_loop parent e (drop k block) (out @ [hd block]))
            (\<lambda>res s1. kept block s s1 \<and> (res = [] \<and> errors s1 \<noteq> errors s \<or> (\<exists>new. res = out @ new \<and> looped parent block s new s1))) s1"
      proof (cases r)
        case Mismatch
        then have "errors s1 \<noteq> errors s" using st by (auto simp: stepped_def)
        then show ?thesis using k1 by (simp add: Mismatch)
      next
        case (Skip k)
        then have k: "0 < k" "errors s1 \<noteq> errors s" "prefix (errors s) (errors s1)" using st unfolding stepped_def by auto
        have "wp (structure_loop parent e (drop k block) out)
            (\<lambda>res s1. kept block s s1 \<and> (res = [] \<and> errors s1 \<noteq> errors s \<or> (\<exists>new. res = out @ new \<and> looped parent block s new s1))) s1"
        proof (rule wp_mono [OF mp [OF conjunct2 [OF k1] k(1)]])
          fix res s2
          assume r: "kept (drop k block) s1 s2 \<and> (res = [] \<and> errors s2 \<noteq> errors s1 \<or>
              (\<exists>new. res = out @ new \<and> looped parent (drop k block) s1 new s2))"
          then have e: "errors s2 \<noteq> errors s" using grows [of s1 s2] k by (simp add: kept_def)
          have "kept block s s2"
            by (rule kept_trans [OF conjunct1 [OF k1] conjunct1 [OF r]]) (auto dest: in_set_dropD)
          with r e show "kept block s s2 \<and> (res = [] \<and> errors s2 \<noteq> errors s \<or> (\<exists>new. res = out @ new \<and> looped parent block s new s2))"
            using looped_skip [OF False less(2,3) stepped_kept [OF st False] k(1)] by blast
        qed
        then show ?thesis by (simp add: Skip)
      next
        case (Emit k)
        then have k: "0 < k" "errors s1 = errors s" using st unfolding stepped_def by auto
        have "wp (structure_loop parent e (drop k block) (out @ [hd block]))
            (\<lambda>res s1. kept block s s1 \<and> (res = [] \<and> errors s1 \<noteq> errors s \<or> (\<exists>new. res = out @ new \<and> looped parent block s new s1))) s1"
        proof (rule wp_mono [OF mp [OF conjunct2 [OF k1] k(1)]])
          fix res s2
          assume r: "kept (drop k block) s1 s2 \<and> (res = [] \<and> errors s2 \<noteq> errors s1 \<or>
              (\<exists>new. res = (out @ [hd block]) @ new \<and> looped parent (drop k block) s1 new s2))"
          have "kept block s s2"
            by (rule kept_trans [OF conjunct1 [OF k1] conjunct1 [OF r]]) (auto dest: in_set_dropD)
          moreover have "looped parent block s (hd block # new) s2" if "looped parent (drop k block) s1 new s2" for new
            using looped_emit [OF False less(2,3) _ conjunct1 [OF r] that] st by (simp add: Emit)
          ultimately show "kept block s s2 \<and> (res = [] \<and> errors s2 \<noteq> errors s \<or> (\<exists>new. res = out @ new \<and> looped parent block s new s2))"
            using r k(2) by auto
        qed
        then show ?thesis by (simp add: Emit)
      qed
    qed
  qed
qed

subsection \<open>The checked statements\<close>

lemma subseq_butlast: "subseq xs ys \<Longrightarrow> subseq (butlast xs) (butlast ys)"
proof (induction xs ys rule: list_emb.induct)
  case (list_emb_Cons xs ys y)
  then show ?case
    by (cases "ys = []") (auto intro: subseq_order.trans)
next
  case (list_emb_Cons2 x y xs ys)
  then show ?case
    by (cases "ys = []"; cases "xs = []") auto
qed simp

lemma list_all_subseq: "subseq xs ys \<Longrightarrow> list_all P ys \<Longrightarrow> list_all P xs"
  by (auto simp: list_all_iff dest: subseq_set)

lemma catches_ok_subseq: "subseq xs ys \<Longrightarrow> catches_ok ys \<Longrightarrow> catches_ok xs"
proof -
  assume s: "subseq xs ys" and "catches_ok ys"
  then obtain cs fs where c: "ys = cs @ fs" "list_all ((=) Node_Catch) cs" "fs = [] \<or> fs = [Node_Finally]"
    unfolding catches_ok_def by blast
  from s c(1) obtain us vs where "xs = us @ vs" "subseq us cs" "subseq vs fs"
    by (auto elim: subseq_appendE)
  moreover have "vs = [] \<or> vs = [Node_Finally]"
    using c(3) \<open>subseq vs fs\<close> by (auto elim: list_emb.cases)
  ultimately show ?thesis
    unfolding catches_ok_def using list_all_subseq c(2) by blast
qed

lemma order_ok_subseq: "subseq xs ys \<Longrightarrow> order_ok ys \<Longrightarrow> order_ok xs"
proof -
  assume s: "subseq xs ys" and "order_ok ys"
  then obtain ns cs where o: "ys = ns @ cs" "list_all (\<lambda>t. \<not> is_catch t) ns" "list_all (\<lambda>t. \<not> leaves t) (butlast ns)" "catches_ok cs"
    unfolding order_ok_def by blast
  from s o(1) obtain us vs where u: "xs = us @ vs" "subseq us ns" "subseq vs cs"
    by (auto elim: subseq_appendE)
  then have "list_all (\<lambda>t. \<not> is_catch t) us" "list_all (\<lambda>t. \<not> leaves t) (butlast us)" "catches_ok vs"
    using o list_all_subseq subseq_butlast catches_ok_subseq by blast+
  with u(1) show ?thesis unfolding order_ok_def by blast
qed

lemma cases_ok_subseq: "subseq xs ys \<Longrightarrow> cases_ok ys \<Longrightarrow> cases_ok xs"
proof (induction xs ys rule: list_emb.induct)
  case (list_emb_Nil ys)
  show ?case by (simp add: cases_ok_def)
qed (auto simp: cases_ok_Cons dest: subseq_set)

lemma kept_reports: "kept b s s1 \<Longrightarrow> only_reports s1 s2 \<Longrightarrow> kept b s s2"
  using prefix_order.trans unfolding kept_def only_reports_def by fastforce

lemma looped_reports:
  assumes "looped parent block s new s1" "kept block s s1" "only_reports s1 s2"
  shows "looped parent block s new s2"
proof -
  have n: "sc_nodes s2 = sc_nodes s1" using assms(3) by (simp add: only_reports_def)
  then have t: "taken s s2 = taken s s1" by (simp add: taken_def fun_eq_iff)
  have "errors s2 = errors s \<longrightarrow> errors s1 = errors s"
    using assms(2,3) prefix_order.antisym unfolding kept_def only_reports_def by fastforce
  then show ?thesis
    using assms(1) unfolding looped_def n t by blast
qed

definition block_ready :: "script \<Rightarrow> nat \<Rightarrow> bool" where
  "block_ready s a \<longleftrightarrow>
     a < length (sc_nodes s) \<and> keyword_table s \<and> distinct (a # n_block (sc_nodes s ! a)) \<and>
     (\<forall>b \<in> set (n_block (sc_nodes s ! a)). raw_node s b) \<and>
     (n_type (sc_nodes s ! a) \<in> set runnableContainerNodeTypes \<longrightarrow> n_line (sc_nodes s ! a) \<noteq> None)"

definition checked :: "nat \<Rightarrow> script \<Rightarrow> (nat \<times> node_type) list \<Rightarrow> script \<Rightarrow> bool" where
  "checked a s out s1 \<longleftrightarrow>
     kept (n_block (sc_nodes s ! a)) s s1 \<and>
     (\<exists>new. looped (n_type (sc_nodes s ! a)) (n_block (sc_nodes s ! a)) s new s1 \<and> subseq (List.map fst out) new \<and>
        (errors s1 = errors s \<longrightarrow> List.map fst out = new)) \<and>
     List.map snd out = List.map (\<lambda>(b, _). n_type (sc_nodes s1 ! b)) out \<and>
     order_ok (List.map snd out) \<and>
     (n_type (sc_nodes s ! a) = Node_Switch \<longrightarrow> cases_ok (List.map snd out))"

lemma looped_Nil: "errors s1 \<noteq> errors s \<Longrightarrow> looped parent block s [] s1"
  by (simp add: looped_def)

lemma checked_statements_ok:
  assumes "block_ready s a"
  shows "wp (checked_statements a) (checked a s) s"
proof -
  let ?n = "sc_nodes s ! a"
  note r = assms [unfolded block_ready_def]
  have loop: "wp (structure_loop (n_type ?n) e (n_block ?n) [])
      (\<lambda>new s1. kept (n_block ?n) s s1 \<and> looped (n_type ?n) (n_block ?n) s new s1) s" for e
    by (rule wp_mono [OF structure_loop_ok]) (use r looped_Nil in auto)
  have rest: "wp (check_empty a new) (\<lambda>_. wp (types_of new) (\<lambda>types. wp (order_loop False False False (zip new types))
      (\<lambda>ordered. wp (if n_type ?n = Node_Switch then case_loop False ordered else lret ordered) (checked a s)))) s1"
    if k: "kept (n_block ?n) s s1" and l: "looped (n_type ?n) (n_block ?n) s new s1" for new s1
  proof -
    have len: "length (sc_nodes s1) = length (sc_nodes s)" using k by (simp add: kept_def)
    have "set new \<subseteq> set (n_block ?n)"
      using l subseq_set unfolding looped_def by fastforce
    then have raw: "raw_node s b" if "b \<in> set new" for b using that r by blast
    have new: "b < length (sc_nodes s1)" "has_line s1 b" if "b \<in> set new" for b
    proof -
      show "b < length (sc_nodes s1)" using raw [OF that] by (simp add: raw_node_def len)
      have "has_line s b" using raw [OF that] by (auto simp: raw_node_def has_line_def)
      then show "has_line s1 b" by (simp only: kept_facts(5) [OF k])
    qed
    have a: "a < length (sc_nodes s1)" "sc_nodes s1 ! a = ?n"
      using r k kept_facts(4) [OF k] by (auto simp: len)
    have checks: "checked a s out s3" if o: "only_reports s1 s3" "subseq out (zip new (List.map (\<lambda>b. n_type (sc_nodes s1 ! b)) new))"
        "order_ok (List.map snd out)" "n_type ?n = Node_Switch \<longrightarrow> cases_ok (List.map snd out)"
        "errors s3 = errors s1 \<longrightarrow> out = zip new (List.map (\<lambda>b. n_type (sc_nodes s1 ! b)) new)" for out s3
    proof -
      have "subseq (List.map fst out) (List.map fst (zip new (List.map (\<lambda>b. n_type (sc_nodes s1 ! b)) new)))"
        using o(2) by (rule subseq_map)
      then have fst: "subseq (List.map fst out) new" by simp
      have eq: "errors s3 = errors s \<longrightarrow> errors s3 = errors s1"
        using k o(1) prefix_order.antisym unfolding kept_def only_reports_def by fastforce
      have "set out \<subseteq> set (zip new (List.map (\<lambda>b. n_type (sc_nodes s1 ! b)) new))"
        using o(2) by (rule subseq_set)
      moreover have "t = n_type (sc_nodes s1 ! b)" if "(b, t) \<in> set (zip new (List.map (\<lambda>b. n_type (sc_nodes s1 ! b)) new))" for b t
        using that by (auto simp: in_set_zip)
      ultimately have "\<forall>(b, t) \<in> set out. t = n_type (sc_nodes s1 ! b)" by blast
      then have types: "List.map snd out = List.map (\<lambda>(b, _). n_type (sc_nodes s3 ! b)) out"
        using o(1) unfolding only_reports_def by (intro map_cong) auto
      have "\<exists>new. looped (n_type ?n) (n_block ?n) s new s3 \<and> subseq (List.map fst out) new \<and>
          (errors s3 = errors s \<longrightarrow> List.map fst out = new)"
      proof (intro exI conjI impI)
        show "looped (n_type ?n) (n_block ?n) s new s3" by (rule looped_reports [OF l k o(1)])
        show "subseq (List.map fst out) new" by (rule fst)
        assume "errors s3 = errors s"
        then have "errors s3 = errors s1" using eq by blast
        then have "out = zip new (List.map (\<lambda>b. n_type (sc_nodes s1 ! b)) new)" using o(5) by blast
        then show "List.map fst out = new" by simp
      qed
      then show ?thesis
        unfolding checked_def using kept_reports [OF k o(1)] types o(3,4) by blast
    qed
    show ?thesis
    proof (rule wp_check_empty)
      fix s2 assume s2: "only_reports s1 s2"
      then have n2: "sc_nodes s2 = sc_nodes s1" by (simp add: only_reports_def)
      let ?z = "zip new (List.map (\<lambda>b. n_type (sc_nodes s1 ! b)) new)"
      have z: "\<forall>(b, t) \<in> set ?z. has_line s2 b"
        using new has_line_reports [OF s2] by (auto dest: set_zip_leftD)
      have "wp (order_loop False False False ?z)
          (\<lambda>ordered. wp (if n_type ?n = Node_Switch then case_loop False ordered else lret ordered) (checked a s)) s2"
      proof (rule wp_mono [OF order_loop_ok [OF z]])
        fix ordered s3
        assume o: "only_reports s2 s3 \<and> subseq ordered ?z \<and> (False \<longrightarrow> ordered = []) \<and>
            (False \<or> False \<longrightarrow> catches_ok (List.map snd ordered)) \<and> order_ok (List.map snd ordered) \<and>
            (errors s3 = errors s2 \<longrightarrow> ordered = ?z)"
        have s13: "only_reports s1 s3" using s2 o only_reports_trans by blast
        have mid: "errors s3 = errors s1 \<longrightarrow> errors s3 = errors s2"
          using s2 o prefix_order.antisym unfolding only_reports_def by fastforce
        have h: "\<forall>(b, t) \<in> set ordered. has_line s3 b"
          using o z has_line_reports subseq_set by blast
        show "wp (if n_type ?n = Node_Switch then case_loop False ordered else lret ordered) (checked a s) s3"
        proof (rule wp_ifI)
          assume sw: "n_type ?n = Node_Switch"
          show "wp (case_loop False ordered) (checked a s) s3"
          proof (rule wp_mono [OF case_loop_ok [OF h]])
            fix out s4
            assume c: "only_reports s3 s4 \<and> subseq out ordered \<and> (False \<longrightarrow> Node_Case \<notin> set (List.map snd out)) \<and>
                cases_ok (List.map snd out) \<and> (errors s4 = errors s3 \<longrightarrow> out = ordered) \<and> (\<exists>n. out = take n ordered)"
            have "errors s4 = errors s1 \<longrightarrow> errors s4 = errors s3 \<and> errors s3 = errors s1"
              using s13 c prefix_order.antisym unfolding only_reports_def by fastforce
            then show "checked a s out s4"
              using c o s13 mid only_reports_trans subseq_order.trans
              by (intro checks) (blast intro: order_ok_subseq subseq_map)+
          qed
        next
          assume "n_type ?n \<noteq> Node_Switch"
          then show "wp (lret ordered) (checked a s) s3"
            using o s13 mid by (simp add: wps checks)
        qed
      qed
      then show "wp (types_of new) (\<lambda>types. wp (order_loop False False False (zip new types))
          (\<lambda>ordered. wp (if n_type ?n = Node_Switch then case_loop False ordered else lret ordered) (checked a s))) s2"
        using new n2 by (intro wp_types_of) simp_all
    qed (use a new r k in \<open>auto simp: has_line_def\<close>)
  qed
  show ?thesis
    using r wp_mono [OF loop] rest by (simp add: checked_statements_def wps)
qed

end
