(* ===== verification/Block_Place.thy ===== *)
theory Block_Place
  imports Block_Loop
begin

text \<open>
  The block that \<open>structureInnerNode\<close> builds from the checked statements: an \<open>if\<close> with its \<open>else\<close>
  branches becomes a group, everything else stays where it is, and nested \<open>sync\<close> blocks are structured on
  the way.
\<close>

subsection \<open>Blocks in order\<close>

text \<open>The branches of a group: \<open>if\<close>, any number of \<open>else if\<close>, at most one \<open>else\<close>.\<close>

definition branches_ok :: "node_type list \<Rightarrow> bool" where
  "branches_ok ts \<longleftrightarrow>
     (\<exists>es. ts = Node_If # es \<and> list_all (\<lambda>t. t = Node_ElseIf \<or> t = Node_Else) es \<and>
        list_all (\<lambda>t. t \<noteq> Node_Else) (butlast es))"

definition types :: "script \<Rightarrow> nat list \<Rightarrow> node_type list" where
  "types s as = List.map (\<lambda>a. n_type (sc_nodes s ! a)) as"

definition statement_ok :: "node_type \<Rightarrow> script \<Rightarrow> nat \<Rightarrow> bool" where
  "statement_ok parent s b \<longleftrightarrow>
     b < length (sc_nodes s) \<and>
     (if n_type (sc_nodes s ! b) = Node_IfGroup
      then branches_ok (types s (n_block (sc_nodes s ! b))) \<and>
        (\<forall>t \<in> set (types s (n_block (sc_nodes s ! b))). allowed_in parent t)
      else n_type (sc_nodes s ! b) \<notin> {Node_If, Node_ElseIf, Node_Else} \<and> allowed_in parent (n_type (sc_nodes s ! b)))"

definition block_ok :: "script \<Rightarrow> nat \<Rightarrow> bool" where
  "block_ok s a \<longleftrightarrow>
     (let parent = n_type (sc_nodes s ! a); block = n_block (sc_nodes s ! a)
      in (\<forall>b \<in> set block. statement_ok parent s b) \<and> order_ok (types s block) \<and>
         (parent = Node_Switch \<longrightarrow> cases_ok (types s block)))"

definition group_type :: "node_type \<Rightarrow> node_type" where
  "group_type t = (if t = Node_If then Node_IfGroup else t)"

lemma group_type_order: "order_ok ts \<Longrightarrow> order_ok (List.map group_type ts)"
proof -
  assume "order_ok ts"
  then obtain ns cs fs where o: "ts = ns @ cs @ fs" "list_all (\<lambda>t. \<not> is_catch t) ns" "list_all (\<lambda>t. \<not> leaves t) (butlast ns)"
      "list_all ((=) Node_Catch) cs" "fs = [] \<or> fs = [Node_Finally]"
    unfolding order_ok_def catches_ok_def by blast
  have "list_all (\<lambda>t. \<not> is_catch t) (List.map group_type ns)"
    using o(2) by (auto simp: list_all_iff is_catch_def group_type_def)
  moreover have "list_all (\<lambda>t. \<not> leaves t) (butlast (List.map group_type ns))"
    using o(3) by (auto simp: list_all_iff leaves_def group_type_def map_butlast [symmetric])
  moreover have "List.map group_type (cs @ fs) = cs @ fs"
    using o(4,5) by (auto simp: list_all_iff group_type_def intro!: map_idI)
  then have "catches_ok (List.map group_type (cs @ fs))"
    unfolding catches_ok_def using o(4,5) by auto
  ultimately show ?thesis
    unfolding order_ok_def o(1) by (intro exI [of _ "List.map group_type ns"] exI [of _ "List.map group_type (cs @ fs)"]) simp
qed

lemma group_type_cases: "cases_ok ts \<Longrightarrow> cases_ok (List.map group_type ts)"
proof (induction ts)
  case (Cons t ts)
  then show ?case by (auto simp: cases_ok_Cons group_type_def)
qed simp

lemma branches_ok_snoc:
  assumes "branches_ok ts" "last ts \<noteq> Node_Else" "t = Node_ElseIf \<or> t = Node_Else"
  shows "branches_ok (ts @ [t])"
proof -
  obtain es where e: "ts = Node_If # es" "list_all (\<lambda>t. t = Node_ElseIf \<or> t = Node_Else) es"
      "list_all (\<lambda>t. t \<noteq> Node_Else) (butlast es)"
    using assms(1) unfolding branches_ok_def by blast
  have "list_all (\<lambda>t. t \<noteq> Node_Else) es"
    using e(1,3) assms(2) by (cases es rule: rev_cases) auto
  then show ?thesis
    unfolding branches_ok_def using e assms(3) by (intro exI [of _ "es @ [t]"]) (simp add: butlast_append)
qed

lemma allowed_in_not_group: "allowed_in parent t \<Longrightarrow> t \<noteq> Node_IfGroup"
  by (auto simp: allowed_in_def base_type_def lineTypes_def line_attr_def)

lemma allowed_sync: "allowed_in parent Node_Sync \<Longrightarrow> parent = Node_ScriptRoot \<or> parent = Node_Class"
  by (auto simp: allowed_in_def base_type_def lineTypes_def line_attr_def parentType_normalSentence_def
      parentType_normalSentenceAndSwitch_def)

subsection \<open>What the structuring of a node may change\<close>

definition framed :: "nat \<Rightarrow> script \<Rightarrow> script \<Rightarrow> bool" where
  "framed b s s1 \<longleftrightarrow>
     p_table (sc_context s1) = p_table (sc_context s) \<and> prefix (errors s) (errors s1) \<and>
     length (sc_nodes s) \<le> length (sc_nodes s1) \<and>
     n_type (sc_nodes s1 ! b) = n_type (sc_nodes s ! b) \<and>
     (\<forall>x < length (sc_nodes s). n_line (sc_nodes s1 ! x) = n_line (sc_nodes s ! x) \<and>
        (x \<noteq> b \<and> x \<notin> set (n_block (sc_nodes s ! b)) \<longrightarrow> sc_nodes s1 ! x = sc_nodes s ! x))"

text \<open>
  The statements to be placed: they and the nodes in nested \<open>sync\<close> blocks are all different, and the
  \<open>sync\<close> blocks are ready to be structured.
\<close>

definition members :: "script \<Rightarrow> nat \<times> node_type \<Rightarrow> nat list" where
  "members s = (\<lambda>(b, t). b # (if t = Node_Sync then n_block (sc_nodes s ! b) else []))"

definition family :: "script \<Rightarrow> (nat \<times> node_type) list \<Rightarrow> nat list" where
  "family s out = concat (List.map (members s) out)"

text \<open>Only \<open>sync\<close> blocks are changed while they are placed.\<close>

definition touched :: "script \<Rightarrow> (nat \<times> node_type) list \<Rightarrow> nat list" where
  "touched s out = concat (List.map (\<lambda>(b, t). if t = Node_Sync then b # n_block (sc_nodes s ! b) else []) out)"

definition placeable :: "nat \<Rightarrow> script \<Rightarrow> (nat \<times> node_type) list \<Rightarrow> bool" where
  "placeable a s out \<longleftrightarrow>
     a < length (sc_nodes s) \<and> distinct (a # family s out) \<and> (\<forall>c \<in> set (family s out). c < length (sc_nodes s)) \<and>
     keyword_table s \<and>
     (\<forall>b t. (b, t) \<in> set out \<longrightarrow> n_type (sc_nodes s ! b) = t \<and> n_line (sc_nodes s ! b) \<noteq> None \<and>
        allowed_in (n_type (sc_nodes s ! a)) t \<and> (t = Node_Sync \<longrightarrow> block_ready s b))"

definition placing :: "nat \<Rightarrow> script \<Rightarrow> (nat \<times> node_type) list \<Rightarrow> node_type list \<Rightarrow> script \<Rightarrow> bool" where
  "placing a s0 seen ts s \<longleftrightarrow>
     p_table (sc_context s) = p_table (sc_context s0) \<and> prefix (errors s0) (errors s) \<and>
     length (sc_nodes s0) \<le> length (sc_nodes s) \<and>
     (\<forall>x < length (sc_nodes s0). n_line (sc_nodes s ! x) = n_line (sc_nodes s0 ! x) \<and>
        (x \<noteq> a \<and> x \<notin> set (touched s0 seen) \<longrightarrow> sc_nodes s ! x = sc_nodes s0 ! x)) \<and>
     n_type (sc_nodes s ! a) = n_type (sc_nodes s0 ! a) \<and>
     (\<forall>b t. (b, t) \<in> set seen \<longrightarrow> n_type (sc_nodes s ! b) = t) \<and>
     (\<exists>sub. subseq sub ts \<and> types s (n_block (sc_nodes s ! a)) = List.map group_type sub) \<and>
     (\<forall>b \<in> set (n_block (sc_nodes s ! a)). statement_ok (n_type (sc_nodes s0 ! a)) s b \<and>
        (b \<in> fst ` set seen \<or> length (sc_nodes s0) \<le> b \<and> set (n_block (sc_nodes s ! b)) \<subseteq> fst ` set seen))"

lemma family_simps [simp]:
  "family s [] = []" "family s ((b, t) # out) = members s (b, t) @ family s out"
  "family s (out @ out') = family s out @ family s out'"
  by (simp_all add: family_def)

lemma touched_simps [simp]:
  "touched s [] = []"
  "touched s ((b, t) # out) = (if t = Node_Sync then b # n_block (sc_nodes s ! b) else []) @ touched s out"
  "touched s (out @ out') = touched s out @ touched s out'"
  by (simp_all add: touched_def)

lemma touched_family: "set (touched s out) \<subseteq> set (family s out)"
  by (auto simp: touched_def family_def members_def split: if_splits)

lemma family_member: "b \<in> fst ` set out \<Longrightarrow> b \<in> set (family s out)"
  by (force simp: family_def members_def)

text \<open>Changes outside of what has been placed.\<close>

lemma statement_ok_cong:
  assumes "statement_ok parent s b" "length (sc_nodes s) \<le> length (sc_nodes s1)"
    "n_type (sc_nodes s1 ! b) = n_type (sc_nodes s ! b)"
    "n_type (sc_nodes s ! b) = Node_IfGroup \<Longrightarrow> n_block (sc_nodes s1 ! b) = n_block (sc_nodes s ! b) \<and>
       types s1 (n_block (sc_nodes s ! b)) = types s (n_block (sc_nodes s ! b))"
  shows "statement_ok parent s1 b"
  using assms unfolding statement_ok_def by (auto split: if_splits)

lemma types_cong: "(\<And>b. b \<in> set as \<Longrightarrow> n_type (sc_nodes s1 ! b) = n_type (sc_nodes s ! b)) \<Longrightarrow> types s1 as = types s as"
  by (simp add: types_def)

lemma statement_ok_less: "statement_ok parent s b \<Longrightarrow> b < length (sc_nodes s)"
  by (simp add: statement_ok_def)

lemma placeableD:
  "placeable a s out \<Longrightarrow> (b, t) \<in> set out \<Longrightarrow>
     n_type (sc_nodes s ! b) = t \<and> n_line (sc_nodes s ! b) \<noteq> None \<and>
     allowed_in (n_type (sc_nodes s ! a)) t \<and> (t = Node_Sync \<longrightarrow> block_ready s b)"
  unfolding placeable_def by blast

lemma placingD:
  assumes "placing a s0 seen ts s"
  shows "p_table (sc_context s) = p_table (sc_context s0)" "prefix (errors s0) (errors s)"
    "length (sc_nodes s0) \<le> length (sc_nodes s)"
    "x < length (sc_nodes s0) \<Longrightarrow> n_line (sc_nodes s ! x) = n_line (sc_nodes s0 ! x)"
    "x < length (sc_nodes s0) \<Longrightarrow> x \<noteq> a \<Longrightarrow> x \<notin> set (touched s0 seen) \<Longrightarrow> sc_nodes s ! x = sc_nodes s0 ! x"
    "n_type (sc_nodes s ! a) = n_type (sc_nodes s0 ! a)"
    "(b, t) \<in> set seen \<Longrightarrow> n_type (sc_nodes s ! b) = t"
    "\<exists>sub. subseq sub ts \<and> types s (n_block (sc_nodes s ! a)) = List.map group_type sub"
    "c \<in> set (n_block (sc_nodes s ! a)) \<Longrightarrow> statement_ok (n_type (sc_nodes s0 ! a)) s c"
    "c \<in> set (n_block (sc_nodes s ! a)) \<Longrightarrow>
       c \<in> fst ` set seen \<or> length (sc_nodes s0) \<le> c \<and> set (n_block (sc_nodes s ! c)) \<subseteq> fst ` set seen"
  using assms unfolding placing_def by blast+

lemma placingI:
  assumes "p_table (sc_context s) = p_table (sc_context s0)" "prefix (errors s0) (errors s)"
    "length (sc_nodes s0) \<le> length (sc_nodes s)"
    "\<And>x. x < length (sc_nodes s0) \<Longrightarrow> n_line (sc_nodes s ! x) = n_line (sc_nodes s0 ! x)"
    "\<And>x. x < length (sc_nodes s0) \<Longrightarrow> x \<noteq> a \<Longrightarrow> x \<notin> set (touched s0 seen) \<Longrightarrow> sc_nodes s ! x = sc_nodes s0 ! x"
    "n_type (sc_nodes s ! a) = n_type (sc_nodes s0 ! a)"
    "\<And>b t. (b, t) \<in> set seen \<Longrightarrow> n_type (sc_nodes s ! b) = t"
    "\<exists>sub. subseq sub ts \<and> types s (n_block (sc_nodes s ! a)) = List.map group_type sub"
    "\<And>c. c \<in> set (n_block (sc_nodes s ! a)) \<Longrightarrow> statement_ok (n_type (sc_nodes s0 ! a)) s c \<and>
       (c \<in> fst ` set seen \<or> length (sc_nodes s0) \<le> c \<and> set (n_block (sc_nodes s ! c)) \<subseteq> fst ` set seen)"
  shows "placing a s0 seen ts s"
  using assms unfolding placing_def by blast

lemma placing_calm:
  assumes p: "placing a s0 seen ts s" and q: "placeable a s0 (seen @ (b, t) # rest)"
    and calm: "p_table (sc_context s1) = p_table (sc_context s)" "prefix (errors s) (errors s1)"
      "length (sc_nodes s) \<le> length (sc_nodes s1)" "n_type (sc_nodes s1 ! b) = n_type (sc_nodes s ! b)"
      "\<And>x. x < length (sc_nodes s) \<Longrightarrow> x \<notin> set (touched s0 [(b, t)]) \<Longrightarrow> sc_nodes s1 ! x = sc_nodes s ! x"
      "\<And>x. x < length (sc_nodes s0) \<Longrightarrow> n_line (sc_nodes s1 ! x) = n_line (sc_nodes s ! x)"
  shows "placing a s0 (seen @ [(b, t)]) ts s1"
proof -
  let ?N = "length (sc_nodes s0)" and ?F = "members s0 (b, t)"
  note p' = placingD [OF p]
  have dist: "a \<notin> set ?F" "set (family s0 seen) \<inter> set ?F = {}" "a < ?N" and less: "\<forall>c \<in> set ?F. c < ?N"
    using q unfolding placeable_def by auto
  have t: "n_type (sc_nodes s0 ! b) = t"
    using placeableD [OF q, of b t] by simp
  have old: "sc_nodes s1 ! x = sc_nodes s ! x" if "x < length (sc_nodes s)" "x = a \<or> x \<in> set (family s0 seen) \<or> ?N \<le> x" for x
  proof -
    have "x \<notin> set ?F"
    proof
      assume "x \<in> set ?F"
      with dist(1,2) less that(2) show False by (metis disjoint_iff leD)
    qed
    then show ?thesis using calm(5) [OF that(1)] by (auto simp: members_def split: if_splits)
  qed
  have seen: "sc_nodes s1 ! c = sc_nodes s ! c" if "c \<in> fst ` set seen" for c
  proof -
    have c: "c \<in> set (family s0 seen)" using family_member that by blast
    then have "c \<in> set (family s0 (seen @ (b, t) # rest))" by simp
    then have "c < ?N" using q unfolding placeable_def by blast
    then have "c < length (sc_nodes s)" using p'(3) by simp
    with old c show ?thesis by blast
  qed
  have ab: "sc_nodes s1 ! a = sc_nodes s ! a" using old dist(3) p'(3) by simp
  have b: "n_type (sc_nodes s1 ! b) = t"
  proof -
    have "b < ?N" "b \<noteq> a" "b \<notin> set (touched s0 seen)"
      using less dist touched_family by (auto simp: members_def)
    from p'(5) [OF this] show ?thesis using calm(4) t by simp
  qed
  have block: "sc_nodes s1 ! c = sc_nodes s ! c \<and> statement_ok (n_type (sc_nodes s0 ! a)) s1 c"
    if c: "c \<in> set (n_block (sc_nodes s ! a))" for c
  proof -
    note st = p'(9) [OF c] and mem = p'(10) [OF c]
    have same: "sc_nodes s1 ! c = sc_nodes s ! c"
      using mem seen old statement_ok_less [OF st] by blast
    have "types s1 (n_block (sc_nodes s ! c)) = types s (n_block (sc_nodes s ! c))"
      if g: "n_type (sc_nodes s ! c) = Node_IfGroup"
    proof -
      have "c \<notin> fst ` set seen"
      proof
        assume "c \<in> fst ` set seen"
        then obtain u where u: "(c, u) \<in> set seen" by force
        then have "allowed_in (n_type (sc_nodes s0 ! a)) u" using placeableD [OF q, of c u] by simp
        with p'(7) [OF u] g allowed_in_not_group show False by blast
      qed
      then have "set (n_block (sc_nodes s ! c)) \<subseteq> fst ` set seen" using mem by blast
      with seen show ?thesis by (intro types_cong) (metis subsetD)
    qed
    then show ?thesis
      using statement_ok_cong [OF st calm(3)] same by simp
  qed
  show ?thesis
  proof (rule placingI)
    show "prefix (errors s0) (errors s1)" using p'(2) calm(2) prefix_order.trans by blast
    show "?N \<le> length (sc_nodes s1)" using p'(3) calm(3) by simp
    show "n_line (sc_nodes s1 ! x) = n_line (sc_nodes s0 ! x)" if "x < ?N" for x
      using p'(4) calm(6) that by simp
    show "sc_nodes s1 ! x = sc_nodes s0 ! x" if "x < ?N" "x \<noteq> a" "x \<notin> set (touched s0 (seen @ [(b, t)]))" for x
    proof -
      have "x \<notin> set (touched s0 seen)" "x \<notin> set (touched s0 [(b, t)])" "x < length (sc_nodes s)"
        using that p'(3) by auto
      then show ?thesis using p'(5) [OF that(1,2)] calm(5) by metis
    qed
    show "n_type (sc_nodes s1 ! c) = u" if "(c, u) \<in> set (seen @ [(b, t)])" for c u
      using that b seen p'(7) by (force simp: image_iff)
    have "types s1 (n_block (sc_nodes s ! a)) = types s (n_block (sc_nodes s ! a))"
      using block by (intro types_cong) simp
    then show "\<exists>sub. subseq sub ts \<and> types s1 (n_block (sc_nodes s1 ! a)) = List.map group_type sub"
      using p'(8) by (simp only: ab)
    fix c assume "c \<in> set (n_block (sc_nodes s1 ! a))"
    then have c: "c \<in> set (n_block (sc_nodes s ! a))" by (simp only: ab)
    show "statement_ok (n_type (sc_nodes s0 ! a)) s1 c \<and>
        (c \<in> fst ` set (seen @ [(b, t)]) \<or> ?N \<le> c \<and> set (n_block (sc_nodes s1 ! c)) \<subseteq> fst ` set (seen @ [(b, t)]))"
      using block [OF c] p'(10) [OF c] by auto
  qed (use calm(1) p'(1,6) ab in simp_all)
qed

lemma placing_more: "placing a s0 seen ts s \<Longrightarrow> placing a s0 seen (ts @ [t]) s"
  unfolding placing_def using subseq_rev_drop_many by blast

lemma placing_add:
  assumes p: "placing a s0 seen ts s" and q: "a < length (sc_nodes s0)" "a \<notin> fst ` set seen"
    and c: "statement_ok (n_type (sc_nodes s0 ! a)) s c" "n_type (sc_nodes s ! c) = group_type t"
      "c \<in> fst ` set seen \<or> length (sc_nodes s0) \<le> c \<and> set (n_block (sc_nodes s ! c)) \<subseteq> fst ` set seen"
    and s1: "s1 = s\<lparr>sc_nodes := (sc_nodes s)[a := (sc_nodes s ! a)\<lparr>n_block := n_block (sc_nodes s ! a) @ [c]\<rparr>]\<rparr>"
  shows "placing a s0 seen (ts @ [t]) s1"
proof -
  note p' = p [unfolded placing_def]
  have a: "a < length (sc_nodes s)" using p' q(1) by linarith
  have nodes: "sc_nodes s1 ! x = (if x = a then (sc_nodes s ! a)\<lparr>n_block := n_block (sc_nodes s ! a) @ [c]\<rparr> else sc_nodes s ! x)"
    for x using a by (simp add: s1)
  have ty: "types s1 as = types s as" for as by (rule types_cong) (simp add: nodes)
  have "statement_ok (n_type (sc_nodes s0 ! a)) s1 x \<and>
      (x \<in> fst ` set seen \<or> length (sc_nodes s0) \<le> x \<and> set (n_block (sc_nodes s1 ! x)) \<subseteq> fst ` set seen)"
    if "x \<in> set (n_block (sc_nodes s ! a) @ [c])" for x
  proof -
    have x: "statement_ok (n_type (sc_nodes s0 ! a)) s x"
      "x \<in> fst ` set seen \<or> length (sc_nodes s0) \<le> x \<and> set (n_block (sc_nodes s ! x)) \<subseteq> fst ` set seen"
      using that p' c by auto
    then have "x \<noteq> a" using q by auto
    then have "sc_nodes s1 ! x = sc_nodes s ! x" by (simp add: nodes)
    with x show ?thesis
      using statement_ok_cong [OF x(1), of s1] by (simp add: ty) (simp add: s1)
  qed
  moreover have "\<exists>sub. subseq sub (ts @ [t]) \<and> types s1 (n_block (sc_nodes s1 ! a)) = List.map group_type sub"
  proof -
    obtain sub where "subseq sub ts" "types s (n_block (sc_nodes s ! a)) = List.map group_type sub"
      using p' by blast
    then have "subseq (sub @ [t]) (ts @ [t]) \<and> types s1 (n_block (sc_nodes s1 ! a)) = List.map group_type (sub @ [t])"
      using c(2) by (simp add: ty nodes) (simp add: types_def)
    then show ?thesis by (rule exI)
  qed
  moreover have "n_type (sc_nodes s1 ! x) = n_type (sc_nodes s ! x)" "n_line (sc_nodes s1 ! x) = n_line (sc_nodes s ! x)" for x
    by (simp_all add: nodes)
  moreover have "sc_nodes s1 ! x = sc_nodes s ! x" if "x \<noteq> a" for x using that by (simp add: nodes)
  moreover have "n_block (sc_nodes s1 ! a) = n_block (sc_nodes s ! a) @ [c]" by (simp add: nodes)
  moreover have "length (sc_nodes s1) = length (sc_nodes s)" "sc_context s1 = sc_context s" by (simp_all add: s1)
  ultimately show ?thesis
    unfolding placing_def using p' by auto
qed

lemma placing_branch:
  assumes p: "placing a s0 seen ts s" and q: "a < length (sc_nodes s0)" "a \<notin> fst ` set seen" "fst ` set seen \<subseteq> {..<length (sc_nodes s0)}"
    and g: "g \<in> set (n_block (sc_nodes s ! a))" "n_type (sc_nodes s ! g) = Node_IfGroup" "length (sc_nodes s0) \<le> g"
      "last (types s (n_block (sc_nodes s ! g))) \<noteq> Node_Else"
    and b: "b \<in> fst ` set seen" "n_type (sc_nodes s ! b) = t" "t = Node_ElseIf \<or> t = Node_Else"
      "allowed_in (n_type (sc_nodes s0 ! a)) t"
    and s1: "s1 = s\<lparr>sc_nodes := (sc_nodes s)[g := (sc_nodes s ! g)\<lparr>n_block := n_block (sc_nodes s ! g) @ [b]\<rparr>]\<rparr>"
  shows "placing a s0 seen ts s1"
proof -
  note p' = p [unfolded placing_def]
  have st: "statement_ok (n_type (sc_nodes s0 ! a)) s g" using p' g(1) by blast
  then have gl: "g < length (sc_nodes s)" by (rule statement_ok_less)
  have nodes: "sc_nodes s1 ! x = (if x = g then (sc_nodes s ! g)\<lparr>n_block := n_block (sc_nodes s ! g) @ [b]\<rparr> else sc_nodes s ! x)"
    for x using gl by (simp add: s1)
  have ty: "types s1 as = types s as" for as by (rule types_cong) (simp add: nodes)
  have ag: "a \<noteq> g" using q(1) g(3) by linarith
  have "statement_ok (n_type (sc_nodes s0 ! a)) s1 x \<and>
      (x \<in> fst ` set seen \<or> length (sc_nodes s0) \<le> x \<and> set (n_block (sc_nodes s1 ! x)) \<subseteq> fst ` set seen)"
    if "x \<in> set (n_block (sc_nodes s ! a))" for x
  proof (cases "x = g")
    case True
    have br: "branches_ok (types s (n_block (sc_nodes s ! g)))" "\<forall>t \<in> set (types s (n_block (sc_nodes s ! g))). allowed_in (n_type (sc_nodes s0 ! a)) t"
      using st g(2) by (simp_all add: statement_ok_def)
    have "types s (n_block (sc_nodes s ! g) @ [b]) = types s (n_block (sc_nodes s ! g)) @ [t]"
      using b(2) by (simp add: types_def)
    then have "statement_ok (n_type (sc_nodes s0 ! a)) s1 g"
      using branches_ok_snoc [OF br(1) g(4) b(3)] br(2) b(4) g(2) gl
      by (simp add: statement_ok_def ty) (simp add: nodes s1)
    moreover have "set (n_block (sc_nodes s ! g)) \<subseteq> fst ` set seen"
      using p' g(1,3) q(3) by fastforce
    ultimately show ?thesis using True g(3) b(1) by (simp add: nodes)
  next
    case False
    have x: "statement_ok (n_type (sc_nodes s0 ! a)) s x"
      "x \<in> fst ` set seen \<or> length (sc_nodes s0) \<le> x \<and> set (n_block (sc_nodes s ! x)) \<subseteq> fst ` set seen"
      using that p' by auto
    from False have "sc_nodes s1 ! x = sc_nodes s ! x" by (simp add: nodes)
    with x show ?thesis
      using statement_ok_cong [OF x(1), of s1] by (simp add: ty) (simp add: s1)
  qed
  moreover have "n_type (sc_nodes s1 ! x) = n_type (sc_nodes s ! x)" "n_line (sc_nodes s1 ! x) = n_line (sc_nodes s ! x)" for x
    by (simp_all add: nodes)
  moreover have "sc_nodes s1 ! x = sc_nodes s ! x" if "x \<noteq> g" for x using that by (simp add: nodes)
  moreover have "length (sc_nodes s1) = length (sc_nodes s)" "sc_context s1 = sc_context s" by (simp_all add: s1)
  moreover have "x \<noteq> g" if "x < length (sc_nodes s0)" for x using that g(3) by linarith
  ultimately show ?thesis
    unfolding placing_def using p' ag by (auto simp: ty)
qed

subsection \<open>Placing the statements\<close>

lemma placing_fresh:
  assumes p: "placing a s0 seen ts s" and q: "placeable a s0 (seen @ (b, t) # rest)" and c: "c \<in> set (members s0 (b, t))"
  shows "sc_nodes s ! c = sc_nodes s0 ! c" "c < length (sc_nodes s)"
proof -
  have "c < length (sc_nodes s0)" "c \<noteq> a" "c \<notin> set (touched s0 seen)"
    using q c touched_family [of s0 seen] unfolding placeable_def by auto
  then show "sc_nodes s ! c = sc_nodes s0 ! c" "c < length (sc_nodes s)"
    using placingD(3,5) [OF p] by auto
qed

lemma placing_ready:
  assumes p: "placing a s0 seen ts s" and q: "placeable a s0 (seen @ (b, Node_Sync) # rest)"
  shows "block_ready s b \<and> n_type (sc_nodes s ! b) = Node_Sync"
proof -
  have ty: "n_type (sc_nodes s0 ! b) = Node_Sync" using placeableD [OF q, of b Node_Sync] by simp
  have r: "block_ready s0 b" using placeableD [OF q, of b Node_Sync] by simp
  note same = placing_fresh [OF p q]
  have "keyword_table s" using r placingD(1) [OF p] by (simp add: block_ready_def keyword_table_def)
  then show ?thesis
    using r same ty by (simp add: block_ready_def raw_node_def members_def)
qed

lemma placing_same:
  assumes "placing a s0 seen ts s" "placeable a s0 (seen @ (b, t) # rest)" "only_reports s s1"
  shows "placing a s0 (seen @ [(b, t)]) ts s1"
  using assms(3) by (intro placing_calm [OF assms(1,2)]) (simp_all add: only_reports_def)

lemma placing_alloc:
  assumes "placing a s0 seen ts s" "placeable a s0 (seen @ (b, t) # rest)"
  shows "placing a s0 (seen @ [(b, t)]) ts (s\<lparr>sc_nodes := sc_nodes s @ [n]\<rparr>)"
  using placing_fresh(2) [OF assms, of b, unfolded members_def] placingD(3) [OF assms(1)]
  by (intro placing_calm [OF assms]) (simp_all add: nth_append)

lemma placing_framed:
  assumes "placing a s0 seen ts s" "placeable a s0 (seen @ (b, t) # rest)" "framed b s s1" "t = Node_Sync"
  shows "placing a s0 (seen @ [(b, t)]) ts s1"
proof -
  have "n_block (sc_nodes s ! b) = n_block (sc_nodes s0 ! b)"
    using placing_fresh(1) [OF assms(1,2), of b] by (simp add: members_def)
  then show ?thesis
    using assms(3,4) placingD(3) [OF assms(1)]
    by (intro placing_calm [OF assms(1,2)]) (auto simp: framed_def)
qed

lemma wp_add_block:
  "wp (add_block a b) Q = (\<lambda>s. Q () (s\<lparr>sc_nodes := (sc_nodes s)[a := (sc_nodes s ! a)\<lparr>n_block := n_block (sc_nodes s ! a) @ [b]\<rparr>]\<rparr>))"
  by (simp add: add_block_def wps fun_eq_iff)

lemma place_statement_ok:
  assumes p: "placing a s0 seen (List.map snd seen) s" and q: "placeable a s0 (seen @ (b, t) # rest)"
    and sync: "\<And>s. t = Node_Sync \<Longrightarrow> \<not> recursive \<Longrightarrow> block_ready s b \<Longrightarrow>
      n_type (sc_nodes s ! b) = Node_Sync \<Longrightarrow> wp (structure b) (\<lambda>_. framed b s) s"
  shows "wp (place_statement structure recursive a (b, t))
    (\<lambda>_. placing a s0 (seen @ [(b, t)]) (List.map snd (seen @ [(b, t)]))) s"
proof -
  let ?seen = "seen @ [(b, t)]" and ?Q = "placing a s0 (seen @ [(b, t)]) (List.map snd (seen @ [(b, t)]))"
  have q': "placeable a s0 (?seen @ rest)" using q by simp
  have a: "a < length (sc_nodes s0)" "a \<notin> fst ` set ?seen" and mem: "fst ` set ?seen \<subseteq> {..<length (sc_nodes s0)}"
    using q family_member [of _ ?seen s0] unfolding placeable_def by auto
  have al: "allowed_in (n_type (sc_nodes s0 ! a)) t" and line: "n_line (sc_nodes s0 ! b) \<noteq> None"
    using placeableD [OF q, of b t] by simp_all
  have b: "has_line s b"
    using placing_fresh [OF p q, of b] line by (simp add: has_line_def members_def)
  have add: "?Q (s1\<lparr>sc_nodes := (sc_nodes s1)[a := (sc_nodes s1 ! a)\<lparr>n_block := n_block (sc_nodes s1 ! a) @ [b]\<rparr>]\<rparr>)"
    if "placing a s0 ?seen (List.map snd seen) s1" "t \<notin> {Node_If, Node_ElseIf, Node_Else}" for s1
  proof -
    have ty: "n_type (sc_nodes s1 ! b) = t" using placingD(7) [OF that(1), of b t] by simp
    have "b < length (sc_nodes s0)" using mem by auto
    then have "b < length (sc_nodes s1)" using placingD(3) [OF that(1)] by simp
    then have "statement_ok (n_type (sc_nodes s0 ! a)) s1 b"
      using that(2) al allowed_in_not_group [OF al] by (simp add: statement_ok_def ty)
    then show ?thesis
      using placing_add [OF that(1) a, of b t] ty that(2) by (simp add: group_type_def)
  qed
  have report: "wp (report_line level b message) (\<lambda>_. ?Q) s" for level message
  proof (rule wp_report_line [OF b])
    fix e
    show "?Q (reported s e)"
      using placing_more [OF placing_same [OF p q only_reports_reported]] by simp
  qed
  consider (Sync) "t = Node_Sync" | (If) "t = Node_If" | (branch) "t = Node_ElseIf \<or> t = Node_Else"
    | (plain) "t \<notin> {Node_Sync, Node_If, Node_ElseIf, Node_Else}"
    by blast
  then show ?thesis
  proof cases
    case Sync
    note stay = placing_same [OF p q only_reports_refl]
    note ready = placing_ready [OF p q [unfolded Sync]]
    have run: "wp (structure b) (\<lambda>_ s1. placing a s0 ?seen (List.map snd seen) s1) s" if "\<not> recursive"
      by (rule wp_mono [OF sync [OF Sync that conjunct1 [OF ready] conjunct2 [OF ready]]])
        (rule placing_framed [OF p q _ Sync])
    have "wp (structure b) (\<lambda>_ s1. wp (add_block a b) (\<lambda>_. ?Q) s1) s" if "\<not> recursive"
      by (rule wp_mono [OF run [OF that]], unfold wp_add_block, rule add) (simp_all add: Sync)
    then show ?thesis
      using Sync add [OF stay] by (simp add: place_statement_def wps wp_add_block)
  next
    case If
    let ?g = "(new_node None Node_IfGroup)\<lparr>n_block := [b], n_state := Structured\<rparr>"
    let ?s1 = "s\<lparr>sc_nodes := sc_nodes s @ [?g]\<rparr>"
    note p1 = placing_alloc [OF p q, of ?g]
    have len: "length (sc_nodes s0) \<le> length (sc_nodes s)" using placingD(3) [OF p] .
    have ty: "n_type (sc_nodes ?s1 ! b) = Node_If" using placingD(7) [OF p1, of b t] If by simp
    then have "types ?s1 [b] = [Node_If]" by (simp add: types_def)
    then have "statement_ok (n_type (sc_nodes s0 ! a)) ?s1 (length (sc_nodes s))"
      using al If by (simp add: statement_ok_def new_node_def branches_ok_def)
    then have "?Q (?s1\<lparr>sc_nodes := (sc_nodes ?s1)[a := (sc_nodes ?s1 ! a)\<lparr>n_block := n_block (sc_nodes ?s1 ! a) @ [length (sc_nodes s)]\<rparr>]\<rparr>)"
      using placing_add [OF p1 a, of "length (sc_nodes s)" t] If len
      by (simp add: group_type_def new_node_def)
    then show ?thesis
      using If by (simp add: place_statement_def wps wp_add_block)
  next
    case branch
    let ?block = "n_block (sc_nodes s ! a)" and ?g = "last (n_block (sc_nodes s ! a))"
    note p1 = placing_same [OF p q only_reports_refl]
    have aN: "a < length (sc_nodes s)" using a(1) placingD(3) [OF p] by simp
    have group: "wp (type_of (last (n_block (sc_nodes s ! ?g)))) (\<lambda>branch.
        wp (if branch = Node_Else then report_line Error b (else_message ''extra'') else add_block ?g b) (\<lambda>_. ?Q)) s"
      if block: "?block \<noteq> []" and g: "n_type (sc_nodes s ! ?g) = Node_IfGroup"
    proof -
      have gm: "?g \<in> set ?block" using block by simp
      have st: "statement_ok (n_type (sc_nodes s0 ! a)) s ?g" using placingD(9) [OF p gm] .
      have notin: "?g \<notin> fst ` set ?seen"
      proof
        assume "?g \<in> fst ` set ?seen"
        then obtain u where u: "(?g, u) \<in> set ?seen" by force
        then have "(?g, u) \<in> set (?seen @ rest)" by auto
        then have "allowed_in (n_type (sc_nodes s0 ! a)) u" using placeableD [OF q'] by blast
        with placingD(7) [OF p1 u] g allowed_in_not_group show False by blast
      qed
      then have gN: "length (sc_nodes s0) \<le> ?g" and gs: "set (n_block (sc_nodes s ! ?g)) \<subseteq> fst ` set ?seen"
        using placingD(10) [OF p1 gm] by blast+
      have br: "branches_ok (types s (n_block (sc_nodes s ! ?g)))" using st g by (simp add: statement_ok_def)
      then have ne: "n_block (sc_nodes s ! ?g) \<noteq> []" by (auto simp: branches_ok_def types_def)
      then have "last (n_block (sc_nodes s ! ?g)) < length (sc_nodes s0)"
        using gs mem last_in_set by blast
      then have l: "last (n_block (sc_nodes s ! ?g)) < length (sc_nodes s)" using placingD(3) [OF p] by simp
      have lt: "last (types s (n_block (sc_nodes s ! ?g))) = n_type (sc_nodes s ! last (n_block (sc_nodes s ! ?g)))"
        using ne by (simp add: types_def last_map)
      have bt: "n_type (sc_nodes s ! b) = t" "b \<in> fst ` set ?seen" using placingD(7) [OF p1, of b t] by auto
      have "?Q (s\<lparr>sc_nodes := (sc_nodes s)[?g := (sc_nodes s ! ?g)\<lparr>n_block := n_block (sc_nodes s ! ?g) @ [b]\<rparr>]\<rparr>)"
        if "n_type (sc_nodes s ! last (n_block (sc_nodes s ! ?g))) \<noteq> Node_Else"
        using placing_more [OF placing_branch [OF p1 a mem gm g gN _ bt(2,1) branch al refl], of t] that lt by simp
      then show ?thesis
        using l report by (simp add: type_of_def wps wp_add_block)
    qed
    have gl: "?g < length (sc_nodes s)" if "?block \<noteq> []"
      using statement_ok_less [OF placingD(9) [OF p]] that by simp
    show ?thesis
      using branch aN report group gl
      by (auto simp: place_statement_def wps)
  next
    case plain
    then show ?thesis
      using add [OF placing_same [OF p q only_reports_refl]] by (simp add: place_statement_def wp_add_block)
  qed
qed

lemma place_statements_ok:
  assumes "placing a s0 seen (List.map snd seen) s" "placeable a s0 (seen @ rest)"
    and "\<And>b s. (b, Node_Sync) \<in> set rest \<Longrightarrow> \<not> recursive \<Longrightarrow> block_ready s b \<Longrightarrow>
      n_type (sc_nodes s ! b) = Node_Sync \<Longrightarrow> wp (structure b) (\<lambda>_. framed b s) s"
  shows "wp (for_each (place_statement structure recursive a) rest)
    (\<lambda>_. placing a s0 (seen @ rest) (List.map snd (seen @ rest))) s"
  using assms
proof (induction rest arbitrary: seen s)
  case (Cons x rest)
  obtain b t where x: "x = (b, t)" by (cases x)
  have "wp (place_statement structure recursive a (b, t))
      (\<lambda>_. placing a s0 (seen @ [(b, t)]) (List.map snd (seen @ [(b, t)]))) s"
    using Cons.prems by (intro place_statement_ok [where rest = rest]) (auto simp: x)
  then show ?case
    unfolding for_each.simps wp_lbind x
  proof (rule wp_mono)
    fix u s1 assume "placing a s0 (seen @ [(b, t)]) (List.map snd (seen @ [(b, t)])) s1"
    from Cons.IH [OF this] Cons.prems(2,3)
    show "wp (for_each (place_statement structure recursive a) rest)
        (\<lambda>_. placing a s0 (seen @ (b, t) # rest) (List.map snd (seen @ (b, t) # rest))) s1"
      by (simp add: x)
  qed
qed (simp add: wps)

subsection \<open>The block of a node\<close>

text \<open>
  A node is ready with its whole family, as far as \<open>sync\<close> blocks may be nested in it: the nodes of its
  block and those that are grouped below them are all different and not structured yet.
\<close>

definition syncs :: "script \<Rightarrow> nat \<Rightarrow> bool" where
  "syncs s a \<longleftrightarrow> n_type (sc_nodes s ! a) = Node_ScriptRoot \<or> n_type (sc_nodes s ! a) = Node_Class"

definition descendants :: "script \<Rightarrow> nat list \<Rightarrow> nat list" where
  "descendants s as = concat (List.map (\<lambda>c. c # n_block (sc_nodes s ! c)) as)"

definition involved :: "script \<Rightarrow> nat \<Rightarrow> nat list" where
  "involved s a = (if syncs s a then descendants s (n_block (sc_nodes s ! a)) else n_block (sc_nodes s ! a))"

definition tree_ready :: "script \<Rightarrow> nat \<Rightarrow> bool" where
  "tree_ready s a \<longleftrightarrow>
     block_ready s a \<and> distinct (a # involved s a) \<and> (\<forall>c \<in> set (involved s a). raw_node s c)"

lemma subseq_concat_map: "subseq xs ys \<Longrightarrow> subseq (concat (List.map f xs)) (concat (List.map f ys))"
  by (induction rule: list_emb.induct) (auto intro: list_emb_append_mono list_emb_append2)

lemma subseq_distinct: "subseq xs ys \<Longrightarrow> distinct ys \<Longrightarrow> distinct xs"
  by (induction rule: list_emb.induct) (auto dest: subseq_set)

lemma descendants_simps [simp]:
  "descendants s [] = []" "descendants s (a # as) = a # n_block (sc_nodes s ! a) @ descendants s as"
  "descendants s (as @ bs) = descendants s as @ descendants s bs"
  by (simp_all add: descendants_def)

lemma subseq_descendants: "subseq as (descendants s as)"
  by (induction as) (auto intro: list_emb_append2)

lemma subseq_involved: "subseq (n_block (sc_nodes s ! a)) (involved s a)"
  by (simp add: involved_def subseq_descendants)

lemma taken_family:
  "subseq (concat (List.map (\<lambda>a. a # n_block (sc_nodes s ! a) @ taken s s1 a) new))
     (descendants s (concat (List.map (\<lambda>a. a # taken s s1 a) new)))"
proof (induction new)
  case (Cons a new)
  have "subseq (taken s s1 a @ concat (List.map (\<lambda>a. a # n_block (sc_nodes s ! a) @ taken s s1 a) new))
     (descendants s (taken s s1 a) @ descendants s (concat (List.map (\<lambda>a. a # taken s s1 a) new)))"
    by (rule list_emb_append_mono [OF subseq_descendants Cons.IH])
  then show ?case by (simp add: subseq_append')
qed simp

lemma family_descendants: "subseq (family s out) (descendants s (List.map fst out))"
  by (induction out) (auto simp: members_def intro: list_emb_append_mono list_emb_append2)

lemma family_flat: "Node_Sync \<notin> snd ` set out \<Longrightarrow> family s out = List.map fst out"
  by (induction out) (auto simp: members_def)

lemma checked_types: "checked a s out s1 \<Longrightarrow> (b, t) \<in> set out \<Longrightarrow> n_type (sc_nodes s1 ! b) = t"
  unfolding checked_def by (auto simp: map_eq_conv split_beta dest: bspec)

lemma checked_member:
  assumes c: "checked a s out s1" and bt: "(b, t) \<in> set out"
  shows "b \<in> set (n_block (sc_nodes s ! a)) \<and> allowed_in (n_type (sc_nodes s ! a)) t"
proof -
  obtain new where l: "looped (n_type (sc_nodes s ! a)) (n_block (sc_nodes s ! a)) s new s1"
      and sub: "subseq (List.map fst out) new"
    using c unfolding checked_def by blast
  have "b \<in> set (List.map fst out)" using bt by force
  then have b: "b \<in> set new" using subseq_set [OF sub] by blast
  have "set (concat (List.map (\<lambda>a. a # taken s s1 a) new)) \<subseteq> set (n_block (sc_nodes s ! a))"
    using l unfolding looped_def by (blast dest: subseq_set)
  then show ?thesis using b l checked_types [OF c bt] unfolding looped_def by auto
qed

lemma checked_family:
  assumes r: "tree_ready s a" and c: "checked a s out s1"
  shows "subseq (family s1 out) (involved s a)"
    "(b, Node_Sync) \<in> set out \<Longrightarrow> g \<in> set (n_block (sc_nodes s1 ! b)) \<Longrightarrow> sc_nodes s1 ! g = sc_nodes s ! g \<and> raw_node s g"
proof -
  let ?block = "n_block (sc_nodes s ! a)"
  obtain new where k: "kept ?block s s1" and l: "looped (n_type (sc_nodes s ! a)) ?block s new s1"
      and sub: "subseq (List.map fst out) new"
    using c unfolding checked_def by blast
  have mem: "subseq (concat (List.map (\<lambda>a. a # taken s s1 a) new)) ?block"
    and block: "\<And>b. b \<in> set new \<Longrightarrow> n_block (sc_nodes s1 ! b) = n_block (sc_nodes s ! b) @ taken s s1 b \<and>
      (\<forall>c \<in> set (taken s s1 b). sc_nodes s1 ! c = sc_nodes s ! c)"
    using l unfolding looped_def by blast+
  have sync: "syncs s a" if "(b, Node_Sync) \<in> set out" for b
    using checked_member [OF c that] allowed_sync by (simp add: syncs_def)
  have deep: "subseq (family s1 out) (descendants s ?block)"
  proof -
    have "subseq (family s1 out) (descendants s1 new)"
      using family_descendants subseq_concat_map [OF sub] subseq_order.trans unfolding descendants_def by blast
    also have "descendants s1 new = concat (List.map (\<lambda>a. a # n_block (sc_nodes s ! a) @ taken s s1 a) new)"
      using block by (simp add: descendants_def cong: map_cong)
    also have "subseq \<dots> (descendants s (concat (List.map (\<lambda>a. a # taken s s1 a) new)))"
      by (rule taken_family)
    also have "subseq \<dots> (descendants s ?block)"
      using subseq_concat_map [OF mem] by (simp add: descendants_def)
    finally show ?thesis .
  qed
  have flat: "subseq (family s1 out) ?block" if "\<not> syncs s a"
  proof -
    have "family s1 out = List.map fst out" using sync that by (intro family_flat) auto
    moreover have "subseq new (concat (List.map (\<lambda>a. a # taken s s1 a) new))"
      by (induction new) (auto intro: list_emb_append2)
    ultimately show ?thesis using sub mem subseq_order.trans by metis
  qed
  show "subseq (family s1 out) (involved s a)"
    using deep flat by (simp add: involved_def)
  assume bt: "(b, Node_Sync) \<in> set out" and g: "g \<in> set (n_block (sc_nodes s1 ! b))"
  have inv: "involved s a = descendants s ?block" using sync [OF bt] by (simp add: involved_def)
  have "b \<in> set (List.map fst out)" using bt by force
  then have b: "b \<in> set new" using subseq_set [OF sub] by blast
  then have bb: "b \<in> set ?block" using subseq_set [OF mem] by auto
  show "sc_nodes s1 ! g = sc_nodes s ! g \<and> raw_node s g"
  proof (cases "g \<in> set (taken s s1 b)")
    case True
    then have "g \<in> set ?block" using b subseq_set [OF mem] by auto
    then have "raw_node s g" using r by (simp add: tree_ready_def block_ready_def)
    then show ?thesis using block [OF b] True by blast
  next
    case False
    then have gs: "g \<in> set (n_block (sc_nodes s ! b))" using g block [OF b] by simp
    obtain xs ys where "?block = xs @ b # ys" using bb by (auto simp: in_set_conv_decomp)
    then have d: "g \<in> set (descendants s ?block)" "g \<notin> set ?block"
      using gs r subseq_set [OF subseq_descendants, of xs s] subseq_set [OF subseq_descendants, of ys s]
      by (auto simp: tree_ready_def inv)
    then have raw: "raw_node s g" using r by (simp add: tree_ready_def inv)
    then have "sc_nodes s1 ! g = sc_nodes s ! g"
      using kept_facts(4) [OF k _ d(2)] by (simp add: raw_node_def)
    with raw show ?thesis by blast
  qed
qed

definition emptied :: "nat \<Rightarrow> script \<Rightarrow> script" where
  "emptied a s = s\<lparr>sc_nodes := (sc_nodes s)[a := (sc_nodes s ! a)\<lparr>n_block := []\<rparr>]\<rparr>"

lemma emptied_simps [simp]:
  "sc_context (emptied a s) = sc_context s" "length (sc_nodes (emptied a s)) = length (sc_nodes s)"
  "b \<noteq> a \<Longrightarrow> sc_nodes (emptied a s) ! b = sc_nodes s ! b"
  "a < length (sc_nodes s) \<Longrightarrow> sc_nodes (emptied a s) ! a = (sc_nodes s ! a)\<lparr>n_block := []\<rparr>"
  by (simp_all add: emptied_def)

lemma checked_placeable:
  assumes r: "tree_ready s a" and c: "checked a s out s1"
  shows "placeable a (emptied a s1) out" "placing a (emptied a s1) [] [] (emptied a s1)"
proof -
  let ?block = "n_block (sc_nodes s ! a)" and ?s2 = "emptied a s1"
  have k: "kept ?block s s1" using c by (simp add: checked_def)
  have len: "length (sc_nodes s1) = length (sc_nodes s)" using k by (simp add: kept_def)
  have al: "a < length (sc_nodes s)" "a \<notin> set ?block" and raw: "\<forall>c \<in> set (involved s a). raw_node s c"
    and dist: "distinct (a # involved s a)"
    using r by (simp_all add: tree_ready_def block_ready_def)
  have a1: "sc_nodes s1 ! a = sc_nodes s ! a" using kept_facts(4) [OF k al] .
  note fam = checked_family [OF r c]
  have fs: "set (family s1 out) \<subseteq> set (involved s a)" using subseq_set [OF fam(1)] .
  have fd: "distinct (a # family s1 out)"
    using dist fs subseq_distinct [OF fam(1)] by auto
  have ne: "b \<noteq> a" if "(b, t) \<in> set out" for b t
    using fd that family_member [of b out s1] by force
  have f2: "family ?s2 out = family s1 out"
    using ne by (auto simp: family_def members_def intro!: arg_cong [of _ _ concat])
  have table: "keyword_table ?s2"
    using r k by (simp add: tree_ready_def block_ready_def kept_def keyword_table_def)
  have less: "\<forall>c \<in> set (family s1 out). c < length (sc_nodes s)"
    using fs raw by (auto simp: raw_node_def)
  have each: "n_type (sc_nodes ?s2 ! b) = t \<and> n_line (sc_nodes ?s2 ! b) \<noteq> None \<and>
      allowed_in (n_type (sc_nodes ?s2 ! a)) t \<and> (t = Node_Sync \<longrightarrow> block_ready ?s2 b)" if bt: "(b, t) \<in> set out" for b t
  proof -
    have bb: "b \<in> set ?block" "allowed_in (n_type (sc_nodes s ! a)) t" using checked_member [OF c bt] by auto
    have rb: "raw_node s b" using bb r by (simp add: tree_ready_def block_ready_def)
    then have "has_line s b" by (auto simp: raw_node_def has_line_def)
    then have "has_line s1 b" by (simp only: kept_facts(5) [OF k])
    then have ln: "n_line (sc_nodes s1 ! b) \<noteq> None" by (simp add: has_line_def)
    have "block_ready ?s2 b" if "t = Node_Sync"
    proof -
      have bt': "(b, Node_Sync) \<in> set out" using bt that by simp
      obtain xs ys where "out = xs @ (b, t) # ys" using bt by (auto simp: in_set_conv_decomp)
      then have d: "distinct (b # n_block (sc_nodes s1 ! b))" "a \<notin> set (n_block (sc_nodes s1 ! b))"
        using fd that by (auto simp: members_def)
      have "raw_node ?s2 g" if g: "g \<in> set (n_block (sc_nodes s1 ! b))" for g
      proof -
        have "g \<noteq> a" using d(2) g by blast
        then show ?thesis using fam(2) [OF bt' g] by (simp add: raw_node_def len)
      qed
      moreover have "n_type (sc_nodes s1 ! b) = Node_Sync" using checked_types [OF c bt] that by simp
      ultimately show ?thesis
        using table d(1) rb ne [OF bt] by (simp add: block_ready_def raw_node_def len runnableContainerNodeTypes_def)
    qed
    then show ?thesis
      using checked_types [OF c bt] ln bb(2) ne [OF bt] al(1) by (simp add: len a1)
  qed
  show "placeable a ?s2 out"
    unfolding placeable_def f2 using al(1) fd less table each by (simp add: len)
  show "placing a ?s2 [] [] ?s2"
    by (rule placingI) (use al in \<open>auto simp: types_def len\<close>)
qed

text \<open>The block that is left: every statement in its place, the order checked, the groups complete.\<close>

lemma placing_block_ok:
  assumes c: "checked a s out s1" and al: "a < length (sc_nodes s)" "a \<notin> set (n_block (sc_nodes s ! a))"
    and p: "placing a (emptied a s1) out (List.map snd out) s2"
  shows "block_ok s2 a"
proof -
  have k: "kept (n_block (sc_nodes s ! a)) s s1" using c by (simp add: checked_def)
  have "length (sc_nodes s1) = length (sc_nodes s)" using k by (simp add: kept_def)
  then have ty: "n_type (sc_nodes (emptied a s1) ! a) = n_type (sc_nodes s ! a)"
    using kept_facts(4) [OF k al] al by simp
  obtain sub where sub: "subseq sub (List.map snd out)" "types s2 (n_block (sc_nodes s2 ! a)) = List.map group_type sub"
    using placingD(8) [OF p] by blast
  have "order_ok sub" using c sub(1) order_ok_subseq by (simp add: checked_def)
  moreover have "cases_ok sub" if "n_type (sc_nodes s ! a) = Node_Switch"
    using c sub(1) cases_ok_subseq that by (simp add: checked_def)
  ultimately show ?thesis
    unfolding block_ok_def Let_def using placingD(6,9) [OF p] sub(2) group_type_order group_type_cases by (simp add: ty)
qed

lemma placing_frames:
  assumes c: "checked a s out s1" and al: "a < length (sc_nodes s)" "a \<notin> set (n_block (sc_nodes s ! a))"
    and flat: "Node_Sync \<notin> snd ` set out" and p: "placing a (emptied a s1) out ts s2"
  shows "framed a s s2"
proof -
  let ?block = "n_block (sc_nodes s ! a)"
  have k: "kept ?block s s1" using c by (simp add: checked_def)
  have len: "length (sc_nodes s1) = length (sc_nodes s)" using k by (simp add: kept_def)
  have a1: "sc_nodes s1 ! a = sc_nodes s ! a" using kept_facts(4) [OF k al] .
  have "touched (emptied a s1) out = []" using flat by (induction out) auto
  note p' = placingD [OF p, unfolded this]
  have "n_line (sc_nodes s2 ! x) = n_line (sc_nodes s ! x)" if "x < length (sc_nodes s)" for x
    using p'(4) [of x] that k by (cases "x = a") (auto simp: len kept_def a1)
  moreover have "sc_nodes s2 ! x = sc_nodes s ! x" if "x < length (sc_nodes s)" "x \<noteq> a" "x \<notin> set ?block" for x
    using p'(5) [of x] kept_facts(4) [OF k that(1,3)] that by (simp add: len)
  moreover have "prefix (errors s) (errors s2)"
    using k p'(2) prefix_order.trans by (simp add: kept_def) blast
  moreover have "p_table (sc_context s2) = p_table (sc_context s)" using p'(1) k by (simp add: kept_def)
  moreover have "n_type (sc_nodes s2 ! a) = n_type (sc_nodes s ! a)" using p'(6) al(1) by (simp add: len a1)
  moreover have "length (sc_nodes s) \<le> length (sc_nodes s2)" using p'(3) by (simp add: len)
  ultimately show ?thesis
    unfolding framed_def by blast
qed

definition structured_state :: "nat \<Rightarrow> script \<Rightarrow> script" where
  "structured_state a s = s\<lparr>sc_nodes := (sc_nodes s)[a := (sc_nodes s ! a)\<lparr>n_state := Structured\<rparr>]\<rparr>"

lemma structured_state_node:
  "sc_nodes (structured_state a s) ! b =
     (if b = a \<and> a < length (sc_nodes s) then (sc_nodes s ! a)\<lparr>n_state := Structured\<rparr> else sc_nodes s ! b)"
proof (cases "a < length (sc_nodes s)")
  case False
  then have "structured_state a s = s" by (simp add: structured_state_def list_update_beyond)
  with False show ?thesis by simp
qed (simp add: structured_state_def nth_list_update)

lemma structured_state_simps [simp]:
  "sc_context (structured_state a s) = sc_context s" "length (sc_nodes (structured_state a s)) = length (sc_nodes s)"
  "b \<noteq> a \<Longrightarrow> sc_nodes (structured_state a s) ! b = sc_nodes s ! b"
  "n_type (sc_nodes (structured_state a s) ! b) = n_type (sc_nodes s ! b)"
  "n_block (sc_nodes (structured_state a s) ! b) = n_block (sc_nodes s ! b)"
  "n_line (sc_nodes (structured_state a s) ! b) = n_line (sc_nodes s ! b)"
  by (simp_all add: structured_state_node) (simp_all add: structured_state_def)

lemma wp_emptied: "wp (update_node a (\<lambda>n. n\<lparr>n_block := []\<rparr>)) Q = (\<lambda>s. Q () (emptied a s))"
  by (simp add: wps emptied_def fun_eq_iff)

lemma wp_structured: "wp (update_node a (\<lambda>n. n\<lparr>n_state := Structured\<rparr>)) Q = (\<lambda>s. Q () (structured_state a s))"
  by (simp add: wps structured_state_def fun_eq_iff)

lemma block_ok_structured: "block_ok (structured_state a s) a \<longleftrightarrow> block_ok s a"
  by (simp add: block_ok_def statement_ok_def types_def)

lemma framed_structured: "framed a s s1 \<Longrightarrow> framed a s (structured_state a s1)"
  unfolding framed_def by (auto simp: structured_state_simps)

lemma structureInnerNode_wp:
  assumes r: "tree_ready s a"
    and sync: "\<And>b s'. syncs s a \<Longrightarrow> n_type (sc_nodes s' ! b) = Node_Sync \<Longrightarrow> block_ready s' b \<Longrightarrow>
      wp (structureInnerNode depth False b) (\<lambda>_. framed b s') s'"
  shows "wp (structureInnerNode (Suc depth) False a)
    (\<lambda>_ s1. block_ok s1 a \<and> n_state (sc_nodes s1 ! a) = Structured \<and>
       n_type (sc_nodes s1 ! a) = n_type (sc_nodes s ! a) \<and> (\<not> syncs s a \<longrightarrow> framed a s s1)) s"
proof -
  have br: "block_ready s a" and al: "a < length (sc_nodes s)" "a \<notin> set (n_block (sc_nodes s ! a))"
    using r by (simp_all add: tree_ready_def block_ready_def)
  have "wp (for_each (place_statement (structureInnerNode depth False) False a) out) (\<lambda>_ s2.
      block_ok (structured_state a s2) a \<and> n_state (sc_nodes (structured_state a s2) ! a) = Structured \<and>
      n_type (sc_nodes (structured_state a s2) ! a) = n_type (sc_nodes s ! a) \<and>
      (\<not> syncs s a \<longrightarrow> framed a s (structured_state a s2))) (emptied a s1)"
    if c: "checked a s out s1" for out s1
  proof -
    note start = checked_placeable [OF r c]
    have "wp (for_each (place_statement (structureInnerNode depth False) False a) out)
        (\<lambda>_. placing a (emptied a s1) ([] @ out) (List.map snd ([] @ out))) (emptied a s1)"
    proof (rule place_statements_ok)
      fix b s' assume b: "(b, Node_Sync) \<in> set out" "block_ready s' b" "n_type (sc_nodes s' ! b) = Node_Sync"
      then have "syncs s a" using checked_member [OF c b(1)] allowed_sync by (simp add: syncs_def)
      then show "wp (structureInnerNode depth False b) (\<lambda>_. framed b s') s'" using sync b(2,3) by blast
    qed (use start in auto)
    then show ?thesis
    proof (rule wp_mono)
      fix u s2 assume "placing a (emptied a s1) ([] @ out) (List.map snd ([] @ out)) s2"
      then have p: "placing a (emptied a s1) out (List.map snd out) s2" by simp
      have "Node_Sync \<notin> snd ` set out" if "\<not> syncs s a"
        using checked_member [OF c] allowed_sync that by (fastforce simp: syncs_def)
      moreover have k: "kept (n_block (sc_nodes s ! a)) s s1" using c by (simp add: checked_def)
      then have len: "length (sc_nodes s1) = length (sc_nodes s)" by (simp add: kept_def)
      have "n_type (sc_nodes s2 ! a) = n_type (sc_nodes s ! a)"
        using placingD(6) [OF p] kept_facts(4) [OF k al] al(1) by (simp add: len)
      moreover from len have "a < length (sc_nodes s2)" using placingD(3) [OF p] al(1) by simp
      ultimately show "block_ok (structured_state a s2) a \<and> n_state (sc_nodes (structured_state a s2) ! a) = Structured \<and>
          n_type (sc_nodes (structured_state a s2) ! a) = n_type (sc_nodes s ! a) \<and>
          (\<not> syncs s a \<longrightarrow> framed a s (structured_state a s2))"
        using placing_block_ok [OF c al p] placing_frames [OF c al _ p] framed_structured
        by (simp add: block_ok_structured) (simp add: structured_state_def)
    qed
  qed
  then have "wp (checked_statements a) (\<lambda>out s1.
      wp (for_each (place_statement (structureInnerNode depth False) False a) out) (\<lambda>_ s2.
      block_ok (structured_state a s2) a \<and> n_state (sc_nodes (structured_state a s2) ! a) = Structured \<and>
      n_type (sc_nodes (structured_state a s2) ! a) = n_type (sc_nodes s ! a) \<and>
      (\<not> syncs s a \<longrightarrow> framed a s (structured_state a s2))) (emptied a s1)) s"
    by (rule wp_mono [OF checked_statements_ok [OF br]])
  then show ?thesis
    by (simp add: wps wp_emptied wp_structured)
qed

text \<open>No \<open>sync\<close> can stand in a \<open>sync\<close>, so two levels are enough.\<close>

theorem structureInnerNode_ok:
  assumes "tree_ready s a"
  shows "wp (structureInnerNode (Suc (Suc depth)) False a)
    (\<lambda>_ s1. block_ok s1 a \<and> n_state (sc_nodes s1 ! a) = Structured \<and>
       n_type (sc_nodes s1 ! a) = n_type (sc_nodes s ! a)) s"
proof (rule wp_mono [OF structureInnerNode_wp [OF assms]])
  fix b s' assume b: "n_type (sc_nodes s' ! b) = Node_Sync" "block_ready s' b"
  then have ns: "\<not> syncs s' b" by (simp add: syncs_def)
  then have "tree_ready s' b" using b(2) by (simp add: tree_ready_def involved_def block_ready_def)
  from structureInnerNode_wp [OF this] ns
  show "wp (structureInnerNode (Suc depth) False b) (\<lambda>_. framed b s') s'"
    by (blast intro: wp_mono)
qed blast

end
