(* ===== verification/Block_Properties.thy ===== *)
theory Block_Properties
  imports Block_Place Parser_Properties
begin

text \<open>
  The properties of \<open>groupScript\<close> and \<open>structureInnerNode\<close>, and the way from the lines of a script to the
  block of its root.
\<close>

subsection \<open>From the lines to the root\<close>

lemma wp_conj:
  assumes "wp m Q s" "wp m R s"
  shows "wp m (\<lambda>x s1. Q x s1 \<and> R x s1) s"
  using wp_returns [OF assms(1)] wp_value [OF assms(2)] by (auto simp: wp_def)

lemma group_loop_table:
  assumes "grouped seen reports stack s" "headers_ok lns"
  shows "wp (group_loop lns stack) (\<lambda>_ s1. p_table (sc_context s1) = p_table (sc_context s)) s"
  using assms
proof (induction lns arbitrary: seen stack s)
  case (Cons ln lns)
  let ?s = "pop_stack (l_indents ln) stack"
  have "hd ?s < length (sc_nodes s)"
    using grouped_pop [OF Cons.prems(1), of "l_indents ln"] by (simp add: grouped_def)
  note shape = group_line_shape [OF Cons.prems(2) refl this]
  show ?case
    unfolding group_loop.simps wp_lbind
  proof (rule wp_mono [OF wp_conj [OF group_line_grouped [OF Cons.prems] shape]])
    fix stack1 s1
    assume g: "grouped (seen @ [ln]) reports stack1 s1 \<and>
      (stack1 = ?s \<and> (\<exists>e. s1 = reported s e) \<or> added ln ?s s stack1 s1)"
    then have "p_table (sc_context s1) = p_table (sc_context s)"
      by (auto simp: added_def reported_def)
    then show "wp (group_loop lns stack1) (\<lambda>_ s1. p_table (sc_context s1) = p_table (sc_context s)) s1"
      using Cons.IH [OF conjunct1 [OF g]] Cons.prems(2) by simp
  qed
qed (simp add: wps)

lemma groupScript_table:
  assumes "headers_ok lns" "sc_nodes s = []"
  shows "wp (groupScript lns) (\<lambda>_ s1. p_table (sc_context s1) = p_table (sc_context s)) s"
proof -
  let ?s = "s\<lparr>sc_nodes := [new_node None Node_ScriptRoot]\<rparr>"
  have "below (sc_nodes ?s) 0 = []"
    by (simp add: below.simps new_node_def)
  then have "grouped [] (errors s) [0] ?s"
    by (simp add: grouped_def forward_def open_path_def new_node_def)
  from wp_mono [OF group_loop_table [OF this assms(1)]] assms(2) show ?thesis
    by (simp add: groupScript_def wps)
qed

lemma subseq_concat_mono:
  "(\<And>x. x \<in> set xs \<Longrightarrow> subseq (f x) (g x)) \<Longrightarrow> subseq (concat (List.map f xs)) (concat (List.map g xs))"
  by (induction xs) (auto intro: list_emb_append_mono)

lemma block_below: "forward h \<Longrightarrow> a < length h \<Longrightarrow> subseq (n_block (h ! a)) (below h a)"
proof -
  have "subseq as (concat (List.map (\<lambda>b. b # below h b) as))" for as
    by (induction as) (auto intro: list_emb_append2)
  then show "forward h \<Longrightarrow> a < length h \<Longrightarrow> ?thesis" by (simp add: below_forward)
qed

lemma groupedE:
  assumes "grouped lns reports stack s"
  obtains kept where "forward (sc_nodes s)" "0 < length (sc_nodes s)" "below (sc_nodes s) 0 = [1..<length (sc_nodes s)]"
    "List.map n_line (sc_nodes s) = None # List.map Some kept" "subseq kept lns" "errors s = reports \<longrightarrow> kept = lns"
    "n_type (sc_nodes s ! 0) = Node_ScriptRoot" "list_all (\<lambda>n. n_state n = Grouped \<and> n_tokens n = []) (sc_nodes s)"
proof -
  note g = assms [unfolded grouped_def]
  have "0 \<in> set stack" using g last_in_set by metis
  moreover have "\<forall>a \<in> set stack. a < length (sc_nodes s) \<and> below (sc_nodes s) a = [Suc a..<length (sc_nodes s)]"
    using g by (elim conjE)
  ultimately have z: "0 < length (sc_nodes s)" "below (sc_nodes s) 0 = [1..<length (sc_nodes s)]" by auto
  from g show ?thesis by (elim conjE exE) (rule that [OF _ z])
qed

lemma grouped_ready:
  assumes g: "grouped lns reports stack s" and h: "headers_ok lns" and t: "keyword_table s"
  shows "tree_ready s 0"
proof -
  let ?h = "sc_nodes s" and ?N = "length (sc_nodes s)"
  obtain kept where fw: "forward ?h" and zero: "0 < ?N" "below ?h 0 = [1..<?N]" and
    k: "List.map n_line ?h = None # List.map Some kept" "subseq kept lns" and
    ty: "n_type (?h ! 0) = Node_ScriptRoot" and toks: "list_all (\<lambda>n. n_state n = Grouped \<and> n_tokens n = []) ?h"
    using groupedE [OF g] by metis
  have N: "?N = Suc (length kept)" using arg_cong [OF k(1), of length] by simp
  have raw: "raw_node s b" if b: "b \<in> set [1..<?N]" for b
  proof -
    have bl: "b < ?N" "0 < b" using b by auto
    have "n_line (?h ! b) = (None # List.map Some kept) ! b" using bl by (simp flip: k(1))
    then have ln: "n_line (?h ! b) = Some (kept ! (b - 1))" using bl N by (simp add: nth_Cons')
    have "b - 1 < length kept" using bl N by simp
    then have "kept ! (b - 1) \<in> set lns" using subseq_set [OF k(2)] nth_mem by blast
    then have "l_tokens (kept ! (b - 1)) \<noteq> []" using headers_ok_tokens [OF h] by (auto simp: list_all_iff)
    moreover have "n_tokens (?h ! b) = []" using toks bl by (simp add: list_all_length)
    ultimately show ?thesis using bl ln by (simp add: raw_node_def)
  qed
  have d: "subseq (descendants s (n_block (?h ! 0))) (below ?h 0)"
    unfolding below_forward [OF fw zero(1)] descendants_def
  proof (rule subseq_concat_mono)
    fix b assume "b \<in> set (n_block (?h ! 0))"
    then have "b < ?N" using forwardD [OF fw zero(1)] by blast
    then show "subseq (b # n_block (?h ! b)) (b # below ?h b)" using block_below [OF fw] by simp
  qed
  have all: "set (descendants s (n_block (?h ! 0))) \<subseteq> set [1..<?N]" and
    dist: "distinct (descendants s (n_block (?h ! 0)))"
    using subseq_set [OF d] subseq_distinct [OF d] by (simp_all add: zero)
  have block: "set (n_block (?h ! 0)) \<subseteq> set [1..<?N]" "distinct (n_block (?h ! 0))"
    using subseq_set [OF subseq_descendants] subseq_distinct [OF subseq_descendants] all dist by blast+
  have "syncs s 0" by (simp add: syncs_def ty)
  moreover have "0 \<notin> set [1..<?N]" by simp
  ultimately show ?thesis
    using zero(1) t raw all dist block
    by (auto simp: tree_ready_def block_ready_def involved_def ty runnableContainerNodeTypes_def subset_iff)
qed

text \<open>A table with the predefined texts has those of all keywords.\<close>

lemma keyword_ids:
  "StringId ''Import'' = 7"
  "StringId ''Def'' = 8"
  "StringId ''Class'' = 13"
  "StringId ''Sync'' = 15"
  "StringId ''Touch'' = 16"
  "StringId ''Var'' = 17"
  "StringId ''If'' = 18"
  "StringId ''Else'' = 19"
  "StringId ''For'' = 20"
  "StringId ''While'' = 22"
  "StringId ''Switch'' = 23"
  "StringId ''Case'' = 24"
  "StringId ''Default'' = 25"
  "StringId ''Do'' = 26"
  "StringId ''Catch'' = 27"
  "StringId ''Finally'' = 28"
  "StringId ''Break'' = 29"
  "StringId ''Continue'' = 30"
  "StringId ''Return'' = 31"
  "StringId ''Throw'' = 32"
  "StringId ''Static'' = 9"
  "StringId ''Operator'' = 12"
  "StringId ''Colon'' = 34"
  "StringId ''OpenParenthesis'' = 0"
  by (rule id_at; simp add: enumerators_def enum_defs)+

lemma predefined_keywords:
  assumes "PredefinedStringIds \<le> length (idToStr (p_table (sc_context s)))"
  shows "keyword_table s"
proof -
  have "list_all (\<lambda>(sid, attr). sid < PredefinedStringIds) lineTypes"
    by (simp add: lineTypes_def keyword_ids PredefinedStringIds_value)
  then have "sid < PredefinedStringIds" if "(sid, attr) \<in> set lineTypes" for sid attr
    using that by (auto simp: list_all_iff)
  then show ?thesis
    using assms less_le_trans unfolding keyword_table_def table_ref_def by (metis (mono_tags, lifting) case_prodI2)
qed


text \<open>Grouping and structuring, one after the other.\<close>

lemma lines_from_second:
  assumes "List.map n_line h = None # List.map Some lns"
  shows "List.map (\<lambda>a. n_line (h ! a)) [1..<length h] = List.map Some lns"
proof (rule nth_equalityI)
  have N: "length h = Suc (length lns)" using arg_cong [OF assms, of length] by simp
  then show "length (List.map (\<lambda>a. n_line (h ! a)) [1..<length h]) = length (List.map Some lns)"
    by (simp del: upt_Suc)
  fix i assume "i < length (List.map (\<lambda>a. n_line (h ! a)) [1..<length h])"
  then have i: "Suc i < length h" by simp
  then have "n_line (h ! Suc i) = (None # List.map Some lns) ! Suc i" by (simp flip: assms)
  then show "List.map (\<lambda>a. n_line (h ! a)) [1..<length h] ! i = List.map Some lns ! i"
    using i nth_upt [of 1 i "length h"] by (simp del: upt_Suc)
qed

lemma script_wp:
  assumes "headers_ok lns" "sc_nodes s = []" "PredefinedStringIds \<le> length (idToStr (p_table (sc_context s)))"
  shows "wp (lbind (groupScript lns) (\<lambda>root. lbind (structureInnerNode 2 False root) (\<lambda>_. lret root)))
    (\<lambda>root s1. root = 0 \<and> n_type (sc_nodes s1 ! 0) = Node_ScriptRoot \<and> block_ok s1 0) s"
  unfolding wp_lbind
proof (rule wp_mono [OF wp_conj [OF groupScript_grouped [OF assms(1,2)] groupScript_table [OF assms(1,2)]]])
  fix root :: nat and s1
  assume r: "(root = 0 \<and> (\<exists>stack. grouped lns (errors s) stack s1)) \<and> p_table (sc_context s1) = p_table (sc_context s)"
  then obtain stack where g: "grouped lns (errors s) stack s1" by blast
  have "keyword_table s1" using predefined_keywords [of s1] assms(3) r by simp
  note ready = grouped_ready [OF g assms(1) this]
  have ty: "n_type (sc_nodes s1 ! 0) = Node_ScriptRoot" using groupedE [OF g] by metis
  show "wp (structureInnerNode 2 False root) (\<lambda>_. wp (lret root)
      (\<lambda>root s1. root = 0 \<and> n_type (sc_nodes s1 ! 0) = Node_ScriptRoot \<and> block_ok s1 0)) s1"
    unfolding numeral_2_eq_2
    by (rule wp_mono [OF structureInnerNode_ok [of s1 root 0]]) (use r ready ty in \<open>auto simp: wp_lret\<close>)
qed

text \<open>The tokens of statements with those of the lines in their blocks; and all tokens of a block.\<close>

definition statement_tokens :: "script \<Rightarrow> script \<Rightarrow> (nat \<times> node_type) list \<Rightarrow> token_ptr list" where
  "statement_tokens s s1 out =
     concat (List.map (\<lambda>(b, _). n_tokens (sc_nodes s1 ! b) @
       concat (List.map line_tokens (block_lines s (taken s s1 b)))) out)"

definition block_tokens :: "script \<Rightarrow> nat \<Rightarrow> token_ptr list" where
  "block_tokens s a = concat (List.map line_tokens (block_lines s (n_block (sc_nodes s ! a))))"

lemma checked_tokens:
  assumes "checked a s out s1"
  shows "errors s1 = errors s \<longrightarrow>
    statement_tokens s s1 out =
    block_tokens s a"
proof
  assume e: "errors s1 = errors s"
  then obtain new where "looped (n_type (sc_nodes s ! a)) (n_block (sc_nodes s ! a)) s new s1" "List.map fst out = new"
    using assms unfolding checked_def by blast
  then have "concat (List.map (\<lambda>b. n_tokens (sc_nodes s1 ! b) @
      concat (List.map line_tokens (block_lines s (taken s s1 b)))) (List.map fst out)) =
      block_tokens s a"
    using e unfolding looped_def block_tokens_def by blast
  then show "statement_tokens s s1 out = block_tokens s a"
    by (simp add: statement_tokens_def comp_def case_prod_unfold del: map_eq_conv)
qed

text \<open>Every header of a definition takes one line of the block it stands in.\<close>

definition single_headers :: "script \<Rightarrow> bool" where
  "single_headers s \<longleftrightarrow>
     (\<forall>a < length (sc_nodes s). \<forall>i < length (n_block (sc_nodes s ! a)).
        is_header (sc_nodes s ! (n_block (sc_nodes s ! a) ! i)) \<longrightarrow>
        wrapped_lines True (drop i (block_lines s (n_block (sc_nodes s ! a)))) = 1)"

lemma header_wp:
  assumes "headers_ok lns" "sc_nodes s = []"
  shows "wp (groupScript lns) (\<lambda>root s1. root = 0 \<and> (errors s1 = errors s \<longrightarrow> single_headers s1)) s"
proof (rule wp_mono [OF wp_conj [OF groupScript_grouped [OF assms] groupScript_headers [OF assms]]])
  fix root s1
  assume r: "(root = 0 \<and> (\<exists>stack. grouped lns (errors s) stack s1)) \<and> (errors s1 = errors s \<longrightarrow>
      (\<forall>a < length (sc_nodes s1). Block_Facts.closes (sc_nodes s1) (n_block (sc_nodes s1 ! a))))"
  then obtain stack where g: "grouped lns (errors s) stack s1" by blast
  obtain kept where fw: "forward (sc_nodes s1)" and k: "List.map n_line (sc_nodes s1) = None # List.map Some kept"
    using groupedE [OF g] by metis
  have ind: "n_indents (sc_nodes s1 ! b) = l_indents (the (n_line (sc_nodes s1 ! b)))" if "0 < b" "b < length (sc_nodes s1)" for b
  proof -
    have "n_line (sc_nodes s1 ! b) = (None # List.map Some kept) ! b" using that by (simp flip: k)
    moreover have "length (sc_nodes s1) = Suc (length kept)" using arg_cong [OF k, of length] by simp
    ultimately show ?thesis using that by (simp add: n_indents_def nth_Cons')
  qed
  show "root = 0 \<and> (errors s1 = errors s \<longrightarrow> single_headers s1)"
    unfolding single_headers_def
  proof (intro conjI allI impI)
    fix a i
    let ?b = "n_block (sc_nodes s1 ! a)"
    assume e: "errors s1 = errors s" and a: "a < length (sc_nodes s1)" and i: "i < length ?b" and h: "is_header (sc_nodes s1 ! (?b ! i))"
    have c: "Block_Facts.closes (sc_nodes s1) ?b" using r e a by blast
    have pos: "0 < ?b ! j \<and> ?b ! j < length (sc_nodes s1)" if "j < length ?b" for j
      using forwardD [OF fw a nth_mem [OF that]] by simp
    show "wrapped_lines True (drop i (block_lines s1 ?b)) = 1"
    proof (cases "Suc i < length ?b")
      case True
      have "drop i (block_lines s1 ?b) = block_lines s1 ?b ! i # block_lines s1 ?b ! Suc i # drop (Suc (Suc i)) (block_lines s1 ?b)"
        using True i by (simp add: Cons_nth_drop_Suc [of _ "block_lines s1 ?b", unfolded block_lines_def length_map] block_lines_def del: nth_map)
      moreover have "n_indents (sc_nodes s1 ! (?b ! Suc i)) \<le> n_indents (sc_nodes s1 ! (?b ! i))"
        using c True h unfolding Block_Facts.closes_def by blast
      ultimately show ?thesis
        using pos [OF i] pos [OF True] ind i True by (simp add: wrapped_lines_def block_lines_def)
    next
      case False
      then have "drop i (block_lines s1 ?b) = [block_lines s1 ?b ! i]"
        using i by (simp add: block_lines_def drop_map id_take_nth_drop Cons_nth_drop_Suc [symmetric])
      then show ?thesis by (simp add: wrapped_lines_def)
    qed
  qed (use r in blast)
qed

subsection \<open>A script\<close>

definition row :: "nat \<Rightarrow> nat \<Rightarrow> nat list \<Rightarrow> line" where
  "row n indents sids = \<lparr>l_containsError = False, l_fileName = ''a.cha'', l_lineNo = n, l_line = [],
     l_indents = indents, l_tokens = List.map (\<lambda>(i, sid). \<lparr>t_index = i, t_first = i, t_last = i,
       t_type = TokenName, t_sid = sid, t_literal = []\<rparr>) (zip [0..<length sids] sids)\<rparr>"

text \<open>\<open>if x\<close>, with \<open>x\<close> in its block, and \<open>else\<close>, with \<open>x\<close> in its block.\<close>

definition sample_rows :: "line list" where
  "sample_rows =
    [row 1 0 [StringId ''If'', 300], row 2 1 [300], row 3 0 [StringId ''Else''], row 4 1 [300]]"

definition sample_script :: script where
  "sample_script = \<lparr>sc_context = \<lparr>p_errors = [],
     p_table = \<lparr>baseVersion = 0, version = 0, strToId = [], idToStr = replicate PredefinedStringIds []\<rparr>\<rparr>,
     sc_nodes = []\<rparr>"

lemma wp_structure_loop_simps:
  "wp (structure_loop parent e [] out) Q = Q out"
  "wp (structure_loop parent e (b # block) out) Q =
     wp (structure_step parent e (b # block)) (\<lambda>r s1.
        case r of
          Mismatch \<Rightarrow> Q [] s1
        | Skip k \<Rightarrow> wp (structure_loop parent e (drop k (b # block)) out) Q s1
        | Emit k \<Rightarrow> wp (structure_loop parent e (drop k (b # block)) (out @ [b])) Q s1)"
proof -
  show "wp (structure_loop parent e [] out) Q = Q out" by (simp add: fun_eq_iff wp_structure_loop)
  show "wp (structure_loop parent e (b # block) out) Q =
     wp (structure_step parent e (b # block)) (\<lambda>r s1.
        case r of
          Mismatch \<Rightarrow> Q [] s1
        | Skip k \<Rightarrow> wp (structure_loop parent e (drop k (b # block)) out) Q s1
        | Emit k \<Rightarrow> wp (structure_loop parent e (drop k (b # block)) (out @ [b])) Q s1)"
    apply (rule ext)
    apply (subst wp_structure_loop)
    unfolding list.sel by simp
qed

lemmas group_execution = groupScript_def group_line_def Let_def pop_stack_def sidMatches_def keyword_ids
  add_block_def add_symbol_def new_node_def names_definition_def name_token_def nextToken_def is_name_def
  tokenMatches_def wps

lemma sample_groups:
  "wp (groupScript sample_rows) (\<lambda>root s1. root = 0 \<and> errors s1 = [] \<and>
     List.map n_block (sc_nodes s1) = [[1,2,3,4],[],[],[],[]]) sample_script"
  by (simp add: sample_rows_def row_def sample_script_def group_execution)

lemma line_type_of:
  "map_of lineTypes 18 = Some (line_attr Node_If True parentType_normalSentence)"
  "map_of lineTypes 19 = Some (line_attr Node_Else True parentType_normalSentence)"
  "map_of lineTypes 300 = None"
  by (simp_all add: lineTypes_def keyword_ids)

lemmas structure_execution = line_type_of checked_statements_def structure_step_def look_ahead_def deref_def
  labelled_def line_attr_def keyword_statement_def expression_statement_def combineWrappedLines_def
  wrapped_lines_def combined_pointers_def statement_type_def check_empty_def type_of_def
  place_statement_def is_catch_def leaves_def runnableContainerNodeTypes_def runnableNodeTypes_def
  parentType_normalSentence_def parentType_normalSentenceAndSwitch_def expressionParentType_def
  line_tokens_def wp_structure_loop_simps

lemma sample_block:
  "wp (lbind (groupScript sample_rows) (\<lambda>root. lbind (structureInnerNode 2 False root) (\<lambda>_. lret root)))
     (\<lambda>root s1. errors s1 = [] \<and> n_block (sc_nodes s1 ! root) = [5] \<and> n_block (sc_nodes s1 ! 5) = [1, 3] \<and>
       List.map n_type (sc_nodes s1) = [Node_ScriptRoot, Node_If, Node_Unknown, Node_Else, Node_Unknown,
         Node_IfGroup]) sample_script"
  by (simp add: sample_rows_def row_def sample_script_def group_execution structure_execution numeral_2_eq_2)

lemma sample_statements:
  "wp (lbind (groupScript sample_rows) checked_statements)
     (\<lambda>out s1. errors s1 = [] \<and> List.map fst out = [1, 3]) sample_script"
  by (simp add: sample_rows_def row_def sample_script_def group_execution structure_execution)

text \<open>A header that is wrapped to the next line.\<close>

definition wrapped_rows :: "line list" where
  "wrapped_rows = [row 1 0 [StringId ''Def'', 300], row 2 2 [301]]"

lemma wrapped_groups:
  "wp (groupScript wrapped_rows) (\<lambda>root s1. root = 0 \<and> errors s1 = [] \<and>
     List.map n_block (sc_nodes s1) = [[1], [2], []] \<and> n_type (sc_nodes s1 ! 1) = Node_Def) sample_script"
  by (simp add: wrapped_rows_def row_def sample_script_def group_execution)

lemma wrapped_rows_ok: "headers_ok wrapped_rows"
  by (simp add: wrapped_rows_def row_def is_definition_def keyword_ids)

subsection \<open>Properties\<close>

lemma sample_rows_ok: "headers_ok sample_rows" "sc_nodes sample_script = []"
    "PredefinedStringIds \<le> length (idToStr (p_table (sc_context sample_script)))"
  by (simp_all add: sample_rows_def row_def sample_script_def is_definition_def keyword_ids)

lemma sample_ready:
  obtains s1 where "groupScript sample_rows sample_script = Some (Inr 0, s1)" "tree_ready s1 0" "errors s1 = []"
proof -
  have "wp (groupScript sample_rows) (\<lambda>root s1. root = 0 \<and> tree_ready s1 0 \<and> errors s1 = []) sample_script"
  proof (rule wp_mono [OF wp_conj [OF wp_conj [OF groupScript_grouped groupScript_table] sample_groups]])
    fix root s1
    assume r: "((root = 0 \<and> (\<exists>stack. grouped sample_rows (errors sample_script) stack s1)) \<and>
        p_table (sc_context s1) = p_table (sc_context sample_script)) \<and>
      root = 0 \<and> errors s1 = [] \<and> List.map n_block (sc_nodes s1) = [[1,2,3,4],[],[],[],[]]"
    then have "keyword_table s1" using predefined_keywords [of s1] sample_rows_ok(3) by simp
    with r show "root = 0 \<and> tree_ready s1 0 \<and> errors s1 = []"
      using grouped_ready [OF _ sample_rows_ok(1)] by blast
  qed (rule sample_rows_ok)+
  from wp_returns [OF this] show ?thesis using that by blast
qed

text \<open>
  C16: \<open>groupScript\<close> returns, and the nodes below the root, in the order of their blocks, have the lines
  of the script in the order of the script; a line is missing only if something was reported.
\<close>
theorem grouping_preorder:
  assumes "headers_ok lns" "sc_nodes s = []"
  shows "\<exists>s1 lns1. groupScript lns s = Some (Inr 0, s1) \<and> subseq lns1 lns \<and>
    List.map (\<lambda>a. n_line (sc_nodes s1 ! a)) (below (sc_nodes s1) 0) = List.map Some lns1 \<and>
    (errors s1 = errors s \<longrightarrow> lns1 = lns)"
proof -
  obtain s1 stack where run: "groupScript lns s = Some (Inr 0, s1)" and g: "grouped lns (errors s) stack s1"
    using wp_returns [OF groupScript_grouped [OF assms]] by blast
  obtain kept where z: "below (sc_nodes s1) 0 = [1..<length (sc_nodes s1)]" and
    k: "List.map n_line (sc_nodes s1) = None # List.map Some kept" "subseq kept lns" "errors s1 = errors s \<longrightarrow> kept = lns"
    using groupedE [OF g] by metis
  have "List.map (\<lambda>a. n_line (sc_nodes s1 ! a)) (below (sc_nodes s1) 0) = List.map Some kept"
    unfolding z lines_from_second [OF k(1)] ..
  with run k show ?thesis by blast
qed

lemma grouping_preorder_witness:
  "\<exists>s1. groupScript sample_rows sample_script = Some (Inr 0, s1) \<and>
     List.map (\<lambda>a. n_line (sc_nodes s1 ! a)) (below (sc_nodes s1) 0) = List.map Some sample_rows"
proof -
  obtain s1 where s1: "groupScript sample_rows sample_script = Some (Inr 0, s1)" "errors s1 = []"
    using wp_returns [OF sample_groups] by blast
  moreover have "errors sample_script = []" by (simp add: sample_script_def)
  ultimately show ?thesis
    using grouping_preorder [OF sample_rows_ok(1,2)] by auto
qed

text \<open>
  C14: \<open>structureInnerNode\<close> returns on every block of lines that is not structured yet. In the block it
  leaves, every statement is of a type that may stand in such a block; \<open>else\<close> stands only in a group
  that begins with \<open>if\<close>, and only at its end; nothing follows a statement that leaves the block but
  \<open>catch\<close> and \<open>finally\<close>, which are at the end, \<open>finally\<close> once and last; in a \<open>switch\<close> no \<open>case\<close> follows
  \<open>default\<close>.
\<close>
theorem block_in_order:
  assumes "tree_ready s a"
  shows "\<exists>s1. structureInnerNode (Suc (Suc depth)) False a s = Some (Inr (), s1) \<and> block_ok s1 a \<and>
    n_state (sc_nodes s1 ! a) = Structured"
proof -
  obtain u s1 where "structureInnerNode (Suc (Suc depth)) False a s = Some (Inr u, s1)"
      "block_ok s1 a \<and> n_state (sc_nodes s1 ! a) = Structured \<and> n_type (sc_nodes s1 ! a) = n_type (sc_nodes s ! a)"
    using wp_returns [OF structureInnerNode_ok [OF assms]] by blast
  moreover have "u = ()" by simp
  ultimately show ?thesis by blast
qed

lemma block_in_order_witness:
  "\<exists>s1 s2. groupScript sample_rows sample_script = Some (Inr 0, s1) \<and>
     structureInnerNode (Suc (Suc 0)) False 0 s1 = Some (Inr (), s2) \<and> block_ok s2 0"
proof -
  obtain s1 where s1: "groupScript sample_rows sample_script = Some (Inr 0, s1)" "tree_ready s1 0"
    by (rule sample_ready)
  from block_in_order [OF s1(2), of 0] s1(1) show ?thesis by blast
qed

text \<open>
  C13: the lines of a script, grouped and structured: where every line has tokens and no \<open>def\<close> or \<open>class\<close>
  stands alone, \<open>groupScript\<close> and then \<open>structureInnerNode\<close> on the root return, and the block of the
  root is in order.
\<close>
theorem script_structured:
  assumes "headers_ok lns" "sc_nodes s = []" "PredefinedStringIds \<le> length (idToStr (p_table (sc_context s)))"
  shows "\<exists>s1. lbind (groupScript lns) (\<lambda>root. lbind (structureInnerNode 2 False root) (\<lambda>_. lret root)) s =
      Some (Inr 0, s1) \<and> n_type (sc_nodes s1 ! 0) = Node_ScriptRoot \<and> block_ok s1 0"
  using wp_returns [OF script_wp [OF assms]] by auto

lemma script_structured_witness:
  "\<exists>s1. lbind (groupScript sample_rows) (\<lambda>root. lbind (structureInnerNode 2 False root) (\<lambda>_. lret root))
      sample_script = Some (Inr 0, s1) \<and> errors s1 = [] \<and> n_block (sc_nodes s1 ! 0) = [5] \<and> block_ok s1 0"
proof -
  obtain s1 where s1: "lbind (groupScript sample_rows) (\<lambda>root. lbind (structureInnerNode 2 False root) (\<lambda>_. lret root))
      sample_script = Some (Inr 0, s1)" "block_ok s1 0"
    using script_structured [OF sample_rows_ok] by blast
  from wp_value [OF sample_block s1(1)] have "errors s1 = []" "n_block (sc_nodes s1 ! 0) = [5]" by simp_all
  with s1 show ?thesis by blast
qed

text \<open>
  C15: no token is lost. Where the statements of a block are taken from its lines without a report,
  the tokens of the statements and of the lines that went into their blocks are, one after the other,
  all tokens of the lines.
\<close>
theorem structure_keeps_tokens:
  assumes "block_ready s a"
  shows "\<exists>out s1. checked_statements a s = Some (Inr out, s1) \<and>
    (errors s1 = errors s \<longrightarrow> statement_tokens s s1 out = block_tokens s a)"
proof -
  obtain out s1 where "checked_statements a s = Some (Inr out, s1)" "checked a s out s1"
    using wp_returns [OF checked_statements_ok [OF assms]] by blast
  then show ?thesis using checked_tokens by blast
qed

lemma structure_keeps_tokens_witness:
  "\<exists>s1 out s2. groupScript sample_rows sample_script = Some (Inr 0, s1) \<and>
     checked_statements 0 s1 = Some (Inr out, s2) \<and> List.map fst out = [1, 3] \<and>
     statement_tokens s1 s2 out = block_tokens s1 0"
proof -
  obtain s1 where s1: "groupScript sample_rows sample_script = Some (Inr 0, s1)" "tree_ready s1 0" "errors s1 = []"
    by (rule sample_ready)
  then have "block_ready s1 0" by (simp add: tree_ready_def)
  from structure_keeps_tokens [OF this] obtain out s2 where
    r: "checked_statements 0 s1 = Some (Inr out, s2)" "errors s2 = errors s1 \<longrightarrow> statement_tokens s1 s2 out = block_tokens s1 0" by blast
  have "wp (checked_statements 0) (\<lambda>out s2. errors s2 = [] \<and> List.map fst out = [1, 3]) s1"
    using wp_value [OF sample_statements [unfolded wp_lbind] s1(1)] .
  from wp_value [OF this r(1)] have e: "errors s2 = errors s1" and o: "List.map fst out = [1, 3]"
    using s1(3) by simp_all
  from s1(1) r(1) o mp [OF r(2) e] show ?thesis by (intro exI conjI)
qed

text \<open>
  C17: the header of a \<open>def\<close> or \<open>class\<close> cannot be wrapped: where \<open>groupScript\<close> reports nothing, the header
  is one line, however the lines below it are indented; they belong to its body.
\<close>
theorem header_not_wrapped:
  assumes "headers_ok lns" "sc_nodes s = []"
  shows "\<exists>s1. groupScript lns s = Some (Inr 0, s1) \<and>
    (errors s1 = errors s \<longrightarrow> single_headers s1)"
  using wp_returns [OF header_wp [OF assms]] by blast

lemma header_not_wrapped_witness:
  "\<exists>s1. groupScript wrapped_rows sample_script = Some (Inr 0, s1) \<and> n_block (sc_nodes s1 ! 0) = [1] \<and>
     n_block (sc_nodes s1 ! 1) = [2] \<and> wrapped_lines True (block_lines s1 [1]) = 1"
proof -
  from wp_returns [OF wrapped_groups] obtain root s1 where
    h: "groupScript wrapped_rows sample_script = Some (Inr root, s1) \<and> root = 0 \<and> errors s1 = [] \<and>
      List.map n_block (sc_nodes s1) = [[1], [2], []] \<and> n_type (sc_nodes s1 ! 1) = Node_Def" by (elim exE)
  have root: "root = 0" using h by (elim conjE)
  have run: "groupScript wrapped_rows sample_script = Some (Inr 0, s1)" using h unfolding root by (elim conjE)
  from h have s1: "errors s1 = []" "List.map n_block (sc_nodes s1) = [[1], [2], []]" "n_type (sc_nodes s1 ! 1) = Node_Def"
    by - (elim conjE, assumption)+
  have len: "length (sc_nodes s1) = 3" using arg_cong [OF s1(2), of length] by simp
  have "List.map n_block (sc_nodes s1) ! 0 = [1]" "List.map n_block (sc_nodes s1) ! 1 = [2]" by (simp_all add: s1(2))
  then have b: "n_block (sc_nodes s1 ! 0) = [1]" "n_block (sc_nodes s1 ! 1) = [2]" using len by simp_all
  have e: "errors sample_script = []" by (simp add: sample_script_def)
  obtain s2 where s2: "groupScript wrapped_rows sample_script = Some (Inr 0, s2)"
      "errors s2 = errors sample_script \<longrightarrow> single_headers s2"
    using header_not_wrapped [OF wrapped_rows_ok sample_rows_ok(2)] by blast
  then have "s2 = s1" using run by simp
  with s2(2) s1(1) e have "single_headers s1" by simp
  then have all: "\<forall>i < length (n_block (sc_nodes s1 ! 0)).
      is_header (sc_nodes s1 ! (n_block (sc_nodes s1 ! 0) ! i)) \<longrightarrow>
      wrapped_lines True (drop i (block_lines s1 (n_block (sc_nodes s1 ! 0)))) = 1"
    using len unfolding single_headers_def by simp
  from spec [OF all, of 0] have "wrapped_lines True (block_lines s1 [1]) = 1"
    using s1(3) by (simp add: b is_header_def)
  with run b show ?thesis by blast
qed

end
