(* ===== verification/Statement_Parser.thy ===== *)
theory Statement_Parser
  imports Block_Structure
begin

text \<open>
  Statements (the tables of \<open>initializeStTables\<close>, the checks of the pieces, \<open>extractStatementPiece\<close> and the
  loop of \<open>parseInnerNode\<close> in \<open>chatra_core/Parser.cpp\<close>). The rest of the tokens of a statement, from the
  iterator to the end, is a list; a piece takes tokens from its front.
\<close>

subsection \<open>Places of the pieces\<close>

definition Import_Alias :: nat where "Import_Alias = 0"
definition Import_Package :: nat where "Import_Package = 1"
definition Import_SubNodes :: nat where "Import_SubNodes = 2"

definition Def_Static :: nat where "Def_Static = 0"
definition Def_Name :: nat where "Def_Name = 1"
definition Def_Variation :: nat where "Def_Variation = 2"
definition Def_Parameter :: nat where "Def_Parameter = 3"
definition Def_Operator :: nat where "Def_Operator = 4"
definition Def_OperatorParameter :: nat where "Def_OperatorParameter = 5"
definition Def_Delete :: nat where "Def_Delete = 6"
definition Def_Qualifiers :: nat where "Def_Qualifiers = 7"
definition Def_SubNodes :: nat where "Def_SubNodes = 8"

definition Class_Static :: nat where "Class_Static = 0"
definition Class_Name :: nat where "Class_Name = 1"
definition Class_Extends :: nat where "Class_Extends = 2"
definition Class_BaseClassList :: nat where "Class_BaseClassList = 3"
definition Class_SubNodes :: nat where "Class_SubNodes = 4"

definition Var_Static :: nat where "Var_Static = 0"
definition Var_Definitions :: nat where "Var_Definitions = 1"
definition Var_Qualifiers :: nat where "Var_Qualifiers = 2"
definition Var_SubNodes :: nat where "Var_SubNodes = 3"

definition For_LoopVariable :: nat where "For_LoopVariable = 0"
definition For_Label :: nat where "For_Label = 1"
definition For_Iterator :: nat where "For_Iterator = 2"
definition For_Iterable :: nat where "For_Iterable = 3"
definition For_SubNodes :: nat where "For_SubNodes = 4"

definition While_Label :: nat where "While_Label = 0"
definition While_Condition :: nat where "While_Condition = 1"
definition While_SubNodes :: nat where "While_SubNodes = 2"

definition Catch_Label :: nat where "Catch_Label = 0"
definition Catch_ClassList :: nat where "Catch_ClassList = 1"
definition Catch_SubNodes :: nat where "Catch_SubNodes = 2"

lemmas subnode_defs = Import_Alias_def Import_Package_def Import_SubNodes_def Def_Static_def Def_Name_def
  Def_Variation_def Def_Parameter_def Def_Operator_def Def_OperatorParameter_def Def_Delete_def
  Def_Qualifiers_def Def_SubNodes_def Class_Static_def Class_Name_def Class_Extends_def
  Class_BaseClassList_def Class_SubNodes_def Var_Static_def Var_Definitions_def Var_Qualifiers_def
  Var_SubNodes_def For_LoopVariable_def For_Label_def For_Iterator_def For_Iterable_def For_SubNodes_def
  While_Label_def While_Condition_def While_SubNodes_def Catch_Label_def Catch_ClassList_def
  Catch_SubNodes_def

subsection \<open>Statement tables\<close>

datatype (plugins only: code) st_piece =
    St_Token | St_Name | St_VariationName | St_Label | St_LabelWithColon | St_StorageClassSpecifier
  | St_Expression | St_TupleExpression | St_ParameterList | St_Qualifiers | St_ClassList
  | St_VarDefinitions | St_ForLoopVariables | St_OperatorParameter

text \<open>\<open>subNodeIndex\<close> is \<open>None\<close> for \<open>SIZE_MAX\<close>.\<close>

record pattern_element =
  pe_type :: st_piece
  pe_token :: nat
  pe_required :: bool
  subNodeIndex :: "nat option"
  errorMessage :: string

record statement_attributes =
  sa_subNodes :: nat
  skipTokens :: nat
  sa_pattern :: "pattern_element list"

definition piece_of :: "st_piece \<Rightarrow> nat \<Rightarrow> bool \<Rightarrow> nat option \<Rightarrow> string \<Rightarrow> pattern_element" where
  "piece_of type token required k message = \<lparr>pe_type = type, pe_token = token, pe_required = required,
     subNodeIndex = k, errorMessage = message\<rparr>"

definition optional_piece :: "st_piece \<Rightarrow> nat \<Rightarrow> pattern_element" where
  "optional_piece type k = piece_of type StringId_Invalid False (Some k) []"

definition required_piece :: "st_piece \<Rightarrow> nat \<Rightarrow> string \<Rightarrow> pattern_element" where
  "required_piece type k message = piece_of type StringId_Invalid True (Some k) message"

definition statement_attr :: "nat \<Rightarrow> nat \<Rightarrow> pattern_element list \<Rightarrow> statement_attributes" where
  "statement_attr subs skip pattern = \<lparr>sa_subNodes = subs, skipTokens = skip, sa_pattern = pattern\<rparr>"

definition expected_in :: string where
  "expected_in = ''expected '' @ [CHR 0x22] @ ''in'' @ [CHR 0x22]"

definition sourceForStAttrs :: "(node_type \<times> statement_attributes) list" where
  "sourceForStAttrs = [
     (Node_Import, statement_attr Import_SubNodes 1 [
        optional_piece St_LabelWithColon Import_Alias,
        required_piece St_Name Import_Package ''expected package name'']),
     (Node_Def, statement_attr Def_SubNodes 1 [
        optional_piece St_StorageClassSpecifier Def_Static,
        optional_piece St_Name Def_Name,
        optional_piece St_VariationName Def_Variation,
        required_piece St_ParameterList Def_Parameter ''expected parameter list'',
        optional_piece St_VariationName Def_Operator,
        optional_piece St_ParameterList Def_OperatorParameter,
        piece_of St_Token (StringId ''Delete'') False (Some Def_Delete) [],
        optional_piece St_Qualifiers Def_Qualifiers]),
     (Node_DefOperator, statement_attr 1 2 [
        required_piece St_OperatorParameter 0 ''expected operator parameter set'']),
     (Node_Class, statement_attr Class_SubNodes 1 [
        optional_piece St_StorageClassSpecifier Class_Static,
        required_piece St_Name Class_Name ''expected class name'',
        piece_of St_Token (StringId ''Extends'') False (Some Class_Extends) [],
        optional_piece St_ClassList Class_BaseClassList]),
     (Node_Expression, statement_attr 1 0 [required_piece St_Expression 0 ''expected expression'']),
     (Node_Sync, statement_attr 0 1 []),
     (Node_Touch, statement_attr 1 1 [required_piece St_Expression 0 ''expected expression'']),
     (Node_Var, statement_attr Var_SubNodes 1 [
        optional_piece St_StorageClassSpecifier Var_Static,
        required_piece St_VarDefinitions Var_Definitions ''expected variable definitions'',
        optional_piece St_Qualifiers Var_Qualifiers]),
     (Node_IfGroup, statement_attr 0 0 []),
     (Node_If, statement_attr 1 1 [required_piece St_Expression 0 ''expected expression'']),
     (Node_ElseIf, statement_attr 1 2 [required_piece St_Expression 0 ''expected expression'']),
     (Node_Else, statement_attr 0 1 []),
     (Node_For, statement_attr For_SubNodes 0 [
        optional_piece St_LabelWithColon For_Label,
        piece_of St_Token (StringId ''For'') True None [],
        optional_piece St_LabelWithColon For_Iterator,
        optional_piece St_ForLoopVariables For_LoopVariable,
        piece_of St_Token (StringId ''In'') True None expected_in,
        required_piece St_Expression For_Iterable ''expected expression'']),
     (Node_While, statement_attr While_SubNodes 0 [
        optional_piece St_LabelWithColon While_Label,
        piece_of St_Token (StringId ''While'') True None [],
        required_piece St_Expression While_Condition ''expected expression'']),
     (Node_Switch, statement_attr 1 1 [required_piece St_Expression 0 ''expected expression'']),
     (Node_Case, statement_attr 1 1 [required_piece St_Expression 0 ''expected expression'']),
     (Node_Default, statement_attr 0 1 []),
     (Node_Do, statement_attr 0 1 []),
     (Node_Catch, statement_attr Catch_SubNodes 1 [
        optional_piece St_LabelWithColon Catch_Label,
        required_piece St_ClassList Catch_ClassList ''expected exception-class list'']),
     (Node_Finally, statement_attr 0 1 []),
     (Node_Break, statement_attr 1 1 [optional_piece St_Label 0]),
     (Node_Continue, statement_attr 1 1 [optional_piece St_Label 0]),
     (Node_Return, statement_attr 1 1 [optional_piece St_TupleExpression 0]),
     (Node_Throw, statement_attr 1 1 [optional_piece St_Expression 0])]"

text \<open>The entries that the table does not name are empty.\<close>

definition getStAttr :: "node_type \<Rightarrow> statement_attributes" where
  "getStAttr type =
     (case map_of sourceForStAttrs type of None \<Rightarrow> statement_attr 0 0 [] | Some attr \<Rightarrow> attr)"

subsection \<open>Checks of the pieces\<close>

text \<open>Tokens of a node, read through the pointers of the code.\<close>

definition firstToken :: "expr \<Rightarrow> token_ptr parse" where
  "firstToken n = (if x_tokens n = [] then lthrow OutOfRange else lret (hd (x_tokens n)))"

definition lastToken :: "expr \<Rightarrow> token_ptr parse" where
  "lastToken n = (if x_tokens n = [] then lthrow OutOfRange else lret (last (x_tokens n)))"

definition subNode :: "expr \<Rightarrow> nat \<Rightarrow> expr parse" where
  "subNode n k =
     (if k < length (x_sub n)
      then (case x_sub n ! k of None \<Rightarrow> lthrow NullPointerRead | Some c \<Rightarrow> lret c) else lthrow OutOfRange)"

definition errorAtFirst :: "expr \<Rightarrow> string \<Rightarrow> string list \<Rightarrow> unit parse" where
  "errorAtFirst n message args = lbind (firstToken n) (\<lambda>t. errorAtToken Error t message args)"

definition errorAtTokens :: "error_level \<Rightarrow> token_ptr \<Rightarrow> token_ptr \<Rightarrow> string \<Rightarrow> string list \<Rightarrow> unit parse" where
  "errorAtTokens level t0 t1 message args =
     lbind (getLine t0) (\<lambda>ln. receive level ln (t_first (tk t0)) (t_last (tk t1)) message args)"

definition errorAtRange :: "expr \<Rightarrow> expr \<Rightarrow> string \<Rightarrow> unit parse" where
  "errorAtRange n m message =
     lbind (firstToken n) (\<lambda>t0. lbind (lastToken m) (\<lambda>t1. errorAtTokens Error t0 t1 message []))"

definition redefinition :: string where
  "redefinition = ''redefinition of parameter '' @ [CHR 0x22] @ ''${0}'' @ [CHR 0x22]"

text \<open>The result is whether the name is new, with the names used so far.\<close>

definition checkParameterNameDuplicated :: "nat list \<Rightarrow> expr \<Rightarrow> (bool \<times> nat list) parse" where
  "checkParameterNameDuplicated usedNames nameNode =
     (if x_sid nameNode \<in> set usedNames then
        lbind (firstToken nameNode) (\<lambda>t.
        lbind (refText (x_sid nameNode)) (\<lambda>s.
        lbind (errorAtToken Error t redefinition [s]) (\<lambda>_. lret (False, usedNames))))
      else lret (True, x_sid nameNode # usedNames))"

definition checkAsClass :: "expr \<Rightarrow> bool" where
  "checkAsClass node = matchesAsNameChain node"

text \<open>The operators have their operand.\<close>

definition checkAsClassOrLiteral :: "expr \<Rightarrow> bool" where
  "checkAsClassOrLiteral node \<longleftrightarrow>
     x_type node = Node_Literal \<or>
     (isOperator node Op_UnaryMinus \<or> isOperator node Op_UnaryPlus) \<and>
       (case x_sub node of Some a # _ \<Rightarrow> x_type a = Node_Literal | _ \<Rightarrow> False) \<or>
     checkAsClass node"

definition default_order :: string where
  "default_order = ''parameter without default parameter cannot be placed after the one with default parameter in array-style parameters''"

text \<open>One parameter that is no delimiter and no variadic one: whether it is accepted, and whether it has a default.\<close>

definition check_pair :: "nat list \<Rightarrow> expr \<Rightarrow> (bool \<times> bool \<times> nat list) parse" where
  "check_pair usedNames n =
     lbind (subNode n 0) (\<lambda>key.
     lbind (checkParameterNameDuplicated usedNames key) (\<lambda>(fresh, used).
       if \<not> fresh then lret (False, False, used)
       else lbind (subNode n 1) (\<lambda>value.
         if isOperator value Op_Call then
           lbind (subNode value 0) (\<lambda>callee.
             if \<not> checkAsClass callee then
               lbind (errorAtRange value n ''expected constructor call'') (\<lambda>_. lret (False, False, used))
             else lret (True, True, used))
         else if \<not> checkAsClassOrLiteral value then
           lbind (errorAtRange value value ''expected class name or default value'') (\<lambda>_. lret (False, False, used))
         else lret (True, False, used))))"

fun check_parameters :: "bool \<Rightarrow> bool \<Rightarrow> bool \<Rightarrow> nat list \<Rightarrow> expr option list \<Rightarrow> bool parse" where
  "check_parameters delimiterFound defaultArgFound varArgFound usedNames [] = lret True"
| "check_parameters delimiterFound defaultArgFound varArgFound usedNames (None # ns) = lthrow NullPointerRead"
| "check_parameters delimiterFound defaultArgFound varArgFound usedNames (Some n # ns) =
     (if isOperator n Op_TupleDelimiter then
        if delimiterFound then
          lbind (errorAtFirst n (''duplicated '' @ [CHR 0x22] @ '';'' @ [CHR 0x22]) []) (\<lambda>_. lret False)
        else check_parameters True defaultArgFound False usedNames ns
      else if varArgFound then
        lbind (errorAtFirst n ''variadic arguments should be last of parameters'' []) (\<lambda>_. lret False)
      else if isOperator n Op_VarArg then
        lbind (subNode n 0) (\<lambda>name.
          if x_type name \<noteq> Node_Name then
            lbind (errorAtFirst name ''expected parameter name'' []) (\<lambda>_. lret False)
          else lbind (checkParameterNameDuplicated usedNames name) (\<lambda>(fresh, used).
            if \<not> fresh then lret False
            else check_parameters delimiterFound defaultArgFound True used ns))
      else if x_type n = Node_Name then
        if \<not> delimiterFound \<and> defaultArgFound then
          lbind (errorAtFirst n default_order []) (\<lambda>_. lret False)
        else lbind (checkParameterNameDuplicated usedNames n) (\<lambda>(fresh, used).
          if \<not> fresh then lret False
          else check_parameters delimiterFound defaultArgFound varArgFound used ns)
      else if \<not> isOperator n Op_Pair then
        lbind (errorAtRange n n ''expected parameter name'') (\<lambda>_. lret False)
      else lbind (check_pair usedNames n) (\<lambda>(accepted, default, used).
        if \<not> accepted then lret False
        else check_parameters delimiterFound (defaultArgFound \<or> default) varArgFound used ns))"

definition checkAsParameterList :: "expr \<Rightarrow> bool parse" where
  "checkAsParameterList node = check_parameters False False False [] (x_sub node)"

text \<open>The checks that look at every element of a tuple alone.\<close>

fun check_elements :: "(expr \<Rightarrow> bool) \<Rightarrow> string \<Rightarrow> expr option list \<Rightarrow> bool parse" where
  "check_elements accepts message [] = lret True"
| "check_elements accepts message (None # ns) = lthrow NullPointerRead"
| "check_elements accepts message (Some n # ns) =
     (if accepts n then check_elements accepts message ns
      else lbind (errorAtRange n n message) (\<lambda>_. lret False))"

definition checkAsQualifiers :: "expr \<Rightarrow> bool parse" where
  "checkAsQualifiers node =
     check_elements (\<lambda>n. checkAsClass n \<or> isOperator n Op_Call) ''expected qualifiers'' (x_sub node)"

definition checkAsClassList :: "expr \<Rightarrow> bool parse" where
  "checkAsClassList node = check_elements checkAsClass ''expected class names'' (x_sub node)"

definition checkAsVarDefinitions :: "expr \<Rightarrow> bool parse" where
  "checkAsVarDefinitions node =
     check_elements (\<lambda>n. x_type n = Node_Name \<or>
         isOperator n Op_Pair \<and> (case x_sub n of Some a # _ \<Rightarrow> x_type a = Node_Name | _ \<Rightarrow> False))
       ''expected name [: value]'' (x_sub node)"

fun check_operands :: "nat list \<Rightarrow> expr option list \<Rightarrow> bool parse" where
  "check_operands usedNames [] = lret True"
| "check_operands usedNames (None # ns) = lthrow NullPointerRead"
| "check_operands usedNames (Some n # ns) =
     (if x_type n = Node_Name then
        lbind (checkParameterNameDuplicated usedNames n) (\<lambda>(fresh, used).
          if fresh then check_operands used ns else lret False)
      else if isOperator n Op_Pair then
        lbind (subNode n 0) (\<lambda>name.
          if x_type name \<noteq> Node_Name then
            lbind (errorAtFirst name ''expected parameter name'' []) (\<lambda>_. lret False)
          else lbind (checkParameterNameDuplicated usedNames name) (\<lambda>(fresh, used).
            if \<not> fresh then lret False
            else lbind (subNode n 1) (\<lambda>cls.
              if \<not> checkAsClass cls then
                lbind (errorAtFirst cls ''expected class name'' []) (\<lambda>_. lret False)
              else check_operands used ns)))
      else lbind (errorAtRange n n ''expected operator parameter'') (\<lambda>_. lret False))"

definition checkAsOperatorParameter :: "expr \<Rightarrow> bool parse" where
  "checkAsOperatorParameter node = check_operands [] (x_sub node)"

subsection \<open>extractStatementPiece\<close>

definition extractExpression ::
    "stod \<Rightarrow> token_ptr list \<Rightarrow> (token_ptr \<Rightarrow> bool) \<Rightarrow> (expr option \<times> token_ptr list) parse" where
  "extractExpression stod rest delimiter =
     lbind (findExpressionBoundary rest delimiter) (\<lambda>i.
       if i = 0 then lret (None, rest)
       else lbind (parseExpression stod (take i rest)) (\<lambda>n. lret (Some n, drop i rest)))"

text \<open>
  A piece that is not there is \<open>None\<close>, with the rest of the tokens from where the iterator was left. An
  expression that is refused by a check leaves the iterator behind it.
\<close>

definition checked_tuple ::
    "stod \<Rightarrow> token_ptr list \<Rightarrow> (token_ptr \<Rightarrow> bool) \<Rightarrow> (expr \<Rightarrow> bool parse) \<Rightarrow> (expr option \<times> token_ptr list) parse" where
  "checked_tuple stod rest delimiter check =
     lbind (extractExpression stod rest delimiter) (\<lambda>(n, rest1).
       case n of
         None \<Rightarrow> lret (None, rest1)
       | Some e \<Rightarrow>
           lbind (check (wrapByTuple (Some e) None)) (\<lambda>accepted.
             lret (if accepted then Some (wrapByTuple (Some e) None) else None, rest1)))"

text \<open>The tokens between parentheses, if the statement goes on with them, and the rest behind them.\<close>

definition parenthesized :: "token_ptr list \<Rightarrow> (token_ptr list \<times> token_ptr list) option parse" where
  "parenthesized rest =
     (if \<not> sidMatches (hd rest) (StringId ''OpenParenthesis'') then lret None
      else lbind (findExpressionBoundary (tl rest) (\<lambda>t. sidMatches t (StringId ''CloseParenthesis''))) (\<lambda>i.
        if i = length (tl rest) \<or> \<not> sidMatches (tl rest ! i) (StringId ''CloseParenthesis'') then lret None
        else lret (Some (take i (tl rest), drop (i + 1) (tl rest)))))"

definition extract_piece :: "stod \<Rightarrow> pattern_element \<Rightarrow> token_ptr list \<Rightarrow> (expr option \<times> token_ptr list) parse" where
  "extract_piece stod e rest =
     (let t = hd rest; missing = lret (None, rest)
      in case pe_type e of
        St_Token \<Rightarrow> if sidMatches t (pe_token e) then lret (Some (createNameNode t), tl rest) else missing
      | St_Name \<Rightarrow> if tokenMatches t TokenName then lret (Some (createNameNode t), tl rest) else missing
      | St_VariationName \<Rightarrow>
          if length rest \<ge> 2 \<and> sidMatches t (StringId ''OpElementSelection'') \<and> tokenMatches (rest ! 1) TokenName
          then lret (Some (createNameNode (rest ! 1)), drop 2 rest) else missing
      | St_Label \<Rightarrow> if tokenMatches t TokenName then lret (Some (createNameNode t), tl rest) else missing
      | St_LabelWithColon \<Rightarrow>
          if length rest \<ge> 2 \<and> tokenMatches t TokenName \<and> sidMatches (rest ! 1) (StringId ''Colon'')
          then lret (Some (createNameNode t), drop 2 rest) else missing
      | St_StorageClassSpecifier \<Rightarrow>
          if sidMatches t (StringId ''Static'')
          then lret (Some (wrapByTuple (Some (createNameNode t)) None), tl rest) else missing
      | St_Expression \<Rightarrow> extractExpression stod rest (\<lambda>_. False)
      | St_TupleExpression \<Rightarrow>
          lbind (extractExpression stod rest (\<lambda>_. False)) (\<lambda>(n, rest1).
            case n of
              None \<Rightarrow> lret (None, rest1)
            | Some x \<Rightarrow> lret (Some (if isOperator x Op_Pair then wrapByTuple (Some x) None else x), rest1))
      | St_ParameterList \<Rightarrow>
          lbind (parenthesized rest) (\<lambda>r.
            case r of
              None \<Rightarrow> missing
            | Some (inner, after) \<Rightarrow>
                if inner = [] then lret (Some (wrapByTuple None (Some t)), after)
                else lbind (parseExpression stod inner) (\<lambda>x.
                  let n = wrapByTuple (Some x) None
                  in lbind (checkAsParameterList n) (\<lambda>accepted.
                       if accepted then lret (Some n, after) else missing)))
      | St_Qualifiers \<Rightarrow>
          if length rest \<ge> 2 \<and> sidMatches t (StringId ''As'') then
            lbind (checked_tuple stod (tl rest) (\<lambda>_. False) checkAsQualifiers) (\<lambda>(n, rest1).
              case n of None \<Rightarrow> missing | Some x \<Rightarrow> lret (Some x, rest1))
          else missing
      | St_ClassList \<Rightarrow> checked_tuple stod rest (\<lambda>_. False) checkAsClassList
      | St_VarDefinitions \<Rightarrow> checked_tuple stod rest (\<lambda>u. sidMatches u (StringId ''As'')) checkAsVarDefinitions
      | St_ForLoopVariables \<Rightarrow> checked_tuple stod rest (\<lambda>u. sidMatches u (StringId ''In'')) (\<lambda>_. lret True)
      | St_OperatorParameter \<Rightarrow>
          lbind (parenthesized rest) (\<lambda>r.
            case r of
              None \<Rightarrow> missing
            | Some (inner, after) \<Rightarrow>
                if inner = [] then missing
                else lbind (parseOperatorParameter stod inner) (\<lambda>p.
                  case p of
                    None \<Rightarrow> lthrow NullPointerRead
                  | Some n \<Rightarrow> lbind (checkAsOperatorParameter n) (\<lambda>accepted.
                      if accepted then lret (Some n, after) else missing))))"

definition extractStatementPiece :: "stod \<Rightarrow> pattern_element \<Rightarrow> token_ptr list \<Rightarrow> (expr option \<times> token_ptr list) parse" where
  "extractStatementPiece stod e rest =
     lbind (extract_piece stod e rest) (\<lambda>(n, rest1).
       case n of
         Some x \<Rightarrow> lret (Some x, rest1)
       | None \<Rightarrow>
           if pe_required e then
             lbind (errorAtToken Error (hd rest) (errorMessage e) []) (\<lambda>_. lret (None, rest1))
           else lret (None, rest1))"

subsection \<open>The statements of parseInnerNode\<close>

text \<open>The result is whether there was no error, with the rest of the tokens and the pieces.\<close>

fun parse_pieces ::
    "stod \<Rightarrow> token_ptr list \<Rightarrow> pattern_element list \<Rightarrow> token_ptr list \<Rightarrow> expr option list \<Rightarrow>
       (bool \<times> token_ptr list \<times> expr option list) parse" where
  "parse_pieces stod toks [] rest sub = lret (True, rest, sub)"
| "parse_pieces stod toks (e # es) rest sub =
     (if rest = [] then
        if \<not> pe_required e then parse_pieces stod toks es rest sub
        else if toks = [] then lthrow OutOfRange
        else lbind (errorAtNextToken Error (last toks) (errorMessage e) []) (\<lambda>_. lret (False, rest, sub))
      else lbind (extractStatementPiece stod e rest) (\<lambda>(n, rest1).
        case n of
          Some x \<Rightarrow>
            parse_pieces stod toks es rest1 (case subNodeIndex e of None \<Rightarrow> sub | Some k \<Rightarrow> sub[k := Some x])
        | None \<Rightarrow>
            if pe_required e then lret (False, rest1, sub) else parse_pieces stod toks es rest1 sub))"

definition checkCombination :: "expr option list \<Rightarrow> nat \<Rightarrow> nat \<Rightarrow> string \<Rightarrow> bool parse" where
  "checkCombination sub subNode0 subNode1 message =
     (case (sub ! subNode0, sub ! subNode1) of
        (None, None) \<Rightarrow> lret True
      | (Some _, Some _) \<Rightarrow> lret True
      | (Some n, None) \<Rightarrow> lbind (errorAtRange n n message) (\<lambda>_. lret False)
      | (None, Some n) \<Rightarrow> lbind (errorAtRange n n message) (\<lambda>_. lret False))"

text \<open>Whether the qualifiers are accepted, and whether one of them is \<open>native\<close>.\<close>

fun qualify :: "bool \<Rightarrow> expr option list \<Rightarrow> (bool \<times> bool) parse" where
  "qualify native [] = lret (True, native)"
| "qualify native (None # ns) = lthrow NullPointerRead"
| "qualify native (Some n # ns) =
     (if x_type n = Node_Name \<and> x_sid n = StringId ''Native'' then qualify True ns
      else lbind (errorAtRange n n ''expected qualifiers'') (\<lambda>_. lret (False, native)))"

definition qualifyDef :: "expr option list \<Rightarrow> (bool \<times> bool) parse" where
  "qualifyDef sub =
     (case sub ! Def_Qualifiers of None \<Rightarrow> lret (True, False) | Some q \<Rightarrow> qualify False (x_sub q))"

definition def_combination :: string where
  "def_combination = ''expected '' @ [CHR 0x22] @ ''.name(parameters)'' @ [CHR 0x22]"

definition class_combination :: string where
  "class_combination = ''expected '' @ [CHR 0x22] @ ''extends base-classes,...'' @ [CHR 0x22]"

definition not_deletable :: string where
  "not_deletable = [CHR 0x22] @ ''init'' @ [CHR 0x22] @ '' and '' @ [CHR 0x22] @ ''deinit'' @ [CHR 0x22] @
     '' cannot be deleted method''"

definition static_warning :: "expr \<Rightarrow> unit parse" where
  "static_warning n = lbind (firstToken n) (\<lambda>t.
     errorAtToken Warning t ''static qualifier is reserved keyword, currently not working'' [])"

text \<open>A parsed statement: its pieces, and whether it is native.\<close>

record statement =
  st_subNodes :: "expr option list"
  st_native :: bool

text \<open>The checks of a definition; \<open>block_line\<close> is the line of the first node of its block, if it has one.\<close>

definition check_def :: "nat \<Rightarrow> line option \<Rightarrow> expr option list \<Rightarrow> statement option parse" where
  "check_def sid block_line sub =
     lbind (checkCombination sub Def_Operator Def_OperatorParameter def_combination) (\<lambda>fits.
       if \<not> fits then lret None
       else case (sub ! Def_Delete, block_line) of
           (Some d, Some ln) \<Rightarrow>
             lbind (errorAtWholeLine Error ln ''deleted method cannot have nested block'' []) (\<lambda>_. lret None)
         | (del, _) \<Rightarrow>
             if del \<noteq> None \<and> (sid = StringId ''Init'' \<or> sid = StringId ''Deinit'') then
               lbind (errorAtFirst (the del) not_deletable []) (\<lambda>_. lret None)
             else
               lbind (case sub ! Def_Static of None \<Rightarrow> lret () | Some n \<Rightarrow> static_warning n) (\<lambda>_.
               lbind (qualifyDef sub) (\<lambda>(accepted, native).
                 lret (if accepted then Some \<lparr>st_subNodes = sub, st_native = native\<rparr> else None))))"

definition check_class :: "expr option list \<Rightarrow> statement option parse" where
  "check_class sub =
     lbind (checkCombination sub Class_Extends Class_BaseClassList class_combination) (\<lambda>fits.
       if \<not> fits then lret None
       else lbind (case sub ! Class_Static of None \<Rightarrow> lret () | Some n \<Rightarrow> static_warning n) (\<lambda>_.
         lret (Some \<lparr>st_subNodes = sub, st_native = False\<rparr>)))"

definition lexical_error :: string where
  "lexical_error = ''interpreter reached at the line which contains error on lexical analysis''"

definition parse_tokens :: "stod \<Rightarrow> stnode \<Rightarrow> statement_attributes \<Rightarrow> line option \<Rightarrow> statement option parse" where
  "parse_tokens stod n attr block_line =
     (if length (n_tokens n) < skipTokens attr then lthrow OutOfRange
      else lbind (parse_pieces stod (n_tokens n) (sa_pattern attr) (drop (skipTokens attr) (n_tokens n))
          (replicate (sa_subNodes attr) None)) (\<lambda>(fits, rest, sub).
        if \<not> fits then lret None
        else if rest \<noteq> [] then
          lbind (errorAtToken Error (hd rest) ''extra token'' []) (\<lambda>_. lret None)
        else if n_type n = Node_Def then check_def (n_sid n) block_line sub
        else if n_type n = Node_Class then check_class sub
        else lret (Some \<lparr>st_subNodes = sub, st_native = False\<rparr>)))"

text \<open>One statement; \<open>None\<close> when it is dropped with a report.\<close>

definition parse_statement :: "stod \<Rightarrow> stnode \<Rightarrow> line option \<Rightarrow> statement option parse" where
  "parse_statement stod n block_line =
     (let attr = getStAttr (n_type n)
      in case n_line n of
          Some ln \<Rightarrow>
            if l_containsError ln then
              lbind (errorAtWholeLine Error ln lexical_error []) (\<lambda>_. lthrow AbortCompiling)
            else parse_tokens stod n attr block_line
        | None \<Rightarrow> parse_tokens stod n attr block_line)"

end
