(* ===== verification/Parameter_Lists.thy ===== *)
theory Parameter_Lists
  imports Statement_Parser Block_Facts Expression_Boundary
begin

text \<open>
  The loop of \<open>checkAsParameterList\<close> with its four flags accepts exactly the lists that a declarative
  specification describes, and reports exactly when it refuses.
\<close>

subsection \<open>Reports\<close>

definition noted :: "parse_context \<Rightarrow> parse_context \<Rightarrow> bool" where
  "noted ct ct1 \<longleftrightarrow> p_table ct1 = p_table ct \<and> prefix (p_errors ct) (p_errors ct1)"

lemma noted_refl [simp]: "noted ct ct"
  by (simp add: noted_def)

lemma noted_trans: "noted ct ct1 \<Longrightarrow> noted ct1 ct2 \<Longrightarrow> noted ct ct2"
  unfolding noted_def using prefix_order.trans by auto

definition with_report :: "parse_error \<Rightarrow> parse_context \<Rightarrow> parse_context" where
  "with_report e ct = ct\<lparr>p_errors := p_errors ct @ [e]\<rparr>"

lemma with_report_simps [simp]:
  "noted ct (with_report e ct)" "p_table (with_report e ct) = p_table ct" "p_errors (with_report e ct) \<noteq> p_errors ct"
  by (simp_all add: with_report_def noted_def)

definition readable :: "expr \<Rightarrow> bool" where
  "readable n \<longleftrightarrow> x_tokens n \<noteq> [] \<and> list_all alive (x_tokens n)"

lemma readable_tokens: "readable n \<Longrightarrow> alive (hd (x_tokens n))" "readable n \<Longrightarrow> alive (last (x_tokens n))"
  by (auto simp: readable_def list_all_iff)

lemma wp_errorAtToken:
  "alive t \<Longrightarrow> (\<And>e. Q () (with_report e ct)) \<Longrightarrow> wp (errorAtToken lv t message args) Q ct"
  by (auto simp: errorAtToken_def getLine_def alive_def wps wp_def receive_def lret_def lbind_def with_report_def split: option.splits)

lemma wp_errorAtTokens:
  "alive t0 \<Longrightarrow> (\<And>e. Q () (with_report e ct)) \<Longrightarrow> wp (errorAtTokens lv t0 t1 message args) Q ct"
  by (auto simp: errorAtTokens_def getLine_def alive_def wps wp_def receive_def lret_def lbind_def with_report_def split: option.splits)

lemma wp_errorAtFirst: "readable n \<Longrightarrow> (\<And>e. Q () (with_report e ct)) \<Longrightarrow> wp (errorAtFirst n message args) Q ct"
  using readable_tokens(1) by (auto simp: errorAtFirst_def firstToken_def wps readable_def intro!: wp_errorAtToken)

lemma wp_errorAtRange:
  "readable n \<Longrightarrow> x_tokens m \<noteq> [] \<Longrightarrow> (\<And>e. Q () (with_report e ct)) \<Longrightarrow> wp (errorAtRange n m message) Q ct"
  using readable_tokens(1) [of n]
  by (auto simp: errorAtRange_def firstToken_def lastToken_def wps readable_def intro!: wp_errorAtTokens)

lemma wp_refTextP [wps]:
  "wp (refText sid) Q ct \<longleftrightarrow> sid < length (idToStr (p_table ct)) \<and> Q (idToStr (p_table ct) ! sid) ct"
  by (simp add: wp_def refText_def table_ref_def)

lemma wp_subNode [wps]:
  "wp (subNode n k) Q ct \<longleftrightarrow> k < length (x_sub n) \<and> (\<exists>c. x_sub n ! k = Some c \<and> Q c ct)"
  by (auto simp: subNode_def wps split: option.split)

lemma wp_name_duplicated:
  assumes "readable name" "x_sid name < length (idToStr (p_table ct))"
    and "x_sid name \<in> set used \<Longrightarrow> (\<And>e. Q (False, used) (with_report e ct))"
    and "x_sid name \<notin> set used \<Longrightarrow> Q (True, x_sid name # used) ct"
  shows "wp (checkParameterNameDuplicated used name) Q ct"
  using assms readable_tokens(1) [OF assms(1)]
  by (auto simp: checkParameterNameDuplicated_def firstToken_def wps readable_def intro!: wp_errorAtToken)

lemma wp_prod: "wp (case z of (a, b) \<Rightarrow> f a b) Q = (case z of (a, b) \<Rightarrow> wp (f a b) Q)"
  by (simp split: prod.split)

subsection \<open>Parameters\<close>

definition is_delimiter :: "expr \<Rightarrow> bool" where
  "is_delimiter n \<longleftrightarrow> isOperator n Op_TupleDelimiter"

definition is_variadic :: "expr \<Rightarrow> bool" where
  "is_variadic n \<longleftrightarrow> \<not> is_delimiter n \<and> isOperator n Op_VarArg"

definition is_plain :: "expr \<Rightarrow> bool" where
  "is_plain n \<longleftrightarrow> \<not> is_delimiter n \<and> \<not> is_variadic n \<and> x_type n = Node_Name"

definition is_pair :: "expr \<Rightarrow> bool" where
  "is_pair n \<longleftrightarrow> \<not> is_delimiter n \<and> \<not> is_variadic n \<and> \<not> is_plain n \<and> isOperator n Op_Pair"

definition operand_at :: "expr \<Rightarrow> nat \<Rightarrow> expr" where
  "operand_at n k = the (x_sub n ! k)"

definition is_constructed :: "expr \<Rightarrow> bool" where
  "is_constructed n \<longleftrightarrow> is_pair n \<and> isOperator (operand_at n 1) Op_Call"

text \<open>The value of a pair is a class, a literal, or a call of a constructor.\<close>

definition value_ok :: "expr \<Rightarrow> bool" where
  "value_ok v \<longleftrightarrow>
     (if isOperator v Op_Call then checkAsClass (operand_at v 0) else checkAsClassOrLiteral v)"

definition parameter_ok :: "expr \<Rightarrow> bool" where
  "parameter_ok n \<longleftrightarrow>
     is_delimiter n \<or> is_variadic n \<and> x_type (operand_at n 0) = Node_Name \<or> is_plain n \<or>
     is_pair n \<and> value_ok (operand_at n 1)"

definition parameter_sid :: "expr \<Rightarrow> nat" where
  "parameter_sid n = x_sid (if is_plain n then n else operand_at n 0)"

definition parameter_sids :: "expr list \<Rightarrow> nat list" where
  "parameter_sids ns = List.map parameter_sid (filter (\<lambda>n. \<not> is_delimiter n) ns)"

definition array_part :: "expr list \<Rightarrow> expr list" where
  "array_part ns = takeWhile (\<lambda>n. \<not> is_delimiter n) ns"

text \<open>
  The specification: every parameter is one; their names are different; there is at most one
  delimiter; a variadic parameter is the last before the delimiter or the end; before the delimiter no
  plain name follows a parameter with a constructor call.
\<close>

definition parameters_ok :: "expr list \<Rightarrow> bool" where
  "parameters_ok ns \<longleftrightarrow>
     (\<forall>n \<in> set ns. parameter_ok n) \<and> distinct (parameter_sids ns) \<and>
     length (filter is_delimiter ns) \<le> 1 \<and>
     successively (\<lambda>n m. is_variadic n \<longrightarrow> is_delimiter m) ns \<and>
     sorted_wrt (\<lambda>n m. is_constructed n \<longrightarrow> \<not> is_plain m) (array_part ns)"

text \<open>What the tree of a parameter list has: operands where the code looks for them, and tokens.\<close>

definition parameter_shape :: "nat \<Rightarrow> expr \<Rightarrow> bool" where
  "parameter_shape bound n \<longleftrightarrow>
     readable n \<and> (is_plain n \<longrightarrow> x_sid n < bound) \<and>
     (is_variadic n \<or> is_pair n \<longrightarrow>
        (\<exists>a rest. x_sub n = Some a # rest \<and> readable a \<and> x_sid a < bound)) \<and>
     (is_pair n \<longrightarrow>
        (\<exists>a v rest. x_sub n = Some a # Some v # rest \<and> readable v \<and>
           (isOperator v Op_Call \<longrightarrow> (\<exists>c rest. x_sub v = Some c # rest))))"

subsection \<open>The loop\<close>

definition parameters_from :: "bool \<Rightarrow> bool \<Rightarrow> bool \<Rightarrow> nat list \<Rightarrow> expr list \<Rightarrow> bool" where
  "parameters_from del def var used ns \<longleftrightarrow>
     (\<forall>n \<in> set ns. parameter_ok n) \<and> distinct (parameter_sids ns) \<and> set (parameter_sids ns) \<inter> set used = {} \<and>
     length (filter is_delimiter ns) \<le> (if del then 0 else 1) \<and>
     (var \<longrightarrow> ns = [] \<or> is_delimiter (hd ns)) \<and>
     successively (\<lambda>n m. is_variadic n \<longrightarrow> is_delimiter m) ns \<and>
     (\<not> del \<longrightarrow> sorted_wrt (\<lambda>n m. is_constructed n \<longrightarrow> \<not> is_plain m) (array_part ns) \<and>
        (def \<longrightarrow> (\<forall>m \<in> set (array_part ns). \<not> is_plain m)))"

lemma parameters_from_start: "parameters_from False False False [] ns = parameters_ok ns"
  by (auto simp: parameters_from_def parameters_ok_def)

lemma parameters_from_Nil: "parameters_from del def var used []"
  by (simp add: parameters_from_def parameter_sids_def array_part_def)

lemma parameters_from_delimiter:
  "is_delimiter n \<Longrightarrow> parameters_from del def var used (n # ns) \<longleftrightarrow> \<not> del \<and> parameters_from True def False used ns"
  by (cases ns) (auto simp: parameters_from_def parameter_sids_def array_part_def parameter_ok_def
      is_variadic_def is_constructed_def is_pair_def is_plain_def)

lemma parameters_from_parameter:
  assumes "\<not> is_delimiter n"
  shows "parameters_from del def var used (n # ns) \<longleftrightarrow>
    \<not> var \<and> parameter_ok n \<and> parameter_sid n \<notin> set used \<and> \<not> (\<not> del \<and> def \<and> is_plain n) \<and>
    parameters_from del (def \<or> is_constructed n) (is_variadic n) (parameter_sid n # used) ns"
  using assms
  by (cases ns) (auto simp: parameters_from_def parameter_sids_def array_part_def is_constructed_def is_pair_def)

lemma check_pair_ok:
  assumes s: "parameter_shape (length (idToStr (p_table ct))) n" and p: "is_pair n"
  shows "wp (check_pair used n) (\<lambda>(accepted, default, used1) ct1. noted ct ct1 \<and>
      (accepted \<longleftrightarrow> parameter_ok n \<and> parameter_sid n \<notin> set used) \<and> (p_errors ct1 = p_errors ct \<longleftrightarrow> accepted) \<and>
      (accepted \<longrightarrow> ct1 = ct \<and> used1 = parameter_sid n # used \<and> default = is_constructed n)) ct"
proof -
  obtain a v rest where n: "x_sub n = Some a # Some v # rest" and r: "readable n" "readable a" "readable v"
      and a: "x_sid a < length (idToStr (p_table ct))" and c: "isOperator v Op_Call \<longrightarrow> (\<exists>c rest. x_sub v = Some c # rest)"
    using s p unfolding parameter_shape_def by auto
  have k: "\<not> is_delimiter n" "\<not> is_variadic n" "\<not> is_plain n" using p by (simp_all add: is_pair_def)
  have ops: "operand_at n 0 = a" "operand_at n 1 = v" by (simp_all add: operand_at_def n)
  have sid: "parameter_sid n = x_sid a" using k by (simp add: parameter_sid_def ops)
  have ok: "parameter_ok n \<longleftrightarrow> value_ok v" unfolding parameter_ok_def ops using k p by simp
  have con: "is_constructed n \<longleftrightarrow> isOperator v Op_Call" unfolding is_constructed_def ops using p by simp
  have toks: "x_tokens n \<noteq> []" "x_tokens v \<noteq> []" using r by (simp_all add: readable_def)
  show ?thesis
    unfolding check_pair_def wps n
    apply (simp add: wps)
    apply (rule wp_name_duplicated [OF r(2) a])
     apply (simp add: wps sid)
    apply (auto simp: wps n sid ok con value_ok_def operand_at_def dest!: c [rule_format]
        intro!: wp_ifI wp_errorAtRange r toks)
    done
qed

lemma check_parameters_ok:
  assumes "\<forall>n \<in> set ns. parameter_shape (length (idToStr (p_table ct))) n"
  shows "wp (check_parameters del def var used (List.map Some ns)) (\<lambda>accepted ct1. noted ct ct1 \<and>
      (accepted \<longleftrightarrow> parameters_from del def var used ns) \<and> (p_errors ct1 = p_errors ct \<longleftrightarrow> accepted)) ct"
  using assms
proof (induction ns arbitrary: del def var used)
  case Nil
  show ?case by (simp add: wps parameters_from_Nil)
next
  case (Cons n ns)
  let ?N = "length (idToStr (p_table ct))"
  have s: "parameter_shape ?N n" and rest: "\<forall>n \<in> set ns. parameter_shape ?N n" using Cons.prems by simp_all
  have r: "readable n" and toks: "x_tokens n \<noteq> []" using s by (simp_all add: parameter_shape_def readable_def)
  note ih = Cons.IH [OF rest]
  let ?Q = "\<lambda>del def var used ns accepted ct1. noted ct ct1 \<and>
      (accepted \<longleftrightarrow> parameters_from del def var used ns) \<and> (p_errors ct1 = p_errors ct \<longleftrightarrow> accepted)"
  consider (delimiter) "is_delimiter n" | (variadic) "is_variadic n" | (plain) "is_plain n" | (pair) "is_pair n"
    | (bad) "\<not> is_delimiter n" "\<not> is_variadic n" "\<not> is_plain n" "\<not> is_pair n" by blast
  then show ?case
  proof cases
    case delimiter
    then show ?thesis
      using ih [of True def False used]
      by (auto simp: is_delimiter_def [symmetric] parameters_from_delimiter wps intro!: wp_errorAtFirst r)
  next
    case variadic
    then have k: "\<not> is_delimiter n" "isOperator n Op_VarArg" "\<not> is_plain n"
      by (simp_all add: is_variadic_def is_plain_def)
    obtain a more where n: "x_sub n = Some a # more" and a: "readable a" "x_sid a < ?N"
      using s variadic unfolding parameter_shape_def by auto
    have ops: "operand_at n 0 = a" by (simp add: operand_at_def n)
    have sid: "parameter_sid n = x_sid a" using k by (simp add: parameter_sid_def ops)
    have ok: "parameter_ok n \<longleftrightarrow> x_type a = Node_Name" using k variadic by (simp add: parameter_ok_def ops is_pair_def)
    have con: "\<not> is_constructed n" using variadic by (simp add: is_constructed_def is_pair_def)
    show ?thesis
      using k ih [of del def True "x_sid a # used"] variadic
      by (auto simp: is_delimiter_def [symmetric] parameters_from_parameter sid ok con wps n
          intro!: wp_ifI wp_errorAtFirst wp_name_duplicated r a)
  next
    case plain
    then have k: "\<not> is_delimiter n" "\<not> isOperator n Op_VarArg" "x_type n = Node_Name" "\<not> is_variadic n"
      by (auto simp: is_variadic_def is_plain_def)
    have sid: "parameter_sid n = x_sid n" "x_sid n < ?N" using s plain by (simp_all add: parameter_sid_def parameter_shape_def)
    have ok: "parameter_ok n" "\<not> is_constructed n" using plain by (simp_all add: parameter_ok_def is_constructed_def is_pair_def)
    show ?thesis
      using k ih [of del def False "x_sid n # used"] plain
      by (auto simp: is_delimiter_def [symmetric] parameters_from_parameter sid(1) ok wps
          intro!: wp_ifI wp_errorAtFirst wp_name_duplicated r sid(2))
  next
    case pair
    then have k: "\<not> is_delimiter n" "\<not> isOperator n Op_VarArg" "x_type n \<noteq> Node_Name" "isOperator n Op_Pair"
        "\<not> is_variadic n" "\<not> is_plain n"
      by (auto simp: is_pair_def is_variadic_def is_plain_def)
    have "wp (check_pair used n) (\<lambda>(accepted, default, used1). wp
        (if \<not> accepted then lret False
         else check_parameters del (def \<or> default) var used1 (List.map Some ns)) (?Q del def var used (n # ns))) ct"
      if "\<not> var"
    proof (rule wp_mono [OF check_pair_ok [OF s pair]])
      fix z :: "bool \<times> bool \<times> nat list" and ct1
      obtain accepted default used1 where z: "z = (accepted, default, used1)" by (cases z)
      assume "(case z of (accepted, default, used1) \<Rightarrow> \<lambda>ct1. noted ct ct1 \<and>
          (accepted \<longleftrightarrow> parameter_ok n \<and> parameter_sid n \<notin> set used) \<and> (p_errors ct1 = p_errors ct \<longleftrightarrow> accepted) \<and>
          (accepted \<longrightarrow> ct1 = ct \<and> used1 = parameter_sid n # used \<and> default = is_constructed n)) ct1"
      then show "(case z of (accepted, default, used1) \<Rightarrow> wp
        (if \<not> accepted then lret False
         else check_parameters del (def \<or> default) var used1 (List.map Some ns)) (?Q del def var used (n # ns))) ct1"
        using k ih [of del "def \<or> is_constructed n" False "parameter_sid n # used"] that
        by (auto simp: z parameters_from_parameter wps intro!: wp_ifI)
    qed
    then show ?thesis
      using k by (auto simp: is_delimiter_def [symmetric] parameters_from_parameter wps wp_prod intro!: wp_ifI wp_errorAtFirst r)
  next
    case bad
    then have k: "\<not> isOperator n Op_VarArg" "x_type n \<noteq> Node_Name" "\<not> isOperator n Op_Pair" "\<not> parameter_ok n"
      by (auto simp: is_pair_def is_variadic_def is_plain_def parameter_ok_def)
    then show ?thesis
      using bad by (auto simp: is_delimiter_def [symmetric] parameters_from_parameter wps
          intro!: wp_ifI wp_errorAtFirst wp_errorAtRange r toks)
  qed
qed

theorem checkAsParameterList_ok:
  assumes "x_sub node = List.map Some ns" "\<forall>n \<in> set ns. parameter_shape (length (idToStr (p_table ct))) n"
  shows "wp (checkAsParameterList node) (\<lambda>accepted ct1. noted ct ct1 \<and>
      (accepted \<longleftrightarrow> parameters_ok ns) \<and> (p_errors ct1 = p_errors ct \<longleftrightarrow> accepted)) ct"
  using check_parameters_ok [OF assms(2), of False False False "[]"]
  by (simp add: checkAsParameterList_def assms(1) parameters_from_start)

end
