(* ===== verification/Statement_Pieces.thy ===== *)
theory Statement_Pieces
  imports Parameter_Lists
begin

text \<open>
  What a statement has when \<open>parse_statement\<close> accepts it. \<open>gives m Q\<close> says that every value of a
  computation satisfies \<open>Q\<close>; its rules follow the definitions, an exception satisfies everything.
\<close>

subsection \<open>Values of computations\<close>

definition gives :: "('c, 'a) comp \<Rightarrow> ('a \<Rightarrow> bool) \<Rightarrow> bool" where
  "gives m Q \<longleftrightarrow> (\<forall>ct x ct1. m ct = Some (Inr x, ct1) \<longrightarrow> Q x)"

lemma givesD: "gives m Q \<Longrightarrow> m ct = Some (Inr x, ct1) \<Longrightarrow> Q x"
  unfolding gives_def by blast

lemma gives_lret [simp]: "gives (lret x) Q \<longleftrightarrow> Q x"
  by (simp add: gives_def lret_def)

lemma gives_lthrow [simp]: "gives (lthrow e) Q"
  by (simp add: gives_def lthrow_def)

lemma gives_lbind: "gives m (\<lambda>x. gives (f x) Q) \<Longrightarrow> gives (lbind m f) Q"
  unfolding gives_def by (blast elim!: lbind_InrE)

lemma gives_any: "(\<And>x. Q x) \<Longrightarrow> gives m Q"
  by (simp add: gives_def)

lemma gives_after: "(\<And>x. gives (f x) Q) \<Longrightarrow> gives (lbind m f) Q"
  by (rule gives_lbind, rule gives_any) assumption

lemma gives_mono: "gives m Q \<Longrightarrow> (\<And>x. Q x \<Longrightarrow> R x) \<Longrightarrow> gives m R"
  by (simp add: gives_def)

lemma gives_then: "gives m R \<Longrightarrow> (\<And>x. R x \<Longrightarrow> gives (f x) Q) \<Longrightarrow> gives (lbind m f) Q"
  by (rule gives_lbind) (rule gives_mono)

lemma gives_subNode: "Q (operand_at n k) \<Longrightarrow> gives (subNode n k) Q"
  by (auto simp: subNode_def operand_at_def split: option.split)

text \<open>One rule for each computation that the checks begin with.\<close>

lemmas gives_steps = gives_lbind [OF gives_subNode]
  gives_after [where m = "errorAtRange a b message" for a b message]
  gives_after [where m = "errorAtFirst a message args" for a message args]
  gives_after [where m = "errorAtToken lv t message args" for lv t message args]
  gives_after [where m = "refText sid" for sid]
  gives_after [where m = "firstToken n" for n]

lemma gives_name:
  "gives (checkParameterNameDuplicated used name)
     (\<lambda>(fresh, used1). fresh \<longrightarrow> x_sid name \<notin> set used \<and> used1 = x_sid name # used)"
  by (auto simp: checkParameterNameDuplicated_def intro!: gives_steps)

subsection \<open>The checks\<close>

lemma check_pair_gives:
  assumes "is_pair n"
  shows "gives (check_pair used n) (\<lambda>(accepted, default, used1). accepted \<longrightarrow>
    parameter_ok n \<and> parameter_sid n \<notin> set used \<and> used1 = parameter_sid n # used \<and> default = is_constructed n)"
proof -
  have k: "\<not> is_delimiter n" "\<not> is_variadic n" "\<not> is_plain n" using assms by (simp_all add: is_pair_def)
  show ?thesis
    unfolding check_pair_def
    by (auto intro!: gives_steps gives_then [OF gives_name]
        simp: parameter_ok_def parameter_sid_def is_constructed_def value_ok_def k assms)
qed

lemma check_parameters_gives:
  "gives (check_parameters del def var used subs)
     (\<lambda>accepted. accepted \<longrightarrow> (\<exists>ns. subs = List.map Some ns \<and> parameters_from del def var used ns))"
  (is "gives _ (?Q del def var used subs)")
proof (induction subs arbitrary: del def var used)
  case Nil
  show ?case by (simp add: parameters_from_Nil)
next
  case (Cons s subs)
  show ?case
  proof (cases s)
    case None
    then show ?thesis by simp
  next
    case (Some n)
    have step: "gives m (?Q del1 def1 var1 used1 subs) \<Longrightarrow>
        (\<And>ns. parameters_from del1 def1 var1 used1 ns \<Longrightarrow> parameters_from del def var used (n # ns)) \<Longrightarrow>
        gives m (?Q del def var used (s # subs))" for m del1 def1 var1 used1
      unfolding Some by (erule gives_mono) (use list.map in metis)
    consider (delimiter) "is_delimiter n" | (variadic) "is_variadic n" | (plain) "is_plain n" | (pair) "is_pair n"
      | (bad) "\<not> is_delimiter n" "\<not> is_variadic n" "\<not> is_plain n" "\<not> is_pair n" by blast
    then show ?thesis
    proof cases
      case delimiter
      then show ?thesis
        using step [OF Cons.IH, of True def False used]
        by (auto simp: Some is_delimiter_def [symmetric] parameters_from_delimiter intro!: gives_steps)
    next
      case variadic
      then have k: "\<not> is_delimiter n" "isOperator n Op_VarArg" "\<not> is_plain n" "\<not> is_constructed n" "\<not> is_pair n"
        by (simp_all add: is_variadic_def is_plain_def is_constructed_def is_pair_def)
      then show ?thesis
        using step [OF Cons.IH, of del def True "parameter_sid n # used"] variadic
        by (auto simp: Some is_delimiter_def [symmetric] parameters_from_parameter parameter_ok_def parameter_sid_def
            intro!: gives_steps gives_then [OF gives_name])
    next
      case plain
      then have k: "\<not> is_delimiter n" "\<not> isOperator n Op_VarArg" "x_type n = Node_Name" "\<not> is_variadic n"
          "\<not> is_constructed n"
        by (auto simp: is_variadic_def is_plain_def is_constructed_def is_pair_def)
      then show ?thesis
        using step [OF Cons.IH, of del def False "parameter_sid n # used"] plain
        by (auto simp: Some is_delimiter_def [symmetric] parameters_from_parameter parameter_ok_def parameter_sid_def
            intro!: gives_steps gives_then [OF gives_name])
    next
      case pair
      then have k: "\<not> is_delimiter n" "\<not> isOperator n Op_VarArg" "x_type n \<noteq> Node_Name" "isOperator n Op_Pair"
          "\<not> is_variadic n" "\<not> is_plain n"
        by (auto simp: is_pair_def is_variadic_def is_plain_def)
      then show ?thesis
        using step [OF Cons.IH, of del "def \<or> is_constructed n" False "parameter_sid n # used"] pair
        by (auto simp: Some is_delimiter_def [symmetric] parameters_from_parameter
            intro!: gives_steps gives_then [OF check_pair_gives [OF pair]])
    next
      case bad
      then have "\<not> isOperator n Op_VarArg" "x_type n \<noteq> Node_Name" "\<not> isOperator n Op_Pair"
        by (auto simp: is_pair_def is_variadic_def is_plain_def)
      then show ?thesis
        using bad by (auto simp: Some is_delimiter_def [symmetric] intro!: gives_steps)
    qed
  qed
qed

lemma parameter_list_gives:
  "gives (checkAsParameterList x) (\<lambda>accepted. accepted \<longrightarrow> (\<exists>ns. x_sub x = List.map Some ns \<and> parameters_ok ns))"
  unfolding checkAsParameterList_def
  by (rule gives_mono [OF check_parameters_gives]) (simp add: parameters_from_start)

definition elements :: "(expr \<Rightarrow> bool) \<Rightarrow> expr \<Rightarrow> bool" where
  "elements P x \<longleftrightarrow> (\<forall>s \<in> set (x_sub x). \<exists>n. s = Some n \<and> P n)"

lemma check_elements_gives:
  "gives (check_elements P message subs) (\<lambda>accepted. accepted \<longrightarrow> (\<forall>s \<in> set subs. \<exists>n. s = Some n \<and> P n))"
proof (induction subs)
  case (Cons s subs)
  then show ?case
    by (cases s) (auto intro!: gives_steps elim: gives_mono)
qed simp

text \<open>An operand of an operator definition: a name, with a class or without.\<close>

definition operand_fits :: "expr \<Rightarrow> bool" where
  "operand_fits n \<longleftrightarrow> x_type n = Node_Name \<or>
     isOperator n Op_Pair \<and> x_type (operand_at n 0) = Node_Name \<and> checkAsClass (operand_at n 1)"

definition operand_sid :: "expr \<Rightarrow> nat" where
  "operand_sid n = x_sid (if x_type n = Node_Name then n else operand_at n 0)"

definition operands_fit :: "expr list \<Rightarrow> bool" where
  "operands_fit ns \<longleftrightarrow> (\<forall>n \<in> set ns. operand_fits n) \<and> distinct (List.map operand_sid ns)"

lemma check_operands_gives:
  "gives (check_operands used subs) (\<lambda>accepted. accepted \<longrightarrow>
     (\<exists>ns. subs = List.map Some ns \<and> operands_fit ns \<and> set (List.map operand_sid ns) \<inter> set used = {}))"
  (is "gives _ (?Q used subs)")
proof (induction subs arbitrary: used)
  case Nil
  show ?case by (simp add: operands_fit_def)
next
  case (Cons s subs)
  show ?case
  proof (cases s)
    case None
    then show ?thesis by simp
  next
    case (Some n)
    have step: "gives m (?Q (operand_sid n # used) subs) \<Longrightarrow> operand_fits n \<Longrightarrow> operand_sid n \<notin> set used \<Longrightarrow>
        gives m (?Q used (s # subs))" for m
      unfolding Some
    proof (erule gives_mono, rule impI, drule mp, assumption, elim exE conjE)
      fix ns
      assume "subs = List.map Some ns" "operands_fit ns" "operand_fits n" "operand_sid n \<notin> set used"
        "set (List.map operand_sid ns) \<inter> set (operand_sid n # used) = {}"
      then show "\<exists>ns. Some n # subs = List.map Some ns \<and> operands_fit ns \<and> set (List.map operand_sid ns) \<inter> set used = {}"
        by (intro exI [of _ "n # ns"]) (auto simp: operands_fit_def)
    qed
    then show ?thesis
      using Cons.IH [of "operand_sid n # used"]
      by (auto simp: Some operand_fits_def operand_sid_def
          intro!: gives_steps gives_then [OF gives_name])
  qed
qed

subsection \<open>Pieces\<close>

text \<open>What the node of a piece is.\<close>

definition piece_fits :: "pattern_element \<Rightarrow> expr \<Rightarrow> bool" where
  "piece_fits e x \<longleftrightarrow>
     (case pe_type e of
        St_Token \<Rightarrow> x_type x = Node_Name \<and> x_sid x = pe_token e
      | St_Name \<Rightarrow> x_type x = Node_Name
      | St_VariationName \<Rightarrow> x_type x = Node_Name
      | St_Label \<Rightarrow> x_type x = Node_Name
      | St_LabelWithColon \<Rightarrow> x_type x = Node_Name
      | St_StorageClassSpecifier \<Rightarrow> elements (\<lambda>n. x_type n = Node_Name \<and> x_sid n = StringId ''Static'') x
      | St_Expression \<Rightarrow> True
      | St_TupleExpression \<Rightarrow> \<not> isOperator x Op_Pair
      | St_ParameterList \<Rightarrow>
          isOperator x Op_Tuple \<and> (\<exists>ns. x_sub x = List.map Some ns \<and> parameters_ok ns)
      | St_Qualifiers \<Rightarrow>
          isOperator x Op_Tuple \<and> elements (\<lambda>n. checkAsClass n \<or> isOperator n Op_Call) x
      | St_ClassList \<Rightarrow> isOperator x Op_Tuple \<and> elements checkAsClass x
      | St_VarDefinitions \<Rightarrow>
          isOperator x Op_Tuple \<and>
          elements (\<lambda>n. x_type n = Node_Name \<or> isOperator n Op_Pair \<and> x_type (operand_at n 0) = Node_Name) x
      | St_ForLoopVariables \<Rightarrow> isOperator x Op_Tuple
      | St_OperatorParameter \<Rightarrow> \<exists>ns. x_sub x = List.map Some ns \<and> operands_fit ns)"

lemma wrapByTuple_tuple [simp]: "isOperator (wrapByTuple n hint) Op_Tuple"
  by (auto simp: wrapByTuple_def isOperator_def split: option.split)

lemma createNameNode_simps [simp]: "x_type (createNameNode t) = Node_Name" "x_sid (createNameNode t) = t_sid (tk t)"
    "x_op (createNameNode t) = None"
  by (simp_all add: createNameNode_def)

lemma elements_gives:
  assumes "\<And>n. P n \<Longrightarrow> R n"
  shows "gives (check_elements P message (x_sub x)) (\<lambda>accepted. accepted \<longrightarrow> elements R x)"
  using assms by (auto simp: elements_def intro!: gives_mono [OF check_elements_gives])

lemma operator_parameter_gives:
  "gives (checkAsOperatorParameter x) (\<lambda>accepted. accepted \<longrightarrow> (\<exists>ns. x_sub x = List.map Some ns \<and> operands_fit ns))"
  unfolding checkAsOperatorParameter_def by (rule gives_mono [OF check_operands_gives]) auto

lemma checked_tuple_gives:
  assumes "\<And>x. gives (check x) (\<lambda>accepted. accepted \<longrightarrow> R x)"
  shows "gives (checked_tuple stod rest delimiter check)
    (\<lambda>(n, rest1). \<forall>x. n = Some x \<longrightarrow> isOperator x Op_Tuple \<and> R x)"
  unfolding checked_tuple_def
  by (rule gives_after) (auto split: prod.split option.split intro!: gives_then [OF assms])

lemma parameter_list_empty: "\<exists>ns. x_sub (wrapByTuple None hint) = List.map Some ns \<and> parameters_ok ns"
  using parameters_from_Nil [of False False False "[]"]
  by (simp add: wrapByTuple_def parameters_from_start)

lemma extract_piece_gives:
  "gives (extract_piece stod e rest) (\<lambda>(n, rest1). \<forall>x. n = Some x \<longrightarrow> piece_fits e x)"
proof (cases "pe_type e")
  case St_TupleExpression
  then show ?thesis
    by (auto simp: extract_piece_def piece_fits_def isOperator_def wrapByTuple_def intro!: gives_after split: option.split)
next
  case St_ParameterList
  then show ?thesis
    by (auto simp: extract_piece_def piece_fits_def Let_def parameter_list_empty
        intro!: gives_after [where m = "parenthesized rest"] gives_after [where m = "parseExpression stod t" for t]
          gives_then [OF parameter_list_gives] split: option.split)
next
  case St_Qualifiers
  let ?R = "\<lambda>x. elements (\<lambda>n. checkAsClass n \<or> isOperator n Op_Call) x"
  have "gives (checkAsQualifiers x) (\<lambda>accepted. accepted \<longrightarrow> ?R x)" for x
    unfolding checkAsQualifiers_def by (rule elements_gives)
  from checked_tuple_gives [where R = ?R, OF this] show ?thesis
    by (auto simp: extract_piece_def Let_def piece_fits_def St_Qualifiers intro!: gives_then split: option.split)
next
  case St_ClassList
  have "gives (checkAsClassList x) (\<lambda>accepted. accepted \<longrightarrow> elements checkAsClass x)" for x
    unfolding checkAsClassList_def by (rule elements_gives)
  from checked_tuple_gives [where R = "elements checkAsClass", OF this] show ?thesis
    by (auto simp: extract_piece_def Let_def piece_fits_def St_ClassList)
next
  case St_VarDefinitions
  let ?R = "elements (\<lambda>n. x_type n = Node_Name \<or> isOperator n Op_Pair \<and> x_type (operand_at n 0) = Node_Name)"
  have "gives (checkAsVarDefinitions x) (\<lambda>accepted. accepted \<longrightarrow> ?R x)" for x
    unfolding checkAsVarDefinitions_def
    by (rule elements_gives) (auto simp: operand_at_def split: list.splits option.splits)
  from checked_tuple_gives [where R = ?R, OF this] show ?thesis
    by (auto simp: extract_piece_def Let_def piece_fits_def St_VarDefinitions)
next
  case St_ForLoopVariables
  show ?thesis
    by (auto simp: extract_piece_def piece_fits_def St_ForLoopVariables
        intro!: gives_mono [OF checked_tuple_gives [where R = "\<lambda>_. True"]])
next
  case St_OperatorParameter
  then show ?thesis
    by (auto simp: extract_piece_def Let_def piece_fits_def
        intro!: gives_after [where m = "parenthesized rest"] gives_after [where m = "parseOperatorParameter stod t" for t]
          gives_then [OF operator_parameter_gives] split: option.split)
next
  case St_Expression
  then show ?thesis by (auto simp: piece_fits_def intro!: gives_any)
qed (auto simp: extract_piece_def Let_def piece_fits_def sidMatches_def wrapByTuple_def isOperator_def elements_def)

subsection \<open>Statements\<close>

lemma extractStatementPiece_gives:
  "gives (extractStatementPiece stod e rest) (\<lambda>(n, rest1). \<forall>x. n = Some x \<longrightarrow> piece_fits e x)"
  unfolding extractStatementPiece_def
  by (rule gives_then [OF extract_piece_gives]) (auto split: option.split intro!: gives_steps)

text \<open>\<open>es\<close> are the pieces still to come, \<open>ks\<close> their places.\<close>

definition places :: "pattern_element list \<Rightarrow> nat list" where
  "places es = List.map_filter subNodeIndex es"

lemma places_simps [simp]:
  "places [] = []"
  "places (e # es) = (case subNodeIndex e of None \<Rightarrow> places es | Some k \<Rightarrow> k # places es)"
  by (simp_all add: places_def map_filter_simps split: option.split)

text \<open>The places of a statement before the pieces of \<open>es\<close> are put there, and after.\<close>

definition filled :: "pattern_element list \<Rightarrow> expr option list \<Rightarrow> expr option list \<Rightarrow> bool" where
  "filled es sub sub1 \<longleftrightarrow>
     length sub1 = length sub \<and> (\<forall>k. k \<notin> set (places es) \<longrightarrow> sub1 ! k = sub ! k) \<and>
     (\<forall>e \<in> set es. \<forall>k. subNodeIndex e = Some k \<longrightarrow>
        (pe_required e \<longrightarrow> sub1 ! k \<noteq> None) \<and> (\<forall>x. sub1 ! k = Some x \<longrightarrow> piece_fits e x))"

lemma filled_skip:
  assumes "filled es sub sub1" "\<not> pe_required e" "\<And>k. subNodeIndex e = Some k \<Longrightarrow> k \<notin> set (places es) \<and> sub ! k = None"
  shows "filled (e # es) sub sub1"
  using assms by (auto simp: filled_def split: option.splits)

lemma filled_put:
  assumes "filled es (case subNodeIndex e of None \<Rightarrow> sub | Some k \<Rightarrow> sub[k := Some x]) sub1" "piece_fits e x"
    and "\<And>k. subNodeIndex e = Some k \<Longrightarrow> k \<notin> set (places es) \<and> k < length sub"
  shows "filled (e # es) sub sub1"
  using assms by (cases "subNodeIndex e") (auto simp: filled_def)

lemma parse_pieces_gives:
  assumes "distinct (places es)" "\<forall>k \<in> set (places es). k < length sub \<and> sub ! k = None"
  shows "gives (parse_pieces stod toks es rest sub) (\<lambda>(fits, rest1, sub1). fits \<longrightarrow> filled es sub sub1)"
  using assms
proof (induction es arbitrary: toks rest sub)
  case Nil
  show ?case by (simp add: filled_def)
next
  case (Cons e es)
  have d: "distinct (places es)" and new: "\<And>k. subNodeIndex e = Some k \<Longrightarrow> k \<notin> set (places es) \<and> k < length sub \<and> sub ! k = None"
    and rest: "\<forall>k \<in> set (places es). k < length sub \<and> sub ! k = None"
    using Cons.prems by (auto split: option.splits)
  have skip: "gives (parse_pieces stod toks es rest1 sub) (\<lambda>(fits, rest1, sub1). fits \<longrightarrow> filled (e # es) sub sub1)"
    if "\<not> pe_required e" for toks rest1
    by (rule gives_mono [OF Cons.IH [OF d rest]]) (use filled_skip [OF _ that] new in auto)
  have put: "gives (parse_pieces stod toks es rest1 (case subNodeIndex e of None \<Rightarrow> sub | Some k \<Rightarrow> sub[k := Some x]))
      (\<lambda>(fits, rest1, sub1). fits \<longrightarrow> filled (e # es) sub sub1)" if "piece_fits e x" for toks rest1 x
    by (rule gives_mono [OF Cons.IH [OF d]])
      (use rest new filled_put [OF _ that, of es sub] in \<open>auto simp: nth_list_update split: option.splits\<close>)
  show ?case
  proof (cases "rest = []")
    case True
    then show ?thesis
      by (auto intro!: skip gives_after [where m = "errorAtNextToken lv t message args" for lv t message args])
  next
    case False
    have "gives (case n of
          Some x \<Rightarrow>
            parse_pieces stod toks es rest1 (case subNodeIndex e of None \<Rightarrow> sub | Some k \<Rightarrow> sub[k := Some x])
        | None \<Rightarrow>
            if pe_required e then lret (False, rest1, sub) else parse_pieces stod toks es rest1 sub)
        (\<lambda>(fits, rest1, sub1). fits \<longrightarrow> filled (e # es) sub sub1)"
      if "\<forall>x. n = Some x \<longrightarrow> piece_fits e x" for n rest1
      using that by (cases n) (auto intro: put skip)
    with False show ?thesis
      by (auto intro!: gives_then [OF extractStatementPiece_gives])
  qed
qed

lemma table_places:
  "list_all (\<lambda>(_, attr). distinct (places (sa_pattern attr)) \<and> list_all (\<lambda>k. k < sa_subNodes attr) (places (sa_pattern attr)))
     sourceForStAttrs"
  by (simp add: sourceForStAttrs_def statement_attr_def optional_piece_def required_piece_def piece_of_def subnode_defs)

lemma getStAttr_places:
  "distinct (places (sa_pattern (getStAttr type)))" "k \<in> set (places (sa_pattern (getStAttr type))) \<Longrightarrow> k < sa_subNodes (getStAttr type)"
proof -
  have "(type, attr) \<in> set sourceForStAttrs \<Longrightarrow> distinct (places (sa_pattern attr)) \<and>
      list_all (\<lambda>k. k < sa_subNodes attr) (places (sa_pattern attr))" for attr
    using table_places by (auto simp: list_all_iff)
  then show "distinct (places (sa_pattern (getStAttr type)))" "k \<in> set (places (sa_pattern (getStAttr type))) \<Longrightarrow> k < sa_subNodes (getStAttr type)"
    by (auto simp: getStAttr_def statement_attr_def list_all_iff dest!: map_of_SomeD split: option.splits)
qed

lemma combination_gives:
  "gives (checkCombination sub k0 k1 message) (\<lambda>fits. fits \<longrightarrow> (sub ! k0 = None \<longleftrightarrow> sub ! k1 = None))"
  by (auto simp: checkCombination_def intro!: gives_steps split: option.split)

text \<open>What the table does not say of a definition and of a class.\<close>

definition definition_fits :: "nat \<Rightarrow> line option \<Rightarrow> statement \<Rightarrow> bool" where
  "definition_fits sid block_line st \<longleftrightarrow>
     (st_subNodes st ! Def_Operator = None \<longleftrightarrow> st_subNodes st ! Def_OperatorParameter = None) \<and>
     (st_subNodes st ! Def_Delete \<noteq> None \<longrightarrow>
        block_line = None \<and> sid \<noteq> StringId ''Init'' \<and> sid \<noteq> StringId ''Deinit'') \<and>
     (\<forall>q. st_subNodes st ! Def_Qualifiers = Some q \<longrightarrow>
        elements (\<lambda>n. x_type n = Node_Name \<and> x_sid n = StringId ''Native'') q) \<and>
     (st_native st \<longleftrightarrow> (\<exists>q. st_subNodes st ! Def_Qualifiers = Some q \<and> x_sub q \<noteq> []))"

definition class_fits :: "statement \<Rightarrow> bool" where
  "class_fits st \<longleftrightarrow> (st_subNodes st ! Class_Extends = None \<longleftrightarrow> st_subNodes st ! Class_BaseClassList = None)"

lemma qualify_gives:
  "gives (qualify native subs) (\<lambda>(accepted, native1). accepted \<longrightarrow>
     (\<forall>s \<in> set subs. \<exists>n. s = Some n \<and> x_type n = Node_Name \<and> x_sid n = StringId ''Native'') \<and>
     (native1 \<longleftrightarrow> native \<or> subs \<noteq> []))"
proof (induction subs arbitrary: native)
  case (Cons s subs)
  then show ?case
    by (cases s) (auto intro!: gives_steps gives_mono [OF Cons.IH])
qed simp

lemma qualifyDef_gives:
  "gives (qualifyDef sub) (\<lambda>(accepted, native). accepted \<longrightarrow>
     (\<forall>q. sub ! Def_Qualifiers = Some q \<longrightarrow> elements (\<lambda>n. x_type n = Node_Name \<and> x_sid n = StringId ''Native'') q) \<and>
     (native \<longleftrightarrow> (\<exists>q. sub ! Def_Qualifiers = Some q \<and> x_sub q \<noteq> [])))"
  by (auto simp: qualifyDef_def elements_def intro!: gives_mono [OF qualify_gives] split: option.split)

lemma qualified_gives:
  assumes "sub ! Def_Operator = None \<longleftrightarrow> sub ! Def_OperatorParameter = None"
    and "sub ! Def_Delete \<noteq> None \<Longrightarrow> block_line = None \<and> sid \<noteq> StringId ''Init'' \<and> sid \<noteq> StringId ''Deinit''"
  shows "gives (lbind (qualifyDef sub) (\<lambda>(accepted, native).
      lret (if accepted then Some \<lparr>st_subNodes = sub, st_native = native\<rparr> else None)))
    (\<lambda>r. \<forall>st. r = Some st \<longrightarrow> st_subNodes st = sub \<and> definition_fits sid block_line st)"
  by (rule gives_then [OF qualifyDef_gives]) (use assms in \<open>auto simp: definition_fits_def\<close>)

lemma check_def_gives:
  "gives (check_def sid block_line sub) (\<lambda>r. \<forall>st. r = Some st \<longrightarrow> st_subNodes st = sub \<and> definition_fits sid block_line st)"
  unfolding check_def_def
  by (auto intro!: gives_then [OF combination_gives] gives_steps qualified_gives
      gives_after [where m = "static_warning n" for n]
      gives_after [where m = "errorAtWholeLine lv ln message args" for lv ln message args] split: option.split)

lemma check_class_gives:
  "gives (check_class sub) (\<lambda>r. \<forall>st. r = Some st \<longrightarrow> st_subNodes st = sub \<and> class_fits st)"
  unfolding check_class_def
  by (rule gives_then [OF combination_gives]) (auto simp: class_fits_def intro!: gives_after)

text \<open>The pieces of an accepted statement.\<close>

definition statement_fits :: "stnode \<Rightarrow> line option \<Rightarrow> statement \<Rightarrow> bool" where
  "statement_fits n block_line st \<longleftrightarrow>
     filled (sa_pattern (getStAttr (n_type n))) (replicate (sa_subNodes (getStAttr (n_type n))) None) (st_subNodes st) \<and>
     (n_type n = Node_Def \<longrightarrow> definition_fits (n_sid n) block_line st) \<and>
     (n_type n = Node_Class \<longrightarrow> class_fits st)"

lemma parse_tokens_gives:
  "gives (parse_tokens stod n (getStAttr (n_type n)) block_line) (\<lambda>r. \<forall>st. r = Some st \<longrightarrow> statement_fits n block_line st)"
  unfolding parse_tokens_def
  by (auto intro!: gives_then [OF parse_pieces_gives] getStAttr_places gives_steps gives_mono [OF check_def_gives]
      gives_mono [OF check_class_gives] dest: getStAttr_places(2) simp: statement_fits_def)

lemma parse_statement_gives:
  "gives (parse_statement stod n block_line) (\<lambda>r. \<forall>st. r = Some st \<longrightarrow>
     statement_fits n block_line st \<and> (\<forall>ln. n_line n = Some ln \<longrightarrow> \<not> l_containsError ln))"
  unfolding parse_statement_def Let_def
  by (auto intro!: gives_mono [OF parse_tokens_gives]
      gives_after [where m = "errorAtWholeLine lv ln message args" for lv ln message args] split: option.split)

end
