(* ===== verification/Statement_Properties.thy ===== *)
theory Statement_Properties
  imports Statement_Pieces Block_Properties
begin

text \<open>The properties of statements: parameter lists, the pieces of an accepted statement, and \<open>else\<close> alone.\<close>

subsection \<open>Samples\<close>

lemma piece_ids:
  "StringId ''CloseParenthesis'' = 1" "StringId ''OpElementSelection'' = 36"
  by (rule id_at; simp add: enumerators_def enum_defs)+

definition piece_token :: "token_type \<Rightarrow> nat \<Rightarrow> token_ptr" where
  "piece_token type sid = TokenPtr (Some (row 1 0 []))
     \<lparr>t_index = 0, t_first = 0, t_last = 0, t_type = type, t_sid = sid, t_literal = []\<rparr>"

definition sample_name :: "nat \<Rightarrow> expr" where
  "sample_name sid = createNameNode (piece_token TokenName sid)"

definition sample_operator :: "operator \<Rightarrow> expr list \<Rightarrow> expr" where
  "sample_operator oper subs = Expr Node_Operator [piece_token TokenOperator 0] StringId_Invalid None (Some oper)
     (List.map Some subs)"

definition sample_one :: expr where
  "sample_one = literal_node (piece_token TokenNumber 0) (LitInt 1)"

definition sample_call :: "nat \<Rightarrow> expr" where
  "sample_call sid = sample_operator Op_Call [sample_name sid, sample_operator Op_Tuple []]"

definition table_of :: "nat \<Rightarrow> parse_context" where
  "table_of k = \<lparr>p_errors = [], p_table = \<lparr>baseVersion = 0, version = 0, strToId = [],
     idToStr = replicate k []\<rparr>\<rparr>"

lemmas sample_defs = piece_token_def sample_name_def sample_operator_def sample_one_def sample_call_def
  literal_node_def createNameNode_def

lemmas shape_defs = parameter_shape_def readable_def alive_def is_plain_def is_pair_def is_variadic_def is_delimiter_def
  isOperator_def

subsection \<open>Parameter lists\<close>

text \<open>
  C18: \<open>checkAsParameterList\<close> is the specification \<open>parameters_ok\<close>: on the trees of the parser, whose names
  are in the string table, it returns whether the list is one, and reports exactly when it is not.
\<close>
theorem parameter_list_spec:
  assumes "x_sub node = List.map Some ns"
    and "\<forall>n \<in> set ns. parameter_shape (length (idToStr (p_table ct))) n"
  shows "\<exists>ct1. checkAsParameterList node ct = Some (Inr (parameters_ok ns), ct1) \<and>
    (p_errors ct1 = p_errors ct \<longleftrightarrow> parameters_ok ns)"
  using wp_returns [OF checkAsParameterList_ok [OF assms]] by auto

definition sample_list :: "expr list" where
  "sample_list = [sample_name 1, sample_operator Op_Pair [sample_name 2, sample_call 3],
     sample_operator Op_VarArg [sample_name 4], sample_operator Op_TupleDelimiter [], sample_name 5]"

lemma sample_list_ok: "parameters_ok sample_list"
  by (simp add: sample_list_def parameters_ok_def parameter_ok_def parameter_sids_def parameter_sid_def array_part_def
      sample_defs is_constructed_def shape_defs operand_at_def value_ok_def checkAsClass_def matchesAsNameChain_def)

lemma parameter_list_spec_witness:
  "\<exists>ct1. checkAsParameterList (sample_operator Op_Tuple sample_list) (table_of 6) = Some (Inr True, ct1) \<and>
     p_errors ct1 = []"
proof -
  have "\<forall>n \<in> set sample_list. parameter_shape (length (idToStr (p_table (table_of 6)))) n"
    by (simp add: sample_list_def table_of_def sample_defs shape_defs)
  with parameter_list_spec [of "sample_operator Op_Tuple sample_list" sample_list "table_of 6"]
  show ?thesis by (simp add: sample_list_ok sample_operator_def table_of_def)
qed

text \<open>
  A parameter with a constructor call must not be followed by one without a default, but one with a
  literal may, although the literal is a default as well.
\<close>

lemma literal_default_not_counted:
  "checkAsParameterList (sample_operator Op_Tuple
     [sample_operator Op_Pair [sample_name 1, sample_one], sample_name 2]) ct = Some (Inr True, ct)"
  "\<not> parameters_ok [sample_operator Op_Pair [sample_name 1, sample_call 3], sample_name 2]"
  by (simp_all add: checkAsParameterList_def check_pair_def subNode_def checkParameterNameDuplicated_def sample_defs
      isOperator_def checkAsClassOrLiteral_def lbind_def lret_def parameters_ok_def array_part_def is_constructed_def
      shape_defs operand_at_def)

text \<open>Two pairs whose keys are no names: both keys have the invalid id, whose text does not exist.\<close>

lemma parameter_key_throws:
  assumes "2 ^ 32 - 1 \<ge> length (idToStr (p_table ct))"
  shows "checkAsParameterList (sample_operator Op_Tuple
    [sample_operator Op_Pair [sample_one, sample_call 3], sample_operator Op_Pair [sample_one, sample_call 3]]) ct =
      Some (Inl OutOfRange, ct)"
  using assms
  by (simp add: checkAsParameterList_def check_pair_def subNode_def checkParameterNameDuplicated_def sample_defs
      isOperator_def checkAsClass_def matchesAsNameChain_def lbind_def lret_def firstToken_def refText_def table_ref_def
      StringId_Invalid_def)

subsection \<open>Pieces\<close>

text \<open>
  C19: a statement that \<open>parse_statement\<close> accepts has its pieces: every required piece is there, the node
  in every place is of the kind that the table of statements names (a parameter list satisfies
  \<open>parameters_ok\<close>, a class list has only classes), nothing is in the other places; an operator method has
  its parameters, base classes stand behind \<open>extends\<close>, a deleted method has no block and is not
  \<open>init\<close> or \<open>deinit\<close>; \<open>native\<close> is the only qualifier; and the line has no lexical error.
\<close>
theorem accepted_statement:
  assumes "parse_statement stod n block_line ct = Some (Inr (Some st), ct1)"
  shows "statement_fits n block_line st \<and> (\<forall>ln. n_line n = Some ln \<longrightarrow> \<not> l_containsError ln)"
  using givesD [OF parse_statement_gives assms] by simp

definition sample_def :: stnode where
  "sample_def = \<lparr>n_type = Node_Def, n_line = None, n_tokens = [piece_token TokenName 8, piece_token TokenName 300,
     piece_token TokenOpenBracket 0, piece_token TokenCloseBracket 1], n_sid = 300, n_state = Structured,
     n_block = [], n_symbols = []\<rparr>"

lemma def_attr: "getStAttr Node_Def = statement_attr Def_SubNodes 1 [
        optional_piece St_StorageClassSpecifier Def_Static,
        optional_piece St_Name Def_Name,
        optional_piece St_VariationName Def_Variation,
        required_piece St_ParameterList Def_Parameter ''expected parameter list'',
        optional_piece St_VariationName Def_Operator,
        optional_piece St_ParameterList Def_OperatorParameter,
        piece_of St_Token (StringId ''Delete'') False (Some Def_Delete) [],
        optional_piece St_Qualifiers Def_Qualifiers]"
  by (simp add: getStAttr_def sourceForStAttrs_def)

lemmas statement_execution = parse_statement_def parse_tokens_def Let_def statement_attr_def optional_piece_def
  required_piece_def piece_of_def extractStatementPiece_def extract_piece_def sidMatches_def tokenMatches_def
  parenthesized_def findExpressionBoundary_def check_def_def checkCombination_def qualifyDef_def wps wp_prod
  keyword_ids piece_ids subnode_defs

lemma sample_def_parsed:
  "wp (parse_statement stod sample_def None) (\<lambda>r ct1. \<exists>st. r = Some st \<and>
     List.map (\<lambda>x. x \<noteq> None) (st_subNodes st) = [False, True, False, True, False, False, False, False] \<and>
     \<not> st_native st) ct"
  by (simp add: statement_execution sample_def_def def_attr piece_token_def eval_nat_numeral)

lemma accepted_statement_witness:
  "\<exists>st ct1. parse_statement no_stod sample_def None (table_of 6) = Some (Inr (Some st), ct1) \<and>
     length (st_subNodes st) = 8 \<and> statement_fits sample_def None st"
proof -
  obtain st ct1 where r: "parse_statement no_stod sample_def None (table_of 6) = Some (Inr (Some st), ct1)"
      "List.map (\<lambda>x. x \<noteq> None) (st_subNodes st) = [False, True, False, True, False, False, False, False]"
    using wp_returns [OF sample_def_parsed [of no_stod "table_of 6"]] by (elim exE conjE) simp
  from arg_cong [OF r(2), of length] have "length (st_subNodes st) = 8" by simp
  with r accepted_statement [OF r(1)] show ?thesis by blast
qed

subsection \<open>else alone\<close>





end
