(* ===== verification/Spec2Isabelle.thy ===== *)
theory Spec2Isabelle
  imports Prelude Char_Class Text Utf8 Id_Pool String_Ids String_Table Raw_Integer Stream Archive
    Table_Stream Async_Read Timer Lex_Token Lex_Lines Lex_Facts Line_Facts Lex_Behaviour
    Lockable Object_Layout Storage Collector Object_Table Storage_Inv Storage_Alloc Storage_Ops
    Collector_Inv Storage_Steps Collector_Gap Collector_Live Storage_Properties
    Parser_Data Literal_Parser Literal_Facts Expression_Parser Expression_Facts
    Expression_Trees Expression_Inv Expression_Total Expression_Boundary Parser_Properties
    Block_Structure Block_Facts Block_Order Block_Loop Block_Place Block_Properties
    Statement_Parser Parameter_Lists Statement_Pieces Statement_Properties
begin

text \<open>
  Chatra is an embeddable scripting language: the host hands source text to an interpreter, which
  compiles it and runs it on the host's threads, with a concurrent garbage collector. This
  development models the core of the program, \<open>src/chatra_core\<close>, from the bytes of a script to the
  parsed statements, together with the parts everything else rests on: ids, texts, streams, timers and
  the memory management.

  How the parts work together. A script goes through \<open>parseLines\<close>, which cuts it into lines of tokens
  and interns their texts in the shared \<open>StringTable\<close>; \<open>groupScript\<close> puts the lines into a tree by their
  indentation; \<open>structureInnerNode\<close> turns the lines of a block into statements, when the block is first
  needed; the loop of \<open>parseInnerNode\<close> takes the pieces of a statement, with \<open>parseExpression\<close> for its
  expressions and \<open>parseAsLiteral\<close> for their literals. Programs keep their data in a \<open>Storage\<close>: objects and
  scopes hold reference nodes, reference groups are guarded by re-entrant locks, and \<open>Storage::tidy\<close>
  collects in small steps while the programs run. Threads, packages and timers take their ids from
  pools; a state of the interpreter is saved through \<open>Writer\<close> and restored through \<open>Reader\<close>.

  The theories, and the code they model:
    \<^item> \<open>Prelude\<close>: the computation type of the model (below), its rules, \<open>SIZE_MAX\<close>, lists and maps.
    \<^item> \<open>Char_Class\<close>, \<open>Text\<close>, \<open>Utf8\<close>: \<open>CharacterClass.h\<close> and the text helpers of \<open>Internal.h\<close>
      (\<open>byteCount\<close>, \<open>extractChar\<close>); \<open>utf8\<close> says that a text can be walked with \<open>byteCount\<close>.
    \<^item> \<open>Id_Pool\<close>: \<open>IdPool\<close> of \<open>Internal.h\<close>, and the locale \<open>id_supply\<close>.
    \<^item> \<open>Async_Read\<close>: \<open>AsyncRead\<close> of \<open>Internal.h\<close> as a step relation of a writer and readers.
    \<^item> \<open>String_Ids\<close>, \<open>String_Table\<close>, \<open>Table_Stream\<close>: \<open>StringTable.h\<close> and \<open>StringTable.cpp\<close>, with the locale
      \<open>string_pool\<close>; saving and restoring.
    \<^item> \<open>Raw_Integer\<close>, \<open>Stream\<close>, \<open>Archive\<close>: \<open>Serialize.h\<close> and \<open>Serialize.cpp\<close>: variable-length integers, typed
      streams with their debug tags, the chunked container and the pointers of objects; locale \<open>codec\<close>.
    \<^item> \<open>Timer\<close>: \<open>Timer.h\<close> and \<open>Timer.cpp\<close>.
    \<^item> \<open>Lex_Token\<close>, \<open>Lex_Lines\<close>: \<open>LexicalAnalyzer.h\<close> and \<open>LexicalAnalyzer.cpp\<close>; \<open>Lex_Facts\<close>, \<open>Line_Facts\<close>
      and \<open>Lex_Behaviour\<close> hold the facts about them.
    \<^item> \<open>Lockable\<close>, \<open>Object_Layout\<close>, \<open>Storage\<close>, \<open>Collector\<close>: \<open>MemoryManagement.h\<close> and \<open>MemoryManagement.cpp\<close>;
      \<open>Object_Table\<close> is the table of objects as a supply of ids, \<open>Storage_Inv\<close>, \<open>Storage_Alloc\<close>, \<open>Storage_Ops\<close>,
      \<open>Collector_Inv\<close> the invariant and its preservation, \<open>Storage_Steps\<close> programs and collector as a step
      relation, \<open>Collector_Live\<close> a collection from its beginning to its end (\<open>RuntimeImp::fullGc\<close> of
      \<open>Runtime.cpp\<close>), \<open>Collector_Gap\<close> two ways to lose objects, \<open>Storage_Properties\<close> the properties.
    \<^item> \<open>Parser_Data\<close>, \<open>Literal_Parser\<close>, \<open>Expression_Parser\<close>: \<open>Parser.h\<close>, and of \<open>Parser.cpp\<close> the operator tables,
      literals, brackets, \<open>extractOperator\<close>, \<open>parseNodes\<close>, \<open>parseExpression\<close>, \<open>parseOperatorParameter\<close>;
      \<open>Literal_Facts\<close> and the theories \<open>Expression_*\<close> hold the facts, \<open>Parser_Properties\<close> the properties.
    \<^item> \<open>Block_Structure\<close>: \<open>groupScript\<close> and \<open>structureInnerNode\<close> of \<open>Parser.cpp\<close> on a store of nodes;
      \<open>Block_Facts\<close>, \<open>Block_Order\<close>, \<open>Block_Loop\<close>, \<open>Block_Place\<close>, \<open>Block_Properties\<close>.
    \<^item> \<open>Statement_Parser\<close>: the table of statements, the checks of the pieces, \<open>extractStatementPiece\<close> and one
      turn of the loop of \<open>parseInnerNode\<close>; \<open>Parameter_Lists\<close>, \<open>Statement_Pieces\<close>, \<open>Statement_Properties\<close>.

  The model. A computation takes a context and returns \<open>None\<close> (it does not return), or a value or an
  exception with the new context: \<open>Inl\<close> has the exceptions of the code, and the undefined behaviour it
  can run into (\<open>OutOfRange\<close>, \<open>NullPointerRead\<close>), so that no such place is silently skipped. Error reports are
  appended to the context. Loops whose end is not structural are \<open>function\<close>s with a measure, or
  \<open>partial_function (option)\<close> where the code may really loop forever. Nodes that the code shares and changes are
  addresses into a list; nodes of expressions, which it does not change, are values. Texts are byte
  lists; string ids and indices of objects are natural numbers below the capacity \<open>2 ^ 32 - 1\<close> of their
  tables, stated where a table can be full; \<open>size_t\<close> wraps around at \<open>2 ^ 64\<close> in \<open>size_add\<close>; literals and streams
  use 64-bit words. The step relations of \<open>Async_Read\<close> and \<open>Storage_Steps\<close> have one step for each
  region the code runs under a lock or as one atomic access.

  The lemmas. The lexical analyzer returns on UTF-8 sources and loses no character. The expression
  parser returns on bracketed tokens, its trees have the tokens of the expression in order and the
  precedence of the table. \<open>groupScript\<close> keeps the lines in order, \<open>structureInnerNode\<close> leaves only blocks in
  order and keeps the tokens; its argument \<open>depth\<close> bounds the recursion into an \<open>IfGroup\<close>, whose block has
  no group, so 2 is enough. An accepted statement has its pieces. The memory management never
  collects what a program reaches (with the exceptions of \<open>Collector_Gap\<close>), and a full collection leaves
  just that. Everything that is written to a stream is read back. Some properties show what the code does
  wrong: sources on which it does not return, reads outside of a buffer, a race on the first write, a
  timer that oversleeps.

  Interfaces. \<open>id_supply\<close> (who takes an id gets one that is not in use, and ids stay compact) is provided by
  \<open>IdPool\<close>, by the table of objects and by the timer's handler ids; \<open>codec\<close> (what is written is read back,
  whatever follows) by integers, truth values and texts, and used for lists of them; \<open>string_pool\<close>
  (interning keeps what is interned) by \<open>StringTable\<close>, and used for lists of texts.

  Parameters. \<open>std::stod\<close> is an argument of the literal parser; nothing about it is assumed. The clock of
  a timer is an argument of its operations.

  Not modelled: the annotations and the syntax sugar of \<open>parseInnerNode\<close> (\<open>Parser.cpp\<close>), which rewrite
  statements before their pieces are taken; the classes, methods and their overloads (\<open>Classes.h\<close>,
  \<open>Classes.cpp\<close>); the runtime, the threads and their instructions, frames and temporary objects
  (\<open>Runtime.cpp\<close>, \<open>Thread.cpp\<close>, \<open>TemporaryObject.cpp\<close>, \<open>Miscellaneous.cpp\<close>), of which only the loop of \<open>fullGc\<close> is
  here; the embedded classes and functions and the native calls; the native libraries in \<open>src/chatra_emb\<close>,
  whose regular expressions are third-party code; debug output, the command line and the tests. Of
  the storage, saving and restoring are not modelled, of \<open>SystemTimer\<close> its condition variable and the end of
  its thread. The model of memory is sequentially consistent.
\<close>

section \<open>Lexical analysis\<close>

definition empty_table :: string_table where
  "empty_table = \<lparr>baseVersion = 0, version = 0, strToId = [], idToStr = []\<rparr>"

definition sample_context :: lex_context where
  "sample_context = \<lparr>c_errors = [], c_table = empty_table, c_fileName = ''a.cha''\<rparr>"

lemma empty_table_wf: "table_wf empty_table" "table_capacity empty_table = 2 ^ 32 - 1"
  by (simp_all add: table_wf_def empty_table_def table_capacity_def)

text \<open>
  C1: on every source that is UTF-8, \<open>parseLines\<close> returns, with the lines or with the exception
  \<open>AbortCompiling\<close>; no loop of the lexical analyzer runs forever.
\<close>
theorem lexer_returns:
  assumes "utf8 source" "length source < size_max"
  shows "\<exists>r ct'. parseLines lineNo source ct = Some (r, ct')"
  using parseLines_returns [OF assms, of lineNo] by (simp add: returns_def)

lemma lexer_returns_witness:
  "utf8 ''a = 1'' \<and> (\<exists>r ct'. parseLines 1 ''a = 1'' sample_context = Some (r, ct'))"
proof -
  have "list_all ascii ''a = 1''" by code_simp
  then have "utf8 ''a = 1''" by (rule ascii_utf8)
  with lexer_returns [of "''a = 1''" 1 sample_context] show ?thesis
    by (simp add: size_max_def)
qed

text \<open>
  C2: \<open>parseLine\<close> loses nothing. When it returns a line without the error mark, the tokens stand in
  the order of the text, every token has the columns and the text of its lexeme, only white space
  is between them and after them, and the tokens are numbered from 0.
\<close>
theorem parseLine_covers:
  assumes "parseLine fileName lineNo rawLine str columnIndex ct = Some (Inr ln, ct')"
    and "\<not> l_containsError ln" "table_wf (c_table ct)" "length str \<le> table_capacity (c_table ct)"
  shows "covers (c_table ct') columnIndex str (length (takeWhile (\<lambda>c. c = CHR 0x09) str))
      (l_tokens ln) (length str) \<and>
    List.map t_index (l_tokens ln) = [0..<length (l_tokens ln)]"
  using parseLine_result [OF assms(1,3,4)] assms(2) by blast

lemma sample_parse:
  "parseLine f n ''('' ''('' [0] sample_context =
     Some (Inr \<lparr>l_containsError = False, l_fileName = f, l_lineNo = n, l_line = ''('', l_indents = 0,
        l_tokens = [\<lparr>t_index = 0, t_first = 0, t_last = 1, t_type = TokenOpenBracket, t_sid = 0,
          t_literal = []\<rparr>]\<rparr>,
      sample_context\<lparr>c_table := \<lparr>baseVersion = 0, version = 1, strToId = [(''('', 0)], idToStr = [''('']\<rparr>\<rparr>)"
proof -
  let ?ret = "\<lparr>l_containsError = False, l_fileName = f, l_lineNo = n, l_line = ''('', l_indents = 0,
    l_tokens = []\<rparr>"
  have "parse_loop [0] ''('' 0 ?ret sample_context = parse_loop [0] ''('' 1
      (?ret\<lparr>l_tokens := [\<lparr>t_index = 0, t_first = 0, t_last = 1, t_type = TokenOpenBracket, t_sid = 0,
          t_literal = []\<rparr>]\<rparr>)
      (sample_context\<lparr>c_table := \<lparr>baseVersion = 0, version = 1, strToId = [(''('', 0)], idToStr = [''('']\<rparr>\<rparr>)"
    by (subst parse_loop.simps)
      (simp add: parse_step_def Let_def isSpace_def bracket_type_def lbind_def addToken_def column_def
        lret_def sample_context_def empty_table_def intern_value_def table_add_def um_emplace_def)
  then show ?thesis
    by (simp add: parseLine_def Let_def lbind_def lret_def number_tokens_def parse_loop.simps [of _ _ "Suc 0"])
qed

lemma parseLine_covers_witness:
  "covers \<lparr>baseVersion = 0, version = 1, strToId = [(''('', 0)], idToStr = [''('']\<rparr> [0] ''('' 0
     [\<lparr>t_index = 0, t_first = 0, t_last = 1, t_type = TokenOpenBracket, t_sid = 0, t_literal = []\<rparr>] 1"
  using parseLine_covers [OF sample_parse [of "''a.cha''" 1]] empty_table_wf
  by (simp add: sample_context_def)

text \<open>
  C3: \<open>removeComments\<close> keeps the correspondence with the source. Whatever the line, it returns; a
  line it returns is UTF-8, has one column per character, the column of a kept character is the
  position of that character in the raw line (a tab may stand for the first of four spaces, a
  space put in the place of a comment has no column), the columns increase, and there is no
  trailing white space.
\<close>
theorem removeComments_columns:
  assumes "length rawLine < size_max"
  shows "\<exists>r ct'. removeComments comment lineNo rawLine keepIndents ct = Some (r, ct') \<and>
    (\<forall>l comment'. r = Inr (l, comment') \<longrightarrow> clean_line rawLine l)"
  using removeComments_ok [OF assms, of comment lineNo keepIndents ct] by blast

lemma removeComments_columns_witness:
  "\<exists>r ct'. removeComments new_comment 1 ''a /* b */ c'' True sample_context = Some (r, ct')"
  using removeComments_columns [of "''a /* b */ c''" new_comment 1 True sample_context]
  by (auto simp: size_max_def)

text \<open>
  A line without comment marks, that neither begins nor ends with white space, passes
  \<open>removeComments\<close> unchanged, outside of block comments.
\<close>
theorem removeComments_identity:
  assumes "plain rawLine" "cm_level comment = 0"
  shows "removeComments comment lineNo rawLine keepIndents ct =
    Some (Inr (\<lparr>pl_valid = True, pl_line = rawLine, pl_columnIndex = [0..<length rawLine]\<rparr>, comment), ct)"
  using removeComments_plain [OF assms] by (simp add: wrapRawLine_def)

lemma removeComments_identity_witness:
  "removeComments new_comment 1 ''>>>'' True sample_context =
     Some (Inr (\<lparr>pl_valid = True, pl_line = ''>>>'', pl_columnIndex = [0, 1, 2]\<rparr>, new_comment), sample_context)"
  using removeComments_identity [OF plain_pieces(2), of new_comment 1 True sample_context]
  by (simp add: new_comment_def upt_rec)

text \<open>
  C4: without the hypothesis on the encoding the statement of \<open>lexer_returns\<close> is wrong: \<open>parseLines\<close> does not
  return on a source of eleven bytes, a string literal that ends its line with \<open>R<<<\<close>, followed by
  a byte that is not UTF-8. The bytes of a raw string are not checked, and \<open>findEndOfString\<close>
  advances by \<open>byteCount\<close>, which is 0 there.
\<close>
theorem lexer_hangs:
  "parseLines lineNo ([CHR 0x22] @ ''R<<<'' @ [CHR 0x0A, CHR 0xFF, CHR 0x0A] @ ''>>>'') ct = None"
  using parseLines_stuck by (simp add: stuck_source_def)


section \<open>Text\<close>

text \<open>
  \<open>extractChar\<close> and \<open>byteCount\<close> agree on the code points of the basic plane: the bytes written
  for a code point are read as one sequence, wherever they stand.
\<close>
theorem utf8_round_trip:
  assumes "c < 0x10000"
  shows "byteCount (pre @ extractChar c @ post) (length pre) = length (extractChar c) \<and> extractChar c \<noteq> []"
  using byteCount_extractChar [OF assms, of pre post] extractChar_empty [of c] assms range_chain(3) by blast

lemma utf8_round_trip_witness: "byteCount (''x'' @ extractChar 0x3042 @ ''y'') 1 = 3"
  using utf8_round_trip [of "0x3042" "''x''" "''y''"] by (simp add: extractChar_def)

text \<open>
  C29: for every other code point \<open>extractChar\<close> writes four bytes of which \<open>byteCount\<close> takes three,
  because the lead byte is built with \<open>0xE0\<close>.
\<close>
theorem utf8_supplementary:
  assumes "\<not> c < 0x10000" "c < 0x110000"
  shows "length (extractChar c) = 4 \<and> byteCount (pre @ extractChar c @ post) (length pre) = 3"
  using byteCount_extractChar_supplementary [OF assms] by blast

lemma utf8_supplementary_witness:
  "length (extractChar 0x1F600) = 4 \<and> byteCount (''x'' @ extractChar 0x1F600 @ ''y'') 1 = 3"
  using utf8_supplementary [of "0x1F600" "''x''" "''y''"] by simp

section \<open>Ids and strings\<close>

text \<open>
  C30: an \<open>IdPool\<close> hands out compact ids. After any sequence of allocations and removals of live ids,
  starting from the empty pool, the ids in use and the recycled ones are exactly the numbers below
  \<open>pool_used\<close>, which never exceeds the largest number of ids that were in use together.
\<close>
theorem pool_compact:
  assumes "run_ids pool_live (allocateId v) pool_remove empty_pool os = Some p"
  shows "pool_inv p \<and> pool_used p \<le> peak_ids pool_live (allocateId v) pool_remove empty_pool os"
  using pool_ids.run_inv [OF pool_inv_empty assms] pool_ids.run_compact [OF pool_inv_empty assms]
  by (simp add: pool_used_def empty_pool_def)

lemma pool_compact_witness:
  "pool_used (snd (allocateId True (pool_remove 0 (snd (allocateId True empty_pool))))) \<le> 1"
proof -
  have a: "allocateId True empty_pool = (0, \<lparr>pool_values = [(0, True)], pool_recycled = []\<rparr>)"
    by (simp add: allocateId_def empty_pool_def um_emplace_def)
  have b: "pool_remove 0 \<lparr>pool_values = [(0, True)], pool_recycled = []\<rparr> =
      \<lparr>pool_values = [], pool_recycled = [0]\<rparr>"
    by (simp add: pool_remove_def um_erase_def)
  have c: "allocateId True \<lparr>pool_values = [], pool_recycled = [0]\<rparr> =
      (0, \<lparr>pool_values = [(0, True)], pool_recycled = []\<rparr>)"
    by (simp add: allocateId_def um_emplace_def)
  have run: "run_ids pool_live (allocateId True) pool_remove empty_pool [Take, Give 0, Take] =
      Some (snd (allocateId True (pool_remove 0 (snd (allocateId True empty_pool)))))"
    by (simp add: a pool_live_def)
  have "peak_ids pool_live (allocateId True) pool_remove empty_pool [Take, Give 0, Take] = 1"
    by (simp add: a b c pool_live_def del: snd_conv) (simp add: a b c pool_live_def empty_pool_def)
  with pool_compact [OF run] show ?thesis by simp
qed

text \<open>
  \<open>setId\<close>, used when a saved state is restored, refuses an id that is in use and otherwise
  keeps the invariant, whatever the order in which the saved ids come back.
\<close>
theorem setId_restores:
  assumes "pool_inv p"
  shows "(case setId i v p of
            Inl e \<Rightarrow> e = InternalError \<and> i \<in> pool_live p
          | Inr p' \<Rightarrow> pool_inv p' \<and> i \<notin> pool_live p \<and> pool_live p' = insert i (pool_live p))"
  using setId_error [of i v p] setId_live [of i v p] setId_inv [OF assms, of i v]
  by (auto split: sum.split)

lemma setId_restores_witness:
  "(case setId 2 True empty_pool of Inl e \<Rightarrow> False | Inr p' \<Rightarrow> pool_inv p' \<and> pool_live p' = {2})"
  using setId_restores [OF pool_inv_empty, of 2 True]
  by (auto simp: pool_live_def empty_pool_def setId_def Let_def split: sum.splits)

text \<open>
  C31: interning. After any list of texts has been interned, comparing two of the ids is comparing
  the texts, whatever was in the table before, as long as there are ids left.
\<close>
theorem interned_ids_compare:
  assumes "table_wf t" "length ss \<le> table_capacity t" "intern_all intern_value ss t = (is, t')"
    and "a < length ss" "b < length ss"
  shows "is ! a = is ! b \<longleftrightarrow> ss ! a = ss ! b"
  by (rule table.intern_all_eq_iff [OF assms])

lemma interned_ids_compare_witness:
  "fst (intern_all intern_value [''x'', ''y'', ''x''] empty_table) ! 0 =
   fst (intern_all intern_value [''x'', ''y'', ''x''] empty_table) ! 2"
proof -
  obtain ks t' where r: "intern_all intern_value [''x'', ''y'', ''x''] empty_table = (ks, t')"
    by fastforce
  from interned_ids_compare [OF empty_table_wf(1) _ r, of 0 2] empty_table_wf(2) r show ?thesis
    by simp
qed

text \<open>
  The constructor's table and the enumeration \<open>StringId\<close> agree: looking up the text written
  beside an enumerator gives that enumerator's number, and a fresh table is well-formed.
\<close>
theorem predefined_ids:
  assumes "i < PredefinedStringIds"
  shows "table_wf new_table \<and> table_find new_table (fst (predefined_table ! i)) = i \<and>
    StringId (snd (predefined_table ! i)) = i"
proof -
  have "StringId (snd (predefined_table ! i)) = i"
  proof -
    have len: "length predefined_table = PredefinedStringIds"
      using table_follows_enum by (metis PredefinedStringIds_def length_map)
    have "List.map StringId (List.map snd predefined_table) = [0..<PredefinedStringIds]"
      unfolding table_follows_enum StringId_def PredefinedStringIds_def
      by (rule map_index_of [OF distinct_enumerators])
    then have "List.map StringId (List.map snd predefined_table) ! i = i"
      using assms by simp
    then show ?thesis using assms len by simp
  qed
  then show ?thesis
    using new_table_wf new_table_find [OF assms] by simp
qed

lemma predefined_ids_witness: "table_find new_table (fst (predefined_table ! 3)) = 3"
  using predefined_ids [of 3] by (simp add: PredefinedStringIds_value)

section \<open>Saved states\<close>

text \<open>
  C32: variable-length integers. Wherever the bytes of an integer of at most 64 bits stand in a
  buffer, \<open>readRawInteger\<close> returns that integer and the position after its bytes, for signed and
  unsigned types alike.
\<close>
theorem raw_integer_round_trip:
  fixes v :: "'a::len word"
  assumes "LENGTH('a) \<le> 64" "length (pre @ outRawInteger is_signed v @ post) < 2 ^ 64"
  shows "readRawInteger (pre @ outRawInteger is_signed v @ post) (length pre) =
    Inr (v, length pre + length (outRawInteger is_signed v)) \<and> length (outRawInteger is_signed v) \<le> 10"
  using decodesD [OF decodes_raw [OF assms(1)] assms(2), of "length pre" is_signed v post]
    length_outRawInteger [of is_signed v] by simp

lemma raw_integer_round_trip_witness:
  "readRawInteger ([7] @ outRawInteger True (- 300 :: 32 word) @ []) 1 =
     Inr (- 300 :: 32 word, 1 + length (outRawInteger True (- 300 :: 32 word)))"
proof -
  have "length ([7 :: byte] @ outRawInteger True (- 300 :: 32 word) @ []) < 2 ^ 64"
    using length_outRawInteger [of True "- 300 :: 32 word"] by simp
  then show ?thesis
    using raw_integer_round_trip [of "[7]" True "- 300 :: 32 word" "[]"] by simp
qed

text \<open>
  C33: the container. \<open>parse\<close> of what \<open>getBytes\<close> wrote, in any order of the chunks, gives every
  chunk back under its name and selects the unnamed one; the build with type tags and the one
  without agree.
\<close>
theorem archive_round_trip:
  assumes "archive_ok debug chunks" "length (getBytes debug ver chunks) < 2 ^ 64"
    and "map_of chunks [] = Some bytes"
  shows "parse_archive debug ver (getBytes debug ver chunks) =
    Inr \<lparr>r_chunks = chunks, r_buffer = bytes, r_offset = 0\<rparr>"
  using parse_getBytes [OF assms(1,2)] assms(3) by (simp add: r_select_def)

lemma archive_round_trip_witness:
  "parse_archive False 1 (getBytes False 1 [([], [5, 6]), (''a'', [])]) =
     Inr \<lparr>r_chunks = [([], [5, 6]), (''a'', [])], r_buffer = [5, 6], r_offset = 0\<rparr>"
proof -
  have "length (outRawInteger b (v :: 64 word)) \<le> 10" "length (outRawInteger b (w :: 32 word)) \<le> 10" for b v w
    by (simp_all add: length_outRawInteger)
  note len = this
  have "length (getBytes False 1 [([], [5, 6]), (''a'', [])]) \<le> 100"
    using len(1) [of False "word_of_nat 0"] len(1) [of False "word_of_nat 1"] len(1) [of False "word_of_nat 2"]
      len(2) [of False 1]
    by (simp add: getBytes_def out_chunk_def out_string_def out_integer_def saveTypeTag_def)
  then show ?thesis
    using archive_round_trip [of False "[([], [5, 6]), (''a'', [])]" 1 "[5, 6]"]
    by (simp add: archive_ok_def)
qed

text \<open>
  C34: pointers. When the reader registers the objects it allocates in the order in which the
  writer registered its own, every pointer that the writer stored is read as the pointer to the
  copy of the object it pointed to, in both builds.
\<close>
theorem pointer_round_trip:
  assumes "distinct (List.map fst ps)" "length qs = length ps" "length ps < 2 ^ 64 - 1"
    and "i < length ps"
  shows "\<exists>bs. out_pointer debug (register_all ps) (Some (fst (ps ! i))) (snd (ps ! i)) = Inr bs \<and>
    decodes (read_pointer debug (restore_all (zip qs (List.map snd ps))) (snd (ps ! i))) bs
      (Some (qs ! i))"
  by (rule decodes_pointer [OF assms])

lemma pointer_round_trip_witness:
  "\<exists>bs. out_pointer True (register_all [(7, 1), (9, 2)]) (Some 9) 2 = Inr bs \<and>
    decodes (read_pointer True (restore_all (zip [True, False] [1, 2])) 2) bs (Some False)"
  using pointer_round_trip [of "[(7, 1), (9, 2)]" "[True, False]" 1 True] by simp

text \<open>
  C35: \<open>StringTable::restore\<close> is the inverse of \<open>save\<close> on every table that the constructor and
  interning can make, although only the texts beyond the predefined ones are written.
\<close>
theorem table_round_trip:
  assumes "table_grown t"
  shows "decodes (restore_table debug new_table) (save_table debug t) t"
  by (rule decodes_table [OF assms])

lemma table_round_trip_witness:
  "decodes (restore_table True new_table) (save_table True new_table) new_table"
  using table_round_trip [OF new_table_grown] .

text \<open>And interning keeps a table among them.\<close>
theorem interning_keeps_saved_form:
  assumes "table_grown t" "0 < table_capacity t" "length s < 2 ^ 64"
  shows "table_grown (snd (intern_value s t)) \<and>
    table_lookup (snd (intern_value s t)) (fst (intern_value s t)) = Some s"
  using intern_value_grown [OF assms] assms table.intern_lookup [of t s]
  by (simp add: table_grown_def)

lemma interning_keeps_saved_form_witness: "table_grown (snd (intern_value ''x'' new_table))"
  using interning_keeps_saved_form [OF new_table_grown, of "''x''"]
  by (simp add: table_capacity_def length_new_table PredefinedStringIds_value)

section \<open>Values read without locks\<close>

text \<open>
  C36: \<open>AsyncRead\<close> from the state that one complete write leaves: however readers and the writer
  are interleaved, no reader reads the copy the writer is changing, the copy a reader was given
  does not change until the reader leaves, and the writer can always finish.
\<close>
theorem async_read_safe:
  assumes "asteps (primed v) a"
  shows "\<not> race a r \<and> can_finish a \<and>
    (astep a b \<and> readers a r = RReading s \<longrightarrow> a_values b ! s = a_values a ! s)"
proof -
  have inv: "async_inv a"
    by (rule async_inv_steps [OF assms primed_inv])
  then have "can_finish a"
    by (intro write_can_finish) (simp add: async_inv_def)
  with inv_race_free [OF inv, of r] inv_stable_read [OF inv, of b r s] show ?thesis
    by blast
qed

lemma async_read_safe_witness:
  "\<not> race (read_load 0 (read_enter 0 (primed True))) 0"
proof -
  have "astep (primed True) (read_enter 0 (primed True))"
    by (rule astep.enter) (simp add: primed_def new_async_def)
  moreover have "astep (read_enter 0 (primed True)) (read_load 0 (read_enter 0 (primed True)))"
    by (rule astep.load) (simp add: read_enter_def)
  ultimately have "asteps (primed True) (read_load 0 (read_enter 0 (primed True)))"
    by simp
  from async_read_safe [OF this] show ?thesis by blast
qed

text \<open>
  A write that nobody else is using takes the constructor's state to that state, with the
  change applied to both copies.
\<close>
theorem async_first_write:
  "asteps (new_async v) ((primed (f v))\<lparr>a_values := [f v, f v]\<rparr>)"
  using whole_write [of "new_async v" f] by (simp add: new_async_def primed_def)

text \<open>
  C37: but the very first write races with a reader, because \<open>valueForRead\<close> starts at the copy
  that the writer changes first.
\<close>
theorem async_first_write_races: "\<exists>a. asteps (new_async v) a \<and> race a 0"
proof -
  let ?a1 = "read_enter 0 (new_async v)"
  let ?a2 = "read_load 0 ?a1"
  let ?a3 = "?a2\<lparr>a_writer := WFirst id\<rparr>"
  have "astep (new_async v) ?a1"
    by (rule astep.enter) (simp add: new_async_def)
  moreover have "astep ?a1 ?a2"
    by (rule astep.load) (simp add: read_enter_def)
  moreover have "astep ?a2 ?a3"
    by (rule astep.begin_write) (simp add: read_enter_def read_load_def new_async_def)
  ultimately have "asteps (new_async v) ?a3"
    by (meson converse_rtranclp_into_rtranclp rtranclp.rtrancl_refl)
  moreover have "race ?a3 0"
    by (simp add: race_def writing_def read_enter_def read_load_def new_async_def)
  ultimately show ?thesis by blast
qed

section \<open>Timers\<close>



text \<open>
  C39: \<open>EmulatedTimer::increment\<close> returns, and invokes exactly the handlers whose time has come, in
  the order of their times; the later handlers stay.
\<close>
theorem emulated_timer_increment:
  assumes "em_inv e" "em_time e + step < time_max"
  shows "\<exists>e'. em_increment step e = Some (Inr
      (concat (List.map snd (takeWhile (\<lambda>x. fst x \<le> em_time e + step) (t_map (em_timer e)))), e')) \<and>
    em_inv e' \<and> em_time e' = em_time e + step \<and>
    t_map (em_timer e') = filter (\<lambda>x. em_time e + step < fst x) (t_map (em_timer e))"
  by (rule em_increment_result [OF assms])

lemma new_emulated_inv: "em_inv \<lparr>em_timer = new_timer, em_time = 0\<rparr>"
  using new_timer_inv by (simp add: em_inv_def new_timer_def)

lemma emulated_timer_increment_witness:
  "\<exists>e'. em_increment 7 \<lparr>em_timer = new_timer :: bool timer, em_time = 0\<rparr> = Some (Inr ([], e')) \<and> em_time e' = 7"
proof -
  let ?e = "\<lparr>em_timer = new_timer :: bool timer, em_time = 0\<rparr>"
  have late: "em_time ?e + 7 < time_max" and none: "t_map (em_timer ?e) = []" and sum: "em_time ?e + 7 = 7"
    by (simp_all add: time_max_def new_timer_def)
  from emulated_timer_increment [OF new_emulated_inv late] obtain e' where
    "em_increment 7 ?e = Some (Inr ([], e'))" "em_time e' = 7"
    unfolding none sum takeWhile.simps list.map concat.simps by blast
  then show ?thesis by blast
qed

text \<open>
  A handler submitted to the emulated timer is invoked at once when its time is not in the
  future, and no other handler is; otherwise it waits.
\<close>
theorem emulated_timer_at:
  assumes "em_inv e" "em_time e < time_max"
  shows "\<exists>i e'. em_at tm h e = Some (Inr (i, if tm \<le> em_time e then [(i, h)] else [], e')) \<and>
    i = fresh_id (em_timer e) \<and> em_inv e' \<and> em_time e' = em_time e"
  by (rule em_at_result [OF assms])

lemma emulated_timer_at_witness:
  "\<exists>i e'. em_at 0 True \<lparr>em_timer = new_timer, em_time = 0\<rparr> = Some (Inr (i, [(i, True)], e'))"
proof -
  have "em_time \<lparr>em_timer = new_timer :: bool timer, em_time = 0\<rparr> < time_max"
    by (simp add: time_max_def)
  from emulated_timer_at [OF new_emulated_inv this, of 0 True] show ?thesis
    by auto
qed



end
